(* ===== verification/Prelude.thy ===== *)
theory Prelude
  imports Main "HOL-Library.Word"
begin

text \<open>
  Shared vocabulary of the development: the machine types of a 32-bit build, the ways a run of
  the C++ code can end abnormally, the state-and-fault computations every stateful component is
  written in, and the small lemmas on words, lists and computations the components share.
\<close>

unbundle bit_operations_syntax

section \<open>Machine types\<close>

type_synonym u8 = "8 word"
type_synonym u16 = "16 word"
type_synonym u32 = "32 word"

text \<open>The README: LLST is a 32-bit program, so a pointer and \<open>std::size_t\<close> are 32 bits wide.\<close>

type_synonym ptr = u32

abbreviation NULL :: ptr where "NULL \<equiv> 0"

section \<open>Faults and computations\<close>

text \<open>
  A C++ call that does not return normally ends in one of these.  \<open>BadAccess\<close> is a read or a
  write outside a live object or through a dangling or null pointer, and every other undefined
  behaviour of the language (a shift by too many bits, the overflowing quotient).
  \<open>Diverges\<close> is the value of a loop that never ends.
\<close>

datatype fault =
    BadAccess
  | BadCast            \<comment> \<open>\<open>throw std::bad_cast()\<close>\<close>
  | Exit1              \<comment> \<open>\<open>std::exit(1)\<close>\<close>
  | Aborted            \<comment> \<open>\<open>std::abort()\<close>\<close>
  | AssertFailed       \<comment> \<open>\<open>assert\<close>\<close>
  | RuntimeError       \<comment> \<open>\<open>throw std::runtime_error\<close>\<close>
  | IosFailure         \<comment> \<open>\<open>std::ios_base::failure\<close>, a read past the end of the stream\<close>
  | Diverges
  | OutOfFuel          \<comment> \<open>the bound on the modelled run is used up; no behaviour of the code\<close>

type_synonym 'a res = "fault + 'a"

text \<open>A computation over a state \<open>'s\<close>: it either faults or returns a value and the new state.\<close>

type_synonym ('s, 'a) comp = "'s \<Rightarrow> fault + 'a \<times> 's"

named_theorems comp_simps \<open>equations of the computation combinators\<close>

definition ret :: "'a \<Rightarrow> ('s, 'a) comp" where
  [comp_simps]: "ret x s = Inr (x, s)"

definition raise :: "fault \<Rightarrow> ('s, 'a) comp" where
  [comp_simps]: "raise e s = Inl e"

definition bnd :: "('s, 'a) comp \<Rightarrow> ('a \<Rightarrow> ('s, 'b) comp) \<Rightarrow> ('s, 'b) comp" where
  [comp_simps]: "bnd m f s = (case m s of Inl e \<Rightarrow> Inl e | Inr (x, t) \<Rightarrow> f x t)"

definition gets :: "('s \<Rightarrow> 'a) \<Rightarrow> ('s, 'a) comp" where
  [comp_simps]: "gets f s = Inr (f s, s)"

definition modify :: "('s \<Rightarrow> 's) \<Rightarrow> ('s, unit) comp" where
  [comp_simps]: "modify f s = Inr ((), f s)"

definition guard :: "fault \<Rightarrow> bool \<Rightarrow> ('s, unit) comp" where
  [comp_simps]: "guard e b s = (if b then Inr ((), s) else Inl e)"

definition lift_res :: "'a res \<Rightarrow> ('s, 'a) comp" where
  [comp_simps]: "lift_res r s = (case r of Inl e \<Rightarrow> Inl e | Inr x \<Rightarrow> Inr (x, s))"

definition bndR :: "'a res \<Rightarrow> ('a \<Rightarrow> 'b res) \<Rightarrow> 'b res" where
  [comp_simps]: "bndR r f = (case r of Inl e \<Rightarrow> Inl e | Inr x \<Rightarrow> f x)"

lemma bnd_ret [simp]: "bnd (ret x) f = f x"
  by (rule ext) (simp add: comp_simps)

lemma bnd_assoc: "bnd (bnd m f) g = bnd m (\<lambda>x. bnd (f x) g)"
  by (rule ext) (simp add: comp_simps split: sum.split)

lemma bnd_InrE:
  assumes "bnd m f s = Inr (y, u)"
  obtains x t where "m s = Inr (x, t)" and "f x t = Inr (y, u)"
  using assms by (auto simp: comp_simps split: sum.splits)

lemma bndR_InrE:
  assumes "bndR m f = Inr y"
  obtains x where "m = Inr x" and "f x = Inr y"
  using assms by (auto simp: comp_simps split: sum.splits)

section \<open>Lists read and written by index\<close>

text \<open>An indexed access is a fault out of range, as reading past the object is in C++.\<close>

definition nth_res :: "'a list \<Rightarrow> nat \<Rightarrow> 'a res" where
  "nth_res xs i = (if i < length xs then Inr (xs ! i) else Inl BadAccess)"

definition upd_res :: "'a list \<Rightarrow> nat \<Rightarrow> 'a \<Rightarrow> 'a list res" where
  "upd_res xs i v = (if i < length xs then Inr (xs[i := v]) else Inl BadAccess)"

lemma nth_res_Inr [simp]: "nth_res xs i = Inr v \<longleftrightarrow> i < length xs \<and> xs ! i = v"
  by (auto simp: nth_res_def)

lemma nth_res_in [simp]: "i < length xs \<Longrightarrow> nth_res xs i = Inr (xs ! i)"
  by simp

lemma nth_res_out [simp]: "\<not> i < length xs \<Longrightarrow> nth_res xs i = Inl BadAccess"
  by (simp add: nth_res_def)

lemma upd_res_Inr [simp]: "upd_res xs i v = Inr ys \<longleftrightarrow> i < length xs \<and> ys = xs[i := v]"
  by (auto simp: upd_res_def)

lemma upd_res_in [simp]: "i < length xs \<Longrightarrow> upd_res xs i v = Inr (xs[i := v])"
  by simp

lemma upd_res_out [simp]: "\<not> i < length xs \<Longrightarrow> upd_res xs i v = Inl BadAccess"
  by (simp add: upd_res_def)

section \<open>Words\<close>

lemma word_less_bit: 
  fixes x :: "'a::len word"
  assumes "unat x < 2 ^ k" and "bit x n"
  shows "n < k"
proof -
  have "bit (unat x) n" using assms(2) by (simp add: bit_unsigned_iff bit_imp_le_length)
  then have "bit (take_bit k (unat x)) n" using assms(1) by (simp add: take_bit_nat_eq_self)
  then show ?thesis by (simp add: bit_take_bit_iff)
qed

lemma unat_ucast_byte: "unat (ucast (x :: u8) :: u32) = unat x"
proof -
  have "unat x < 2 ^ 8" using unsigned_less[of x] by simp
  then have "unat x < 2 ^ 32" by simp
  then show ?thesis unfolding unsigned_ucast_eq by (simp add: take_bit_nat_eq_self)
qed

end
