(* ===== verification/ObjectTypes.thy ===== *)
theory ObjectTypes
  imports Prelude
begin

text \<open>
  The object layout of \<^verbatim>\<open>include/types.h\<close>: small integers tagged in the lowest pointer bit
  (\<open>TInteger\<close>), the packed size word (\<open>TSize\<close>), and \<open>TObject\<close> with its \<open>TByteObject\<close> and
  \<open>TArray\<close> views.  A \<open>TObject*\<close> is its 32-bit machine word.
\<close>

section \<open>Padding\<close>

text \<open>\<open>sizeof(void*)\<close> is 4 in the 32-bit build.\<close>

definition correctPadding :: "u32 \<Rightarrow> u32" where
  "correctPadding sz = (sz + 4 - 1) AND NOT (4 - 1)"

section \<open>Small integers\<close>

definition isSmallInteger :: "ptr \<Rightarrow> bool" where
  "isSmallInteger value \<longleftrightarrow> value AND 1 \<noteq> 0"

text \<open>An \<open>int32_t\<close> is a \<open>u32\<close> read by \<open>sint\<close>; \<open>>>\<close> on it is the arithmetic shift.\<close>

definition getIntegerValue :: "ptr \<Rightarrow> u32" where
  "getIntegerValue value = signed_drop_bit 1 value"

definition newInteger :: "u32 \<Rightarrow> ptr" where
  "newInteger value = push_bit 1 value OR 1"

text \<open>The two constructors of \<open>TInteger\<close>; a \<open>TInteger\<close> is its raw word \<open>m_value\<close>.\<close>

definition TInteger_of_int :: "u32 \<Rightarrow> ptr" where
  "TInteger_of_int value = newInteger value"

definition TInteger_of_object :: "ptr \<Rightarrow> ptr res" where
  "TInteger_of_object value = (if isSmallInteger value then Inr value else Inl BadCast)"

definition TInteger_getValue :: "ptr \<Rightarrow> u32" where
  "TInteger_getValue m_value = getIntegerValue m_value"

text \<open>\<open>int32_t x = TInteger(object)\<close>: the checked conversion used all over the VM.\<close>

definition integerOf :: "ptr \<Rightarrow> u32 res" where
  "integerOf value = bndR (TInteger_of_object value) (\<lambda>i. Inr (TInteger_getValue i))"

section \<open>The packed size word\<close>

type_synonym TSize = u32

definition FLAG_RELOCATED :: u32 where "FLAG_RELOCATED = 1"
definition FLAG_BINARY :: u32 where "FLAG_BINARY = 2"

definition TSize_new :: "u32 \<Rightarrow> bool \<Rightarrow> bool \<Rightarrow> TSize" where
  "TSize_new sz binary relocated =
     (let data = push_bit 2 sz;
          data = data OR (if binary then FLAG_BINARY else 0)
      in data OR (if relocated then FLAG_RELOCATED else 0))"

definition TSize_getSize :: "TSize \<Rightarrow> u32" where
  "TSize_getSize data = drop_bit 2 data"

definition TSize_setSize :: "u32 \<Rightarrow> TSize \<Rightarrow> TSize" where
  "TSize_setSize sz data = (data AND 3) OR push_bit 2 sz"

definition TSize_isBinary :: "TSize \<Rightarrow> bool" where
  "TSize_isBinary data \<longleftrightarrow> data AND FLAG_BINARY \<noteq> 0"

definition TSize_isRelocated :: "TSize \<Rightarrow> bool" where
  "TSize_isRelocated data \<longleftrightarrow> data AND FLAG_RELOCATED \<noteq> 0"

definition TSize_setBinary :: "TSize \<Rightarrow> TSize" where
  "TSize_setBinary data = data OR FLAG_BINARY"

definition TSize_setRelocated :: "TSize \<Rightarrow> TSize" where
  "TSize_setRelocated data = data OR FLAG_RELOCATED"

section \<open>Objects\<close>

text \<open>
  One object in memory: the size word, the class pointer and the tail, which is pointers for an
  ordinary object and raw bytes for a binary one.  The collector overwrites the size word of an
  object it is moving, so the tail keeps its own length.
\<close>

record tobject =
  obj_size :: TSize
  obj_class :: ptr
  obj_fields :: "ptr list"
  obj_bytes :: "u8 list"

text \<open>Object memory: the live objects by address.  Addresses of objects are disjoint blocks.\<close>

type_synonym objmem = "ptr \<rightharpoonup> tobject"

text \<open>
  The placement-new constructors.  The tail is what the memory held before, and every memory
  manager hands out zeroed memory (\<open>memset(heap, 0, size)\<close>).
\<close>

definition TObject_new :: "u32 \<Rightarrow> ptr \<Rightarrow> tobject" where
  "TObject_new fieldsCount klass =
     \<lparr>obj_size = TSize_new fieldsCount False False, obj_class = klass,
      obj_fields = replicate (unat fieldsCount) NULL, obj_bytes = []\<rparr>"

definition TByteObject_new :: "u32 \<Rightarrow> ptr \<Rightarrow> tobject" where
  "TByteObject_new dataSize klass =
     \<lparr>obj_size = TSize_new dataSize True False, obj_class = klass,
      obj_fields = [], obj_bytes = replicate (unat dataSize) 0\<rparr>"

definition objectAt :: "objmem \<Rightarrow> ptr \<Rightarrow> tobject res" where
  "objectAt m p = (case m p of None \<Rightarrow> Inl BadAccess | Some obj \<Rightarrow> Inr obj)"

definition getSize :: "objmem \<Rightarrow> ptr \<Rightarrow> u32 res" where
  "getSize m p = bndR (objectAt m p) (\<lambda>obj. Inr (TSize_getSize (obj_size obj)))"

definition getClass :: "objmem \<Rightarrow> ptr \<Rightarrow> ptr res" where
  "getClass m p = bndR (objectAt m p) (\<lambda>obj. Inr (obj_class obj))"

definition setClass :: "objmem \<Rightarrow> ptr \<Rightarrow> ptr \<Rightarrow> objmem res" where
  "setClass m p aClass = bndR (objectAt m p) (\<lambda>obj. Inr (m(p \<mapsto> obj\<lparr>obj_class := aClass\<rparr>)))"

definition isBinary :: "objmem \<Rightarrow> ptr \<Rightarrow> bool res" where
  "isBinary m p = bndR (objectAt m p) (\<lambda>obj. Inr (TSize_isBinary (obj_size obj)))"

definition isRelocated :: "objmem \<Rightarrow> ptr \<Rightarrow> bool res" where
  "isRelocated m p = bndR (objectAt m p) (\<lambda>obj. Inr (TSize_isRelocated (obj_size obj)))"

text \<open>
  \<open>fields\<close> and \<open>bytes\<close> are a union, so a pointer can be read from a byte tail and a byte from
  a pointer tail (little endian); an access past the tail is a fault.
\<close>

definition word_to_bytes :: "u32 \<Rightarrow> u8 list" where
  "word_to_bytes w = map (\<lambda>i. ucast (drop_bit (8 * i) w)) [0, 1, 2, 3]"

definition bytes_to_word :: "u8 list \<Rightarrow> u32" where
  "bytes_to_word bs = foldr (\<lambda>b w. push_bit 8 w OR ucast b) bs 0"

definition TObject_getField :: "tobject \<Rightarrow> nat \<Rightarrow> ptr res" where
  "TObject_getField obj index =
     (if TSize_isBinary (obj_size obj)
      then if 4 * index + 4 \<le> length (obj_bytes obj)
           then Inr (bytes_to_word (take 4 (drop (4 * index) (obj_bytes obj))))
           else Inl BadAccess
      else nth_res (obj_fields obj) index)"

definition TObject_putField :: "tobject \<Rightarrow> nat \<Rightarrow> ptr \<Rightarrow> tobject res" where
  "TObject_putField obj index v =
     (if TSize_isBinary (obj_size obj)
      then if 4 * index + 4 \<le> length (obj_bytes obj)
           then Inr (obj\<lparr>obj_bytes := take (4 * index) (obj_bytes obj) @ word_to_bytes v
                                     @ drop (4 * index + 4) (obj_bytes obj)\<rparr>)
           else Inl BadAccess
      else bndR (upd_res (obj_fields obj) index v) (\<lambda>fs. Inr (obj\<lparr>obj_fields := fs\<rparr>)))"

definition TByteObject_getByte :: "tobject \<Rightarrow> nat \<Rightarrow> u8 res" where
  "TByteObject_getByte obj index =
     (if TSize_isBinary (obj_size obj) then nth_res (obj_bytes obj) index
      else bndR (nth_res (obj_fields obj) (index div 4))
             (\<lambda>w. nth_res (word_to_bytes w) (index mod 4)))"

definition TByteObject_putByte :: "tobject \<Rightarrow> nat \<Rightarrow> u8 \<Rightarrow> tobject res" where
  "TByteObject_putByte obj index v =
     (if TSize_isBinary (obj_size obj)
      then bndR (upd_res (obj_bytes obj) index v) (\<lambda>bs. Inr (obj\<lparr>obj_bytes := bs\<rparr>))
      else bndR (nth_res (obj_fields obj) (index div 4))
             (\<lambda>w. Inr (obj\<lparr>obj_fields := (obj_fields obj)
                [index div 4 := bytes_to_word ((word_to_bytes w)[index mod 4 := v])]\<rparr>)))"

definition getField :: "objmem \<Rightarrow> ptr \<Rightarrow> nat \<Rightarrow> ptr res" where
  "getField m p index = bndR (objectAt m p) (\<lambda>obj. TObject_getField obj index)"

definition putField :: "objmem \<Rightarrow> ptr \<Rightarrow> nat \<Rightarrow> ptr \<Rightarrow> objmem res" where
  "putField m p index v = bndR (objectAt m p)
     (\<lambda>obj. bndR (TObject_putField obj index v) (\<lambda>obj'. Inr (m(p \<mapsto> obj'))))"

definition getByte :: "objmem \<Rightarrow> ptr \<Rightarrow> nat \<Rightarrow> u8 res" where
  "getByte m p index = bndR (objectAt m p) (\<lambda>obj. TByteObject_getByte obj index)"

definition putByte :: "objmem \<Rightarrow> ptr \<Rightarrow> nat \<Rightarrow> u8 \<Rightarrow> objmem res" where
  "putByte m p index v = bndR (objectAt m p)
     (\<lambda>obj. bndR (TByteObject_putByte obj index v) (\<lambda>obj'. Inr (m(p \<mapsto> obj'))))"

section \<open>The typed views\<close>

text \<open>
  The subclasses of \<open>TObject\<close> name the fields of the tail.  A member is the position of its
  field; \<open>TBlock\<close> extends \<open>TContext\<close>, so its members follow.
\<close>

datatype TContext_member =
    ctx_method | ctx_arguments | ctx_temporaries | ctx_stack
  | ctx_bytePointer | ctx_stackTop | ctx_previousContext

datatype TBlock_member = blk_argumentLocation | blk_creatingContext | blk_blockBytePointer

datatype TMethod_member =
    mth_name | mth_byteCodes | mth_literals | mth_stackSize | mth_temporarySize
  | mth_klass | mth_text | mth_package

datatype TDictionary_member = dict_keys | dict_values

datatype TClass_member =
    cls_name | cls_parentClass | cls_methods | cls_instanceSize | cls_variables | cls_package

datatype TProcess_member = proc_context | proc_state | proc_result

primrec TContext_offset :: "TContext_member \<Rightarrow> nat" where
  "TContext_offset ctx_method = 0"
| "TContext_offset ctx_arguments = 1"
| "TContext_offset ctx_temporaries = 2"
| "TContext_offset ctx_stack = 3"
| "TContext_offset ctx_bytePointer = 4"
| "TContext_offset ctx_stackTop = 5"
| "TContext_offset ctx_previousContext = 6"

primrec TBlock_offset :: "TBlock_member \<Rightarrow> nat" where
  "TBlock_offset blk_argumentLocation = 7"
| "TBlock_offset blk_creatingContext = 8"
| "TBlock_offset blk_blockBytePointer = 9"

primrec TMethod_offset :: "TMethod_member \<Rightarrow> nat" where
  "TMethod_offset mth_name = 0"
| "TMethod_offset mth_byteCodes = 1"
| "TMethod_offset mth_literals = 2"
| "TMethod_offset mth_stackSize = 3"
| "TMethod_offset mth_temporarySize = 4"
| "TMethod_offset mth_klass = 5"
| "TMethod_offset mth_text = 6"
| "TMethod_offset mth_package = 7"

primrec TDictionary_offset :: "TDictionary_member \<Rightarrow> nat" where
  "TDictionary_offset dict_keys = 0"
| "TDictionary_offset dict_values = 1"

primrec TClass_offset :: "TClass_member \<Rightarrow> nat" where
  "TClass_offset cls_name = 0"
| "TClass_offset cls_parentClass = 1"
| "TClass_offset cls_methods = 2"
| "TClass_offset cls_instanceSize = 3"
| "TClass_offset cls_variables = 4"
| "TClass_offset cls_package = 5"

primrec TProcess_offset :: "TProcess_member \<Rightarrow> nat" where
  "TProcess_offset proc_context = 0"
| "TProcess_offset proc_state = 1"
| "TProcess_offset proc_result = 2"

text \<open>\<open>sizeof\<close> of the classes that are instantiated by the VM: two header words and the fields.\<close>

definition sizeof_TObject :: u32 where "sizeof_TObject = 8"
definition sizeof_TContext :: u32 where "sizeof_TContext = 8 + 4 * 7"
definition sizeof_TBlock :: u32 where "sizeof_TBlock = 8 + 4 * 10"
definition sizeof_TProcess :: u32 where "sizeof_TProcess = 8 + 4 * 3"

section \<open>Lemmas\<close>

text \<open>Small integers, bit by bit.\<close>

lemma bit_newInteger: "bit (newInteger v) n \<longleftrightarrow> n < 32 \<and> (n = 0 \<or> bit v (n - 1))"
  unfolding newInteger_def bit_or_iff bit_push_bit_iff
  by (auto simp: bit_1_iff  dest: bit_imp_le_length)

lemma sint_u32: "sint (v::u32) = (if bit v 31 then uint v - 2^32 else uint v)"
  using bit_uint_iff[of v 31]
  by (auto simp: sint_uint signed_take_bit_eq_take_bit_minus take_bit_int_eq_self uint_lt2p[of v, simplified])

lemma sign_bits_iff_31bit: "(bit (v::u32) 31 \<longleftrightarrow> bit v 30) \<longleftrightarrow> -(2^30) \<le> sint v \<and> sint v < 2^30"
proof -
  define q r where "q = uint v div 1073741824" and "r = uint v mod 1073741824"
  have u: "0 \<le> uint v" "uint v < 4294967296" using uint_lt2p[of v] by simp_all
  have x: "uint v = q * 1073741824 + r" "0 \<le> r" "r < 1073741824" unfolding q_def r_def by simp_all
  have "0 \<le> q" unfolding q_def using u by (simp add: pos_imp_zdiv_nonneg_iff)
  moreover have "q < 4" using u x by linarith
  ultimately have q: "q = 0 \<or> q = 1 \<or> q = 2 \<or> q = 3" by linarith
  moreover have "uint v div 2147483648 = q div 2" unfolding q_def by (simp flip: zdiv_zmult2_eq)
  ultimately have b: "bit v 31 \<longleftrightarrow> 2 \<le> q" "bit v 30 \<longleftrightarrow> q = 1 \<or> q = 3"
    using bit_uint_iff[of v 31] bit_uint_iff[of v 30] by (auto simp: bit_iff_odd q_def[symmetric])
  show ?thesis using x(2,3) q by (elim disjE) (simp_all add: sint_u32 b x(1))
qed

lemma bit_getIntegerValue: "bit (getIntegerValue v) n \<longleftrightarrow> (if n < 31 then bit v (Suc n) else n = 31 \<and> bit v 31)"
  by (auto simp: getIntegerValue_def bit_signed_drop_bit_iff dest: bit_imp_le_length)

lemma isSmallInteger_bit0: "isSmallInteger v \<longleftrightarrow> bit v 0"
  by (simp add: isSmallInteger_def and_one_eq odd_iff_mod_2_eq_one bit_0)

lemma isSmallInteger_newInteger [simp]: "isSmallInteger (newInteger v)"
  by (simp add: isSmallInteger_bit0 bit_newInteger del: bit_0)

lemma newInteger_getIntegerValue: "isSmallInteger v \<Longrightarrow> newInteger (getIntegerValue v) = v"
proof (rule bit_word_eqI)
  fix n assume "isSmallInteger v" "n < LENGTH(32)"
  then show "bit (newInteger (getIntegerValue v)) n = bit v n"
    by (cases n) (auto simp: bit_newInteger bit_getIntegerValue isSmallInteger_bit0 simp del: bit_0)
qed

lemma and_not_mask2_u32: "(x::u32) AND NOT (mask 2) = push_bit 2 (drop_bit 2 x)"
proof (rule bit_word_eqI)
  fix n assume "n < LENGTH(32)"
  then show "bit (x AND NOT (mask 2)) n = bit (push_bit 2 (drop_bit 2 x)) n"
    unfolding bit_and_iff bit_not_iff bit_drop_bit_eq bit_push_bit_iff bit_mask_iff
    by (cases "n < 2") (auto simp: not_less le_iff_add dest: bit_imp_le_length)
qed

lemma unat_and_not_mask2: "unat ((x::u32) AND NOT (mask 2)) = unat x div 4 * 4"
proof -
  have "unat x div 4 * 4 < 2 ^ 32" using unsigned_less[where 'a=nat and w=x] by simp
  then have "unat (push_bit 2 (drop_bit 2 x)) = unat x div 4 * 4"
    by (simp add: unat_word_ariths unat_drop_bit_eq drop_bit_eq_div push_bit_eq_mult)
  then show ?thesis unfolding and_not_mask2_u32 by simp
qed

lemma four_minus_one: "4 - 1 = (mask 2 :: u32)" by (simp add: mask_eq_exp_minus_1)

lemma unat_correctPadding: "unat x + 3 < 2^32 \<Longrightarrow> unat (correctPadding x) = (unat x + 3) div 4 * 4"
  unfolding correctPadding_def unat_and_not_mask2 four_minus_one
  by (simp add: unat_word_ariths mask_eq_exp_minus_1)

text \<open>The size word.\<close>

lemmas TSize_defs = TSize_new_def TSize_getSize_def TSize_setSize_def TSize_isBinary_def
  TSize_isRelocated_def TSize_setBinary_def TSize_setRelocated_def FLAG_BINARY_def FLAG_RELOCATED_def

lemma TSize_isRelocated_bit: "TSize_isRelocated d \<longleftrightarrow> bit d 0"
  by (simp add: TSize_isRelocated_def FLAG_RELOCATED_def and_one_eq odd_iff_mod_2_eq_one bit_0)

lemma TSize_isBinary_bit: "TSize_isBinary d \<longleftrightarrow> bit d 1"
proof -
  have "(2::u32) = push_bit 1 1" by simp
  then show ?thesis
    unfolding TSize_isBinary_def FLAG_BINARY_def by (metis and_exp_eq_0_iff_not_bit push_bit_of_1)
qed

lemmas TSize_bits = TSize_isRelocated_bit TSize_isBinary_bit

lemma bit_numeral_u32: "bit (1::u32) n \<longleftrightarrow> n = 0" "bit (2::u32) n \<longleftrightarrow> n = 1" "bit (3::u32) n \<longleftrightarrow> n < 2"
proof -
  have two: "(2::u32) = push_bit 1 1" and three: "(3::u32) = mask 2"
    by (simp_all add: mask_eq_exp_minus_1)
  show "bit (1::u32) n \<longleftrightarrow> n = 0" by (simp add: bit_1_iff)
  show "bit (2::u32) n \<longleftrightarrow> n = 1" unfolding two by (auto simp only: bit_push_bit_iff bit_1_iff) auto
  show "bit (3::u32) n \<longleftrightarrow> n < 2" unfolding three by (auto simp only: bit_mask_iff) auto
qed

lemma TSize_getSize_setSize_mask: "TSize_getSize (TSize_setSize s d) = s AND mask 30"
  unfolding TSize_getSize_def TSize_setSize_def
  by (rule bit_eqI) (auto simp: bit_and_iff bit_or_iff bit_drop_bit_eq bit_push_bit_iff bit_mask_iff)


lemma TSize_getSize_new_mask: "TSize_getSize (TSize_new s b r) = s AND mask 30"
  by (rule bit_word_eqI)
    (auto simp: TSize_getSize_def TSize_new_def Let_def FLAG_BINARY_def FLAG_RELOCATED_def
      bit_and_iff bit_or_iff bit_drop_bit_eq bit_push_bit_iff bit_mask_iff bit_numeral_u32)

lemma u32_and_mask30: "unat (s::u32) < 2 ^ 30 \<Longrightarrow> s AND mask 30 = s"
  by (simp add: word_unat_eq_iff unsigned_take_bit_eq take_bit_nat_eq_self flip: take_bit_eq_mask)

lemma TSize_getSize_new [simp]: "unat s < 2 ^ 30 \<Longrightarrow> TSize_getSize (TSize_new s b r) = s"
  by (simp add: TSize_getSize_new_mask u32_and_mask30)

lemma TSize_getSize_setSize [simp]: "unat s < 2 ^ 30 \<Longrightarrow> TSize_getSize (TSize_setSize s d) = s"
  by (simp add: TSize_getSize_setSize_mask u32_and_mask30)

lemma TSize_flags [simp]:
  "TSize_isBinary (TSize_new s b r) = b"
  "TSize_isRelocated (TSize_new s b r) = r"
  "TSize_isBinary (TSize_setSize s d) = TSize_isBinary d"
  "TSize_isRelocated (TSize_setSize s d) = TSize_isRelocated d"
  "TSize_isBinary (TSize_setRelocated d) = TSize_isBinary d"
  "TSize_isRelocated (TSize_setRelocated d)"
  "TSize_isBinary (TSize_setBinary d)"
  "TSize_isRelocated (TSize_setBinary d) = TSize_isRelocated d"
  unfolding TSize_bits TSize_new_def TSize_setSize_def TSize_setRelocated_def TSize_setBinary_def Let_def
    FLAG_BINARY_def FLAG_RELOCATED_def
  by (auto simp: bit_and_iff bit_or_iff bit_push_bit_iff bit_numeral_u32 simp del: bit_0)

lemma TSize_getSize_setFlags [simp]:
  "TSize_getSize (TSize_setRelocated d) = TSize_getSize d"
  "TSize_getSize (TSize_setBinary d) = TSize_getSize d"
  unfolding TSize_getSize_def TSize_setRelocated_def TSize_setBinary_def FLAG_BINARY_def FLAG_RELOCATED_def
  by (rule bit_word_eqI, auto simp: bit_or_iff bit_drop_bit_eq bit_numeral_u32)+

text \<open>Reading and writing the tail.\<close>

lemma objectAt_Inr [simp]: "objectAt m p = Inr obj \<longleftrightarrow> m p = Some obj"
  by (auto simp: objectAt_def split: option.splits)

lemma objectAt_Some [simp]: "m p = Some obj \<Longrightarrow> objectAt m p = Inr obj"
  by simp

lemma objectAt_None [simp]: "m p = None \<Longrightarrow> objectAt m p = Inl BadAccess"
  by (simp add: objectAt_def)

lemmas mem_defs = getSize_def getClass_def setClass_def isBinary_def isRelocated_def
  getField_def putField_def getByte_def putByte_def

definition ordinary :: "tobject \<Rightarrow> bool" where
  "ordinary obj \<longleftrightarrow> \<not> TSize_isBinary (obj_size obj)"

text \<open>An object whose size word agrees with its tail: what every constructor makes.\<close>

definition obj_wf :: "tobject \<Rightarrow> bool" where
  "obj_wf obj \<longleftrightarrow>
     (if ordinary obj then obj_bytes obj = [] \<and> unat (TSize_getSize (obj_size obj)) = length (obj_fields obj)
      else obj_fields obj = [] \<and> unat (TSize_getSize (obj_size obj)) = length (obj_bytes obj))"

lemma obj_wf_new [simp]:
  "unat n < 2 ^ 30 \<Longrightarrow> obj_wf (TObject_new n c)"
  "unat n < 2 ^ 30 \<Longrightarrow> obj_wf (TByteObject_new n c)"
  by (simp_all add: obj_wf_def ordinary_def TObject_new_def TByteObject_new_def)

text \<open>The bytes an object takes in a heap.\<close>

definition object_bytes :: "tobject \<Rightarrow> nat" where
  "object_bytes obj = (if ordinary obj then 8 + 4 * unat (TSize_getSize (obj_size obj))
     else 8 + unat (correctPadding (TSize_getSize (obj_size obj))))"

lemma object_bytes_pos: "8 \<le> object_bytes obj"
  by (simp add: object_bytes_def)

lemma getField_ordinary:
  "m p = Some obj \<Longrightarrow> ordinary obj \<Longrightarrow> getField m p i = nth_res (obj_fields obj) i"
  by (simp add: getField_def comp_simps TObject_getField_def ordinary_def)

lemma putField_ordinary:
  "m p = Some obj \<Longrightarrow> ordinary obj \<Longrightarrow> i < length (obj_fields obj) \<Longrightarrow>
   putField m p i v = Inr (m(p \<mapsto> obj\<lparr>obj_fields := (obj_fields obj)[i := v]\<rparr>))"
  by (simp add: putField_def comp_simps TObject_putField_def ordinary_def)

lemma ordinary_update [simp]:
  "ordinary (obj\<lparr>obj_fields := fs\<rparr>) = ordinary obj"
  "ordinary (obj\<lparr>obj_class := c\<rparr>) = ordinary obj"
  "ordinary (obj\<lparr>obj_bytes := bs\<rparr>) = ordinary obj"
  by (simp_all add: ordinary_def)

lemma getByte_binary:
  "m p = Some obj \<Longrightarrow> \<not> ordinary obj \<Longrightarrow> getByte m p i = nth_res (obj_bytes obj) i"
  by (simp add: getByte_def comp_simps TByteObject_getByte_def ordinary_def)

lemma putByte_binary:
  "m p = Some obj \<Longrightarrow> \<not> ordinary obj \<Longrightarrow> i < length (obj_bytes obj) \<Longrightarrow>
   putByte m p i v = Inr (m(p \<mapsto> obj\<lparr>obj_bytes := (obj_bytes obj)[i := v]\<rparr>))"
  by (simp add: putByte_def comp_simps TByteObject_putByte_def ordinary_def)

lemma length_word_to_bytes [simp]: "length (word_to_bytes w) = 4"
  by (simp add: word_to_bytes_def)

lemma bytes_to_word_to_bytes [simp]: "bytes_to_word (word_to_bytes w) = w"
proof (rule bit_word_eqI)
  fix n assume "n < LENGTH(32)"
  then have "n < 8 \<or> 8 \<le> n \<and> n < 16 \<or> 16 \<le> n \<and> n < 24 \<or> 24 \<le> n \<and> n < 32" by auto
  then show "bit (bytes_to_word (word_to_bytes w)) n = bit w n"
    unfolding word_to_bytes_def bytes_to_word_def
    by (elim disjE conjE) (auto simp: bit_or_iff bit_push_bit_iff bit_ucast_iff bit_drop_bit_eq)
qed

section \<open>Properties\<close>

text \<open>
  C1. The small-integer tagging: every tagged word is recognised as a small integer, reading it back
  gives the value exactly when the value fits into 31 bits (\<open>TInteger\<close> drops the highest bit
  silently), and a tagged word read and tagged again is the same pointer.
\<close>

theorem small_integer_roundtrip:
  "isSmallInteger (TInteger_of_int v) \<and>
   (TInteger_getValue (TInteger_of_int v) = v \<longleftrightarrow> - (2 ^ 30) \<le> sint v \<and> sint v < 2 ^ 30) \<and>
   (isSmallInteger p \<longrightarrow> TInteger_of_int (TInteger_getValue p) = p \<and> integerOf p = Inr (TInteger_getValue p)) \<and>
   (\<not> isSmallInteger p \<longrightarrow> integerOf p = Inl BadCast)"
proof -
  have "getIntegerValue (newInteger v) = v \<longleftrightarrow> (\<forall>n<32. bit (getIntegerValue (newInteger v)) n = bit v n)"
    by (auto simp: bit_eq_iff)
  also have "\<dots> \<longleftrightarrow> (bit v 31 \<longleftrightarrow> bit v 30)"
    by (auto simp: bit_getIntegerValue bit_newInteger All_less_Suc numeral_eq_Suc)
  finally have "getIntegerValue (newInteger v) = v \<longleftrightarrow> - (2 ^ 30) \<le> sint v \<and> sint v < 2 ^ 30"
    unfolding sign_bits_iff_31bit .
  then show ?thesis
    by (simp add: TInteger_of_int_def TInteger_getValue_def integerOf_def TInteger_of_object_def
      comp_simps newInteger_getIntegerValue isSmallInteger_newInteger)
qed

theorem small_integer_roundtrip_witness:
  "isSmallInteger 85 \<and> TInteger_of_int (TInteger_getValue 85) = 85 \<and> integerOf 84 = Inl BadCast"
  using small_integer_roundtrip [of 42 85] small_integer_roundtrip [of 42 84]
  by (simp add: isSmallInteger_bit0)

text \<open>
  \<open>correctPadding\<close> rounds a size up to the next multiple of the pointer size and changes
  nothing that is already one, for every size that does not wrap around.
\<close>

theorem correctPadding_rounds_up:
  assumes "unat sz + 3 < 2 ^ 32"
  shows "4 dvd unat (correctPadding sz) \<and> unat sz \<le> unat (correctPadding sz) \<and>
    unat (correctPadding sz) < unat sz + 4 \<and> (4 dvd unat sz \<longrightarrow> correctPadding sz = sz)"
proof -
  have "unat (correctPadding sz) = (unat sz + 3) div 4 * 4"
    using assms by (rule unat_correctPadding)
  moreover from this have "correctPadding sz = sz" if "4 dvd unat sz"
    using that by (auto simp: word_unat_eq_iff)
  ultimately show ?thesis by auto
qed

theorem correctPadding_rounds_up_witness: "unat (correctPadding 13) = 16"
  using correctPadding_rounds_up [of 13] by (simp add: correctPadding_def)

end
