(* ===== verification/Instructions.thy ===== *)
theory Instructions
  imports ObjectTypes
begin

text \<open>
  The instruction set: the numbering of \<^verbatim>\<open>include/opcodes.h\<close>, the instruction triple of
  \<^verbatim>\<open>include/instructions.h\<close> with its 32-bit packed form, and the classification predicates and
  the printer of \<^verbatim>\<open>src/TSmalltalkInstruction.cpp\<close>.
\<close>

section \<open>Opcodes\<close>

text \<open>
  A C++ enum variable holds any value cast into it, so each enum has a constructor for the numbers
  that no enumerator names; the \<open>switch\<close>es send them to \<open>default\<close>.
\<close>

datatype TOpcode =
    op_extended | op_pushInstance | op_pushArgument | op_pushTemporary | op_pushLiteral
  | op_pushConstant | op_assignInstance | op_assignTemporary | op_markArguments | op_sendMessage
  | op_sendUnary | op_sendBinary | op_pushBlock | op_doPrimitive | op_doSpecial | op_other u8

datatype TUnaryBuiltIn = una_isNil | una_notNil | una_other u8

datatype TBinaryBuiltIn = bin_operatorLess | bin_operatorLessOrEq | bin_operatorPlus | bin_other u8

datatype TSpecial =
    spc_selfReturn | spc_stackReturn | spc_blockReturn | spc_duplicate | spc_popTop
  | spc_branch | spc_branchIfTrue | spc_branchIfFalse | spc_sendToSuper | spc_other u8

datatype TPushConstant = const_int u8 | const_nil | const_trueObject | const_falseObject | const_other u8

text \<open>\<open>static_cast\<close> from a number to each enum, and the number an opcode is stored as.\<close>

definition opcode_cast :: "u8 \<Rightarrow> TOpcode" where
  "opcode_cast n =
     (if n = 0 then op_extended else if n = 1 then op_pushInstance
      else if n = 2 then op_pushArgument else if n = 3 then op_pushTemporary
      else if n = 4 then op_pushLiteral else if n = 5 then op_pushConstant
      else if n = 6 then op_assignInstance else if n = 7 then op_assignTemporary
      else if n = 8 then op_markArguments else if n = 9 then op_sendMessage
      else if n = 10 then op_sendUnary else if n = 11 then op_sendBinary
      else if n = 12 then op_pushBlock else if n = 13 then op_doPrimitive
      else if n = 15 then op_doSpecial else op_other n)"

primrec opcode_code :: "TOpcode \<Rightarrow> u8" where
  "opcode_code op_extended = 0"
| "opcode_code op_pushInstance = 1"
| "opcode_code op_pushArgument = 2"
| "opcode_code op_pushTemporary = 3"
| "opcode_code op_pushLiteral = 4"
| "opcode_code op_pushConstant = 5"
| "opcode_code op_assignInstance = 6"
| "opcode_code op_assignTemporary = 7"
| "opcode_code op_markArguments = 8"
| "opcode_code op_sendMessage = 9"
| "opcode_code op_sendUnary = 10"
| "opcode_code op_sendBinary = 11"
| "opcode_code op_pushBlock = 12"
| "opcode_code op_doPrimitive = 13"
| "opcode_code op_doSpecial = 15"
| "opcode_code (op_other n) = n"

definition unary_cast :: "u8 \<Rightarrow> TUnaryBuiltIn" where
  "unary_cast n = (if n = 0 then una_isNil else if n = 1 then una_notNil else una_other n)"

definition binary_cast :: "u8 \<Rightarrow> TBinaryBuiltIn" where
  "binary_cast n =
     (if n = 0 then bin_operatorLess else if n = 1 then bin_operatorLessOrEq
      else if n = 2 then bin_operatorPlus else bin_other n)"

definition special_cast :: "u8 \<Rightarrow> TSpecial" where
  "special_cast n =
     (if n = 1 then spc_selfReturn else if n = 2 then spc_stackReturn
      else if n = 3 then spc_blockReturn else if n = 4 then spc_duplicate
      else if n = 5 then spc_popTop else if n = 6 then spc_branch
      else if n = 7 then spc_branchIfTrue else if n = 8 then spc_branchIfFalse
      else if n = 11 then spc_sendToSuper else spc_other n)"

definition constant_cast :: "u8 \<Rightarrow> TPushConstant" where
  "constant_cast n =
     (if n \<le> 9 then const_int n else if n = 10 then const_nil
      else if n = 11 then const_trueObject else if n = 12 then const_falseObject else const_other n)"

text \<open>The numbers \<open>opcode::doSpecial * 16 + special::...\<close> that the message send looks for.\<close>

definition byte_stackReturn :: u8 where "byte_stackReturn = 15 * 16 + 2"
definition byte_blockReturn :: u8 where "byte_blockReturn = 15 * 16 + 3"

section \<open>The instruction\<close>

record TSmalltalkInstruction =
  m_opcode :: TOpcode
  m_argument :: u8
  m_extra :: u16

definition mkInstruction :: "TOpcode \<Rightarrow> u8 \<Rightarrow> u16 \<Rightarrow> TSmalltalkInstruction" where
  "mkInstruction opc argument extra = \<lparr>m_opcode = opc, m_argument = argument, m_extra = extra\<rparr>"

definition unpackInstruction :: "u32 \<Rightarrow> TSmalltalkInstruction" where
  "unpackInstruction bytecode =
     \<lparr>m_opcode = opcode_cast (ucast (bytecode AND 0xFF)),
      m_argument = ucast (drop_bit 8 bytecode),
      m_extra = ucast (drop_bit 16 bytecode)\<rparr>"

definition serialize :: "TSmalltalkInstruction \<Rightarrow> u32" where
  "serialize i = ucast (opcode_code (m_opcode i)) OR push_bit 8 (ucast (m_argument i))
                 OR push_bit 16 (ucast (m_extra i))"

definition isBranch :: "TSmalltalkInstruction \<Rightarrow> bool" where
  "isBranch i =
     (if m_opcode i \<noteq> op_doSpecial then False
      else case special_cast (m_argument i) of
             spc_branch \<Rightarrow> True | spc_branchIfFalse \<Rightarrow> True | spc_branchIfTrue \<Rightarrow> True
           | _ \<Rightarrow> False)"

definition isTerminator :: "TSmalltalkInstruction \<Rightarrow> bool" where
  "isTerminator i =
     (if m_opcode i \<noteq> op_doSpecial then False
      else if isBranch i then True
      else case special_cast (m_argument i) of
             spc_stackReturn \<Rightarrow> True | spc_selfReturn \<Rightarrow> True | spc_blockReturn \<Rightarrow> True
           | _ \<Rightarrow> False)"

definition isValueProvider :: "TSmalltalkInstruction \<Rightarrow> bool res" where
  "isValueProvider i =
     (case m_opcode i of
        op_extended \<Rightarrow> Inl AssertFailed
      | op_pushInstance \<Rightarrow> Inr True | op_pushArgument \<Rightarrow> Inr True | op_pushTemporary \<Rightarrow> Inr True
      | op_pushLiteral \<Rightarrow> Inr True | op_pushBlock \<Rightarrow> Inr True | op_pushConstant \<Rightarrow> Inr True
      | op_markArguments \<Rightarrow> Inr True | op_sendMessage \<Rightarrow> Inr True | op_sendUnary \<Rightarrow> Inr True
      | op_sendBinary \<Rightarrow> Inr True | op_doPrimitive \<Rightarrow> Inr True
      | op_doSpecial \<Rightarrow>
          (case special_cast (m_argument i) of
             spc_duplicate \<Rightarrow> Inr True | spc_sendToSuper \<Rightarrow> Inr True | _ \<Rightarrow> Inr False)
      | _ \<Rightarrow> Inr False)"

definition isTrivial :: "TSmalltalkInstruction \<Rightarrow> bool" where
  "isTrivial i =
     (case m_opcode i of
        op_pushInstance \<Rightarrow> True | op_pushArgument \<Rightarrow> True | op_pushTemporary \<Rightarrow> True
      | op_pushLiteral \<Rightarrow> True | op_pushConstant \<Rightarrow> True | op_markArguments \<Rightarrow> True
      | op_doSpecial \<Rightarrow>
          (case special_cast (m_argument i) of spc_duplicate \<Rightarrow> True | _ \<Rightarrow> False)
      | _ \<Rightarrow> False)"

definition mayCauseGC :: "TSmalltalkInstruction \<Rightarrow> bool" where
  "mayCauseGC i =
     (case m_opcode i of
        op_pushBlock \<Rightarrow> True | op_sendBinary \<Rightarrow> True | op_sendMessage \<Rightarrow> True
      | op_doPrimitive \<Rightarrow> True
      | op_doSpecial \<Rightarrow> special_cast (m_argument i) = spc_sendToSuper
      | _ \<Rightarrow> False)"

definition isValueConsumer :: "TSmalltalkInstruction \<Rightarrow> bool res" where
  "isValueConsumer i =
     (case m_opcode i of
        op_extended \<Rightarrow> Inl AssertFailed
      | op_assignTemporary \<Rightarrow> Inr True | op_assignInstance \<Rightarrow> Inr True | op_sendUnary \<Rightarrow> Inr True
      | op_sendBinary \<Rightarrow> Inr True | op_sendMessage \<Rightarrow> Inr True | op_markArguments \<Rightarrow> Inr True
      | op_doPrimitive \<Rightarrow> Inr True
      | op_doSpecial \<Rightarrow>
          (case special_cast (m_argument i) of
             spc_branch \<Rightarrow> Inr False | spc_selfReturn \<Rightarrow> Inr False | _ \<Rightarrow> Inr True)
      | _ \<Rightarrow> Inr False)"

text \<open>\<open>operator<<\<close> of a stream on an \<open>int\<close>: the decimal digits.\<close>

fun show_nat :: "nat \<Rightarrow> string" where
  "show_nat n = (if n < 10 then [char_of (48 + n)] else show_nat (n div 10) @ [char_of (48 + n mod 10)])"

declare show_nat.simps [simp del]

definition toString :: "TSmalltalkInstruction \<Rightarrow> string res" where
  "toString i =
     (let argument = show_nat (unat (m_argument i)); extra = show_nat (unat (m_extra i))
      in case m_opcode i of
        op_pushInstance \<Rightarrow> Inr (''PushInstance '' @ argument)
      | op_pushArgument \<Rightarrow> Inr (''PushArgument '' @ argument)
      | op_pushTemporary \<Rightarrow> Inr (''PushTemporary '' @ argument)
      | op_pushLiteral \<Rightarrow> Inr (''PushLiteral '' @ argument)
      | op_pushBlock \<Rightarrow> Inr (''PushBlock '' @ argument)
      | op_assignTemporary \<Rightarrow> Inr (''AssignTemporary '' @ argument)
      | op_assignInstance \<Rightarrow> Inr (''AssignInstance '' @ argument)
      | op_markArguments \<Rightarrow> Inr (''MarkArguments '' @ argument)
      | op_sendMessage \<Rightarrow> Inr ''SendMessage ''
      | op_doPrimitive \<Rightarrow> Inr (''Primitive '' @ extra @ '' ('' @ argument @ '' arguments)'')
      | op_pushConstant \<Rightarrow>
          (case constant_cast (m_argument i) of
             const_int _ \<Rightarrow> Inr (''PushConstant '' @ argument)
           | const_nil \<Rightarrow> Inr ''PushConstant nil''
           | const_trueObject \<Rightarrow> Inr ''PushConstant true''
           | const_falseObject \<Rightarrow> Inr ''PushConstant false''
           | const_other _ \<Rightarrow> Inl RuntimeError)
      | op_sendUnary \<Rightarrow>
          (case unary_cast (m_argument i) of
             una_isNil \<Rightarrow> Inr ''SendUnary isNil''
           | una_notNil \<Rightarrow> Inr ''SendUnary isNotNil''
           | una_other _ \<Rightarrow> Inl RuntimeError)
      | op_sendBinary \<Rightarrow>
          (case binary_cast (m_argument i) of
             bin_operatorPlus \<Rightarrow> Inr ''SendBinary +''
           | bin_operatorLess \<Rightarrow> Inr ''SendBinary <''
           | bin_operatorLessOrEq \<Rightarrow> Inr ''SendBinary <=''
           | bin_other _ \<Rightarrow> Inl RuntimeError)
      | op_doSpecial \<Rightarrow>
          (case special_cast (m_argument i) of
             spc_selfReturn \<Rightarrow> Inr ''Special selfReturn''
           | spc_stackReturn \<Rightarrow> Inr ''Special stackReturn''
           | spc_blockReturn \<Rightarrow> Inr ''Special blockReturn''
           | spc_duplicate \<Rightarrow> Inr ''Special duplicate''
           | spc_popTop \<Rightarrow> Inr ''Special popTop''
           | spc_branch \<Rightarrow> Inr ''Special branch''
           | spc_branchIfTrue \<Rightarrow> Inr ''Special branchIfTrue''
           | spc_branchIfFalse \<Rightarrow> Inr ''Special branchIfFalse''
           | spc_sendToSuper \<Rightarrow> Inr ''Special sendToSuper''
           | spc_other _ \<Rightarrow> Inl RuntimeError)
      | _ \<Rightarrow> Inl RuntimeError)"

section \<open>Lemmas\<close>

lemma opcode_code_cast [simp]: "opcode_code (opcode_cast n) = n"
  by (simp add: opcode_cast_def)

text \<open>The opcodes that have an enumerator.\<close>

fun known_opcode :: "TOpcode \<Rightarrow> bool" where
  "known_opcode (op_other _) = False"
| "known_opcode _ = True"

lemma opcode_cast_code [simp]: "known_opcode opc \<Longrightarrow> opcode_cast (opcode_code opc) = opc"
  by (cases opc) (simp_all add: opcode_cast_def)

lemma opcode_code_less_16: "known_opcode opc \<Longrightarrow> opcode_code opc < 16"
  by (cases opc) simp_all

text \<open>
  The enumerators an argument may name: what the printer accepts and the interpreter does not
  \<open>exit\<close> on.
\<close>

definition valid_argument :: "TSmalltalkInstruction \<Rightarrow> bool" where
  "valid_argument i \<longleftrightarrow>
     (case m_opcode i of
        op_extended \<Rightarrow> False
      | op_other _ \<Rightarrow> False
      | op_pushConstant \<Rightarrow> (\<forall>n. constant_cast (m_argument i) \<noteq> const_other n)
      | op_sendUnary \<Rightarrow> (\<forall>n. unary_cast (m_argument i) \<noteq> una_other n)
      | op_sendBinary \<Rightarrow> (\<forall>n. binary_cast (m_argument i) \<noteq> bin_other n)
      | op_doSpecial \<Rightarrow> (\<forall>n. special_cast (m_argument i) \<noteq> spc_other n)
      | _ \<Rightarrow> True)"

text \<open>The two halves of a packed instruction word.\<close>

lemma serialize_bits:
  "bit (serialize i) n \<longleftrightarrow>
     n < 8 \<and> bit (opcode_code (m_opcode i)) n \<or>
     8 \<le> n \<and> n < 16 \<and> bit (m_argument i) (n - 8) \<or>
     16 \<le> n \<and> n < 32 \<and> bit (m_extra i) (n - 16)"
proof (cases "n < 32")
  case True
  then show ?thesis
    unfolding serialize_def
    by (auto simp: bit_or_iff bit_push_bit_iff bit_ucast_iff dest: bit_imp_le_length)
next
  case False
  then show ?thesis by (auto dest: bit_imp_le_length)
qed

lemma toString_total_iff: "(\<exists>s. toString i = Inr s) = valid_argument i"
  unfolding toString_def valid_argument_def Let_def
  by (cases "m_opcode i") (simp_all split: TPushConstant.split TUnaryBuiltIn.split TBinaryBuiltIn.split TSpecial.split)

lemma branch_terminator: "isBranch i \<Longrightarrow> isTerminator i"
  by (simp add: isBranch_def isTerminator_def split: if_splits)

lemma terminator_special:
  "isTerminator i \<Longrightarrow> m_opcode i = op_doSpecial \<and> isValueProvider i = Inr False \<and> \<not> mayCauseGC i"
  by (auto simp: isTerminator_def isBranch_def isValueProvider_def mayCauseGC_def
    split: if_splits TSpecial.splits)

lemma trivial_provider: "isTrivial i \<Longrightarrow> \<not> mayCauseGC i \<and> isValueProvider i = Inr True"
  by (auto simp: isTrivial_def isValueProvider_def mayCauseGC_def split: TOpcode.splits TSpecial.splits)

text \<open>Reading a packed word back.\<close>

lemma unpack_serialize:
  "unpackInstruction (serialize i) =
     i\<lparr>m_opcode := opcode_cast (opcode_code (m_opcode i))\<rparr> \<and>
   (known_opcode (m_opcode i) \<longrightarrow> unpackInstruction (serialize i) = i)"
proof -
  have "ucast (serialize i AND 0xFF) = opcode_code (m_opcode i)"
  proof (rule bit_word_eqI)
    fix n assume n: "n < LENGTH(8)"
    have m: "(0xFF::u32) = mask 8" by (simp add: mask_eq_exp_minus_1)
    show "bit (ucast (serialize i AND 0xFF) :: u8) n = bit (opcode_code (m_opcode i)) n"
      using n unfolding m by (simp only: bit_ucast_iff bit_and_iff bit_mask_iff serialize_bits) auto
  qed
  moreover have "ucast (drop_bit 8 (serialize i)) = m_argument i"
    by (rule bit_word_eqI) (simp add: bit_ucast_iff bit_drop_bit_eq serialize_bits)
  moreover have "ucast (drop_bit 16 (serialize i)) = m_extra i"
    by (rule bit_word_eqI) (simp add: bit_ucast_iff bit_drop_bit_eq serialize_bits)
  ultimately have "unpackInstruction (serialize i) =
      i\<lparr>m_opcode := opcode_cast (opcode_code (m_opcode i))\<rparr>"
    by (simp add: unpackInstruction_def)
  then show ?thesis by simp
qed

section \<open>Properties\<close>

text \<open>
  An instruction stored in a basic block as its 32-bit \<open>serialize\<close> word is read back unchanged:
  the three components occupy disjoint bits and the opcode number is kept, named or not.
\<close>

theorem serialize_roundtrip:
  "unpackInstruction (serialize i) =
     i\<lparr>m_opcode := opcode_cast (opcode_code (m_opcode i))\<rparr> \<and>
   (known_opcode (m_opcode i) \<longrightarrow> unpackInstruction (serialize i) = i)"
  by (rule unpack_serialize)

theorem serialize_roundtrip_witness:
  "unpackInstruction (serialize (mkInstruction op_pushBlock 3 513)) = mkInstruction op_pushBlock 3 513"
  using serialize_roundtrip [of "mkInstruction op_pushBlock 3 513"] by (simp add: mkInstruction_def opcode_cast_def)

text \<open>
  The printer throws on exactly the instructions whose opcode or argument names no enumerator,
  and the predicates the parser relies on agree with each other: every branch is a terminator, only
  \<open>doSpecial\<close> is one, and no terminator provides a value.
\<close>

theorem instruction_classes:
  "(\<exists>s. toString i = Inr s) = valid_argument i \<and>
   (isBranch i \<longrightarrow> isTerminator i) \<and>
   (isTerminator i \<longrightarrow> m_opcode i = op_doSpecial \<and> isValueProvider i = Inr False \<and> \<not> mayCauseGC i) \<and>
   (isTrivial i \<longrightarrow> \<not> mayCauseGC i \<and> isValueProvider i = Inr True)"
  using toString_total_iff branch_terminator terminator_special trivial_provider by blast

theorem instruction_classes_witness:
  "isTerminator (mkInstruction op_doSpecial 7 20) \<and>
   isValueProvider (mkInstruction op_doSpecial 7 20) = Inr False"
  using instruction_classes [of "mkInstruction op_doSpecial 7 20"]
  by (simp add: isBranch_def mkInstruction_def special_cast_def)

end
