(* ===== verification/Decoder.thy ===== *)
theory Decoder
  imports Instructions
begin

text \<open>
  The instruction decoder (\<^verbatim>\<open>src/InstructionDecoder.cpp\<close>, class \<open>InstructionDecoder\<close> of
  \<^verbatim>\<open>include/instructions.h\<close>).  The bytecodes of a method are the byte list of its
  \<open>TByteObject\<close>; the pointer is the \<open>uint16_t\<close> offset that decoding moves.
\<close>

section \<open>The decoder\<close>

definition byteAt :: "u8 list \<Rightarrow> u16 \<Rightarrow> u8 res" where
  "byteAt byteCodes index = nth_res byteCodes (unat index)"

text \<open>
  Two bytes, low byte first.  \<open>bytePointer + 1\<close> is computed as an \<open>int\<close>, so the index does
  not wrap; \<open>bytePointer += 2\<close> does.
\<close>

definition readShort :: "u8 list \<Rightarrow> u16 \<Rightarrow> (u16 \<times> u16) res" where
  "readShort byteCodes bp =
     bndR (byteAt byteCodes bp) (\<lambda>lo.
     bndR (nth_res byteCodes (unat bp + 1)) (\<lambda>hi.
     Inr (ucast lo OR push_bit 8 (ucast hi), bp + 2)))"

definition readByte :: "u8 list \<Rightarrow> u16 \<Rightarrow> (u8 \<times> u16) res" where
  "readByte byteCodes bp = bndR (byteAt byteCodes bp) (\<lambda>b. Inr (b, bp + 1))"

definition decodeExtra :: "u8 list \<Rightarrow> TOpcode \<Rightarrow> u8 \<Rightarrow> u16 \<Rightarrow> (u16 \<times> u16) res" where
  "decodeExtra byteCodes opc argument bp =
     (case opc of
        op_pushBlock \<Rightarrow> readShort byteCodes bp
      | op_doPrimitive \<Rightarrow> bndR (readByte byteCodes bp) (\<lambda>(b, bp). Inr (ucast b, bp))
      | op_doSpecial \<Rightarrow>
          (case special_cast argument of
             spc_branch \<Rightarrow> readShort byteCodes bp
           | spc_branchIfTrue \<Rightarrow> readShort byteCodes bp
           | spc_branchIfFalse \<Rightarrow> readShort byteCodes bp
           | spc_sendToSuper \<Rightarrow> bndR (readByte byteCodes bp) (\<lambda>(b, bp). Inr (ucast b, bp))
           | _ \<Rightarrow> Inr (0, bp))
      | _ \<Rightarrow> Inr (0, bp))"

definition decodeAndShiftPointer :: "u8 list \<Rightarrow> u16 \<Rightarrow> (TSmalltalkInstruction \<times> u16) res" where
  "decodeAndShiftPointer byteCodes bytePointer =
     (if \<not> unat bytePointer < length byteCodes then Inl AssertFailed else
      bndR (readByte byteCodes bytePointer) (\<lambda>(bytecode, bp).
      let opc = opcode_cast (drop_bit 4 bytecode);
          argument = bytecode AND 0x0F
      in bndR (if opc = op_extended
               then bndR (readByte byteCodes bp) (\<lambda>(b, bp). Inr (opcode_cast argument, b, bp))
               else Inr (opc, argument, bp)) (\<lambda>(opc, argument, bp).
         bndR (decodeExtra byteCodes opc argument bp) (\<lambda>(extra, bp).
         Inr (mkInstruction opc argument extra, bp)))))"

text \<open>The decoder object: a cursor over the bytecodes.\<close>

record InstructionDecoder =
  m_byteCodes :: "u8 list"
  m_bytePointer :: u16

definition setBytePointer :: "InstructionDecoder \<Rightarrow> u16 \<Rightarrow> InstructionDecoder res" where
  "setBytePointer d v =
     (if unat v < length (m_byteCodes d) then Inr (d\<lparr>m_bytePointer := v\<rparr>) else Inl AssertFailed)"

definition decoder_next :: "InstructionDecoder \<Rightarrow> (TSmalltalkInstruction \<times> InstructionDecoder) res" where
  "decoder_next d =
     bndR (decodeAndShiftPointer (m_byteCodes d) (m_bytePointer d))
       (\<lambda>(i, bp). Inr (i, d\<lparr>m_bytePointer := bp\<rparr>))"

section \<open>The bytecode format\<close>

text \<open>
  The format the decoder inverts, as a reference: an instruction is its opcode and argument in one
  byte, or in two when the argument needs more than four bits (or the compiler chose the long form),
  followed by its extra data.
\<close>

datatype extra_kind = no_extra | byte_extra | short_extra

definition extra_kind :: "TSmalltalkInstruction \<Rightarrow> extra_kind" where
  "extra_kind i =
     (case m_opcode i of
        op_pushBlock \<Rightarrow> short_extra
      | op_doPrimitive \<Rightarrow> byte_extra
      | op_doSpecial \<Rightarrow>
          (case special_cast (m_argument i) of
             spc_branch \<Rightarrow> short_extra | spc_branchIfTrue \<Rightarrow> short_extra | spc_branchIfFalse \<Rightarrow> short_extra
           | spc_sendToSuper \<Rightarrow> byte_extra
           | _ \<Rightarrow> no_extra)
      | _ \<Rightarrow> no_extra)"

definition encode_extra :: "TSmalltalkInstruction \<Rightarrow> u8 list" where
  "encode_extra i =
     (case extra_kind i of
        no_extra \<Rightarrow> []
      | byte_extra \<Rightarrow> [ucast (m_extra i)]
      | short_extra \<Rightarrow> [ucast (m_extra i), ucast (drop_bit 8 (m_extra i))])"

definition encode :: "bool \<Rightarrow> TSmalltalkInstruction \<Rightarrow> u8 list" where
  "encode long i =
     (if long then [opcode_code (m_opcode i), m_argument i]
      else [push_bit 4 (opcode_code (m_opcode i)) OR m_argument i]) @ encode_extra i"

text \<open>The instructions the format can hold, in its long or its short form.\<close>

definition encodable :: "bool \<Rightarrow> TSmalltalkInstruction \<Rightarrow> bool" where
  "encodable long i \<longleftrightarrow>
     known_opcode (m_opcode i) \<and> m_opcode i \<noteq> op_extended \<and>
     (long \<or> m_argument i < 16) \<and>
     (case extra_kind i of no_extra \<Rightarrow> m_extra i = 0 | byte_extra \<Rightarrow> m_extra i < 256 | short_extra \<Rightarrow> True)"

section \<open>Lemmas\<close>

lemma nibbles:
  fixes a c :: u8
  assumes "a < 16" "c < 16"
  shows "drop_bit 4 (push_bit 4 c OR a) = c" "(push_bit 4 c OR a) AND 15 = a"
proof -
  have b: "bit a n \<Longrightarrow> n < 4" "bit c n \<Longrightarrow> n < 4" for n
    using assms word_less_bit[of a 4] word_less_bit[of c 4] by (simp_all add: word_less_nat_alt)
  have m: "(15::u8) = mask 4" by (simp add: mask_eq_exp_minus_1)
  show "drop_bit 4 (push_bit 4 c OR a) = c"
    by (rule bit_word_eqI) (auto simp: bit_drop_bit_eq bit_push_bit_iff bit_or_iff dest: b)
  show "(push_bit 4 c OR a) AND 15 = a" unfolding m
    by (rule bit_word_eqI) (auto simp only: bit_push_bit_iff bit_or_iff bit_and_iff bit_mask_iff possible_bit_word dest: b)
qed

lemma short_of_bytes: "ucast (ucast x :: u8) OR push_bit 8 (ucast (ucast (drop_bit 8 x) :: u8)) = (x::u16)"
  by (rule bit_word_eqI) (auto simp: bit_or_iff bit_push_bit_iff bit_ucast_iff bit_drop_bit_eq)

lemma short_of_byte: "x < 256 \<Longrightarrow> ucast (ucast x :: u8) = (x::u16)"
  by (auto intro!: bit_word_eqI simp: bit_ucast_iff word_less_nat_alt dest: word_less_bit[where k=8, simplified])

text \<open>The bytes that remain at the pointer, in a method shorter than the pointer's range.\<close>

definition cursor :: "u8 list \<Rightarrow> u16 \<Rightarrow> u8 list \<Rightarrow> bool" where
  "cursor bs bp xs \<longleftrightarrow> length bs < 2 ^ 16 \<and> drop (unat bp) bs = xs"

lemma cursor_Cons:
  assumes "cursor bs bp (b # xs)"
  shows "unat bp < length bs" "bs ! unat bp = b" "unat (bp + 1) = unat bp + 1" "cursor bs (bp + 1) xs"
proof -
  have l: "length bs < 65536" and d: "drop (unat bp) bs = b # xs" using assms by (simp_all add: cursor_def)
  show lt: "unat bp < length bs" using d by (metis drop_all list.distinct(1) not_le)
  show s: "unat (bp + 1) = unat bp + 1" using lt l by (simp add: unat_word_ariths)
  show "bs ! unat bp = b" using lt d by (simp flip: hd_drop_conv_nth)
  show "cursor bs (bp + 1) xs" using l d by (simp add: cursor_def s flip: drop_drop drop_Suc) (metis drop_Suc list.sel(3) tl_drop)
qed

lemma readByte_cursor:
  "cursor bs bp (b # xs) \<Longrightarrow> readByte bs bp = Inr (b, bp + 1)"
  by (simp add: readByte_def byteAt_def cursor_Cons comp_simps)

lemma readShort_cursor:
  assumes "cursor bs bp (lo # hi # xs)"
  shows "readShort bs bp = Inr (ucast lo OR push_bit 8 (ucast hi), bp + 2)"
proof -
  note 1 = cursor_Cons[OF assms] 
  note 2 = cursor_Cons[OF 1(4)]
  show ?thesis using 1 2 by (simp add: readShort_def byteAt_def comp_simps)
qed

lemma decodeExtra_cursor:
  assumes "cursor bs bp (encode_extra i @ xs)" and "encodable long i"
  shows "decodeExtra bs (m_opcode i) (m_argument i) bp =
    Inr (m_extra i, bp + of_nat (length (encode_extra i)))"
proof (cases "extra_kind i")
  case no_extra
  then show ?thesis using assms
    by (auto simp: decodeExtra_def encodable_def encode_extra_def extra_kind_def split: TOpcode.splits TSpecial.splits)
next
  case byte_extra
  with assms have "readByte bs bp = Inr (ucast (m_extra i), bp + 1)" and "m_extra i < 256"
    by (auto simp: encode_extra_def encodable_def intro!: readByte_cursor)
  with byte_extra show ?thesis
    by (auto simp: decodeExtra_def encode_extra_def extra_kind_def comp_simps short_of_byte
      split: TOpcode.splits TSpecial.splits)
next
  case short_extra
  with assms have "readShort bs bp = Inr (m_extra i, bp + 2)"
    by (auto simp: encode_extra_def short_of_bytes dest: readShort_cursor)
  with short_extra show ?thesis
    by (auto simp: decodeExtra_def encode_extra_def extra_kind_def split: TOpcode.splits TSpecial.splits)
qed

lemma encode_header:
  assumes "encodable False i"
  shows "opcode_cast (drop_bit 4 (push_bit 4 (opcode_code (m_opcode i)) OR m_argument i)) = m_opcode i"
    "(push_bit 4 (opcode_code (m_opcode i)) OR m_argument i) AND 15 = m_argument i"
proof -
  have n: "m_argument i < 16" "opcode_code (m_opcode i) < 16" "known_opcode (m_opcode i)"
    using assms by (auto simp: encodable_def opcode_code_less_16)
  show "opcode_cast (drop_bit 4 (push_bit 4 (opcode_code (m_opcode i)) OR m_argument i)) = m_opcode i"
    unfolding nibbles(1) [OF n(1,2)] using n(3) by simp
  show "(push_bit 4 (opcode_code (m_opcode i)) OR m_argument i) AND 15 = m_argument i"
    by (rule nibbles(2) [OF n(1,2)])
qed

lemma decode_cursor:
  assumes "cursor bs bp (encode long i @ xs)" and "encodable long i"
  shows "decodeAndShiftPointer bs bp = Inr (i, bp + of_nat (length (encode long i)))"
proof (cases long)
  case True
  define bp1 bp2 where "bp1 = bp + 1" and "bp2 = bp1 + 1"
  have c: "cursor bs bp (opcode_code (m_opcode i) # m_argument i # encode_extra i @ xs)"
    using assms(1) True by (simp add: encode_def)
  note c1 = cursor_Cons [OF c, folded bp1_def]
  note c2 = cursor_Cons [OF c1(4), folded bp2_def]
  have "opcode_code (m_opcode i) < 16" "m_opcode i \<noteq> op_extended" "known_opcode (m_opcode i)"
    using assms(2) by (auto simp: encodable_def opcode_code_less_16)
  then have "drop_bit 4 (opcode_code (m_opcode i)) = 0" "opcode_code (m_opcode i) AND 15 = opcode_code (m_opcode i)"
    using nibbles [of "opcode_code (m_opcode i)" 0] by simp_all
  then show ?thesis
    using True c1(1) c2(4) assms(2) readByte_cursor [OF c] readByte_cursor [OF c1(4)] \<open>known_opcode (m_opcode i)\<close>
    by (simp add: decodeAndShiftPointer_def Let_def comp_simps opcode_cast_def [of 0] decodeExtra_cursor
      mkInstruction_def encode_def bp1_def bp2_def algebra_simps)
next
  case False
  define bp1 where "bp1 = bp + 1"
  have c: "cursor bs bp ((push_bit 4 (opcode_code (m_opcode i)) OR m_argument i) # encode_extra i @ xs)"
    using assms(1) False by (simp add: encode_def)
  note c1 = cursor_Cons [OF c, folded bp1_def]
  have "m_opcode i \<noteq> op_extended" using assms(2) by (simp add: encodable_def)
  then show ?thesis
    using False c1(1,4) assms(2) readByte_cursor [OF c] encode_header [of i]
    by (simp add: decodeAndShiftPointer_def Let_def comp_simps decodeExtra_cursor mkInstruction_def
      encode_def bp1_def algebra_simps)
qed

text \<open>A successful read moves the pointer forward, inside the bytecodes.\<close>

lemma readByte_progress:
  assumes "readByte bs bp = Inr (b, bp')" and "length bs < 2 ^ 16"
  shows "unat bp' = unat bp + 1 \<and> unat bp' \<le> length bs"
  using assms by (auto simp: readByte_def byteAt_def comp_simps unat_word_ariths split: sum.splits)

lemma readShort_progress:
  assumes "readShort bs bp = Inr (w, bp')" and "length bs < 2 ^ 16"
  shows "unat bp' = unat bp + 2 \<and> unat bp' \<le> length bs"
  using assms by (auto simp: readShort_def byteAt_def comp_simps unat_word_ariths split: sum.splits)

lemma decodeExtra_progress:
  assumes "decodeExtra bs opc a bp = Inr (w, bp')" and "length bs < 2 ^ 16" and "unat bp \<le> length bs"
  shows "unat bp \<le> unat bp' \<and> unat bp' \<le> unat bp + 2 \<and> unat bp' \<le> length bs"
  using assms
  by (auto simp: decodeExtra_def comp_simps split: TOpcode.splits TSpecial.splits sum.splits
    dest!: readByte_progress readShort_progress)

lemma decode_step:
  assumes "decodeAndShiftPointer bs bp = Inr (i, bp')" and "length bs < 2 ^ 16"
  shows "unat bp < unat bp' \<and> unat bp' \<le> unat bp + 4 \<and> unat bp' \<le> length bs"
proof -
  obtain b1 bp1 where r1: "readByte bs bp = Inr (b1, bp1)"
    using assms(1) by (auto simp: decodeAndShiftPointer_def comp_simps split: sum.splits if_splits)
  note p1 = readByte_progress [OF r1 assms(2)]
  obtain opc a bp2 where d: "decodeExtra bs opc a bp2 = Inr (m_extra i, bp')"
    and h: "bp2 = bp1 \<or> (\<exists>b2. readByte bs bp1 = Inr (b2, bp2))"
    using assms(1) r1
    by (fastforce simp: decodeAndShiftPointer_def comp_simps Let_def mkInstruction_def
      split: sum.splits if_splits)
  from h p1 assms(2) have p2: "unat bp1 \<le> unat bp2 \<and> unat bp2 \<le> unat bp1 + 1 \<and> unat bp2 \<le> length bs"
    by (auto dest: readByte_progress)
  with decodeExtra_progress [OF d assms(2)] p1 show ?thesis by auto
qed

text \<open>A decoded instruction survives its packed form.\<close>

lemma decode_unpack:
  assumes "decodeAndShiftPointer bs bp = Inr (i, bp')"
  shows "unpackInstruction (serialize i) = i"
proof -
  have "opcode_cast (opcode_code (m_opcode i)) = m_opcode i"
    using assms by (auto simp: decodeAndShiftPointer_def comp_simps Let_def mkInstruction_def
        split: sum.splits if_splits)
  then show ?thesis using unpack_serialize[of i] by simp
qed

section \<open>Properties\<close>

text \<open>
  C2. The decoder inverts the bytecode format: at the offset of an encoded instruction, short or long
  form, whatever surrounds it, it returns exactly that instruction and leaves the pointer on the byte
  after it.
\<close>

theorem decode_encode:
  assumes "encodable long i" and "length (pre @ encode long i @ post) < 2 ^ 16"
  shows "decodeAndShiftPointer (pre @ encode long i @ post) (of_nat (length pre)) =
    Inr (i, of_nat (length pre + length (encode long i)))"
proof -
  have "unat (of_nat (length pre) :: u16) = length pre"
    using assms(2) by (simp add: unat_of_nat take_bit_nat_eq_self)
  then have "cursor (pre @ encode long i @ post) (of_nat (length pre)) (encode long i @ post)"
    using assms(2) by (simp add: cursor_def)
  from decode_cursor [OF this assms(1)] show ?thesis by simp
qed

theorem decode_encode_witness:
  "decodeAndShiftPointer [0x21, 0xF7, 20, 0, 0x50] 1 = Inr (mkInstruction op_doSpecial 7 20, 4)"
  using decode_encode [of False "mkInstruction op_doSpecial 7 20" "[0x21]" "[0x50]"]
  by (simp add: encodable_def encode_def encode_extra_def extra_kind_def mkInstruction_def special_cast_def)

text \<open>
  C3. Decoding makes progress and stays inside the method: a decoded instruction takes one to four
  bytes, all of them bytecodes of the method, so the loops that decode a method terminate.
\<close>

theorem decode_progress:
  assumes "decodeAndShiftPointer bs bp = Inr (i, bp')" and "length bs < 2 ^ 16"
  shows "unat bp < unat bp' \<and> unat bp' \<le> unat bp + 4 \<and> unat bp' \<le> length bs"
  using assms by (rule decode_step)

theorem decode_progress_witness:
  "unat (0::u16) < unat (2::u16) \<and> unat (2::u16) \<le> length [0xD2, 24 :: u8]"
  using decode_progress [of "[0xD2, 24]" 0 "mkInstruction op_doPrimitive 2 24" 2]
  by (simp add: decodeAndShiftPointer_def readByte_def byteAt_def comp_simps Let_def opcode_cast_def
    decodeExtra_def)

end
