(* ===== verification/BakerState.thy ===== *)
theory BakerState
  imports ObjectTypes
begin

text \<open>
  The state of \<open>BakerMemoryManager\<close> (\<^verbatim>\<open>include/memory.h\<close>, \<^verbatim>\<open>src/BakerMemoryManager.cpp\<close>): two
  half spaces, one of them active, a static heap, the list of static roots and the registered external
  pointers, together with the objects that live in them.  The classes derived from it and the virtual
  machine extend this record.
\<close>

section \<open>State\<close>

text \<open>
  A \<open>TObject**\<close> slot inside an object is the object's address and the index of the field;
  \<open>slotAddress\<close> is the machine address it stands for.
\<close>

type_synonym slot = "ptr \<times> nat"

definition slotAddress :: "slot \<Rightarrow> ptr" where
  "slotAddress sl = fst sl + 8 + 4 * of_nat (snd sl)"

text \<open>\<open>TMemoryManagerHeapInfo\<close>: the sizes a collection logs.\<close>

record heap_info =
  usedHeapSizeBeforeCollect :: u32
  usedHeapSizeAfterCollect :: u32
  totalHeapSize :: u32

record memory_info =
  collectionsCount :: u32
  allocationsCount :: u32
  events :: "heap_info list"

text \<open>
  \<open>m_externalPointers\<close> is the linked list behind \<open>m_externalPointersHead\<close>, oldest registration
  first (theory \<open>ExternalPointers\<close> relates the two).  \<open>libc_alloc\<close> gives the address the n-th
  \<open>malloc\<close> or \<open>realloc\<close> returns for a size, 0 when it fails.
\<close>

record baker =
  objs :: objmem
  m_memoryInfo :: memory_info
  m_heapSize :: u32
  m_maxHeapSize :: u32
  m_heapOne :: ptr
  m_heapTwo :: ptr
  m_activeHeapOne :: bool
  m_inactiveHeapBase :: ptr
  m_inactiveHeapPointer :: ptr
  m_activeHeapBase :: ptr
  m_activeHeapPointer :: ptr
  m_staticHeapSize :: u32
  m_staticHeapBase :: ptr
  m_staticHeapPointer :: ptr
  m_staticRoots :: "slot list"
  m_externalPointers :: "ptr list"
  libc_alloc :: "nat \<Rightarrow> u32 \<Rightarrow> ptr"
  libc_calls :: nat

section \<open>Memory primitives\<close>

definition in_block :: "ptr \<Rightarrow> u32 \<Rightarrow> ptr \<Rightarrow> bool" where
  "in_block base n a \<longleftrightarrow> unat base \<le> unat a \<and> unat a < unat base + unat n"

text \<open>Overwriting a block (\<open>memset\<close>) or giving it back to the system destroys the objects in it.\<close>

definition clear_block :: "ptr \<Rightarrow> u32 \<Rightarrow> objmem \<Rightarrow> objmem" where
  "clear_block base n m = (\<lambda>a. if in_block base n a then None else m a)"

definition libc_malloc :: "u32 \<Rightarrow> ('a baker_scheme, ptr) comp" where
  "libc_malloc n s = Inr (libc_alloc s (libc_calls s) n, s\<lparr>libc_calls := libc_calls s + 1\<rparr>)"

text \<open>Computations that read an object of the state.\<close>

definition mem :: "(objmem \<Rightarrow> 'b res) \<Rightarrow> ('a baker_scheme, 'b) comp" where
  [comp_simps]: "mem f s = (case f (objs s) of Inl e \<Rightarrow> Inl e | Inr x \<Rightarrow> Inr (x, s))"

definition mem_upd :: "(objmem \<Rightarrow> objmem res) \<Rightarrow> ('a baker_scheme, unit) comp" where
  [comp_simps]: "mem_upd f s = (case f (objs s) of Inl e \<Rightarrow> Inl e | Inr m \<Rightarrow> Inr ((), s\<lparr>objs := m\<rparr>))"

section \<open>Static allocation and the root list\<close>

definition isInStaticHeap :: "'a baker_scheme \<Rightarrow> ptr \<Rightarrow> bool" where
  "isInStaticHeap s location \<longleftrightarrow>
     location \<ge> m_staticHeapPointer s \<and> location < m_staticHeapBase s + m_staticHeapSize s"

definition staticAllocate :: "u32 \<Rightarrow> ('a baker_scheme, ptr) comp" where
  "staticAllocate requestedSize s =
     (let newPointer = m_staticHeapPointer s - requestedSize
      in if newPointer < m_staticHeapBase s then Inr (NULL, s)
         else Inr (newPointer, s\<lparr>m_staticHeapPointer := newPointer\<rparr>))"

definition addStaticRoot :: "slot \<Rightarrow> 'a baker_scheme \<Rightarrow> 'a baker_scheme" where
  "addStaticRoot pointer s = s\<lparr>m_staticRoots := pointer # m_staticRoots s\<rparr>"

text \<open>The first entry for the slot is erased, if there is one: \<open>remove1\<close>.\<close>

definition removeStaticRoot :: "slot \<Rightarrow> 'a baker_scheme \<Rightarrow> 'a baker_scheme" where
  "removeStaticRoot pointer s = s\<lparr>m_staticRoots := remove1 pointer (m_staticRoots s)\<rparr>"

definition checkRoot :: "ptr \<Rightarrow> slot \<Rightarrow> ('a baker_scheme, bool) comp" where
  "checkRoot val objectSlot s =
     (if isInStaticHeap s (slotAddress objectSlot)
      then case getField (objs s) (fst objectSlot) (snd objectSlot) of
             Inl e \<Rightarrow> Inl e
           | Inr oldValue \<Rightarrow>
               (if \<not> isInStaticHeap s val
                then (if isInStaticHeap s oldValue then Inr (True, addStaticRoot objectSlot s)
                      else Inr (False, s))
                else (if \<not> isInStaticHeap s oldValue then Inr (True, removeStaticRoot objectSlot s)
                      else Inr (False, s)))
      else Inr (False, s))"

text \<open>
  The write barrier as every caller uses it: \<open>checkRoot\<close> on the slot, then the assignment.
\<close>

definition storeField :: "ptr \<Rightarrow> nat \<Rightarrow> ptr \<Rightarrow> ('a baker_scheme, unit) comp" where
  "storeField obj index val =
     bnd (checkRoot val (obj, index)) (\<lambda>_. mem_upd (\<lambda>m. putField m obj index val))"

section \<open>Initialisation\<close>

definition baker_new :: baker where
  "baker_new = \<lparr>objs = Map.empty,
     m_memoryInfo = \<lparr>collectionsCount = 0, allocationsCount = 0, events = []\<rparr>,
     m_heapSize = 0, m_maxHeapSize = 0, m_heapOne = 0, m_heapTwo = 0, m_activeHeapOne = True,
     m_inactiveHeapBase = 0, m_inactiveHeapPointer = 0, m_activeHeapBase = 0, m_activeHeapPointer = 0,
     m_staticHeapSize = 0, m_staticHeapBase = 0, m_staticHeapPointer = 0, m_staticRoots = [],
     m_externalPointers = [], libc_alloc = (\<lambda>_ _. 0), libc_calls = 0\<rparr>"

definition initializeStaticHeap :: "u32 \<Rightarrow> ('a baker_scheme, bool) comp" where
  "initializeStaticHeap heapSize =
     (let heapSize = correctPadding heapSize
      in bnd (libc_malloc heapSize) (\<lambda>heap.
         if heap = NULL then ret False
         else bnd (modify (\<lambda>s. s\<lparr>objs := clear_block heap heapSize (objs s),
                 m_staticHeapBase := heap, m_staticHeapPointer := heap + heapSize,
                 m_staticHeapSize := heapSize\<rparr>)) (\<lambda>_. ret True)))"

text \<open>
  The two half spaces.  An allocation that fails is not checked, and the \<open>memset\<close> then writes
  through the null pointer.
\<close>

definition initializeHeap :: "u32 \<Rightarrow> u32 \<Rightarrow> ('a baker_scheme, bool) comp" where
  "initializeHeap heapSize maxHeapSize =
     (let heapSize = correctPadding heapSize; mediane = heapSize div 2
      in bnd (libc_malloc mediane) (\<lambda>one. bnd (libc_malloc mediane) (\<lambda>two.
         bnd (guard BadAccess (one \<noteq> NULL \<and> two \<noteq> NULL)) (\<lambda>_.
         bnd (modify (\<lambda>s. s\<lparr>
            objs := clear_block two mediane (clear_block one mediane (objs s)),
            m_heapSize := heapSize, m_maxHeapSize := maxHeapSize,
            m_heapOne := one, m_heapTwo := two, m_activeHeapOne := True,
            m_activeHeapBase := one, m_activeHeapPointer := one + mediane,
            m_inactiveHeapBase := two, m_inactiveHeapPointer := two + mediane\<rparr>)) (\<lambda>_.
         ret True)))))"

end
