(* ===== verification/MoveObject.thy ===== *)
theory MoveObject
  imports BakerState
begin

text \<open>
  \<open>BakerMemoryManager::moveObject\<close> (\<^verbatim>\<open>src/BakerMemoryManager.cpp\<close>): the traversal that copies one
  object graph into the active space.  It keeps its path in the objects themselves, by reversing
  pointers, and uses neither recursion nor a stack.  The two inner loops of the code are two phases of
  a small-step machine over the three local pointers.
\<close>

section \<open>The objects as the collector sees them\<close>

text \<open>\<open>TMovableObject\<close>: \<open>data[0]\<close> is the class pointer, \<open>data[i + 1]\<close> is the i-th field.\<close>

definition getData :: "objmem \<Rightarrow> ptr \<Rightarrow> nat \<Rightarrow> ptr res" where
  "getData m p index = (if index = 0 then getClass m p else getField m p (index - 1))"

definition putData :: "objmem \<Rightarrow> ptr \<Rightarrow> nat \<Rightarrow> ptr \<Rightarrow> objmem res" where
  "putData m p index v = (if index = 0 then setClass m p v else putField m p (index - 1) v)"

definition setSize :: "objmem \<Rightarrow> ptr \<Rightarrow> (TSize \<Rightarrow> TSize) \<Rightarrow> objmem res" where
  "setSize m p f = bndR (objectAt m p) (\<lambda>obj. Inr (m(p \<mapsto> obj\<lparr>obj_size := f (obj_size obj)\<rparr>)))"

datatype phase = Walking | FixingUp | Returned

record mover =
  currentObject :: ptr
  previousObject :: ptr
  replacement :: ptr
  mv_phase :: phase

definition inOldSpace :: "'a baker_scheme \<Rightarrow> ptr \<Rightarrow> bool" where
  "inOldSpace s p \<longleftrightarrow>
     p \<ge> m_inactiveHeapPointer s \<and> p < m_inactiveHeapBase s + m_heapSize s div 2"

text \<open>
  \<open>m_activeHeapPointer -= size\<close>, then the placement new.  The code does not compare with
  \<open>m_activeHeapBase\<close>; a block below it would be written outside of the heap.
\<close>

definition placeCopy :: "u32 \<Rightarrow> tobject \<Rightarrow> ('a baker_scheme, ptr) comp" where
  "placeCopy n obj s =
     (if unat n \<le> unat (m_activeHeapPointer s) - unat (m_activeHeapBase s)
      then let p = m_activeHeapPointer s - n
           in Inr (p, s\<lparr>m_activeHeapPointer := p, objs := (objs s)(p \<mapsto> obj)\<rparr>)
      else Inl BadAccess)"

text \<open>\<open>memcpy\<close> of the tail of a binary object.\<close>

definition copyBytes :: "objmem \<Rightarrow> ptr \<Rightarrow> ptr \<Rightarrow> nat \<Rightarrow> objmem res" where
  "copyBytes m destination source dataSize =
     bndR (objectAt m source) (\<lambda>src. bndR (objectAt m destination) (\<lambda>dst.
       if dataSize \<le> length (obj_bytes src) \<and> dataSize \<le> length (obj_bytes dst)
       then Inr (m(destination \<mapsto> dst\<lparr>obj_bytes :=
                    take dataSize (obj_bytes src) @ drop dataSize (obj_bytes dst)\<rparr>))
       else Inl BadAccess))"

section \<open>Stage 1: walking down\<close>

definition leaveWith :: "ptr \<Rightarrow> mover \<Rightarrow> mover" where
  "leaveWith r mv =
     mv\<lparr>replacement := r, currentObject := previousObject mv, mv_phase := FixingUp\<rparr>"

text \<open>
  Reverse the pointer in \<open>data[index]\<close>: the copy's slot keeps the way back, the old object's slot
  keeps the copy, and the walk goes on with what the slot held.
\<close>

definition descend :: "ptr \<Rightarrow> nat \<Rightarrow> ptr \<Rightarrow> mover \<Rightarrow> ('a baker_scheme, mover) comp" where
  "descend objectCopy index back mv =
     (let current = currentObject mv in
      bnd (mem_upd (\<lambda>m. putData m objectCopy index back)) (\<lambda>_.
      bnd (mem (\<lambda>m. getData m current index)) (\<lambda>below.
      bnd (mem_upd (\<lambda>m. putData m current index objectCopy)) (\<lambda>_.
      ret (mv\<lparr>previousObject := current, currentObject := below, mv_phase := Walking\<rparr>)))))"

definition moveBinary :: "u32 \<Rightarrow> mover \<Rightarrow> ('a baker_scheme, mover) comp" where
  "moveBinary dataSize mv =
     bnd (placeCopy (sizeof_TObject + correctPadding dataSize) (TByteObject_new dataSize NULL)) (\<lambda>objectCopy.
     bnd (mem_upd (\<lambda>m. copyBytes m objectCopy (currentObject mv) (unat dataSize))) (\<lambda>_.
     bnd (mem_upd (\<lambda>m. setSize m (currentObject mv) TSize_setRelocated)) (\<lambda>_.
     descend objectCopy 0 (previousObject mv) mv)))"

definition moveOrdinary :: "u32 \<Rightarrow> mover \<Rightarrow> ('a baker_scheme, mover) comp" where
  "moveOrdinary fieldsCount mv =
     bnd (placeCopy (sizeof_TObject + fieldsCount * 4) (TObject_new fieldsCount NULL)) (\<lambda>objectCopy.
     bnd (mem_upd (\<lambda>m. setSize m (currentObject mv) TSize_setRelocated)) (\<lambda>_.
     descend objectCopy (unat fieldsCount) (previousObject mv) mv))"

definition walkStep :: "mover \<Rightarrow> ('a baker_scheme, mover) comp" where
  "walkStep mv =
     (let current = currentObject mv in
      bnd (gets (\<lambda>s. isSmallInteger current \<or> \<not> inOldSpace s current)) (\<lambda>atLeaf.
      if atLeaf then ret (leaveWith current mv) else
      bnd (mem (\<lambda>m. isRelocated m current)) (\<lambda>relocated.
      bnd (mem (\<lambda>m. isBinary m current)) (\<lambda>binary.
      bnd (mem (\<lambda>m. getSize m current)) (\<lambda>sz.
      if relocated
      then bnd (mem (\<lambda>m. getData m current (if binary then 0 else unat sz)))
             (\<lambda>copy. ret (leaveWith copy mv))
      else if binary then moveBinary sz mv else moveOrdinary sz mv)))))"

section \<open>Stage 2: fixing up\<close>

text \<open>
  ``Recovering zero fields'': the null fields below the last visited one need no move.  Returns the
  index the walk continues with.
\<close>

fun recoverZeros :: "objmem \<Rightarrow> ptr \<Rightarrow> ptr \<Rightarrow> nat \<Rightarrow> (nat \<times> objmem) res" where
  "recoverZeros m current objectCopy 0 = Inr (0, m)"
| "recoverZeros m current objectCopy (Suc n) =
     bndR (getData m current (Suc n)) (\<lambda>v.
       if v = NULL then bndR (putData m objectCopy (Suc n) NULL) (\<lambda>m. recoverZeros m current objectCopy n)
       else Inr (Suc n, m))"

definition fixClass :: "mover \<Rightarrow> ('a baker_scheme, mover) comp" where
  "fixClass mv =
     (let current = currentObject mv in
      bnd (mem (\<lambda>m. getData m current 0)) (\<lambda>objectCopy.
      bnd (mem (\<lambda>m. getData m objectCopy 0)) (\<lambda>previous.
      bnd (mem_upd (\<lambda>m. putData m objectCopy 0 (replacement mv))) (\<lambda>_.
      bnd (mem_upd (\<lambda>m. putData m current 0 objectCopy)) (\<lambda>_.
      ret (mv\<lparr>previousObject := previous, replacement := objectCopy, currentObject := previous\<rparr>))))))"

definition fixField :: "u32 \<Rightarrow> mover \<Rightarrow> ('a baker_scheme, mover) comp" where
  "fixField sz mv =
     (let current = currentObject mv in
      bnd (mem (\<lambda>m. getData m current (unat sz))) (\<lambda>objectCopy.
      bnd (mem (\<lambda>m. getData m objectCopy (unat sz))) (\<lambda>previous.
      bnd (mem_upd (\<lambda>m. putData m objectCopy (unat sz) (replacement mv))) (\<lambda>_.
      bnd (gets objs) (\<lambda>m.
      bnd (lift_res (recoverZeros m current objectCopy (unat sz - 1))) (\<lambda>(lastFieldIndex, m).
      bnd (modify (\<lambda>s. s\<lparr>objs := m\<rparr>)) (\<lambda>_.
      bnd (mem_upd (\<lambda>m. setSize m current
             (\<lambda>d. TSize_setRelocated (TSize_setSize (of_nat lastFieldIndex) d)))) (\<lambda>_.
      descend objectCopy lastFieldIndex previous mv))))))))"

definition fixUpStep :: "mover \<Rightarrow> ('a baker_scheme, mover) comp" where
  "fixUpStep mv =
     (let current = currentObject mv in
      if current = NULL then ret (mv\<lparr>mv_phase := Returned\<rparr>) else
      bnd (mem (\<lambda>m. isBinary m current)) (\<lambda>binary.
      bnd (mem (\<lambda>m. getSize m current)) (\<lambda>sz.
      if binary \<or> sz = 0 then fixClass mv else fixField sz mv)))"

section \<open>The loop\<close>

definition moveStep :: "mover \<Rightarrow> ('a baker_scheme, mover) comp" where
  "moveStep mv = (case mv_phase mv of Walking \<Rightarrow> walkStep mv | _ \<Rightarrow> fixUpStep mv)"

partial_function (option) moveLoop ::
  "mover \<Rightarrow> 'a baker_scheme \<Rightarrow> (fault + ptr \<times> 'a baker_scheme) option" where
  "moveLoop mv s =
     (if mv_phase mv = Returned then Some (Inr (replacement mv, s))
      else case moveStep mv s of
             Inl e \<Rightarrow> Some (Inl e)
           | Inr (mv', s') \<Rightarrow> moveLoop mv' s')"

definition moveStart :: "ptr \<Rightarrow> mover" where
  "moveStart p = \<lparr>currentObject = p, previousObject = NULL, replacement = NULL, mv_phase = Walking\<rparr>"

definition moveObject :: "ptr \<Rightarrow> ('a baker_scheme, ptr) comp" where
  "moveObject p s = (case moveLoop (moveStart p) s of None \<Rightarrow> Inl Diverges | Some r \<Rightarrow> r)"

end
