(* ===== verification/Baker.thy ===== *)
theory Baker
  imports MoveObject
begin

text \<open>
  Collection, growth and allocation of \<open>BakerMemoryManager\<close>
  (\<^verbatim>\<open>src/BakerMemoryManager.cpp\<close>), on the state of \<open>BakerState\<close> and the traversal of
  \<open>MoveObject\<close>.
\<close>

section \<open>Collection\<close>

text \<open>The static roots: the slot is read, its object moved and the slot written back.\<close>

fun moveStaticRoots :: "slot list \<Rightarrow> ('a baker_scheme, unit) comp" where
  "moveStaticRoots [] = ret ()"
| "moveStaticRoots (iRoot # roots) =
     bnd (mem (\<lambda>m. getField m (fst iRoot) (snd iRoot))) (\<lambda>v.
     bnd (moveObject v) (\<lambda>v'.
     bnd (mem_upd (\<lambda>m. putField m (fst iRoot) (snd iRoot) v')) (\<lambda>_.
     moveStaticRoots roots)))"

text \<open>The external pointers, from the head of the linked list on.\<close>

fun moveExternalPointers :: "ptr list \<Rightarrow> ('a baker_scheme, ptr list) comp" where
  "moveExternalPointers [] = ret []"
| "moveExternalPointers (p # ps) =
     bnd (moveObject p) (\<lambda>p'.
     bnd (moveExternalPointers ps) (\<lambda>ps'.
     ret (p' # ps')))"

definition moveObjects :: "('a baker_scheme, unit) comp" where
  "moveObjects =
     bnd (gets m_staticRoots) (\<lambda>roots.
     bnd (moveStaticRoots roots) (\<lambda>_.
     bnd (gets m_externalPointers) (\<lambda>ps.
     bnd (moveExternalPointers (rev ps)) (\<lambda>ps'.
     modify (\<lambda>s. s\<lparr>m_externalPointers := rev ps'\<rparr>)))))"

text \<open>The half space sizes of the log are \<open>uint32_t\<close> differences; the timer is not modelled.\<close>

definition usedHeapSize :: "'a baker_scheme \<Rightarrow> u32" where
  "usedHeapSize s = m_heapSize s div 2 - (m_activeHeapPointer s - m_activeHeapBase s)"

definition swapSpaces :: "'a baker_scheme \<Rightarrow> 'a baker_scheme" where
  "swapSpaces s =
     (let active = (if m_activeHeapOne s then m_heapTwo s else m_heapOne s);
          inactive = (if m_activeHeapOne s then m_heapOne s else m_heapTwo s)
      in s\<lparr>m_activeHeapBase := active, m_inactiveHeapBase := inactive,
           m_activeHeapOne := \<not> m_activeHeapOne s,
           m_inactiveHeapPointer := m_activeHeapPointer s,
           m_activeHeapPointer := active + m_heapSize s div 2\<rparr>)"

definition collectGarbage :: "('a baker_scheme, unit) comp" where
  "collectGarbage =
     bnd (gets usedHeapSize) (\<lambda>before.
     bnd (gets m_heapSize) (\<lambda>total.
     bnd (modify swapSpaces) (\<lambda>_.
     bnd moveObjects (\<lambda>_.
     modify (\<lambda>s. s\<lparr>
       objs := clear_block (m_inactiveHeapBase s) (m_heapSize s div 2) (objs s),
       m_memoryInfo := (m_memoryInfo s)
         \<lparr>collectionsCount := collectionsCount (m_memoryInfo s) + 1,
          events := \<lparr>usedHeapSizeBeforeCollect = before, usedHeapSizeAfterCollect = usedHeapSize s,
                     totalHeapSize = total\<rparr> # events (m_memoryInfo s)\<rparr>\<rparr>)))))"

section \<open>Growing\<close>

definition is_aligned_properly :: "u32 \<Rightarrow> bool" where
  "is_aligned_properly x \<longleftrightarrow> x mod 4 = 0"

text \<open>The loop that rounds the new size until its half is aligned.\<close>

definition misaligned :: "u32 \<Rightarrow> nat" where
  "misaligned n = (if is_aligned_properly (n div 2) then 0 else if n mod 4 = 0 then 1 else 2)"

lemma unat_correctPadding_wrap: "unat (correctPadding x) = unat (x + 3) div 4 * 4"
  unfolding correctPadding_def four_minus_one add_diff_eq[symmetric] unat_and_not_mask2 by (simp add: mask_eq_exp_minus_1)

lemma unat_mod_numeral: "unat ((n::u32) mod 4) = unat n mod 4" "unat (n mod 8) = unat n mod 8"
  by (simp_all add: unat_mod)

lemma correctPadding_mod4: "correctPadding x mod 4 = 0"
  by (simp add: word_unat_eq_iff unat_mod_numeral unat_correctPadding_wrap)

lemma half_aligned: "is_aligned_properly (n div 2) \<longleftrightarrow> unat n mod 8 < 2"
proof -
  have "is_aligned_properly (n div 2) \<longleftrightarrow> unat n div 2 mod 4 = 0"
    by (simp add: is_aligned_properly_def word_unat_eq_iff unat_mod unat_div)
  also have "\<dots> \<longleftrightarrow> unat n mod 8 < 2" by presburger
  finally show ?thesis .
qed

lemma correctPadding_next:
  assumes "n mod 4 = 0" "\<not> is_aligned_properly (n div 2)"
  shows "is_aligned_properly (correctPadding (n + 1) div 2)"
proof -
  have m4: "unat n mod 4 = 0" using assms(1) by (simp add: word_unat_eq_iff unat_mod_numeral)
  have m8: "\<not> unat n mod 8 < 2" using assms(2) by (simp add: half_aligned)
  then have n8: "unat n mod 8 = 4" using m4 by presburger
  have "unat (n + 4) mod 8 = 0"
  proof -
    have "unat (n + 4) = (unat n + 4) mod 4294967296" by (simp add: unat_word_ariths)
    moreover have "(unat n + 4) mod 4294967296 mod 8 = (unat n + 4) mod 8" by (rule mod_mod_cancel) simp
    moreover have "(unat n + 4) mod 8 = 0" using n8 by presburger
    ultimately show ?thesis by simp
  qed
  then have "unat (n + 4) div 4 * 4 mod 8 = 0" by presburger
  then show ?thesis by (simp add: half_aligned unat_correctPadding_wrap add.commute)
qed

lemma misaligned_next:
  assumes "\<not> is_aligned_properly (n div 2)"
  shows "misaligned (correctPadding (n + 1)) < misaligned n"
proof (cases "n mod 4 = 0")
  case True
  show ?thesis unfolding misaligned_def using assms True correctPadding_next[OF True assms] by presburger
next
  case False
  show ?thesis unfolding misaligned_def using assms False correctPadding_mod4[of "n + 1"] by simp
qed

function alignHalf :: "u32 \<Rightarrow> u32" where
  "alignHalf newHeapSize =
     (if is_aligned_properly (newHeapSize div 2) then newHeapSize
      else alignHalf (correctPadding (newHeapSize + 1)))"
  by auto
termination
  by (relation "measure misaligned") (simp_all add: misaligned_next)

declare alignHalf.simps [simp del]

text \<open>
  \<open>std::realloc\<close> followed by \<open>memset\<close> to zero: the old block is given back and the new one is
  cleared, so nothing survives the pair.
\<close>

definition reallocHeap :: "ptr \<Rightarrow> u32 \<Rightarrow> u32 \<Rightarrow> ('a baker_scheme, ptr) comp" where
  "reallocHeap oldBlock oldSize newSize =
     bnd (libc_malloc newSize) (\<lambda>heap.
     bnd (guard Aborted (heap \<noteq> NULL)) (\<lambda>_.
     bnd (modify (\<lambda>s. s\<lparr>objs := clear_block heap newSize (clear_block oldBlock oldSize (objs s))\<rparr>)) (\<lambda>_.
     ret heap)))"

text \<open>
  \<open>collectGarbage\<close> is a virtual method: growth and allocation call the one of the manager's class, which
  is their first argument here.
\<close>

definition growHeapWith :: "('a baker_scheme, unit) comp \<Rightarrow> u32 \<Rightarrow> ('a baker_scheme, unit) comp" where
  "growHeapWith collect requestedSize =
     bnd (gets (\<lambda>s. (m_heapSize s, m_activeHeapOne s, m_heapOne s, m_heapTwo s))) (\<lambda>(heapSize, activeIsOne, one, two).
     let newHeapSize = alignHalf (correctPadding (2 * requestedSize + heapSize + heapSize div 2));
         newMediane = newHeapSize div 2
     in bnd (reallocHeap (if activeIsOne then two else one) (heapSize div 2) newMediane) (\<lambda>heap.
        bnd (modify (\<lambda>s. if activeIsOne then s\<lparr>m_heapTwo := heap\<rparr> else s\<lparr>m_heapOne := heap\<rparr>)) (\<lambda>_.
        bnd collect (\<lambda>_.
        bnd (reallocHeap (if activeIsOne then one else two) (heapSize div 2) newMediane) (\<lambda>heap.
        bnd (modify (\<lambda>s. if activeIsOne then s\<lparr>m_heapOne := heap\<rparr> else s\<lparr>m_heapTwo := heap\<rparr>)) (\<lambda>_.
        bnd collect (\<lambda>_.
        modify (\<lambda>s. s\<lparr>m_heapSize := newHeapSize\<rparr>))))))))"

section \<open>Allocation\<close>

text \<open>
  \<open>allocate\<close> returns the block, 0 when it gives up, and \<open>*gcOccured\<close>; \<open>wantsGC\<close> says whether the
  caller passed a \<open>gcOccured\<close> pointer at all.
\<close>

fun allocateLoopWith :: "('a baker_scheme, unit) comp \<Rightarrow> nat \<Rightarrow> u32 \<Rightarrow> bool \<Rightarrow> bool \<Rightarrow> ('a baker_scheme, ptr \<times> bool) comp" where
  "allocateLoopWith collect 0 requestedSize wantsGC gcOccured = ret (NULL, gcOccured)"
| "allocateLoopWith collect (Suc attempts) requestedSize wantsGC gcOccured =
     bnd (gets (\<lambda>s. m_activeHeapPointer s - requestedSize < m_activeHeapBase s)) (\<lambda>full.
     if full
     then bnd collect (\<lambda>_.
          bnd (gets (\<lambda>s. m_activeHeapPointer s - m_activeHeapBase s < m_heapSize s div 16 \<and>
                         m_heapSize s < m_maxHeapSize s)) (\<lambda>mayGrow.
          bnd (if mayGrow then growHeapWith collect requestedSize else ret ()) (\<lambda>_.
          allocateLoopWith collect attempts requestedSize wantsGC (gcOccured \<or> wantsGC))))
     else bnd (modify (\<lambda>s. s\<lparr>m_activeHeapPointer := m_activeHeapPointer s - requestedSize\<rparr>)) (\<lambda>_.
          bnd (gets m_activeHeapPointer) (\<lambda>block.
          bnd (guard AssertFailed (is_aligned_properly block)) (\<lambda>_.
          bnd (modify (\<lambda>s. if wantsGC \<and> \<not> gcOccured
                 then s\<lparr>m_memoryInfo := (m_memoryInfo s)
                        \<lparr>allocationsCount := allocationsCount (m_memoryInfo s) + 1\<rparr>\<rparr>
                 else s)) (\<lambda>_.
          ret (block, gcOccured))))))"

definition allocateWith :: "('a baker_scheme, unit) comp \<Rightarrow> u32 \<Rightarrow> bool \<Rightarrow> ('a baker_scheme, ptr \<times> bool) comp" where
  "allocateWith collect requestedSize wantsGC =
     bnd (guard AssertFailed (requestedSize = correctPadding requestedSize)) (\<lambda>_.
     bnd (gets m_heapSize) (\<lambda>heapSize.
     if requestedSize > heapSize div 2
     then let newHeapSize = correctPadding (2 * requestedSize + heapSize + heapSize div 2)
          in bnd (gets m_maxHeapSize) (\<lambda>maxSize.
             if newHeapSize < maxSize
             then bnd (growHeapWith collect requestedSize) (\<lambda>_. allocateLoopWith collect 2 requestedSize wantsGC wantsGC)
             else ret (NULL, False))
     else allocateLoopWith collect 2 requestedSize wantsGC False))"

definition growHeap :: "u32 \<Rightarrow> ('a baker_scheme, unit) comp" where
  "growHeap = growHeapWith collectGarbage"

definition allocate :: "u32 \<Rightarrow> bool \<Rightarrow> ('a baker_scheme, ptr \<times> bool) comp" where
  "allocate = allocateWith collectGarbage"

definition allocsBeyondCollection :: "'a baker_scheme \<Rightarrow> u32" where
  "allocsBeyondCollection s = allocationsCount (m_memoryInfo s)"

end
