(* ===== verification/MoveCorrect.thy ===== *)
theory MoveCorrect
  imports Baker
begin

text \<open>
  The correctness of the pointer-reversing traversal \<open>moveObject\<close>: started on a pointer into the old
  space it copies the objects reachable from it, each once, into fresh disjoint blocks of the new space,
  replaces every pointer between them by the new address and terminates.  The invariant describes the
  reversed path as a list of open objects; the forwarding map \<open>\<phi>\<close> and the path are the ghost state.
\<close>

section \<open>Objects as lists of pointers\<close>

definition pointers :: "tobject \<Rightarrow> ptr list" where
  "pointers obj = obj_class obj # obj_fields obj"

definition set_pointer :: "nat \<Rightarrow> ptr \<Rightarrow> tobject \<Rightarrow> tobject" where
  "set_pointer i v obj =
     (if i = 0 then obj\<lparr>obj_class := v\<rparr> else obj\<lparr>obj_fields := (obj_fields obj)[i - 1 := v]\<rparr>)"

lemma pointers_set [simp]: "pointers (set_pointer i v obj) = (pointers obj)[i := v]"
  by (cases i) (auto simp: pointers_def set_pointer_def)

lemma set_pointer_simps [simp]:
  "obj_size (set_pointer i v obj) = obj_size obj"
  "obj_bytes (set_pointer i v obj) = obj_bytes obj"
  "ordinary (set_pointer i v obj) = ordinary obj"
  by (simp_all add: set_pointer_def ordinary_def)

lemma pointers_size [simp]: "pointers (obj\<lparr>obj_size := d\<rparr>) = pointers obj" "pointers (obj\<lparr>obj_bytes := bs\<rparr>) = pointers obj"
  by (simp_all add: pointers_def)

lemma length_pointers [simp]: "length (pointers obj) = Suc (length (obj_fields obj))"
  by (simp add: pointers_def)

lemma tobject_eqI:
  "obj_size a = obj_size b \<Longrightarrow> pointers a = pointers b \<Longrightarrow> obj_bytes a = obj_bytes b \<Longrightarrow> a = (b::tobject)"
  by (simp add: pointers_def)

lemma getData_pointers:
  "m p = Some obj \<Longrightarrow> i < length (pointers obj) \<Longrightarrow> i = 0 \<or> ordinary obj \<Longrightarrow>
   getData m p i = Inr (pointers obj ! i)"
  by (cases i) (auto simp: getData_def getClass_def pointers_def getField_ordinary comp_simps)

lemma putData_pointers:
  "m p = Some obj \<Longrightarrow> i < length (pointers obj) \<Longrightarrow> i = 0 \<or> ordinary obj \<Longrightarrow>
   putData m p i v = Inr (m(p \<mapsto> set_pointer i v obj))"
  by (cases i) (auto simp: putData_def setClass_def putField_ordinary comp_simps set_pointer_def)

lemma setSize_Some: "m p = Some obj \<Longrightarrow> setSize m p f = Inr (m(p \<mapsto> obj\<lparr>obj_size := f (obj_size obj)\<rparr>))"
  by (simp add: setSize_def comp_simps)

lemma TSize_new_eta: "\<not> TSize_isRelocated d \<Longrightarrow> TSize_new (TSize_getSize d) (TSize_isBinary d) False = d"
  unfolding TSize_bits TSize_new_def TSize_getSize_def Let_def FLAG_BINARY_def
  apply (rule bit_word_eqI)
  subgoal for n
    apply (cases n) 
    subgoal by (simp add: bit_or_iff bit_push_bit_iff bit_numeral_u32 flip: bit_0)
    subgoal for k by (cases k) (auto simp: bit_or_iff bit_push_bit_iff bit_numeral_u32 bit_drop_bit_eq)
    done
  done

lemma unat_TSize_getSize: "unat (TSize_getSize d) < 2 ^ 30"
  unfolding TSize_getSize_def using unsigned_less[where 'a=nat and w=d]
  by (simp add: unat_drop_bit_eq drop_bit_eq_div unat_div less_mult_imp_div_less)

section \<open>The specification\<close>

text \<open>What a collection makes of a pointer: the small integers and the pointers that do not lead into the
  old space stay, the others are forwarded.\<close>

definition movable :: "'a baker_scheme \<Rightarrow> ptr \<Rightarrow> bool" where
  "movable s v \<longleftrightarrow> \<not> isSmallInteger v \<and> inOldSpace s v"

definition forward :: "'a baker_scheme \<Rightarrow> (ptr \<rightharpoonup> ptr) \<Rightarrow> ptr \<Rightarrow> ptr" where
  "forward s \<phi> v = (if movable s v then the (\<phi> v) else v)"

definition copy_of :: "'a baker_scheme \<Rightarrow> (ptr \<rightharpoonup> ptr) \<Rightarrow> tobject \<Rightarrow> tobject" where
  "copy_of s \<phi> obj = obj\<lparr>obj_class := forward s \<phi> (obj_class obj),
     obj_fields := map (forward s \<phi>) (obj_fields obj)\<rparr>"

text \<open>The live part of the old space: well-formed objects, not yet moved, closed under pointers.\<close>

definition live_set :: "'a baker_scheme \<Rightarrow> objmem \<Rightarrow> ptr set \<Rightarrow> bool" where
  "live_set s m R \<longleftrightarrow> finite R \<and> NULL \<notin> R \<and>
     (\<forall>p\<in>R. movable s p \<and> (\<exists>obj. m p = Some obj \<and> obj_wf obj \<and> \<not> TSize_isRelocated (obj_size obj) \<and>
        (\<forall>v\<in>set (pointers obj). movable s v \<longrightarrow> v \<in> R)))"

section \<open>The invariant of the traversal\<close>

text \<open>Where an object that was moved keeps its new address.\<close>

definition moved_to :: "tobject \<Rightarrow> tobject \<Rightarrow> ptr \<Rightarrow> bool" where
  "moved_to obj obj' q \<longleftrightarrow>
     TSize_isRelocated (obj_size obj') \<and> ordinary obj' = ordinary obj \<and>
     length (pointers obj') = length (pointers obj) \<and>
     (if ordinary obj
      then unat (TSize_getSize (obj_size obj')) < length (pointers obj) \<and>
           pointers obj' ! unat (TSize_getSize (obj_size obj')) = q
      else pointers obj' ! 0 = q)"

definition done_at :: "'a baker_scheme \<Rightarrow> (ptr \<rightharpoonup> ptr) \<Rightarrow> tobject \<Rightarrow> tobject \<Rightarrow> ptr \<Rightarrow> tobject \<Rightarrow> bool" where
  "done_at s \<phi> obj obj' q copy \<longleftrightarrow> moved_to obj obj' q \<and> copy = copy_of s \<phi> obj \<and>
     (\<forall>v\<in>set (pointers obj). movable s v \<longrightarrow> v \<in> dom \<phi>)"

text \<open>
  An object on the reversed path: slot \<open>k\<close> is being moved, the slots below it are as they were, the
  slots above it are done, and slot \<open>k\<close> of the copy leads back to \<open>parent\<close>.
\<close>

definition open_at :: "'a baker_scheme \<Rightarrow> (ptr \<rightharpoonup> ptr) \<Rightarrow> tobject \<Rightarrow> tobject \<Rightarrow> ptr \<Rightarrow> tobject \<Rightarrow> nat \<Rightarrow> ptr \<Rightarrow> bool" where
  "open_at s \<phi> obj obj' q copy k parent \<longleftrightarrow>
     moved_to obj obj' q \<and> k < length (pointers obj) \<and>
     (if ordinary obj then unat (TSize_getSize (obj_size obj')) = k else k = 0) \<and>
     (\<forall>j<k. pointers obj' ! j = pointers obj ! j) \<and>
     obj_size copy = obj_size obj \<and> obj_bytes copy = obj_bytes obj \<and>
     length (pointers copy) = length (pointers obj) \<and> pointers copy ! k = parent \<and>
     (\<forall>j<k. pointers copy ! j = NULL) \<and>
     (\<forall>j. k < j \<longrightarrow> j < length (pointers obj) \<longrightarrow> pointers copy ! j = forward s \<phi> (pointers obj ! j) \<and>
        (movable s (pointers obj ! j) \<longrightarrow> pointers obj ! j \<in> dom \<phi>))"

definition object_states :: "(tobject \<Rightarrow> tobject \<Rightarrow> ptr \<Rightarrow> tobject \<Rightarrow> bool) \<Rightarrow> objmem \<Rightarrow> objmem \<Rightarrow>
    (ptr \<rightharpoonup> ptr) \<Rightarrow> ptr \<Rightarrow> bool" where
  "object_states P m0 m \<phi> p \<longleftrightarrow>
     (\<exists>obj obj' q copy. m0 p = Some obj \<and> m p = Some obj' \<and> \<phi> p = Some q \<and> m q = Some copy \<and> P obj obj' q copy)"

definition done_object :: "'a baker_scheme \<Rightarrow> objmem \<Rightarrow> objmem \<Rightarrow> (ptr \<rightharpoonup> ptr) \<Rightarrow> ptr \<Rightarrow> bool" where
  "done_object s m0 m \<phi> p \<longleftrightarrow> object_states (done_at s \<phi>) m0 m \<phi> p"

definition open_object :: "'a baker_scheme \<Rightarrow> objmem \<Rightarrow> objmem \<Rightarrow> (ptr \<rightharpoonup> ptr) \<Rightarrow> ptr \<Rightarrow> nat \<Rightarrow> ptr \<Rightarrow> bool" where
  "open_object s m0 m \<phi> p k parent \<longleftrightarrow>
     object_states (\<lambda>obj obj' q copy. open_at s \<phi> obj obj' q copy k parent) m0 m \<phi> p"

text \<open>The path from the innermost object outwards, the value each slot of it had, and its links.\<close>

definition path_top :: "(ptr \<times> nat) list \<Rightarrow> ptr" where
  "path_top path = (case path of [] \<Rightarrow> NULL | (p, k) # _ \<Rightarrow> p)"

definition slot_value :: "objmem \<Rightarrow> ptr \<Rightarrow> (ptr \<times> nat) list \<Rightarrow> ptr" where
  "slot_value m0 root path = (case path of [] \<Rightarrow> root | (p, k) # _ \<Rightarrow> pointers (the (m0 p)) ! k)"

fun open_path :: "'a baker_scheme \<Rightarrow> objmem \<Rightarrow> objmem \<Rightarrow> (ptr \<rightharpoonup> ptr) \<Rightarrow> ptr \<Rightarrow> (ptr \<times> nat) list \<Rightarrow> bool" where
  "open_path s m0 m \<phi> root [] = True"
| "open_path s m0 m \<phi> root ((p, k) # path) \<longleftrightarrow>
     open_object s m0 m \<phi> p k (path_top path) \<and> slot_value m0 root path = p \<and> open_path s m0 m \<phi> root path"

text \<open>The copies: fresh blocks below the top of the new space, one below the other.\<close>

definition copies_ok :: "objmem \<Rightarrow> (ptr \<rightharpoonup> ptr) \<Rightarrow> nat \<Rightarrow> nat \<Rightarrow> bool" where
  "copies_ok m0 \<phi> lo hi \<longleftrightarrow>
     (\<forall>p q. \<phi> p = Some q \<longrightarrow> lo \<le> unat q \<and> unat q + object_bytes (the (m0 p)) \<le> hi) \<and>
     (\<forall>p q p' q'. \<phi> p = Some q \<longrightarrow> \<phi> p' = Some q' \<longrightarrow> p \<noteq> p' \<longrightarrow>
        unat q + object_bytes (the (m0 p)) \<le> unat q' \<or> unat q' + object_bytes (the (m0 p')) \<le> unat q)"

definition room :: "objmem \<Rightarrow> ptr set \<Rightarrow> (ptr \<rightharpoonup> ptr) \<Rightarrow> nat" where
  "room m0 R \<phi> = (\<Sum>p\<in>R - dom \<phi>. object_bytes (the (m0 p)))"

definition traversal :: "'a baker_scheme \<Rightarrow> objmem \<Rightarrow> ptr set \<Rightarrow> nat \<Rightarrow> nat \<Rightarrow> (ptr \<rightharpoonup> ptr) \<Rightarrow> ptr \<Rightarrow> (ptr \<times> nat) list \<Rightarrow>
    'a baker_scheme \<Rightarrow> bool" where
  "traversal s0 m0 R lo hi \<phi> root path s \<longleftrightarrow>
     s = s0\<lparr>objs := objs s, m_activeHeapPointer := m_activeHeapPointer s\<rparr> \<and>
     live_set s0 m0 R \<and> dom \<phi> \<subseteq> R \<and> distinct (map fst path) \<and> fst ` set path \<subseteq> dom \<phi> \<and>
     (\<forall>p\<in>R. \<not> (unat (m_activeHeapBase s0) \<le> unat p \<and> unat p < hi)) \<and>
     unat (m_activeHeapPointer s) \<le> hi \<and>
     unat (m_activeHeapBase s0) \<le> lo \<and> lo + room m0 R \<phi> \<le> unat (m_activeHeapPointer s) \<and>
     copies_ok m0 \<phi> (unat (m_activeHeapPointer s)) hi \<and>
     (\<forall>a. a \<notin> dom \<phi> \<longrightarrow> a \<notin> ran \<phi> \<longrightarrow> objs s a = m0 a) \<and>
     (\<forall>p\<in>dom \<phi> - fst ` set path. done_object s0 m0 (objs s) \<phi> p) \<and>
     open_path s0 m0 (objs s) \<phi> root path"

text \<open>The two phases of the machine on top of it.\<close>

definition walking :: "'a baker_scheme \<Rightarrow> objmem \<Rightarrow> ptr set \<Rightarrow> nat \<Rightarrow> nat \<Rightarrow> (ptr \<rightharpoonup> ptr) \<Rightarrow> ptr \<Rightarrow> (ptr \<times> nat) list \<Rightarrow>
    mover \<Rightarrow> 'a baker_scheme \<Rightarrow> bool" where
  "walking s0 m0 R lo hi \<phi> root path mv s \<longleftrightarrow> traversal s0 m0 R lo hi \<phi> root path s \<and>
     mv_phase mv = Walking \<and> currentObject mv = slot_value m0 root path \<and> previousObject mv = path_top path \<and>
     (movable s0 (currentObject mv) \<longrightarrow> currentObject mv \<in> R)"

definition fixing :: "'a baker_scheme \<Rightarrow> objmem \<Rightarrow> ptr set \<Rightarrow> nat \<Rightarrow> nat \<Rightarrow> (ptr \<rightharpoonup> ptr) \<Rightarrow> ptr \<Rightarrow> (ptr \<times> nat) list \<Rightarrow>
    mover \<Rightarrow> 'a baker_scheme \<Rightarrow> bool" where
  "fixing s0 m0 R lo hi \<phi> root path mv s \<longleftrightarrow> traversal s0 m0 R lo hi \<phi> root path s \<and>
     mv_phase mv = FixingUp \<and> currentObject mv = path_top path \<and>
     replacement mv = forward s0 \<phi> (slot_value m0 root path) \<and>
     (movable s0 (slot_value m0 root path) \<longrightarrow> slot_value m0 root path \<in> dom \<phi>)"


section \<open>Lemmas\<close>

lemma pointers_copy_of [simp]: "pointers (copy_of s \<phi> obj) = map (forward s \<phi>) (pointers obj)"
  by (simp add: copy_of_def pointers_def)

lemma copy_of_simps [simp]:
  "obj_size (copy_of s \<phi> obj) = obj_size obj" "obj_bytes (copy_of s \<phi> obj) = obj_bytes obj"
  by (simp_all add: copy_of_def)

lemma forward_extend:
  "\<phi> \<subseteq>\<^sub>m \<phi>' \<Longrightarrow> (movable s v \<longrightarrow> v \<in> dom \<phi>) \<Longrightarrow> forward s \<phi>' v = forward s \<phi> v"
  by (auto simp: forward_def map_le_def dom_def)

lemma copy_of_extend:
  "\<phi> \<subseteq>\<^sub>m \<phi>' \<Longrightarrow> \<forall>v\<in>set (pointers obj). movable s v \<longrightarrow> v \<in> dom \<phi> \<Longrightarrow> copy_of s \<phi>' obj = copy_of s \<phi> obj"
  by (rule tobject_eqI) (auto intro!: map_cong forward_extend)

lemma copies_distinct:
  assumes "copies_ok m0 \<phi> lo hi" and "\<phi> p = Some q" and "\<phi> p' = Some q'" and "p \<noteq> p'"
  shows "q \<noteq> q'"
proof -
  have "unat q + object_bytes (the (m0 p)) \<le> unat q' \<or> unat q' + object_bytes (the (m0 p')) \<le> unat q"
    using assms unfolding copies_ok_def by blast
  then show ?thesis
    using object_bytes_pos[of "the (m0 p)"] object_bytes_pos[of "the (m0 p')"] by auto
qed

lemma object_states_frame:
  assumes "object_states P m0 m \<phi> p" and "m' p = m p" and "m' (the (\<phi> p)) = m (the (\<phi> p))" and "\<phi> \<subseteq>\<^sub>m \<phi>'"
    and "\<And>obj obj' q copy. P obj obj' q copy \<Longrightarrow> P' obj obj' q copy"
  shows "object_states P' m0 m' \<phi>' p"
proof -
  obtain obj obj' q copy where o: "m0 p = Some obj" "m p = Some obj'" "\<phi> p = Some q" "m q = Some copy"
    "P obj obj' q copy" using assms(1) by (auto simp: object_states_def)
  have "\<phi>' p = Some q" using o(3) assms(4) by (auto simp: map_le_def dom_def)
  then show ?thesis unfolding object_states_def using o assms(2,3,5) by auto
qed

lemma done_at_extend:
  assumes "\<phi> \<subseteq>\<^sub>m \<phi>'" and "done_at s \<phi> obj obj' q copy"
  shows "done_at s \<phi>' obj obj' q copy"
proof -
  have "copy_of s \<phi>' obj = copy_of s \<phi> obj"
    using assms(2) by (intro copy_of_extend[OF assms(1)]) (simp add: done_at_def)
  then show ?thesis using assms(2) map_le_implies_dom_le[OF assms(1)] unfolding done_at_def by simp blast
qed

lemma open_at_extend:
  assumes "\<phi> \<subseteq>\<^sub>m \<phi>'" and "open_at s \<phi> obj obj' q copy k parent"
  shows "open_at s \<phi>' obj obj' q copy k parent"
proof -
  have "forward s \<phi>' (pointers obj ! j) = forward s \<phi> (pointers obj ! j)"
    if "k < j" "j < length (pointers obj)" for j
    using that assms(2) unfolding open_at_def by (intro forward_extend[OF assms(1)]) blast
  then show ?thesis
    using assms(2) map_le_implies_dom_le[OF assms(1)] unfolding open_at_def by (simp add: subset_iff)
qed

lemma done_object_frame:
  assumes "done_object s m0 m \<phi> p" and "m' p = m p" and "m' (the (\<phi> p)) = m (the (\<phi> p))" and "\<phi> \<subseteq>\<^sub>m \<phi>'"
  shows "done_object s m0 m' \<phi>' p"
  using assms unfolding done_object_def by (rule object_states_frame) (rule done_at_extend[OF assms(4)])

lemma open_object_frame:
  assumes "open_object s m0 m \<phi> p k parent" and "m' p = m p" and "m' (the (\<phi> p)) = m (the (\<phi> p))" and "\<phi> \<subseteq>\<^sub>m \<phi>'"
  shows "open_object s m0 m' \<phi>' p k parent"
  using assms unfolding open_object_def by (rule object_states_frame) (rule open_at_extend[OF assms(4)])

lemma open_path_frame:
  assumes "open_path s m0 m \<phi> root path"
    and "\<And>p. p \<in> fst ` set path \<Longrightarrow> m' p = m p \<and> m' (the (\<phi> p)) = m (the (\<phi> p))" and "\<phi> \<subseteq>\<^sub>m \<phi>'"
  shows "open_path s m0 m' \<phi>' root path"
  using assms(1,2)
proof (induction path)
  case (Cons e path)
  obtain p k where e: "e = (p, k)" by (cases e)
  then have "open_object s m0 m' \<phi>' p k (path_top path)"
    using Cons.prems by (intro open_object_frame[OF _ _ _ assms(3)]) auto
  then show ?case using Cons e by auto
qed simp

lemma open_path_object:
  "open_path s m0 m \<phi> root path \<Longrightarrow> p \<in> fst ` set path \<Longrightarrow> \<exists>k parent. open_object s m0 m \<phi> p k parent"
proof (induction path)
  case (Cons e path)
  obtain a b where e: "e = (a, b)" by (cases e)
  show ?case
  proof (cases "p = a")
    case True
    then show ?thesis using Cons.prems e by auto
  next
    case False
    then show ?thesis using Cons e by auto
  qed
qed simp

text \<open>Every object that was moved says where it went.\<close>

lemma traversal_moved:
  assumes "traversal s0 m0 R lo hi \<phi> root path s" and "p \<in> dom \<phi>"
  obtains obj obj' q where "m0 p = Some obj" and "objs s p = Some obj'" and "\<phi> p = Some q" and "moved_to obj obj' q"
proof (cases "p \<in> fst ` set path")
  case True
  have "open_path s0 m0 (objs s) \<phi> root path" using assms(1) by (simp add: traversal_def)
  from open_path_object[OF this True] show ?thesis
    using that unfolding open_object_def object_states_def open_at_def by blast
next
  case False
  then have "done_object s0 m0 (objs s) \<phi> p" using assms by (auto simp: traversal_def)
  then show ?thesis using that unfolding done_object_def object_states_def done_at_def by blast
qed

text \<open>The blocks of two different objects are different, old and new.\<close>

lemma traversal_apart:
  assumes "traversal s0 m0 R lo hi \<phi> root path s" and "\<phi> p = Some q" and "r \<in> R"
  shows "r \<noteq> q"
proof -
  have t: "dom \<phi> \<subseteq> R" "\<forall>p\<in>R. \<not> (unat (m_activeHeapBase s0) \<le> unat p \<and> unat p < hi)"
    "unat (m_activeHeapBase s0) \<le> lo \<and> lo + room m0 R \<phi> \<le> unat (m_activeHeapPointer s)"
    "copies_ok m0 \<phi> (unat (m_activeHeapPointer s)) hi"
    using assms(1) unfolding traversal_def by blast+
  have "unat (m_activeHeapPointer s) \<le> unat q" "unat q + object_bytes (the (m0 p)) \<le> hi"
    using t(4) assms(2) unfolding copies_ok_def by blast+
  then have "unat (m_activeHeapBase s0) \<le> unat q" "unat q < hi"
    using conjunct1[OF t(3)] conjunct2[OF t(3)] object_bytes_pos[of "the (m0 p)"] by linarith+
  then show ?thesis using t(2) assms(3) by blast
qed

lemma traversal_frame:
  assumes t: "traversal s0 m0 R lo hi \<phi> root path s" and q: "\<phi> p = Some q" and m: "\<forall>a. a \<noteq> p \<longrightarrow> a \<noteq> q \<longrightarrow> m a = objs s a"
    and r: "r \<in> dom \<phi>" "r \<noteq> p"
  shows "m r = objs s r \<and> m (the (\<phi> r)) = objs s (the (\<phi> r))"
proof -
  obtain r' where r': "\<phi> r = Some r'" using r by auto
  have R: "dom \<phi> \<subseteq> R" and c: "copies_ok m0 \<phi> (unat (m_activeHeapPointer s)) hi"
    using t unfolding traversal_def by blast+
  have "r \<noteq> q" "r' \<noteq> p"
    using traversal_apart[OF t q, of r] traversal_apart[OF t r', of p] R r q by auto
  moreover have "r' \<noteq> q" using copies_distinct[OF c r' q r(2)] .
  ultimately show ?thesis using m r(2) r' by auto
qed


lemma traversal_state:
  assumes "traversal s0 m0 R lo hi \<phi> root path s"
  obtains m ap where "s = s0\<lparr>objs := m, m_activeHeapPointer := ap\<rparr>"
  using assms unfolding traversal_def by blast

lemma traversal_live:
  assumes "traversal s0 m0 R lo hi \<phi> root path s" and "p \<in> R"
  obtains obj where "m0 p = Some obj" and "obj_wf obj" and "\<not> TSize_isRelocated (obj_size obj)" and "movable s0 p"
    and "\<And>v. v \<in> set (pointers obj) \<Longrightarrow> movable s0 v \<Longrightarrow> v \<in> R" and "p \<noteq> NULL"
proof -
  have "live_set s0 m0 R" using assms(1) by (simp add: traversal_def)
  then have "NULL \<notin> R" "movable s0 p" "\<exists>obj. m0 p = Some obj \<and> obj_wf obj \<and> \<not> TSize_isRelocated (obj_size obj) \<and>
        (\<forall>v\<in>set (pointers obj). movable s0 v \<longrightarrow> v \<in> R)"
    using assms(2) unfolding live_set_def by blast+
  then show ?thesis using that assms(2) by blast
qed

lemma traversal_untouched:
  assumes "traversal s0 m0 R lo hi \<phi> root path s" and "p \<in> R" and "p \<notin> dom \<phi>"
  shows "objs s p = m0 p"
proof -
  have "p \<notin> ran \<phi>" using traversal_apart[OF assms(1) _ assms(2)] by (auto simp: ran_def)
  then show ?thesis using assms(1,3) unfolding traversal_def by blast
qed

lemma room_open:
  assumes "finite R" and "p \<in> R" and "p \<notin> dom \<phi>"
  shows "room m0 R \<phi> = object_bytes (the (m0 p)) + room m0 R (\<phi>(p \<mapsto> q))"
proof -
  have "R - dom (\<phi>(p \<mapsto> q)) = (R - dom \<phi>) - {p}" by auto
  then show ?thesis unfolding room_def using assms by (simp add: sum.remove[of "R - dom \<phi>" p])
qed

text \<open>Opening a new object.\<close>

lemma traversal_open:
  assumes t: "traversal s0 m0 R lo hi \<phi> root path s" and p: "p \<in> R" "p \<notin> dom \<phi>" and obj: "m0 p = Some obj"
    and q: "unat q + object_bytes obj = unat (m_activeHeapPointer s)" "unat (m_activeHeapBase s0) \<le> unat q"
    and m: "\<forall>a. a \<noteq> p \<longrightarrow> a \<noteq> q \<longrightarrow> m a = objs s a" "m p = Some obj'" "m q = Some copy"
    and op: "open_at s0 (\<phi>(p \<mapsto> q)) obj obj' q copy k (path_top path)" and sv: "slot_value m0 root path = p"
  shows "traversal s0 m0 R lo hi (\<phi>(p \<mapsto> q)) root ((p, k) # path) (s\<lparr>objs := m, m_activeHeapPointer := q\<rparr>)"
proof -
  let ?\<phi> = "\<phi>(p \<mapsto> q)"
  have tt: "s = s0\<lparr>objs := objs s, m_activeHeapPointer := m_activeHeapPointer s\<rparr>"
     "live_set s0 m0 R" "dom \<phi> \<subseteq> R" "distinct (map fst path)" "fst ` set path \<subseteq> dom \<phi>"
     "\<forall>p\<in>R. \<not> (unat (m_activeHeapBase s0) \<le> unat p \<and> unat p < hi)"
     "unat (m_activeHeapPointer s) \<le> hi"
     "unat (m_activeHeapBase s0) \<le> lo \<and> lo + room m0 R \<phi> \<le> unat (m_activeHeapPointer s)"
     "copies_ok m0 \<phi> (unat (m_activeHeapPointer s)) hi"
     "\<forall>a. a \<notin> dom \<phi> \<longrightarrow> a \<notin> ran \<phi> \<longrightarrow> objs s a = m0 a"
     "\<forall>p\<in>dom \<phi> - fst ` set path. done_object s0 m0 (objs s) \<phi> p"
     "open_path s0 m0 (objs s) \<phi> root path"
    using t unfolding traversal_def by blast+
  have ext: "\<phi> \<subseteq>\<^sub>m ?\<phi>" using p(2) by (auto simp: map_le_def)
  have q_lt: "unat q < unat (m_activeHeapPointer s)" using q(1) object_bytes_pos[of obj] by linarith
  have qR: "r \<noteq> q" if "r \<in> R" for r using tt(6,7) q(2) q_lt that by auto
  have frame: "m r = objs s r \<and> m (the (\<phi> r)) = objs s (the (\<phi> r))" if r: "r \<in> dom \<phi>" for r
  proof -
    obtain r' where r': "\<phi> r = Some r'" using r by auto
    have "r \<noteq> p" "r \<noteq> q" using r p(2) qR tt(3) by auto
    moreover have "r' \<noteq> p" using traversal_apart[OF t r' p(1)] by simp
    moreover have "r' \<noteq> q" using tt(9) r' q_lt unfolding copies_ok_def by fastforce
    ultimately show ?thesis using m(1) r' by simp
  qed
  have fin: "finite R" using tt(2) by (simp add: live_set_def)
  have sb: "m_activeHeapBase s = m_activeHeapBase s0" by (subst tt(1)) simp
  have "copies_ok m0 ?\<phi> (unat q) hi"
    using tt(7,9) q(1) obj p(2) unfolding copies_ok_def
    by (auto split: if_splits) (meson le_trans le_add1 less_imp_le q_lt)+
  moreover have "\<forall>a. a \<notin> dom ?\<phi> \<longrightarrow> a \<notin> ran ?\<phi> \<longrightarrow> m a = m0 a"
    using tt(10) m(1) p(2) by (auto simp: ran_map_upd[of \<phi>] domIff)
  moreover have "done_object s0 m0 m ?\<phi> r" if r: "r \<in> dom ?\<phi> - fst ` set ((p, k) # path)" for r
  proof (rule done_object_frame[OF _ _ _ ext])
    have d: "r \<in> dom \<phi>" "r \<notin> fst ` set path" using r by auto
    show "done_object s0 m0 (objs s) \<phi> r" using d tt(11) by blast
    show "m r = objs s r" "m (the (\<phi> r)) = objs s (the (\<phi> r))" using frame[OF d(1)] by auto
  qed
  moreover have "open_path s0 m0 m ?\<phi> root path"
    using frame tt(5) by (intro open_path_frame[OF tt(12) _ ext]) blast
  moreover have "open_object s0 m0 m ?\<phi> p k (path_top path)"
    unfolding open_object_def object_states_def using obj m(2,3) op by auto
  moreover have "unat (m_activeHeapBase s0) \<le> lo \<and> lo + room m0 R ?\<phi> \<le> unat q"
    using room_open[OF fin p, of m0 q] tt(8) q(1) obj by simp
  moreover have "s\<lparr>objs := m, m_activeHeapPointer := q\<rparr> = s0\<lparr>objs := m, m_activeHeapPointer := q\<rparr>"
    by (subst tt(1)) simp
  ultimately show ?thesis
    unfolding traversal_def using tt(2-7) p q_lt sv by (auto simp: le_trans)
qed


text \<open>Changing the innermost open object and its copy.\<close>

lemma traversal_change:
  assumes t: "traversal s0 m0 R lo hi \<phi> root ((p, k) # path) s" and q: "\<phi> p = Some q"
    and m: "\<forall>a. a \<noteq> p \<longrightarrow> a \<noteq> q \<longrightarrow> m a = objs s a"
  shows "open_path s0 m0 m \<phi> root path" and "slot_value m0 root path = p"
    and "\<And>r. r \<in> dom \<phi> - fst ` set ((p, k) # path) \<Longrightarrow> done_object s0 m0 m \<phi> r"
    and "\<And>path'. (\<And>r. r \<in> dom \<phi> - fst ` set path' \<Longrightarrow> done_object s0 m0 m \<phi> r) \<Longrightarrow>
      open_path s0 m0 m \<phi> root path' \<Longrightarrow> distinct (map fst path') \<Longrightarrow> fst ` set path' \<subseteq> dom \<phi> \<Longrightarrow>
      traversal s0 m0 R lo hi \<phi> root path' (s\<lparr>objs := m\<rparr>)"
proof -
  have tt: "s = s0\<lparr>objs := objs s, m_activeHeapPointer := m_activeHeapPointer s\<rparr>"
     "live_set s0 m0 R" "dom \<phi> \<subseteq> R" "distinct (map fst ((p, k) # path))" "fst ` set ((p, k) # path) \<subseteq> dom \<phi>"
     "\<forall>p\<in>R. \<not> (unat (m_activeHeapBase s0) \<le> unat p \<and> unat p < hi)"
     "unat (m_activeHeapPointer s) \<le> hi"
     "unat (m_activeHeapBase s0) \<le> lo \<and> lo + room m0 R \<phi> \<le> unat (m_activeHeapPointer s)"
     "copies_ok m0 \<phi> (unat (m_activeHeapPointer s)) hi"
     "\<forall>a. a \<notin> dom \<phi> \<longrightarrow> a \<notin> ran \<phi> \<longrightarrow> objs s a = m0 a"
     "\<forall>r\<in>dom \<phi> - fst ` set ((p, k) # path). done_object s0 m0 (objs s) \<phi> r"
     "open_path s0 m0 (objs s) \<phi> root ((p, k) # path)"
    using t unfolding traversal_def by blast+
  have refl: "\<phi> \<subseteq>\<^sub>m \<phi>" by (rule map_le_refl)
  show "slot_value m0 root path = p" using tt(12) by simp
  show "open_path s0 m0 m \<phi> root path"
  proof (rule open_path_frame[OF _ _ refl])
    show "open_path s0 m0 (objs s) \<phi> root path" using tt(12) by simp
    fix r assume "r \<in> fst ` set path"
    then have "r \<in> dom \<phi>" "r \<noteq> p" using tt(4,5) by auto
    then show "m r = objs s r \<and> m (the (\<phi> r)) = objs s (the (\<phi> r))"
      by (rule traversal_frame[OF t q m])
  qed
  show "done_object s0 m0 m \<phi> r" if r: "r \<in> dom \<phi> - fst ` set ((p, k) # path)" for r
  proof (rule done_object_frame[OF _ _ _ refl])
    show "done_object s0 m0 (objs s) \<phi> r" using tt(11) r by blast
    have "m r = objs s r \<and> m (the (\<phi> r)) = objs s (the (\<phi> r))"
      using r by (intro traversal_frame[OF t q m]) auto
    then show "m r = objs s r" "m (the (\<phi> r)) = objs s (the (\<phi> r))" by simp_all
  qed
  fix path'
  assume dn: "\<And>r. r \<in> dom \<phi> - fst ` set path' \<Longrightarrow> done_object s0 m0 m \<phi> r"
    and path: "open_path s0 m0 m \<phi> root path'" "distinct (map fst path')" "fst ` set path' \<subseteq> dom \<phi>"
  have "\<forall>a. a \<notin> dom \<phi> \<longrightarrow> a \<notin> ran \<phi> \<longrightarrow> m a = m0 a"
    using tt(10) m q by (metis domI ranI)
  moreover have "s\<lparr>objs := m\<rparr> = s0\<lparr>objs := m, m_activeHeapPointer := m_activeHeapPointer s\<rparr>"
    by (subst tt(1)) simp
  ultimately show "traversal s0 m0 R lo hi \<phi> root path' (s\<lparr>objs := m\<rparr>)"
    unfolding traversal_def using tt(2,3,6-9) path dn by simp
qed

lemma traversal_reopen:
  assumes t: "traversal s0 m0 R lo hi \<phi> root ((p, k) # path) s" and q: "\<phi> p = Some q"
    and m: "\<forall>a. a \<noteq> p \<longrightarrow> a \<noteq> q \<longrightarrow> m a = objs s a"
    and op: "object_states (\<lambda>obj obj' q copy. open_at s0 \<phi> obj obj' q copy k' (path_top path)) m0 m \<phi> p"
  shows "traversal s0 m0 R lo hi \<phi> root ((p, k') # path) (s\<lparr>objs := m\<rparr>)"
proof (rule traversal_change(4)[OF t q m])
  have d: "distinct (map fst ((p, k) # path))" "fst ` set ((p, k) # path) \<subseteq> dom \<phi>"
    using t unfolding traversal_def by blast+
  then show "distinct (map fst ((p, k') # path))" "fst ` set ((p, k') # path) \<subseteq> dom \<phi>" by simp_all
  show "open_path s0 m0 m \<phi> root ((p, k') # path)"
    using traversal_change(1,2)[OF t q m] op by (simp add: open_object_def)
  show "done_object s0 m0 m \<phi> r" if "r \<in> dom \<phi> - fst ` set ((p, k') # path)" for r
    using traversal_change(3)[OF t q m, of r] that by simp
qed

lemma traversal_close:
  assumes t: "traversal s0 m0 R lo hi \<phi> root ((p, k) # path) s" and q: "\<phi> p = Some q"
    and m: "\<forall>a. a \<noteq> p \<longrightarrow> a \<noteq> q \<longrightarrow> m a = objs s a"
    and op: "object_states (done_at s0 \<phi>) m0 m \<phi> p"
  shows "traversal s0 m0 R lo hi \<phi> root path (s\<lparr>objs := m\<rparr>)"
proof (rule traversal_change(4)[OF t q m])
  have d: "distinct (map fst ((p, k) # path))" "fst ` set ((p, k) # path) \<subseteq> dom \<phi>"
    using t unfolding traversal_def by blast+
  then show "distinct (map fst path)" "fst ` set path \<subseteq> dom \<phi>" by simp_all
  show "open_path s0 m0 m \<phi> root path" by (rule traversal_change(1)[OF t q m])
  show "done_object s0 m0 m \<phi> r" if "r \<in> dom \<phi> - fst ` set path" for r
  proof (cases "r = p")
    case True
    then show ?thesis using op by (simp add: done_object_def)
  next
    case False
    then show ?thesis using traversal_change(3)[OF t q m, of r] that by simp
  qed
qed

section \<open>Walking\<close>

lemma traversal_space:
  assumes "traversal s0 m0 R lo hi \<phi> root path s"
  shows "inOldSpace s v = inOldSpace s0 v" and "m_activeHeapBase s = m_activeHeapBase s0"
proof -
  obtain m ap where s: "s = s0\<lparr>objs := m, m_activeHeapPointer := ap\<rparr>" using traversal_state[OF assms] .
  show "inOldSpace s v = inOldSpace s0 v" "m_activeHeapBase s = m_activeHeapBase s0"
    by (simp_all add: s inOldSpace_def)
qed

lemma walk_leaf:
  assumes w: "walking s0 m0 R lo hi \<phi> root path mv s" and leaf: "\<not> movable s0 (currentObject mv)"
  shows "\<exists>mv'. walkStep mv s = Inr (mv', s) \<and> fixing s0 m0 R lo hi \<phi> root path mv' s"
proof -
  have t: "traversal s0 m0 R lo hi \<phi> root path s" using w by (simp add: walking_def)
  have "walkStep mv s = Inr (leaveWith (currentObject mv) mv, s)"
    using leaf by (auto simp: walkStep_def movable_def Let_def comp_simps traversal_space[OF t])
  moreover have "fixing s0 m0 R lo hi \<phi> root path (leaveWith (currentObject mv) mv) s"
    using w leaf by (simp add: walking_def fixing_def leaveWith_def forward_def)
  ultimately show ?thesis by blast
qed

lemma walk_seen:
  assumes w: "walking s0 m0 R lo hi \<phi> root path mv s" and seen: "movable s0 (currentObject mv)" "currentObject mv \<in> dom \<phi>"
  shows "\<exists>mv'. walkStep mv s = Inr (mv', s) \<and> fixing s0 m0 R lo hi \<phi> root path mv' s"
proof -
  let ?p = "currentObject mv"
  have t: "traversal s0 m0 R lo hi \<phi> root path s" using w by (simp add: walking_def)
  obtain obj obj' q where o: "m0 ?p = Some obj" "objs s ?p = Some obj'" "\<phi> ?p = Some q" "moved_to obj obj' q"
    using traversal_moved[OF t seen(2)] .
  have d: "getData (objs s) ?p (if TSize_isBinary (obj_size obj') then 0 else unat (TSize_getSize (obj_size obj'))) = Inr q"
    using o(2,4) by (subst getData_pointers[where obj = obj']) (auto simp: moved_to_def ordinary_def)
  have "walkStep mv s = Inr (leaveWith q mv, s)"
    using seen(1) o(2,4) d traversal_space(1)[OF t]
    by (simp add: walkStep_def movable_def Let_def comp_simps isRelocated_def isBinary_def getSize_def moved_to_def)
  moreover have "fixing s0 m0 R lo hi \<phi> root path (leaveWith q mv) s"
    using w seen o(3) by (simp add: walking_def fixing_def leaveWith_def forward_def)
  ultimately show ?thesis by blast
qed


lemma descend_exec:
  assumes "objs s c = Some copy" and "objs s p = Some obj" and "currentObject mv = p" and "p \<noteq> c"
    and "i < length (pointers copy)" and "i < length (pointers obj)" and "i = 0 \<or> ordinary copy \<and> ordinary obj"
  shows "descend c i back mv s =
    Inr (mv\<lparr>previousObject := p, currentObject := pointers obj ! i, mv_phase := Walking\<rparr>,
         s\<lparr>objs := (objs s)(c \<mapsto> set_pointer i back copy, p \<mapsto> set_pointer i c obj)\<rparr>)"
proof -
  let ?m = "(objs s)(c \<mapsto> set_pointer i back copy)"
  have "putData (objs s) c i back = Inr ?m"
    using assms by (intro putData_pointers) auto
  moreover have "getData ?m p i = Inr (pointers obj ! i)"
    using assms by (intro getData_pointers) auto
  moreover have "putData ?m p i c = Inr (?m(p \<mapsto> set_pointer i c obj))"
    using assms by (intro putData_pointers) auto
  ultimately show ?thesis
    using assms(3) by (simp add: descend_def Let_def comp_simps)
qed

lemma placeCopy_exec:
  assumes "unat n \<le> unat (m_activeHeapPointer s) - unat (m_activeHeapBase s)"
  shows "placeCopy n obj s = Inr (m_activeHeapPointer s - n,
    s\<lparr>m_activeHeapPointer := m_activeHeapPointer s - n, objs := (objs s)(m_activeHeapPointer s - n \<mapsto> obj)\<rparr>)"
  using assms by (simp add: placeCopy_def Let_def)

lemma moveOrdinary_exec:
  assumes p: "objs s p = Some obj" "currentObject mv = p" and obj: "ordinary obj" "obj_wf obj"
    and sz: "sz = TSize_getSize (obj_size obj)" and q: "q = m_activeHeapPointer s - (sizeof_TObject + sz * 4)" "p \<noteq> q"
    and room: "unat (sizeof_TObject + sz * 4) \<le> unat (m_activeHeapPointer s) - unat (m_activeHeapBase s)"
  shows "moveOrdinary sz mv s =
    Inr (mv\<lparr>previousObject := p, currentObject := pointers obj ! unat sz, mv_phase := Walking\<rparr>,
         s\<lparr>objs := (objs s)(q \<mapsto> set_pointer (unat sz) (previousObject mv) (TObject_new sz NULL),
                       p \<mapsto> set_pointer (unat sz) q (obj\<lparr>obj_size := TSize_setRelocated (obj_size obj)\<rparr>)),
             m_activeHeapPointer := q\<rparr>)"
proof -
  let ?obj = "obj\<lparr>obj_size := TSize_setRelocated (obj_size obj)\<rparr>"
  let ?s = "s\<lparr>m_activeHeapPointer := q, objs := (objs s)(q \<mapsto> TObject_new sz NULL, p \<mapsto> ?obj)\<rparr>"
  have n: "unat sz = length (obj_fields obj)" using obj sz by (simp add: obj_wf_def)
  have sz30: "unat sz < 2 ^ 30" unfolding sz by (rule unat_TSize_getSize)
  have "descend q (unat sz) (previousObject mv) mv ?s =
    Inr (mv\<lparr>previousObject := p, currentObject := pointers ?obj ! unat sz, mv_phase := Walking\<rparr>,
         ?s\<lparr>objs := (objs ?s)(q \<mapsto> set_pointer (unat sz) (previousObject mv) (TObject_new sz NULL),
                  p \<mapsto> set_pointer (unat sz) q ?obj)\<rparr>)"
    using p q n obj sz30 by (intro descend_exec) (auto simp: TObject_new_def ordinary_def)
  then show ?thesis
    using p q placeCopy_exec[OF room] by (simp add: moveOrdinary_def comp_simps setSize_Some fun_upd_twist)
qed

lemma moveBinary_exec:
  assumes p: "objs s p = Some obj" "currentObject mv = p" and obj: "\<not> ordinary obj" "obj_wf obj"
    and sz: "sz = TSize_getSize (obj_size obj)" and q: "q = m_activeHeapPointer s - (sizeof_TObject + correctPadding sz)" "p \<noteq> q"
    and room: "unat (sizeof_TObject + correctPadding sz) \<le> unat (m_activeHeapPointer s) - unat (m_activeHeapBase s)"
  shows "moveBinary sz mv s =
    Inr (mv\<lparr>previousObject := p, currentObject := pointers obj ! 0, mv_phase := Walking\<rparr>,
         s\<lparr>objs := (objs s)(q \<mapsto> set_pointer 0 (previousObject mv) ((TByteObject_new sz NULL)\<lparr>obj_bytes := obj_bytes obj\<rparr>),
                       p \<mapsto> set_pointer 0 q (obj\<lparr>obj_size := TSize_setRelocated (obj_size obj)\<rparr>)),
             m_activeHeapPointer := q\<rparr>)"
proof -
  let ?obj = "obj\<lparr>obj_size := TSize_setRelocated (obj_size obj)\<rparr>"
  let ?copy = "(TByteObject_new sz NULL)\<lparr>obj_bytes := obj_bytes obj\<rparr>"
  let ?m = "(objs s)(q \<mapsto> TByteObject_new sz NULL)"
  let ?s = "s\<lparr>m_activeHeapPointer := q, objs := (objs s)(q \<mapsto> ?copy, p \<mapsto> ?obj)\<rparr>"
  have n: "unat sz = length (obj_bytes obj)" using obj sz by (simp add: obj_wf_def)
  have "copyBytes ?m q p (unat sz) = Inr (?m(q \<mapsto> ?copy))"
    using p q n by (simp add: copyBytes_def comp_simps TByteObject_new_def)
  moreover have "descend q 0 (previousObject mv) mv ?s =
    Inr (mv\<lparr>previousObject := p, currentObject := pointers ?obj ! 0, mv_phase := Walking\<rparr>,
         ?s\<lparr>objs := (objs ?s)(q \<mapsto> set_pointer 0 (previousObject mv) ?copy, p \<mapsto> set_pointer 0 q ?obj)\<rparr>)"
    using p q by (intro descend_exec) auto
  ultimately show ?thesis
    using p q placeCopy_exec[OF room] by (simp add: moveBinary_def comp_simps setSize_Some fun_upd_twist)
qed


lemma unat_object_size:
  "8 + 4 * unat sz < 2 ^ 32 \<Longrightarrow> unat (sizeof_TObject + sz * 4) = 8 + 4 * unat sz"
  "8 + unat (correctPadding sz) < 2 ^ 32 \<Longrightarrow> unat (sizeof_TObject + correctPadding sz) = 8 + unat (correctPadding sz)"
  by (simp_all add: sizeof_TObject_def unat_word_ariths)

lemma open_ordinary:
  assumes obj: "ordinary obj" "obj_wf obj" "\<not> TSize_isRelocated (obj_size obj)" and sz: "sz = TSize_getSize (obj_size obj)"
  shows "open_at s \<phi> obj (set_pointer (unat sz) q (obj\<lparr>obj_size := TSize_setRelocated (obj_size obj)\<rparr>)) q
    (set_pointer (unat sz) parent (TObject_new sz NULL)) (unat sz) parent"
proof -
  have n: "unat sz = length (obj_fields obj)" "obj_bytes obj = []" using obj sz by (simp_all add: obj_wf_def)
  have "TSize_new sz False False = obj_size obj"
    using TSize_new_eta[OF obj(3)] obj(1) sz by (simp add: ordinary_def)
  moreover have "pointers (TObject_new sz NULL) = replicate (Suc (unat sz)) NULL"
    by (simp add: TObject_new_def pointers_def)
  ultimately show ?thesis
    using obj(1) n sz[symmetric] unfolding open_at_def moved_to_def
    by (simp add: TObject_new_def ordinary_def del: replicate_Suc)
qed

lemma open_binary:
  assumes obj: "\<not> ordinary obj" "obj_wf obj" "\<not> TSize_isRelocated (obj_size obj)" and sz: "sz = TSize_getSize (obj_size obj)"
  shows "open_at s \<phi> obj (set_pointer 0 q (obj\<lparr>obj_size := TSize_setRelocated (obj_size obj)\<rparr>)) q
    (set_pointer 0 parent ((TByteObject_new sz NULL)\<lparr>obj_bytes := obj_bytes obj\<rparr>)) 0 parent"
proof -
  have n: "obj_fields obj = []" using obj sz by (simp_all add: obj_wf_def)
  have "TSize_new sz True False = obj_size obj"
    using TSize_new_eta[OF obj(3)] obj(1) sz by (simp add: ordinary_def)
  then show ?thesis
    using obj n sz by (auto simp: open_at_def moved_to_def TByteObject_new_def ordinary_def pointers_def set_pointer_def)
qed

lemma walk_move:
  assumes w: "walking s0 m0 R lo hi \<phi> root path mv s" and p: "p = currentObject mv" "movable s0 p" "p \<notin> dom \<phi>"
  shows "\<exists>mv' s' q k obj. walkStep mv s = Inr (mv', s') \<and> walking s0 m0 R lo hi (\<phi>(p \<mapsto> q)) root ((p, k) # path) mv' s' \<and>
    m0 p = Some obj \<and> k \<le> length (obj_fields obj)"
proof -
  have t: "traversal s0 m0 R lo hi \<phi> root path s" and sv: "slot_value m0 root path = p" and pR: "p \<in> R"
    and top: "previousObject mv = path_top path"
    using w p by (auto simp: walking_def)
  obtain obj where o: "m0 p = Some obj" "obj_wf obj" "\<not> TSize_isRelocated (obj_size obj)"
    "\<And>v. v \<in> set (pointers obj) \<Longrightarrow> movable s0 v \<Longrightarrow> v \<in> R"
    using traversal_live[OF t pR] by metis
  have sp: "objs s p = Some obj" using traversal_untouched[OF t pR p(3)] o(1) by simp
  define sz where "sz = TSize_getSize (obj_size obj)"
  define w where "w = (if ordinary obj then sizeof_TObject + sz * 4 else sizeof_TObject + correctPadding sz)"
  define q where "q = m_activeHeapPointer s - w"
  have fin: "finite R" using t by (simp add: traversal_def live_set_def)
  have base: "unat (m_activeHeapBase s0) + object_bytes obj \<le> unat (m_activeHeapPointer s)"
    using room_open[OF fin pR p(3), of m0 q] o(1) t unfolding traversal_def by simp
  have "object_bytes obj < 2 ^ 32" using base unsigned_less[where 'a=nat and w="m_activeHeapPointer s"] by simp
  then have uw: "unat w = object_bytes obj"
    unfolding w_def object_bytes_def sz_def using unat_object_size by (auto split: if_splits)
  have uq: "unat q + object_bytes obj = unat (m_activeHeapPointer s)"
    unfolding q_def using base uw by (simp add: unat_sub word_le_nat_alt)
  have qb: "unat (m_activeHeapBase s0) \<le> unat q" using uq base by linarith
  have room: "unat w \<le> unat (m_activeHeapPointer s) - unat (m_activeHeapBase s)"
    using base uw traversal_space(2)[OF t] by simp
  have pq: "p \<noteq> q"
  proof
    assume "p = q"
    moreover have "unat q < hi" using t uq object_bytes_pos[of obj] unfolding traversal_def by linarith
    ultimately show False using t pR qb unfolding traversal_def by blast
  qed
  define k where "k = (if ordinary obj then unat sz else 0)"
  have kn: "k \<le> length (obj_fields obj)" using o(2) by (simp add: k_def sz_def obj_wf_def)
  define obj' where "obj' = set_pointer k q (obj\<lparr>obj_size := TSize_setRelocated (obj_size obj)\<rparr>)"
  define copy where "copy = set_pointer k (path_top path)
    (if ordinary obj then TObject_new sz NULL else (TByteObject_new sz NULL)\<lparr>obj_bytes := obj_bytes obj\<rparr>)"
  define m where "m = (objs s)(q \<mapsto> copy, p \<mapsto> obj')"
  define mv' where "mv' = mv\<lparr>previousObject := p, currentObject := pointers obj ! k, mv_phase := Walking\<rparr>"
  define s' where "s' = s\<lparr>objs := m, m_activeHeapPointer := q\<rparr>"
  have "(if ordinary obj then moveOrdinary sz mv s else moveBinary sz mv s) = Inr (mv', s')"
    using moveOrdinary_exec[OF sp p(1)[symmetric] _ o(2) sz_def, of q]
      moveBinary_exec[OF sp p(1)[symmetric] _ o(2) sz_def, of q] pq room top
    unfolding w_def q_def mv'_def s'_def m_def obj'_def copy_def k_def by (simp split: if_splits)
  then have step: "walkStep mv s = Inr (mv', s')"
    using p(1,2) sp o(3) traversal_space(1)[OF t]
    by (simp add: walkStep_def movable_def Let_def comp_simps isRelocated_def isBinary_def getSize_def ordinary_def sz_def
        split: if_splits)
  have "open_at s0 (\<phi>(p \<mapsto> q)) obj obj' q copy k (path_top path)"
    unfolding obj'_def copy_def k_def
    by (cases "ordinary obj") (simp_all add: open_ordinary[OF _ o(2,3) sz_def] open_binary[OF _ o(2,3) sz_def])
  then have "traversal s0 m0 R lo hi (\<phi>(p \<mapsto> q)) root ((p, k) # path) s'"
    unfolding s'_def using pq by (intro traversal_open[OF t pR p(3) o(1) uq qb _ _ _ _ sv]) (auto simp: m_def)
  moreover have "pointers obj ! k \<in> set (pointers obj)" using kn by (intro nth_mem) simp
  ultimately have "walking s0 m0 R lo hi (\<phi>(p \<mapsto> q)) root ((p, k) # path) mv' s'"
    using o(1,4) by (auto simp: walking_def mv'_def slot_value_def path_top_def)
  then show ?thesis using step o(1) kn by blast
qed


section \<open>Fixing up\<close>

lemma fixing_open:
  assumes "fixing s0 m0 R lo hi \<phi> root ((p, k) # path) mv s"
  obtains obj obj' q copy where "m0 p = Some obj" and "objs s p = Some obj'" and "\<phi> p = Some q" and "objs s q = Some copy"
    and "open_at s0 \<phi> obj obj' q copy k (path_top path)" and "p \<noteq> q" and "p \<in> R" and "p \<noteq> NULL" and "k < length (pointers obj)"
proof -
  have t: "traversal s0 m0 R lo hi \<phi> root ((p, k) # path) s" using assms by (simp add: fixing_def)
  then have "open_path s0 m0 (objs s) \<phi> root ((p, k) # path)" "p \<in> dom \<phi>" "dom \<phi> \<subseteq> R"
    unfolding traversal_def by auto
  then obtain obj obj' q copy where o: "m0 p = Some obj" "objs s p = Some obj'" "\<phi> p = Some q" "objs s q = Some copy"
    "open_at s0 \<phi> obj obj' q copy k (path_top path)" "p \<in> R"
    unfolding open_path.simps open_object_def object_states_def by blast
  moreover have "p \<noteq> q" by (rule traversal_apart[OF t o(3) o(6)])
  moreover have "p \<noteq> NULL" using traversal_live[OF t o(6)] by metis
  moreover have "k < length (pointers obj)" using o(5) by (simp add: open_at_def)
  ultimately show ?thesis using that by blast
qed

lemma set_pointer_same:
  "pointers obj ! i = v \<Longrightarrow> i < length (pointers obj) \<Longrightarrow> set_pointer i v obj = obj"
  by (rule tobject_eqI) (auto simp: list_update_same_conv)

lemma fix_class:
  assumes f: "fixing s0 m0 R lo hi \<phi> root ((p, 0) # path) mv s"
  shows "\<exists>mv' s'. fixUpStep mv s = Inr (mv', s') \<and> fixing s0 m0 R lo hi \<phi> root path mv' s'"
proof -
  obtain obj obj' q copy where o: "m0 p = Some obj" "objs s p = Some obj'" "\<phi> p = Some q" "objs s q = Some copy"
    "open_at s0 \<phi> obj obj' q copy 0 (path_top path)" "p \<noteq> q" "p \<in> R" "p \<noteq> NULL" by (rule fixing_open[OF f])
  have t: "traversal s0 m0 R lo hi \<phi> root ((p, 0) # path) s" and cur: "currentObject mv = p"
    and rep: "replacement mv = forward s0 \<phi> (pointers obj ! 0)" and phase: "mv_phase mv = FixingUp"
    and known: "movable s0 (pointers obj ! 0) \<longrightarrow> pointers obj ! 0 \<in> dom \<phi>"
    using f o(1) by (simp_all add: fixing_def path_top_def slot_value_def)
  have q0: "pointers obj' ! 0 = q" and c0: "pointers copy ! 0 = path_top path"
    and small: "TSize_isBinary (obj_size obj') \<or> TSize_getSize (obj_size obj') = 0"
    using o(5) by (auto simp: open_at_def moved_to_def ordinary_def unat_eq_0 split: if_splits)
  define copy' where "copy' = set_pointer 0 (replacement mv) copy"
  define m where "m = (objs s)(q \<mapsto> copy', p \<mapsto> obj')"
  define mv' where "mv' = mv\<lparr>previousObject := path_top path, replacement := q, currentObject := path_top path\<rparr>"
  have "getData (objs s) p 0 = Inr q" using q0 o(2) by (subst getData_pointers) auto
  moreover have "getData (objs s) q 0 = Inr (path_top path)" using c0 o(4) by (subst getData_pointers) auto
  moreover have "putData (objs s) q 0 (replacement mv) = Inr ((objs s)(q \<mapsto> copy'))"
    using o(4) by (subst putData_pointers) (auto simp: copy'_def)
  moreover have "putData ((objs s)(q \<mapsto> copy')) p 0 q = Inr m"
    using o(2,6) q0 set_pointer_same[of obj' 0 q] by (subst putData_pointers) (auto simp: m_def)
  ultimately have step: "fixUpStep mv s = Inr (mv', s\<lparr>objs := m\<rparr>)"
    using cur o(2,8) small
    by (simp add: fixUpStep_def fixClass_def Let_def comp_simps isBinary_def getSize_def mv'_def)
  have "copy' = copy_of s0 \<phi> obj"
  proof (rule tobject_eqI)
    show "pointers copy' = pointers (copy_of s0 \<phi> obj)"
    proof (rule nth_equalityI)
      show "length (pointers copy') = length (pointers (copy_of s0 \<phi> obj))"
        using o(5) by (simp add: copy'_def open_at_def copy_of_def)
      fix j assume "j < length (pointers copy')"
      then have j: "j < length (pointers obj)" "j < length (pointers copy)"
        using o(5) by (simp_all add: copy'_def open_at_def)
      show "pointers copy' ! j = pointers (copy_of s0 \<phi> obj) ! j"
        using o(5) j rep by (cases "j = 0") (simp_all add: copy'_def open_at_def)
    qed
  qed (use o(5) in \<open>simp_all add: copy'_def open_at_def\<close>)
  moreover have "\<forall>v\<in>set (pointers obj). movable s0 v \<longrightarrow> v \<in> dom \<phi>"
  proof
    fix v assume "v \<in> set (pointers obj)"
    then obtain j where "j < length (pointers obj)" "v = pointers obj ! j" by (auto simp: in_set_conv_nth)
    then show "movable s0 v \<longrightarrow> v \<in> dom \<phi>" using known o(5) by (cases "j = 0") (auto simp: open_at_def)
  qed
  ultimately have "object_states (done_at s0 \<phi>) m0 m \<phi> p"
    using o by (auto simp: object_states_def done_at_def open_at_def m_def)
  then have "traversal s0 m0 R lo hi \<phi> root path (s\<lparr>objs := m\<rparr>)"
    by (intro traversal_close[OF t o(3)]) (simp_all add: m_def)
  moreover have "slot_value m0 root path = p" using t by (simp add: traversal_def)
  moreover have "movable s0 p" using traversal_live[OF t o(7)] by metis
  ultimately have "fixing s0 m0 R lo hi \<phi> root path mv' (s\<lparr>objs := m\<rparr>)"
    using o(3) phase by (auto simp: fixing_def mv'_def forward_def)
  then show ?thesis using step by blast
qed

lemma recoverZeros_exec:
  assumes "m p = Some obj" and "m q = Some copy" and "ordinary obj" and "ordinary copy"
    and "n < length (pointers obj)" and "n < length (pointers copy)" and "\<forall>j\<le>n. pointers copy ! j = NULL"
  shows "\<exists>k\<le>n. recoverZeros m p q n = Inr (k, m) \<and> (\<forall>j. k < j \<longrightarrow> j \<le> n \<longrightarrow> pointers obj ! j = NULL)"
  using assms(5-7)
proof (induction n)
  case (Suc n)
  have g: "getData m p (Suc n) = Inr (pointers obj ! Suc n)"
    using Suc.prems assms(1,3) by (intro getData_pointers) auto
  show ?case
  proof (cases "pointers obj ! Suc n = NULL")
    case True
    have "putData m q (Suc n) NULL = Inr (m(q \<mapsto> set_pointer (Suc n) NULL copy))"
      using Suc.prems assms(2,4) by (intro putData_pointers) auto
    moreover have "set_pointer (Suc n) NULL copy = copy" using Suc.prems by (intro set_pointer_same) auto
    ultimately have "recoverZeros m p q (Suc n) = recoverZeros m p q n"
      using g True assms(2) by (simp add: comp_simps fun_upd_idem)
    moreover obtain k where "k \<le> n" "recoverZeros m p q n = Inr (k, m)"
        "\<forall>j. k < j \<longrightarrow> j \<le> n \<longrightarrow> pointers obj ! j = NULL"
      using Suc by auto
    ultimately show ?thesis using True by (intro exI[of _ k]) (auto simp: le_Suc_eq)
  next
    case False
    then show ?thesis using g by (auto simp: comp_simps)
  qed
qed simp

lemma unat_small_nat: "n < 2 ^ 30 \<Longrightarrow> unat (of_nat n :: u32) = n"
  by (simp add: unat_of_nat)

lemma fixField_exec:
  assumes p: "objs s p = Some obj" "currentObject mv = p" and q: "objs s q = Some copy" "p \<noteq> q"
    and ord: "ordinary obj" "ordinary copy" and k: "unat sz = k" "0 < k" "k < length (pointers obj)" "k < length (pointers copy)"
    and slots: "pointers obj ! k = q" "pointers copy ! k = parent" "\<forall>j<k. pointers copy ! j = NULL"
  shows "\<exists>k'<k. (\<forall>j. k' < j \<longrightarrow> j < k \<longrightarrow> pointers obj ! j = NULL) \<and>
    fixField sz mv s = Inr (mv\<lparr>previousObject := p, currentObject := pointers obj ! k', mv_phase := Walking\<rparr>,
      s\<lparr>objs := (objs s)(q \<mapsto> set_pointer k' parent (set_pointer k (replacement mv) copy),
         p \<mapsto> set_pointer k' q (obj\<lparr>obj_size := TSize_setRelocated (TSize_setSize (of_nat k') (obj_size obj))\<rparr>))\<rparr>)"
proof -
  let ?copy = "set_pointer k (replacement mv) copy"
  let ?m = "(objs s)(q \<mapsto> ?copy)"
  have "getData (objs s) p k = Inr q" using p(1) k slots ord by (subst getData_pointers) auto
  moreover have "getData (objs s) q k = Inr parent" using q(1) k slots ord by (subst getData_pointers) auto
  moreover have "putData (objs s) q k (replacement mv) = Inr ?m" using q(1) k ord by (subst putData_pointers) auto
  moreover have "\<exists>k'\<le>k - 1. recoverZeros ?m p q (k - 1) = Inr (k', ?m) \<and> (\<forall>j. k' < j \<longrightarrow> j \<le> k - 1 \<longrightarrow> pointers obj ! j = NULL)"
    using p q ord k slots(3) by (intro recoverZeros_exec[of _ _ _ _ ?copy]) auto
  then obtain k' where k': "k' \<le> k - 1" "recoverZeros ?m p q (k - 1) = Inr (k', ?m)"
    "\<forall>j. k' < j \<longrightarrow> j \<le> k - 1 \<longrightarrow> pointers obj ! j = NULL" by blast
  let ?obj = "obj\<lparr>obj_size := TSize_setRelocated (TSize_setSize (of_nat k') (obj_size obj))\<rparr>"
  let ?s = "s\<lparr>objs := ?m(p \<mapsto> ?obj)\<rparr>"
  have "descend q k' parent mv ?s =
    Inr (mv\<lparr>previousObject := p, currentObject := pointers ?obj ! k', mv_phase := Walking\<rparr>,
         ?s\<lparr>objs := (objs ?s)(q \<mapsto> set_pointer k' parent ?copy, p \<mapsto> set_pointer k' q ?obj)\<rparr>)"
    using p q ord k k'(1) by (intro descend_exec) (auto simp: ordinary_def)
  ultimately have "fixField sz mv s = Inr (mv\<lparr>previousObject := p, currentObject := pointers obj ! k', mv_phase := Walking\<rparr>,
      s\<lparr>objs := (objs s)(q \<mapsto> set_pointer k' parent ?copy, p \<mapsto> set_pointer k' q ?obj)\<rparr>)"
    using p q k(1) k'(2) by (simp add: fixField_def Let_def comp_simps setSize_Some fun_upd_twist)
  moreover have "k' < k" using k'(1) k(2) by simp
  ultimately show ?thesis using k'(3) by (intro exI[of _ k']) auto
qed


lemma forward_NULL:
  assumes "traversal s0 m0 R lo hi \<phi> root path s" and "p \<in> R" and "m0 p = Some obj" and "NULL \<in> set (pointers obj)"
  shows "forward s0 \<phi>' NULL = NULL" and "\<not> movable s0 NULL"
proof -
  have "NULL \<notin> R" using assms(1) by (simp add: traversal_def live_set_def)
  then show "\<not> movable s0 NULL" using traversal_live[OF assms(1,2)] assms(3,4) by (metis option.inject)
  then show "forward s0 \<phi>' NULL = NULL" by (simp add: forward_def)
qed

lemma reopen_at:
  assumes o: "open_at s \<phi> obj obj' q copy k parent" and ord: "ordinary obj" and k': "k' < k"
    and zero: "\<forall>j. k' < j \<longrightarrow> j < k \<longrightarrow> pointers obj' ! j = NULL \<and> \<not> movable s NULL"
    and r: "r = forward s \<phi> (pointers obj ! k)" "movable s (pointers obj ! k) \<longrightarrow> pointers obj ! k \<in> dom \<phi>"
    and small: "k < 2 ^ 30"
  shows "open_at s \<phi> obj
     (set_pointer k' q (obj'\<lparr>obj_size := TSize_setRelocated (TSize_setSize (of_nat k') (obj_size obj'))\<rparr>)) q
     (set_pointer k' parent (set_pointer k r copy)) k' parent"
proof -
  have len: "length (pointers obj') = length (pointers obj)" "length (pointers copy) = length (pointers obj)"
    "k < length (pointers obj)" and ord': "ordinary obj'"
    using o ord unfolding open_at_def moved_to_def by simp_all
  have below: "\<forall>j<k. pointers obj' ! j = pointers obj ! j" and null: "\<forall>j<k. pointers copy ! j = NULL"
    and above: "\<forall>j. k < j \<longrightarrow> j < length (pointers obj) \<longrightarrow> pointers copy ! j = forward s \<phi> (pointers obj ! j) \<and>
        (movable s (pointers obj ! j) \<longrightarrow> pointers obj ! j \<in> dom \<phi>)"
    using o unfolding open_at_def by blast+
  have u: "unat (of_nat k' :: u32) = k'" using k' small by (intro unat_small_nat) simp
  then have g: "TSize_getSize (TSize_setSize (of_nat k') d) = of_nat k'" for d
    using k' small by (intro TSize_getSize_setSize) simp
  let ?obj' = "set_pointer k' q (obj'\<lparr>obj_size := TSize_setRelocated (TSize_setSize (of_nat k') (obj_size obj'))\<rparr>)"
  let ?copy = "set_pointer k' parent (set_pointer k r copy)"
  have dn: "pointers ?copy ! j = forward s \<phi> (pointers obj ! j) \<and> (movable s (pointers obj ! j) \<longrightarrow> pointers obj ! j \<in> dom \<phi>)"
    if j: "k' < j" "j < length (pointers obj)" for j
  proof (cases j k rule: linorder_cases)
    case less
    then have "pointers obj ! j = NULL" using below zero j(1) by simp
    moreover have "\<not> movable s NULL" using zero j(1) less by blast
    ultimately show ?thesis using null less j k' len by (simp add: forward_def)
  next
    case equal
    then show ?thesis using r len k' by simp
  next
    case greater
    then show ?thesis using above j k' by simp
  qed
  have "moved_to obj ?obj' q"
    using ord ord' len k' u g by (simp add: moved_to_def ordinary_def)
  then show ?thesis
    unfolding open_at_def using o ord len k' u g below null dn unfolding open_at_def by simp
qed

lemma fix_field:
  assumes f: "fixing s0 m0 R lo hi \<phi> root ((p, k) # path) mv s" and k: "0 < k"
  shows "\<exists>mv' s' k'. fixUpStep mv s = Inr (mv', s') \<and> walking s0 m0 R lo hi \<phi> root ((p, k') # path) mv' s' \<and> k' < k"
proof -
  obtain obj obj' q copy where o: "m0 p = Some obj" "objs s p = Some obj'" "\<phi> p = Some q" "objs s q = Some copy"
    "open_at s0 \<phi> obj obj' q copy k (path_top path)" "p \<noteq> q" "p \<in> R" "p \<noteq> NULL" "k < length (pointers obj)"
    by (rule fixing_open[OF f])
  have t: "traversal s0 m0 R lo hi \<phi> root ((p, k) # path) s" and cur: "currentObject mv = p"
    and rep: "replacement mv = forward s0 \<phi> (pointers obj ! k)"
    and known: "movable s0 (pointers obj ! k) \<longrightarrow> pointers obj ! k \<in> dom \<phi>"
    using f o(1) by (simp_all add: fixing_def path_top_def slot_value_def)
  have ord: "ordinary obj" "ordinary obj'" "ordinary copy"
    using o(5) k unfolding open_at_def moved_to_def ordinary_def by (auto split: if_splits)
  have uk: "unat (TSize_getSize (obj_size obj')) = k" and len: "k < length (pointers obj')" "k < length (pointers copy)"
    and slots: "pointers obj' ! k = q" "pointers copy ! k = path_top path" "\<forall>j<k. pointers copy ! j = NULL"
    and below: "\<forall>j<k. pointers obj' ! j = pointers obj ! j"
    using o(5) ord unfolding open_at_def moved_to_def by auto
  have k30: "k < 2 ^ 30" using unat_TSize_getSize[of "obj_size obj'"] uk by simp
  let ?obj = "\<lambda>k'. set_pointer k' q (obj'\<lparr>obj_size := TSize_setRelocated (TSize_setSize (of_nat k') (obj_size obj'))\<rparr>)"
  let ?copy = "\<lambda>k'. set_pointer k' (path_top path) (set_pointer k (replacement mv) copy)"
  obtain k' where k': "k' < k" "\<forall>j. k' < j \<longrightarrow> j < k \<longrightarrow> pointers obj' ! j = NULL"
    "fixField (TSize_getSize (obj_size obj')) mv s =
       Inr (mv\<lparr>previousObject := p, currentObject := pointers obj' ! k', mv_phase := Walking\<rparr>,
         s\<lparr>objs := (objs s)(q \<mapsto> ?copy k', p \<mapsto> ?obj k')\<rparr>)"
    using fixField_exec[OF o(2) cur o(4) o(6) ord(2,3) uk k len slots] by blast
  let ?m = "(objs s)(q \<mapsto> ?copy k', p \<mapsto> ?obj k')"
  let ?mv = "mv\<lparr>previousObject := p, currentObject := pointers obj' ! k', mv_phase := Walking\<rparr>"
  have nz: "TSize_getSize (obj_size obj') \<noteq> 0" using uk k by auto
  have step: "fixUpStep mv s = Inr (?mv, s\<lparr>objs := ?m\<rparr>)"
    using cur o(2,8) ord(2) nz k'(3)
    by (simp add: fixUpStep_def Let_def comp_simps isBinary_def getSize_def ordinary_def)
  have zero: "\<forall>j. k' < j \<longrightarrow> j < k \<longrightarrow> pointers obj' ! j = NULL \<and> \<not> movable s0 NULL"
  proof (intro allI impI)
    fix j assume j: "k' < j" "j < k"
    then have "pointers obj ! j = NULL" using below k'(2) by simp
    then have "NULL \<in> set (pointers obj)" using j(2) o(9) by (metis nth_mem order.strict_trans)
    then show "pointers obj' ! j = NULL \<and> \<not> movable s0 NULL"
      using forward_NULL(2)[OF t o(7) o(1)] k'(2) j by blast
  qed
  have "open_at s0 \<phi> obj (?obj k') q (?copy k') k' (path_top path)"
    by (rule reopen_at[OF o(5) ord(1) k'(1) zero rep known k30])
  then have "traversal s0 m0 R lo hi \<phi> root ((p, k') # path) (s\<lparr>objs := ?m\<rparr>)"
    using o(1,3,6) by (intro traversal_reopen[OF t o(3)]) (auto simp: object_states_def)
  moreover have "pointers obj' ! k' = pointers obj ! k'" using below k'(1) by simp
  moreover have "pointers obj ! k' \<in> set (pointers obj)" using k'(1) o(9) by (intro nth_mem) simp
  ultimately have "walking s0 m0 R lo hi \<phi> root ((p, k') # path) ?mv (s\<lparr>objs := ?m\<rparr>)"
    using traversal_live[OF t o(7)] o(1)
    by (auto simp: walking_def path_top_def slot_value_def) 
  then show ?thesis using step k'(1) by blast
qed

lemma fix_end:
  assumes "fixing s0 m0 R lo hi \<phi> root [] mv s"
  shows "fixUpStep mv s = Inr (mv\<lparr>mv_phase := Returned\<rparr>, s)"
  using assms by (simp add: fixing_def path_top_def fixUpStep_def comp_simps)

section \<open>The loop\<close>

text \<open>
  What is left to do: for an object not yet opened twice its slots and a bit more, for an open one twice
  the slots below the current one.
\<close>

definition weight :: "objmem \<Rightarrow> ptr set \<Rightarrow> (ptr \<rightharpoonup> ptr) \<Rightarrow> (ptr \<times> nat) list \<Rightarrow> nat" where
  "weight m0 R \<phi> path = (\<Sum>p\<in>R - dom \<phi>. 2 * length (obj_fields (the (m0 p))) + 4) + sum_list (map (\<lambda>(p, k). 2 * k + 2) path)"

lemma weight_open:
  assumes "finite R" and "p \<in> R" and "p \<notin> dom \<phi>" and "m0 p = Some obj" and "k \<le> length (obj_fields obj)"
  shows "weight m0 R (\<phi>(p \<mapsto> q)) ((p, k) # path) + 2 \<le> weight m0 R \<phi> path"
proof -
  have "R - dom (\<phi>(p \<mapsto> q)) = (R - dom \<phi>) - {p}" by auto
  then show ?thesis unfolding weight_def using assms by (simp add: sum.remove[of "R - dom \<phi>" p])
qed

definition finished :: "'a baker_scheme \<Rightarrow> objmem \<Rightarrow> ptr set \<Rightarrow> nat \<Rightarrow> nat \<Rightarrow> (ptr \<rightharpoonup> ptr) \<Rightarrow> ptr \<Rightarrow>
    (fault + ptr \<times> 'a baker_scheme) option \<Rightarrow> bool" where
  "finished s0 m0 R lo hi \<phi> root r \<longleftrightarrow> (\<exists>\<phi>' s'. r = Some (Inr (forward s0 \<phi>' root, s')) \<and>
     traversal s0 m0 R lo hi \<phi>' root [] s' \<and> \<phi> \<subseteq>\<^sub>m \<phi>' \<and> (movable s0 root \<longrightarrow> root \<in> dom \<phi>'))"

lemma moveLoop_step:
  "mv_phase mv \<noteq> Returned \<Longrightarrow> moveStep mv s = Inr (mv', s') \<Longrightarrow> moveLoop mv s = moveLoop mv' s'"
  by (subst moveLoop.simps) simp

lemma moveLoop_finished:
  "walking s0 m0 R lo hi \<phi> root path mv s \<Longrightarrow> 2 * weight m0 R \<phi> path + 1 = n \<Longrightarrow> finished s0 m0 R lo hi \<phi> root (moveLoop mv s)"
  "fixing s0 m0 R lo hi \<phi> root path mv s \<Longrightarrow> 2 * weight m0 R \<phi> path = n \<Longrightarrow> finished s0 m0 R lo hi \<phi> root (moveLoop mv s)"
proof (induction n arbitrary: \<phi> path mv s rule: less_induct)
  case (less n)
  {
    case 1
    note w = 1(1)
    have ph: "mv_phase mv = Walking" and t: "traversal s0 m0 R lo hi \<phi> root path s" using w by (simp_all add: walking_def)
    have ms: "moveStep mv s = walkStep mv s" using ph by (simp add: moveStep_def)
    show ?case
    proof (cases "movable s0 (currentObject mv) \<and> currentObject mv \<notin> dom \<phi>")
      case False
      then obtain mv' where s: "walkStep mv s = Inr (mv', s)" and f: "fixing s0 m0 R lo hi \<phi> root path mv' s"
        using walk_leaf[OF w] walk_seen[OF w] by blast
      have "finished s0 m0 R lo hi \<phi> root (moveLoop mv' s)" by (rule less.IH(2)[OF _ f refl]) (use 1 in simp)
      then show ?thesis using moveLoop_step[of mv s mv' s] ms ph s by simp
    next
      case True
      let ?p = "currentObject mv"
      obtain mv' s' q k obj where s: "walkStep mv s = Inr (mv', s')"
        and w': "walking s0 m0 R lo hi (\<phi>(?p \<mapsto> q)) root ((?p, k) # path) mv' s'"
        and o: "m0 ?p = Some obj" "k \<le> length (obj_fields obj)"
        using walk_move[OF w refl] True by blast
      have "finite R" "?p \<in> R" using w True unfolding walking_def traversal_def live_set_def by blast+
      then have "weight m0 R (\<phi>(?p \<mapsto> q)) ((?p, k) # path) + 2 \<le> weight m0 R \<phi> path"
        using True o by (intro weight_open) auto
      then have "finished s0 m0 R lo hi (\<phi>(?p \<mapsto> q)) root (moveLoop mv' s')"
        using 1(2) by (intro less.IH(1)[OF _ w' refl]) linarith
      moreover have "\<phi> \<subseteq>\<^sub>m \<phi>(?p \<mapsto> q)" using True by (auto simp: map_le_def)
      ultimately have "finished s0 m0 R lo hi \<phi> root (moveLoop mv' s')"
        unfolding finished_def by (meson map_le_trans)
      then show ?thesis using moveLoop_step[of mv s mv' s'] ms ph s by simp
    qed
  next
    case 2
    note f = 2(1)
    have ph: "mv_phase mv = FixingUp" and t: "traversal s0 m0 R lo hi \<phi> root path s" using f by (simp_all add: fixing_def)
    have ms: "moveStep mv s = fixUpStep mv s" using ph by (simp add: moveStep_def)
    show ?case
    proof (cases path)
      case Nil
      have "moveLoop mv s = moveLoop (mv\<lparr>mv_phase := Returned\<rparr>) s"
        using f Nil fix_end ms ph by (intro moveLoop_step) auto
      also have "\<dots> = Some (Inr (replacement mv, s))" by (subst moveLoop.simps) simp
      finally show ?thesis using f Nil unfolding finished_def fixing_def slot_value_def
        by (metis list.simps(4) map_le_refl)
    next
      case (Cons e path')
      obtain p k where e: "e = (p, k)" by (cases e)
      show ?thesis
      proof (cases "k = 0")
        case True
        obtain mv' s' where s: "fixUpStep mv s = Inr (mv', s')" and f': "fixing s0 m0 R lo hi \<phi> root path' mv' s'"
          using fix_class f Cons e True by blast
        have "weight m0 R \<phi> path' < weight m0 R \<phi> path" by (simp add: weight_def Cons e)
        then have "finished s0 m0 R lo hi \<phi> root (moveLoop mv' s')"
          using 2(2) by (intro less.IH(2)[OF _ f' refl]) simp
        then show ?thesis using moveLoop_step[of mv s mv' s'] ms ph s by simp
      next
        case False
        obtain mv' s' k' where s: "fixUpStep mv s = Inr (mv', s')" and w': "walking s0 m0 R lo hi \<phi> root ((p, k') # path') mv' s'"
          and k': "k' < k"
          using fix_field f Cons e False by blast
        have "weight m0 R \<phi> ((p, k') # path') + 2 \<le> weight m0 R \<phi> path" using k' by (simp add: weight_def Cons e)
        then have "finished s0 m0 R lo hi \<phi> root (moveLoop mv' s')"
          using 2(2) by (intro less.IH(1)[OF _ w' refl]) simp
        then show ?thesis using moveLoop_step[of mv s mv' s'] ms ph s by simp
      qed
    qed
  }
qed


lemma traversal_root: "traversal s0 m0 R lo hi \<phi> root [] s \<Longrightarrow> traversal s0 m0 R lo hi \<phi> root' [] s"
  by (simp add: traversal_def)

lemma moveObject_finished:
  assumes t: "traversal s0 m0 R lo hi \<phi> any [] s" and v: "movable s0 v \<longrightarrow> v \<in> R"
  shows "\<exists>\<phi>' s'. moveObject v s = Inr (forward s0 \<phi>' v, s') \<and> traversal s0 m0 R lo hi \<phi>' any [] s' \<and>
    \<phi> \<subseteq>\<^sub>m \<phi>' \<and> (movable s0 v \<longrightarrow> v \<in> dom \<phi>')"
proof -
  have "walking s0 m0 R lo hi \<phi> v [] (moveStart v) s"
    using traversal_root[OF t] v by (simp add: walking_def moveStart_def slot_value_def path_top_def)
  from moveLoop_finished(1)[OF this refl] show ?thesis
    unfolding finished_def moveObject_def using traversal_root by fastforce
qed

end
