(* ===== verification/CollectCorrect.thy ===== *)
theory CollectCorrect
  imports MoveCorrect
begin

text \<open>
  The correctness of a whole collection (\<open>collectGarbage\<close>, \<open>moveObjects\<close>): the static root slots and
  the external pointers are moved one after the other, each time with the invariant of
  \<open>MoveCorrect\<close>, and the old space is cleared at the end.
\<close>

section \<open>Root slots\<close>

text \<open>A root slot outside both spaces whose value is small, static or live.\<close>

definition root_slot :: "'a baker_scheme \<Rightarrow> objmem \<Rightarrow> ptr set \<Rightarrow> nat \<Rightarrow> slot \<Rightarrow> bool" where
  "root_slot s m R hi sl \<longleftrightarrow> (case sl of (a, i) \<Rightarrow>
     a \<notin> R \<and> \<not> (unat (m_activeHeapBase s) \<le> unat a \<and> unat a < hi) \<and>
     (\<exists>obj. m a = Some obj \<and> ordinary obj \<and> i < length (obj_fields obj) \<and>
       (movable s (obj_fields obj ! i) \<longrightarrow> obj_fields obj ! i \<in> R)))"

definition slot_contents :: "objmem \<Rightarrow> slot \<Rightarrow> ptr" where
  "slot_contents m sl = obj_fields (the (m (fst sl))) ! snd sl"

definition write_slot :: "(ptr \<Rightarrow> ptr) \<Rightarrow> slot \<Rightarrow> objmem \<Rightarrow> objmem" where
  "write_slot f sl m = (case m (fst sl) of None \<Rightarrow> m
     | Some obj \<Rightarrow> m(fst sl \<mapsto> obj\<lparr>obj_fields := (obj_fields obj)[snd sl := f (obj_fields obj ! snd sl)]\<rparr>))"

fun write_slots :: "(ptr \<Rightarrow> ptr) \<Rightarrow> slot list \<Rightarrow> objmem \<Rightarrow> objmem" where
  "write_slots f [] m = m"
| "write_slots f (sl # sls) m = write_slots f sls (write_slot f sl m)"

lemma slot_contents_write:
  "sl \<noteq> sl' \<Longrightarrow> slot_contents (write_slot f sl m) sl' = slot_contents m sl'"
  by (cases sl; cases sl') (auto simp: slot_contents_def write_slot_def split: option.split)

lemma root_slot_write:
  assumes "sl \<noteq> sl'" and "root_slot s m R hi sl'"
  shows "root_slot s (write_slot f sl m) R hi sl'"
proof -
  obtain a i b j where sl: "sl = (a, i)" "sl' = (b, j)" by (cases sl, cases sl')
  show ?thesis using assms unfolding sl by (auto simp: root_slot_def write_slot_def ordinary_def nth_list_update
        split: option.split)
qed

lemma write_slot_cong:
  "f (slot_contents m sl) = g (slot_contents m sl) \<Longrightarrow> write_slot f sl m = write_slot g sl m"
  by (auto simp: write_slot_def slot_contents_def split: option.split)

lemma write_slots_cong:
  "distinct sls \<Longrightarrow> (\<And>sl. sl \<in> set sls \<Longrightarrow> f (slot_contents m sl) = g (slot_contents m sl)) \<Longrightarrow>
   write_slots f sls m = write_slots g sls m"
proof (induction sls arbitrary: m)
  case (Cons sl sls)
  have "write_slot f sl m = write_slot g sl m" using Cons.prems(2)[of sl] by (intro write_slot_cong) simp
  moreover have "write_slots f sls (write_slot g sl m) = write_slots g sls (write_slot g sl m)"
  proof (rule Cons.IH)
    fix sl' assume "sl' \<in> set sls"
    then have "slot_contents (write_slot g sl m) sl' = slot_contents m sl'"
      using Cons.prems(1) by (intro slot_contents_write) auto
    then show "f (slot_contents (write_slot g sl m) sl') = g (slot_contents (write_slot g sl m) sl')"
      using Cons.prems(2)[of sl'] \<open>sl' \<in> set sls\<close> by simp
  qed (use Cons.prems(1) in simp)
  ultimately show ?case by simp
qed simp

lemma write_slot_other: "a \<noteq> fst sl \<Longrightarrow> write_slot f sl m a = m a"
  by (auto simp: write_slot_def split: option.split)

lemma write_slots_other: "a \<notin> fst ` set sls \<Longrightarrow> write_slots f sls m a = m a"
  by (induction sls arbitrary: m) (auto simp: write_slot_other)

lemma root_slot_contents:
  "root_slot s m R hi sl \<Longrightarrow> getField m (fst sl) (snd sl) = Inr (slot_contents m sl)"
  by (cases sl) (auto simp: root_slot_def slot_contents_def getField_ordinary)

lemma root_slot_put:
  "root_slot s m R hi sl \<Longrightarrow> objs t (fst sl) = m (fst sl) \<Longrightarrow>
   putField (objs t) (fst sl) (snd sl) (f (slot_contents m sl)) = Inr (write_slot f sl (objs t))"
  by (cases sl) (auto simp: root_slot_def slot_contents_def write_slot_def putField_ordinary)

text \<open>The objects outside of the old and the new space may change during a traversal.\<close>

lemma done_object_outside:
  "done_object s m0 m \<phi> p \<Longrightarrow> m0' p = m0 p \<Longrightarrow> m' p = m p \<Longrightarrow> m' (the (\<phi> p)) = m (the (\<phi> p)) \<Longrightarrow>
   done_object s m0' m' \<phi> p"
  by (auto simp: done_object_def object_states_def)

lemma traversal_write:
  assumes t: "traversal s0 m0 R lo hi \<phi> root [] s" and a: "a \<notin> R" "\<not> (unat (m_activeHeapBase s0) \<le> unat a \<and> unat a < hi)"
  shows "traversal s0 (m0(a \<mapsto> obj)) R lo hi \<phi> root [] (s\<lparr>objs := (objs s)(a \<mapsto> obj)\<rparr>)"
proof -
  have tt: "s = s0\<lparr>objs := objs s, m_activeHeapPointer := m_activeHeapPointer s\<rparr>"
     "live_set s0 m0 R" "dom \<phi> \<subseteq> R"
     "\<forall>p\<in>R. \<not> (unat (m_activeHeapBase s0) \<le> unat p \<and> unat p < hi)"
     "unat (m_activeHeapPointer s) \<le> hi"
     "unat (m_activeHeapBase s0) \<le> lo \<and> lo + room m0 R \<phi> \<le> unat (m_activeHeapPointer s)"
     "copies_ok m0 \<phi> (unat (m_activeHeapPointer s)) hi"
     "\<forall>a. a \<notin> dom \<phi> \<longrightarrow> a \<notin> ran \<phi> \<longrightarrow> objs s a = m0 a"
     "\<forall>r\<in>dom \<phi>. done_object s0 m0 (objs s) \<phi> r"
    using t unfolding traversal_def by auto
  have m0: "(m0(a \<mapsto> obj)) p = m0 p" if "p \<in> R" for p using a that by auto
  have notcopy: "q \<noteq> a" if q: "\<phi> p = Some q" for p q
  proof -
    have "unat (m_activeHeapPointer s) \<le> unat q" "unat q + object_bytes (the (m0 p)) \<le> hi"
      using tt(7) q unfolding copies_ok_def by blast+
    then show ?thesis using tt(6) a(2) object_bytes_pos[of "the (m0 p)"] by auto
  qed
  have "live_set s0 (m0(a \<mapsto> obj)) R" using tt(2) m0 unfolding live_set_def by simp
  moreover have "room (m0(a \<mapsto> obj)) R \<phi> = room m0 R \<phi>" unfolding room_def using a(1) by (intro sum.cong) auto
  moreover have "copies_ok (m0(a \<mapsto> obj)) \<phi> (unat (m_activeHeapPointer s)) hi"
    using tt(3,7) m0 unfolding copies_ok_def by (metis domI subsetD)
  moreover have "\<forall>r\<in>dom \<phi>. done_object s0 (m0(a \<mapsto> obj)) ((objs s)(a \<mapsto> obj)) \<phi> r"
  proof
    fix r assume r: "r \<in> dom \<phi>"
    then obtain q where q: "\<phi> r = Some q" by auto
    show "done_object s0 (m0(a \<mapsto> obj)) ((objs s)(a \<mapsto> obj)) \<phi> r"
      by (rule done_object_outside[of _ m0 "objs s"]) (use r q tt(3,9) a(1) m0 notcopy in auto)
  qed
  moreover have "s\<lparr>objs := (objs s)(a \<mapsto> obj)\<rparr> =
      s0\<lparr>objs := (objs s)(a \<mapsto> obj), m_activeHeapPointer := m_activeHeapPointer s\<rparr>"
    by (subst tt(1)) simp
  ultimately show ?thesis unfolding traversal_def using tt(3-6,8) by simp
qed


lemma traversal_write_slot:
  assumes t: "traversal s0 m0 R lo hi \<phi> root [] s" and sl: "root_slot s0 m0 R hi sl"
  shows "traversal s0 (write_slot f sl m0) R lo hi \<phi> root [] (s\<lparr>objs := write_slot f sl (objs s)\<rparr>)"
    and "objs s (fst sl) = m0 (fst sl)"
proof -
  obtain a i obj where o: "sl = (a, i)" "a \<notin> R" "\<not> (unat (m_activeHeapBase s0) \<le> unat a \<and> unat a < hi)" "m0 a = Some obj"
    using sl by (cases sl) (auto simp: root_slot_def)
  have "a \<notin> dom \<phi>" using t o(2) by (auto simp: traversal_def)
  moreover have "a \<notin> ran \<phi>"
  proof
    assume "a \<in> ran \<phi>"
    then obtain p where "\<phi> p = Some a" by (auto simp: ran_def)
    then have "unat (m_activeHeapPointer s) \<le> unat a" "unat a + object_bytes (the (m0 p)) \<le> hi"
      using t unfolding traversal_def copies_ok_def by blast+
    moreover have "unat (m_activeHeapBase s0) \<le> unat (m_activeHeapPointer s)"
      using t unfolding traversal_def by linarith
    ultimately show False using o(3) object_bytes_pos[of "the (m0 p)"] by linarith
  qed
  ultimately show e: "objs s (fst sl) = m0 (fst sl)" using t o(1) by (simp add: traversal_def)
  show "traversal s0 (write_slot f sl m0) R lo hi \<phi> root [] (s\<lparr>objs := write_slot f sl (objs s)\<rparr>)"
    using traversal_write[OF t o(2,3)] e o(1,4) by (simp add: write_slot_def)
qed

lemma moveStaticRoots_correct:
  assumes "traversal s0 m0 R lo hi \<phi> any [] s" and "distinct sls" and "\<And>sl. sl \<in> set sls \<Longrightarrow> root_slot s0 m0 R hi sl"
  shows "\<exists>\<phi>' s'. moveStaticRoots sls s = Inr ((), s') \<and> \<phi> \<subseteq>\<^sub>m \<phi>' \<and>
    traversal s0 (write_slots (forward s0 \<phi>') sls m0) R lo hi \<phi>' any [] s' \<and>
    (\<forall>sl\<in>set sls. movable s0 (slot_contents m0 sl) \<longrightarrow> slot_contents m0 sl \<in> dom \<phi>')"
  using assms
proof (induction sls arbitrary: m0 \<phi> s)
  case Nil
  then show ?case by (auto simp: comp_simps intro!: exI[of _ \<phi>])
next
  case (Cons sl sls)
  let ?v = "slot_contents m0 sl"
  have r: "root_slot s0 m0 R hi sl" using Cons.prems(3) by simp
  then have vR: "movable s0 ?v \<longrightarrow> ?v \<in> R" by (cases sl) (auto simp: root_slot_def slot_contents_def)
  have e: "objs s (fst sl) = m0 (fst sl)" by (rule traversal_write_slot(2)[OF Cons.prems(1) r])
  have g: "getField (objs s) (fst sl) (snd sl) = Inr ?v"
    using root_slot_contents[OF r] e by (simp add: getField_def objectAt_def)
  obtain \<phi>1 s1 where m1: "moveObject ?v s = Inr (forward s0 \<phi>1 ?v, s1)" "traversal s0 m0 R lo hi \<phi>1 any [] s1"
    "\<phi> \<subseteq>\<^sub>m \<phi>1" "movable s0 ?v \<longrightarrow> ?v \<in> dom \<phi>1"
    using moveObject_finished[OF Cons.prems(1) vR] by blast
  let ?m0 = "write_slot (forward s0 \<phi>1) sl m0"
  let ?s1 = "s1\<lparr>objs := write_slot (forward s0 \<phi>1) sl (objs s1)\<rparr>"
  have put: "putField (objs s1) (fst sl) (snd sl) (forward s0 \<phi>1 ?v) = Inr (write_slot (forward s0 \<phi>1) sl (objs s1))"
    by (rule root_slot_put[OF r traversal_write_slot(2)[OF m1(2) r]])
  have t1: "traversal s0 ?m0 R lo hi \<phi>1 any [] ?s1" by (rule traversal_write_slot(1)[OF m1(2) r])
  have "\<exists>\<phi>' s'. moveStaticRoots sls ?s1 = Inr ((), s') \<and> \<phi>1 \<subseteq>\<^sub>m \<phi>' \<and>
    traversal s0 (write_slots (forward s0 \<phi>') sls ?m0) R lo hi \<phi>' any [] s' \<and>
    (\<forall>sl'\<in>set sls. movable s0 (slot_contents ?m0 sl') \<longrightarrow> slot_contents ?m0 sl' \<in> dom \<phi>')"
  proof (rule Cons.IH[OF t1])
    show "distinct sls" using Cons.prems(2) by simp
    fix sl' assume "sl' \<in> set sls"
    then show "root_slot s0 ?m0 R hi sl'" using Cons.prems(2,3) by (intro root_slot_write) auto
  qed
  then obtain \<phi>' s' where m2: "moveStaticRoots sls ?s1 = Inr ((), s')" "\<phi>1 \<subseteq>\<^sub>m \<phi>'"
    "traversal s0 (write_slots (forward s0 \<phi>') sls ?m0) R lo hi \<phi>' any [] s'"
    "\<forall>sl'\<in>set sls. movable s0 (slot_contents ?m0 sl') \<longrightarrow> slot_contents ?m0 sl' \<in> dom \<phi>'" by blast
  have "forward s0 \<phi>' ?v = forward s0 \<phi>1 ?v" by (rule forward_extend[OF m2(2) m1(4)])
  then have w: "write_slot (forward s0 \<phi>') sl m0 = ?m0" by (intro write_slot_cong)
  have contents: "slot_contents ?m0 sl' = slot_contents m0 sl'" if "sl' \<in> set sls" for sl'
    using Cons.prems(2) that by (intro slot_contents_write) auto
  have "moveStaticRoots (sl # sls) s = Inr ((), s')"
    using g m1(1) put m2(1) by (simp add: comp_simps)
  moreover have "\<phi> \<subseteq>\<^sub>m \<phi>'" using m1(3) m2(2) by (rule map_le_trans)
  moreover have "movable s0 ?v \<longrightarrow> ?v \<in> dom \<phi>'" using m1(4) map_le_implies_dom_le[OF m2(2)] by blast
  ultimately show ?case using m2(3,4) w contents by auto
qed

lemma moveExternalPointers_correct:
  assumes "traversal s0 m0 R lo hi \<phi> any [] s" and "\<And>v. v \<in> set vs \<Longrightarrow> movable s0 v \<Longrightarrow> v \<in> R"
  shows "\<exists>\<phi>' s'. moveExternalPointers vs s = Inr (map (forward s0 \<phi>') vs, s') \<and> \<phi> \<subseteq>\<^sub>m \<phi>' \<and>
    traversal s0 m0 R lo hi \<phi>' any [] s' \<and> (\<forall>v\<in>set vs. movable s0 v \<longrightarrow> v \<in> dom \<phi>')"
  using assms
proof (induction vs arbitrary: \<phi> s)
  case Nil
  then show ?case by (auto simp: comp_simps intro!: exI[of _ \<phi>])
next
  case (Cons v vs)
  obtain \<phi>1 s1 where m1: "moveObject v s = Inr (forward s0 \<phi>1 v, s1)" "traversal s0 m0 R lo hi \<phi>1 any [] s1"
    "\<phi> \<subseteq>\<^sub>m \<phi>1" "movable s0 v \<longrightarrow> v \<in> dom \<phi>1"
    using moveObject_finished[OF Cons.prems(1), of v] Cons.prems(2) by auto
  obtain \<phi>' s' where m2: "moveExternalPointers vs s1 = Inr (map (forward s0 \<phi>') vs, s')" "\<phi>1 \<subseteq>\<^sub>m \<phi>'"
    "traversal s0 m0 R lo hi \<phi>' any [] s'" "\<forall>v\<in>set vs. movable s0 v \<longrightarrow> v \<in> dom \<phi>'"
    using Cons.IH[OF m1(2)] Cons.prems(2) by auto
  have "forward s0 \<phi>' v = forward s0 \<phi>1 v" by (rule forward_extend[OF m2(2) m1(4)])
  then have "moveExternalPointers (v # vs) s = Inr (map (forward s0 \<phi>') (v # vs), s')"
    using m1(1) m2(1) by (simp add: comp_simps)
  moreover have "\<phi> \<subseteq>\<^sub>m \<phi>'" using m1(3) m2(2) by (rule map_le_trans)
  moreover have "movable s0 v \<longrightarrow> v \<in> dom \<phi>'" using m1(4) map_le_implies_dom_le[OF m2(2)] by blast
  ultimately show ?case using m2(3,4) by auto
qed


lemma write_slots_contents_other:
  "sl \<notin> set sls \<Longrightarrow> slot_contents (write_slots f sls m) sl = slot_contents m sl"
proof (induction sls arbitrary: m)
  case (Cons sl' sls)
  then have "sl' \<noteq> sl" by auto
  then show ?case using Cons slot_contents_write[of sl' sl f m] by simp
qed simp

lemma write_slots_contents:
  "distinct sls \<Longrightarrow> sl \<in> set sls \<Longrightarrow> (\<And>sl. sl \<in> set sls \<Longrightarrow> root_slot s m R hi sl) \<Longrightarrow>
   slot_contents (write_slots f sls m) sl = f (slot_contents m sl)"
proof (induction sls arbitrary: m)
  case (Cons sl' sls)
  have r: "root_slot s m R hi sl'" using Cons.prems(3) by simp
  have rest: "root_slot s (write_slot f sl' m) R hi sl''" if "sl'' \<in> set sls" for sl''
    using Cons.prems(1,3) that by (intro root_slot_write) auto
  show ?case
  proof (cases "sl = sl'")
    case True
    have "slot_contents (write_slot f sl' m) sl' = f (slot_contents m sl')"
      using r by (cases sl') (auto simp: root_slot_def slot_contents_def write_slot_def)
    then show ?thesis using True Cons.prems(1) write_slots_contents_other[of sl' sls f] by simp
  next
    case False
    then have "slot_contents (write_slots f sls (write_slot f sl' m)) sl = f (slot_contents (write_slot f sl' m) sl)"
      using Cons.prems rest by (intro Cons.IH) auto
    then show ?thesis using False slot_contents_write[of sl' sl] by simp
  qed
qed simp

section \<open>A collection\<close>

inductive_set reachable :: "'a baker_scheme \<Rightarrow> objmem \<Rightarrow> ptr set \<Rightarrow> ptr set" for s m V where
  root: "v \<in> V \<Longrightarrow> movable s v \<Longrightarrow> v \<in> reachable s m V"
| pointer: "p \<in> reachable s m V \<Longrightarrow> m p = Some obj \<Longrightarrow> v \<in> set (pointers obj) \<Longrightarrow> movable s v \<Longrightarrow>
    v \<in> reachable s m V"

definition gc_roots :: "'a baker_scheme \<Rightarrow> ptr set" where
  "gc_roots s = set (m_externalPointers s) \<union> slot_contents (objs s) ` set (m_staticRoots s)"

definition gc_live :: "'a baker_scheme \<Rightarrow> ptr set" where
  "gc_live s = reachable (swapSpaces s) (objs s) (gc_roots s)"

definition live_bytes :: "'a baker_scheme \<Rightarrow> nat" where
  "live_bytes s = (\<Sum>p\<in>gc_live s. object_bytes (the (objs s p)))"

text \<open>
  The states a collection may start from: the live objects are well formed and fit into the other
  space, and the root slots lie outside of both spaces.
\<close>

definition collectable :: "'a baker_scheme \<Rightarrow> bool" where
  "collectable s \<longleftrightarrow> (let s0 = swapSpaces s; lo = unat (m_activeHeapBase s0); hi = unat (m_activeHeapPointer s0) in
     live_set s0 (objs s) (gc_live s) \<and>
     (\<forall>p\<in>gc_live s. \<not> (lo \<le> unat p \<and> unat p < hi)) \<and>
     lo + live_bytes s \<le> hi \<and>
     distinct (m_staticRoots s) \<and>
     (\<forall>sl\<in>set (m_staticRoots s). root_slot s0 (objs s) (gc_live s) hi sl \<and>
        \<not> in_block (m_inactiveHeapBase s0) (m_heapSize s div 2) (fst sl)) \<and>
     (\<forall>a. lo \<le> unat a \<and> unat a < hi \<longrightarrow> \<not> in_block (m_inactiveHeapBase s0) (m_heapSize s div 2) a))"

lemma swapSpaces_simps [simp]:
  "objs (swapSpaces s) = objs s" "m_heapSize (swapSpaces s) = m_heapSize s"
  "m_externalPointers (swapSpaces s) = m_externalPointers s" "m_staticRoots (swapSpaces s) = m_staticRoots s"
  by (simp_all add: swapSpaces_def Let_def)

lemma collectable_traversal:
  assumes "collectable s"
  shows "traversal (swapSpaces s) (objs s) (gc_live s) (unat (m_activeHeapPointer (swapSpaces s)) - live_bytes s)
    (unat (m_activeHeapPointer (swapSpaces s))) Map.empty NULL [] (swapSpaces s)"
  using assms unfolding collectable_def Let_def traversal_def
  by (auto simp: room_def copies_ok_def live_bytes_def)

lemma moveObjects_correct:
  assumes c: "collectable s"
  defines "s0 \<equiv> swapSpaces s" and "R \<equiv> gc_live s" and "hi \<equiv> unat (m_activeHeapPointer (swapSpaces s))"
    and "lo \<equiv> unat (m_activeHeapPointer (swapSpaces s)) - live_bytes s"
  shows "\<exists>\<phi> t. moveObjects s0 = Inr ((), t\<lparr>m_externalPointers := map (forward s0 \<phi>) (m_externalPointers s)\<rparr>) \<and>
    traversal s0 (write_slots (forward s0 \<phi>) (m_staticRoots s) (objs s)) R lo hi \<phi> NULL [] t \<and> dom \<phi> = R"
proof -
  have t0: "traversal s0 (objs s) R lo hi Map.empty NULL [] s0"
    unfolding s0_def R_def hi_def lo_def by (rule collectable_traversal[OF c])
  have slots: "distinct (m_staticRoots s)" "\<And>sl. sl \<in> set (m_staticRoots s) \<Longrightarrow> root_slot s0 (objs s) R hi sl"
    using c unfolding collectable_def Let_def s0_def R_def hi_def by auto
  obtain \<phi>1 s1 where m1: "moveStaticRoots (m_staticRoots s) s0 = Inr ((), s1)"
    "traversal s0 (write_slots (forward s0 \<phi>1) (m_staticRoots s) (objs s)) R lo hi \<phi>1 NULL [] s1"
    "\<forall>sl\<in>set (m_staticRoots s). movable s0 (slot_contents (objs s) sl) \<longrightarrow> slot_contents (objs s) sl \<in> dom \<phi>1"
    using moveStaticRoots_correct[OF t0 slots] by blast
  obtain m ap where s1: "s1 = s0\<lparr>objs := m, m_activeHeapPointer := ap\<rparr>" using traversal_state[OF m1(2)] .
  let ?vs = "rev (m_externalPointers s)"
  have "v \<in> R" if "v \<in> set ?vs" "movable s0 v" for v
    using that unfolding R_def s0_def gc_live_def by (intro reachable.root) (auto simp: gc_roots_def)
  then obtain \<phi> t where m2: "moveExternalPointers ?vs s1 = Inr (map (forward s0 \<phi>) ?vs, t)" "\<phi>1 \<subseteq>\<^sub>m \<phi>"
    "traversal s0 (write_slots (forward s0 \<phi>1) (m_staticRoots s) (objs s)) R lo hi \<phi> NULL [] t"
    "\<forall>v\<in>set ?vs. movable s0 v \<longrightarrow> v \<in> dom \<phi>"
    using moveExternalPointers_correct[OF m1(2), of ?vs] by blast
  have w: "write_slots (forward s0 \<phi>1) (m_staticRoots s) (objs s) = write_slots (forward s0 \<phi>) (m_staticRoots s) (objs s)"
  proof (rule write_slots_cong[OF slots(1)])
    fix sl assume "sl \<in> set (m_staticRoots s)"
    then show "forward s0 \<phi>1 (slot_contents (objs s) sl) = forward s0 \<phi> (slot_contents (objs s) sl)"
      using m1(3) forward_extend[OF m2(2), of s0 "slot_contents (objs s) sl"] by simp
  qed
  have dom1: "dom \<phi>1 \<subseteq> dom \<phi>" by (rule map_le_implies_dom_le[OF m2(2)])
  have "moveObjects s0 = Inr ((), t\<lparr>m_externalPointers := map (forward s0 \<phi>) (m_externalPointers s)\<rparr>)"
    using m1(1) m2(1) s1 by (simp add: moveObjects_def comp_simps s0_def rev_map)
  moreover have "p \<in> dom \<phi>" if "p \<in> gc_live s" for p
    using that unfolding gc_live_def
  proof (induction rule: reachable.induct)
    case (root v)
    then show ?case using m1(3) m2(4) dom1 unfolding gc_roots_def s0_def set_rev by blast
  next
    case (pointer p obj v)
    then have p: "p \<in> R" by (simp add: R_def gc_live_def)
    have out: "p \<notin> fst ` set (m_staticRoots s)" using slots(2) p by (fastforce simp: root_slot_def)
    have "done_object s0 (write_slots (forward s0 \<phi>1) (m_staticRoots s) (objs s)) (objs t) \<phi> p"
      using m2(3) pointer.IH by (simp add: traversal_def)
    then have "\<forall>v\<in>set (pointers obj). movable s0 v \<longrightarrow> v \<in> dom \<phi>"
      using pointer.hyps(2) write_slots_other[OF out] by (auto simp: done_object_def object_states_def done_at_def)
    then show ?case using pointer.hyps by (auto simp: s0_def)
  qed
  moreover have "dom \<phi> \<subseteq> R" using m2(3) by (simp add: traversal_def)
  ultimately show ?thesis using m2(3) w unfolding R_def by (intro exI[of _ \<phi>] exI[of _ t]) auto
qed


lemma collectGarbage_graph:
  assumes "collectable s"
  shows "\<exists>f s'. collectGarbage s = Inr ((), s') \<and>
    (\<forall>v. \<not> movable (swapSpaces s) v \<longrightarrow> f v = v) \<and>
    inj_on f (gc_live s) \<and>
    (\<forall>p\<in>gc_live s. \<exists>obj. objs s p = Some obj \<and>
       objs s' (f p) = Some (obj\<lparr>obj_class := f (obj_class obj), obj_fields := map f (obj_fields obj)\<rparr>) \<and>
       unat (m_activeHeapPointer s') \<le> unat (f p) \<and>
       unat (f p) + object_bytes obj \<le> unat (m_activeHeapPointer (swapSpaces s))) \<and>
    unat (m_activeHeapPointer (swapSpaces s)) \<le> unat (m_activeHeapPointer s') + live_bytes s \<and>
    m_externalPointers s' = map f (m_externalPointers s) \<and>
    (\<forall>sl\<in>set (m_staticRoots s). slot_contents (objs s') sl = f (slot_contents (objs s) sl)) \<and>
    (\<forall>a. a \<notin> gc_live s \<longrightarrow> a \<notin> f ` gc_live s \<longrightarrow> a \<notin> fst ` set (m_staticRoots s) \<longrightarrow>
       \<not> in_block (m_inactiveHeapBase (swapSpaces s)) (m_heapSize s div 2) a \<longrightarrow> objs s' a = objs s a)"
proof -
  let ?s0 = "swapSpaces s" and ?R = "gc_live s" and ?hi = "unat (m_activeHeapPointer (swapSpaces s))"
  let ?lo = "?hi - live_bytes s"
  let ?old = "in_block (m_inactiveHeapBase ?s0) (m_heapSize s div 2)"
  obtain \<phi> t where m: "moveObjects ?s0 = Inr ((), t\<lparr>m_externalPointers := map (forward ?s0 \<phi>) (m_externalPointers s)\<rparr>)"
    and t: "traversal ?s0 (write_slots (forward ?s0 \<phi>) (m_staticRoots s) (objs s)) ?R ?lo ?hi \<phi> NULL [] t" and d: "dom \<phi> = ?R"
    using moveObjects_correct[OF assms] by blast
  let ?f = "forward ?s0 \<phi>" and ?m0 = "write_slots (forward ?s0 \<phi>) (m_staticRoots s) (objs s)"
  obtain m' ap where ts: "t = ?s0\<lparr>objs := m', m_activeHeapPointer := ap\<rparr>" using traversal_state[OF t] .
  define s' where "s' = snd (projr (collectGarbage s))"
  have cg: "collectGarbage s = Inr ((), s')" and o': "objs s' = clear_block (m_inactiveHeapBase ?s0) (m_heapSize s div 2) m'"
    and e': "m_externalPointers s' = map ?f (m_externalPointers s)" and ap': "m_activeHeapPointer s' = ap"
    using m unfolding s'_def by (simp_all add: collectGarbage_def comp_simps ts)
  have slots: "distinct (m_staticRoots s)" "\<And>sl. sl \<in> set (m_staticRoots s) \<Longrightarrow> root_slot ?s0 (objs s) ?R ?hi sl"
    "\<And>sl. sl \<in> set (m_staticRoots s) \<Longrightarrow> \<not> ?old (fst sl)"
    and new: "\<And>a. unat (m_activeHeapBase ?s0) \<le> unat a \<Longrightarrow> unat a < ?hi \<Longrightarrow> \<not> ?old a"
    using assms unfolding collectable_def Let_def by auto
  have keep: "objs s' a = m' a" if "\<not> ?old a" for a using that o' by (simp add: clear_block_def)
  have base: "unat (m_activeHeapBase ?s0) \<le> unat ap" and copies: "copies_ok ?m0 \<phi> (unat ap) ?hi"
    and left: "?hi \<le> unat (m_activeHeapPointer s') + live_bytes s"
    using t unfolding traversal_def ts ap' by auto
  have m0: "?m0 p = objs s p" if "p \<in> ?R" for p
    using slots(2) that by (intro write_slots_other) (fastforce simp: root_slot_def)
  have live: "movable ?s0 p \<and> (\<exists>obj. objs s p = Some obj)" if "p \<in> ?R" for p
    using traversal_live[OF t that] m0[OF that] by metis
  have fp: "\<phi> p = Some (?f p)" if "p \<in> ?R" for p
  proof -
    have "p \<in> dom \<phi>" unfolding d by (rule that)
    then obtain q where "\<phi> p = Some q" using domD[of p \<phi>] by blast
    then show ?thesis using live[OF that] by (simp add: forward_def)
  qed
  have where': "unat ap \<le> unat (?f p) \<and> unat (?f p) + object_bytes (the (objs s p)) \<le> ?hi" if "p \<in> ?R" for p
    using copies fp[OF that] m0[OF that] unfolding copies_ok_def by metis
  have copy: "objs s' (?f p) = Some (copy_of ?s0 \<phi> (the (objs s p)))" if p: "p \<in> ?R" for p
  proof -
    have "done_object ?s0 ?m0 m' \<phi> p" using t p d unfolding traversal_def ts by simp
    then have "m' (?f p) = Some (copy_of ?s0 \<phi> (the (objs s p)))"
      using fp[OF p] m0[OF p] by (auto simp: done_object_def object_states_def done_at_def)
    moreover have "\<not> ?old (?f p)"
      using where'[OF p] base object_bytes_pos[of "the (objs s p)"] by (intro new) linarith+
    ultimately show ?thesis using keep by simp
  qed
  have inj: "inj_on ?f ?R"
    using copies_distinct[OF copies] fp by (metis inj_onI)
  have others: "m' a = ?m0 a" if "a \<notin> ?R" "a \<notin> ?f ` ?R" for a
  proof -
    have "a \<notin> ran \<phi>" using that fp d by (auto simp: ran_def) (metis domI imageI option.inject)
    then show ?thesis using t that(1) d unfolding traversal_def ts by auto
  qed
  have roots: "slot_contents (objs s') sl = ?f (slot_contents (objs s) sl)" if sl: "sl \<in> set (m_staticRoots s)" for sl
  proof -
    have a: "fst sl \<notin> ?R" "\<not> (unat (m_activeHeapBase ?s0) \<le> unat (fst sl) \<and> unat (fst sl) < ?hi)"
      using slots(2)[OF sl] by (auto simp: root_slot_def split: prod.splits)
    have "fst sl \<noteq> ?f p" if "p \<in> ?R" for p
      using where'[OF that] base a(2) object_bytes_pos[of "the (objs s p)"] by auto
    then have "objs s' (fst sl) = ?m0 (fst sl)" using others[of "fst sl"] a(1) keep[OF slots(3)[OF sl]] by auto
    then have "slot_contents (objs s') sl = slot_contents ?m0 sl" by (simp add: slot_contents_def)
    then show ?thesis using write_slots_contents[OF slots(1) sl slots(2)] by simp
  qed
  have rest: "objs s' a = objs s a"
    if "a \<notin> ?R" "a \<notin> ?f ` ?R" "a \<notin> fst ` set (m_staticRoots s)" "\<not> ?old a" for a
    using others[OF that(1,2)] keep[OF that(4)] write_slots_other[OF that(3)] by simp
  show ?thesis
  proof (intro exI[of _ ?f] exI[of _ s'] conjI)
    show "\<forall>v. \<not> movable ?s0 v \<longrightarrow> ?f v = v" by (simp add: forward_def)
    show "\<forall>p\<in>?R. \<exists>obj. objs s p = Some obj \<and>
       objs s' (?f p) = Some (obj\<lparr>obj_class := ?f (obj_class obj), obj_fields := map ?f (obj_fields obj)\<rparr>) \<and>
       unat (m_activeHeapPointer s') \<le> unat (?f p) \<and> unat (?f p) + object_bytes obj \<le> ?hi"
      using live copy where' ap' by (fastforce simp: copy_of_def)
  qed (use cg inj e' roots rest left in blast)+
qed

section \<open>Properties\<close>

text \<open>
  C8. A collection preserves the object graph.  From every state whose live objects fit into the other
  space, it ends; every object reachable from the roots is copied to an address of its own in the new
  space, with its size, flags and bytes, and with every pointer replaced by the new address of its
  target; the external pointers and the static root slots are redirected alike; small integers and
  pointers into the static heap are kept, and so is every object outside of the two spaces.
\<close>

theorem collectGarbage_preserves_graph:
  assumes "collectable s"
  shows "\<exists>f s'. collectGarbage s = Inr ((), s') \<and>
    (\<forall>v. \<not> movable (swapSpaces s) v \<longrightarrow> f v = v) \<and>
    inj_on f (gc_live s) \<and>
    (\<forall>p\<in>gc_live s. \<exists>obj. objs s p = Some obj \<and>
       objs s' (f p) = Some (obj\<lparr>obj_class := f (obj_class obj), obj_fields := map f (obj_fields obj)\<rparr>) \<and>
       unat (m_activeHeapPointer s') \<le> unat (f p) \<and>
       unat (f p) + object_bytes obj \<le> unat (m_activeHeapPointer (swapSpaces s))) \<and>
    unat (m_activeHeapPointer (swapSpaces s)) \<le> unat (m_activeHeapPointer s') + live_bytes s \<and>
    m_externalPointers s' = map f (m_externalPointers s) \<and>
    (\<forall>sl\<in>set (m_staticRoots s). slot_contents (objs s') sl = f (slot_contents (objs s) sl)) \<and>
    (\<forall>a. a \<notin> gc_live s \<longrightarrow> a \<notin> f ` gc_live s \<longrightarrow> a \<notin> fst ` set (m_staticRoots s) \<longrightarrow>
       \<not> in_block (m_inactiveHeapBase (swapSpaces s)) (m_heapSize s div 2) a \<longrightarrow> objs s' a = objs s a)"
  by (rule collectGarbage_graph[OF assms])


text \<open>
  A small heap: two half spaces of 64 bytes at 4096 and 8192, a static object at 12288 with a
  registered slot, and in the active space a pair of objects that point to each other and one that
  nothing points to.
\<close>

definition sample_heap_with :: "ptr \<Rightarrow> baker" where
  "sample_heap_with v = baker_new\<lparr>
     objs := [12288 \<mapsto> \<lparr>obj_size = TSize_new 2 False False, obj_class = 12288, obj_fields = [4136, 7], obj_bytes = []\<rparr>,
              4144 \<mapsto> \<lparr>obj_size = TSize_new 1 False False, obj_class = 12288, obj_fields = [4136], obj_bytes = []\<rparr>,
              4136 \<mapsto> \<lparr>obj_size = TSize_new 0 False False, obj_class = 4144, obj_fields = [], obj_bytes = []\<rparr>,
              12304 \<mapsto> \<lparr>obj_size = TSize_new 1 False False, obj_class = 12288, obj_fields = [v], obj_bytes = []\<rparr>,
              4120 \<mapsto> \<lparr>obj_size = TSize_new 3 True False, obj_class = 12288, obj_fields = [], obj_bytes = [1, 2, 3]\<rparr>],
     m_heapSize := 128, m_maxHeapSize := 128, m_heapOne := 4096, m_heapTwo := 8192, m_activeHeapOne := True,
     m_activeHeapBase := 4096, m_activeHeapPointer := 4120, m_inactiveHeapBase := 8192, m_inactiveHeapPointer := 8256,
     m_staticHeapSize := 64, m_staticHeapBase := 12288, m_staticHeapPointer := 12288,
     m_staticRoots := [(12288, 0)], m_externalPointers := [4144, 5]\<rparr>"

lemma sample_heap_space:
  "movable (swapSpaces (sample_heap_with v)) x \<longleftrightarrow> \<not> isSmallInteger x \<and> 4120 \<le> x \<and> x < 4160"
  "m_activeHeapBase (swapSpaces (sample_heap_with v)) = 8192" "m_activeHeapPointer (swapSpaces (sample_heap_with v)) = 8256"
  "m_inactiveHeapBase (swapSpaces (sample_heap_with v)) = 4096"
  by (simp_all add: movable_def inOldSpace_def swapSpaces_def sample_heap_with_def baker_new_def)

lemma sample_heap_fields:
  "objs (sample_heap_with v) 4144 = Some \<lparr>obj_size = TSize_new 1 False False, obj_class = 12288, obj_fields = [4136], obj_bytes = []\<rparr>"
  "objs (sample_heap_with v) 4136 = Some \<lparr>obj_size = TSize_new 0 False False, obj_class = 4144, obj_fields = [], obj_bytes = []\<rparr>"
  "objs (sample_heap_with v) 12288 = Some \<lparr>obj_size = TSize_new 2 False False, obj_class = 12288, obj_fields = [4136, 7], obj_bytes = []\<rparr>"
  "m_heapSize (sample_heap_with v) = 128" "m_staticRoots (sample_heap_with v) = [(12288, 0)]" "m_externalPointers (sample_heap_with v) = [4144, 5]"
  by (simp_all add: sample_heap_with_def baker_new_def)

lemma sample_heap_live: "gc_live (sample_heap_with v) = {4136, 4144}"
proof -
  have roots: "gc_roots (sample_heap_with v) = {4144, 5, 4136}"
    by (auto simp: gc_roots_def sample_heap_with_def slot_contents_def baker_new_def)
  have m: "objs (sample_heap_with v) 4144 = Some \<lparr>obj_size = TSize_new 1 False False, obj_class = 12288, obj_fields = [4136], obj_bytes = []\<rparr>"
    "objs (sample_heap_with v) 4136 = Some \<lparr>obj_size = TSize_new 0 False False, obj_class = 4144, obj_fields = [], obj_bytes = []\<rparr>"
    by (simp_all add: sample_heap_with_def)
  show ?thesis
  proof (intro equalityI subsetI)
    fix p assume "p \<in> gc_live (sample_heap_with v)"
    then show "p \<in> {4136, 4144}" unfolding gc_live_def
    proof (induction rule: reachable.induct)
      case (root v)
      then show ?case by (auto simp: roots sample_heap_space isSmallInteger_def)
    next
      case (pointer p obj v)
      then show ?case using m by (auto simp: pointers_def sample_heap_space)
    qed
  next
    fix p :: ptr assume "p \<in> {4136, 4144}"
    moreover have "x \<in> gc_live (sample_heap_with v)" if "x \<in> {4144, 5, 4136}" "movable (swapSpaces (sample_heap_with v)) x" for x
      unfolding gc_live_def using that by (intro reachable.root) (simp_all add: roots)
    ultimately show "p \<in> gc_live (sample_heap_with v)" by (auto simp: sample_heap_space isSmallInteger_def)
  qed
qed

lemma sample_heap_collectable: "collectable (sample_heap_with v)"
  unfolding collectable_def Let_def sample_heap_live sample_heap_fields
  by (simp add: live_set_def sample_heap_space sample_heap_fields isSmallInteger_def pointers_def obj_wf_def
      ordinary_def object_bytes_def root_slot_def in_block_def live_bytes_def sample_heap_live)

definition sample_heap :: baker where
  "sample_heap = sample_heap_with 7"

lemma collectGarbage_preserves_graph_witness:
  "\<exists>(f :: ptr \<Rightarrow> ptr) s'. collectGarbage sample_heap = Inr ((), s') \<and> m_externalPointers s' = [f 4144, 5] \<and> f 4136 \<noteq> f 4144 \<and>
     slot_contents (objs s') (12288, 0) = f 4136 \<and>
     objs s' (f 4144) = Some \<lparr>obj_size = TSize_new 1 False False, obj_class = 12288, obj_fields = [f 4136], obj_bytes = []\<rparr>"
proof -
  obtain f s' where g: "collectGarbage (sample_heap_with 7) = Inr ((), s')"
    "\<forall>v. \<not> movable (swapSpaces (sample_heap_with 7)) v \<longrightarrow> f v = v" "inj_on f (gc_live (sample_heap_with 7))"
    "\<forall>p\<in>gc_live (sample_heap_with 7). \<exists>obj. objs (sample_heap_with 7) p = Some obj \<and>
       objs s' (f p) = Some (obj\<lparr>obj_class := f (obj_class obj), obj_fields := map f (obj_fields obj)\<rparr>)"
    "m_externalPointers s' = map f (m_externalPointers (sample_heap_with 7))"
    "\<forall>sl\<in>set (m_staticRoots (sample_heap_with 7)). slot_contents (objs s') sl = f (slot_contents (objs (sample_heap_with 7)) sl)"
    using collectGarbage_preserves_graph[OF sample_heap_collectable[of 7]] by blast
  have "f 5 = 5" "f 12288 = 12288" using g(2) by (simp_all add: sample_heap_space isSmallInteger_def)
  then show ?thesis
    using g(1,3-6) unfolding sample_heap_live
    by (intro exI[of _ f] exI[of _ s']) (auto simp: sample_heap_def sample_heap_fields slot_contents_def inj_on_def)
qed

end
