(* ===== verification/BakerFrame.thy ===== *)
theory BakerFrame
  imports Baker
begin

text \<open>
  What the operations of the Baker manager leave alone: a collection, an extension of the heap and an
  allocation keep the number of registered external pointers and static roots, the static heap, the
  limits, the answers of the C library still to come, and every field of the record that extends the
  manager's (the virtual machine's own state).  The facts are collected under frames_intro and
  manages_intro, so that a handler that calls the manager is covered by applying rules.
\<close>

section \<open>What the traversal leaves alone\<close>

definition frame_ok :: "'a baker_scheme \<Rightarrow> 'a baker_scheme \<Rightarrow> bool" where
  "frame_ok s s' \<longleftrightarrow> (\<exists>m ap. s' = s\<lparr>objs := m, m_activeHeapPointer := ap\<rparr> \<and>
     ap mod 4 = m_activeHeapPointer s mod 4)"

definition frames :: "('a baker_scheme, 'x) comp \<Rightarrow> bool" where
  "frames c \<longleftrightarrow> (\<forall>s x s'. c s = Inr (x, s') \<longrightarrow> frame_ok s s')"

lemma frame_ok_refl: "frame_ok s s"
  unfolding frame_ok_def by (intro exI[of _ "objs s"] exI[of _ "m_activeHeapPointer s"]) simp

lemma frame_ok_trans: "frame_ok s t \<Longrightarrow> frame_ok t u \<Longrightarrow> frame_ok s u"
  unfolding frame_ok_def by fastforce

named_theorems frames_intro

lemma frames_bnd [frames_intro]:
  assumes "frames c" and "\<And>x. frames (f x)"
  shows "frames (bnd c f)"
  unfolding frames_def
proof (intro allI impI)
  fix s y u assume "bnd c f s = Inr (y, u)"
  then obtain x t where "c s = Inr (x, t)" "f x t = Inr (y, u)" by (rule bnd_InrE)
  then have "frame_ok s t" "frame_ok t u" using assms unfolding frames_def by blast+
  then show "frame_ok s u" by (rule frame_ok_trans)
qed

lemma frames_pure:
  assumes "\<And>s x s'. c s = Inr (x, s') \<Longrightarrow> s' = s"
  shows "frames c"
  unfolding frames_def using assms frame_ok_refl by metis

lemma frames_reads [frames_intro]:
  "frames (ret x)" "frames (gets g)" "frames (guard e b)" "frames (lift_res r)" "frames (mem h)" "frames (raise e)"
  by (rule frames_pure; simp add: comp_simps split: if_splits sum.splits)+

lemma frame_ok_objs: "frame_ok s (s\<lparr>objs := m\<rparr>)"
  unfolding frame_ok_def by (intro exI[of _ m] exI[of _ "m_activeHeapPointer s"]) simp

lemma frames_modify [frames_intro]: "frames (modify (\<lambda>s. s\<lparr>objs := m\<rparr>))"
  unfolding frames_def by (auto simp: comp_simps frame_ok_objs)

lemma frames_mem_upd [frames_intro]: "frames (mem_upd k)"
  unfolding frames_def by (auto simp: comp_simps frame_ok_objs split: sum.splits)

lemma mod4_uint: "(x :: u32) mod 4 = y mod 4 \<longleftrightarrow> uint x mod 4 = uint y mod 4"
  by (simp add: word_uint_eq_iff uint_mod)

lemma subtract_mod4:
  assumes "n mod 4 = 0"
  shows "(x - n) mod 4 = (x :: u32) mod 4"
proof -
  have n: "uint n mod 4 = 0" using assms mod4_uint[of n 0] by simp
  have "uint (x - n) mod 4 = (uint x - uint n) mod 4"
    unfolding uint_word_ariths(2) by (simp add: mod_mod_cancel)
  then show ?thesis unfolding mod4_uint using n by presburger
qed

lemma frames_placeCopy:
  assumes "n mod 4 = 0"
  shows "frames (placeCopy n obj)"
  unfolding frames_def
proof (intro allI impI)
  fix s p s' assume "placeCopy n obj s = Inr (p, s')"
  then have "s' = s\<lparr>m_activeHeapPointer := m_activeHeapPointer s - n, objs := (objs s)(m_activeHeapPointer s - n \<mapsto> obj)\<rparr>"
    by (auto simp: placeCopy_def Let_def split: if_splits)
  also have "\<dots> = s\<lparr>objs := (objs s)(m_activeHeapPointer s - n \<mapsto> obj), m_activeHeapPointer := m_activeHeapPointer s - n\<rparr>"
    by simp
  finally show "frame_ok s s'" using subtract_mod4[OF assms] unfolding frame_ok_def by blast
qed

lemma block_size_mod4 [frames_intro]:
  "(sizeof_TObject + correctPadding d) mod 4 = 0" "(sizeof_TObject + n * 4) mod 4 = 0"
proof -
  have add: "(a + b) mod 4 = 0" if "a mod 4 = 0" "b mod 4 = 0" for a b :: u32
    using subtract_mod4[OF that(2), of "a + b"] that(1) by simp
  have four: "(n * 4) mod 4 = (0::u32)"
  proof -
    have "uint (n * 4) mod 4 = 0" unfolding uint_word_ariths(3) by (simp add: mod_mod_cancel)
    then show ?thesis using mod4_uint[of "n * 4" 0] by simp
  qed
  have "sizeof_TObject mod 4 = 0" by (simp add: sizeof_TObject_def)
  then show "(sizeof_TObject + correctPadding d) mod 4 = 0" "(sizeof_TObject + n * 4) mod 4 = 0"
    by (simp_all only: add[OF _ correctPadding_mod4] add[OF _ four])
qed

lemma frames_if [frames_intro]: "(b \<Longrightarrow> frames c) \<Longrightarrow> (\<not> b \<Longrightarrow> frames d) \<Longrightarrow> frames (if b then c else d)"
  by simp

lemma frames_prod [frames_intro]: "(\<And>x y. frames (f x y)) \<Longrightarrow> frames (case z of (x, y) \<Rightarrow> f x y)"
  by (cases z) simp

lemma frames_descend [frames_intro]: "frames (descend c i back mv)"
  unfolding descend_def Let_def by (intro frames_intro)

lemma frames_moves [frames_intro]:
  "frames (moveBinary sz mv)" "frames (moveOrdinary sz mv)" "frames (fixClass mv)" "frames (fixField sz mv)"
  unfolding moveBinary_def moveOrdinary_def fixClass_def fixField_def Let_def
  by (intro frames_intro frames_placeCopy)+

lemma frames_steps [frames_intro]: "frames (walkStep mv)" "frames (fixUpStep mv)"
  unfolding walkStep_def fixUpStep_def Let_def by (intro frames_intro)+

lemma frames_moveStep: "frames (moveStep mv)"
  unfolding moveStep_def by (cases "mv_phase mv") (simp_all add: frames_intro)

lemma moveLoop_frame: "moveLoop mv s = Some y \<Longrightarrow> \<forall>r s'. y = Inr (r, s') \<longrightarrow> frame_ok s s'"
proof (erule moveLoop.raw_induct[where P = "\<lambda>mv s y. \<forall>r s'. y = Inr (r, s') \<longrightarrow> frame_ok s s'", rotated])
  fix f :: "mover \<Rightarrow> 'a baker_scheme \<Rightarrow> (fault + ptr \<times> 'a baker_scheme) option" and mv s y
  assume IH: "\<And>mv s y. f mv s = Some y \<Longrightarrow> \<forall>r s'. y = Inr (r, s') \<longrightarrow> frame_ok s s'"
    and body: "(if mv_phase mv = Returned then Some (Inr (replacement mv, s))
      else case moveStep mv s of Inl e \<Rightarrow> Some (Inl e) | Inr (mv', s') \<Rightarrow> f mv' s') = Some y"
  show "\<forall>r s'. y = Inr (r, s') \<longrightarrow> frame_ok s s'"
  proof (cases "mv_phase mv = Returned")
    case True
    then show ?thesis using body by (auto simp: frame_ok_refl)
  next
    case False
    show ?thesis
    proof (cases "moveStep mv s")
      case (Inl e)
      then show ?thesis using body False by auto
    next
      case (Inr p)
      then obtain mv' s' where st: "moveStep mv s = Inr (mv', s')" by (cases p) auto
      then have "frame_ok s s'" using frames_moveStep[of mv] unfolding frames_def by blast
      moreover have "\<forall>r s''. y = Inr (r, s'') \<longrightarrow> frame_ok s' s''" using IH[of mv' s' y] body False st by simp
      ultimately show ?thesis using frame_ok_trans by blast
    qed
  qed
qed

lemma frames_moveObject [frames_intro]: "frames (moveObject p)"
  unfolding frames_def moveObject_def using moveLoop_frame by (fastforce split: option.splits)

lemma frames_moveStaticRoots [frames_intro]: "frames (moveStaticRoots roots)"
  by (induction roots) (auto intro!: frames_intro)

lemma moveExternalPointers_frame:
  "moveExternalPointers ps s = Inr (ps', s') \<Longrightarrow> frame_ok s s' \<and> length ps' = length ps"
proof (induction ps arbitrary: ps' s)
  case Nil
  then show ?case by (auto simp: comp_simps frame_ok_refl)
next
  case (Cons p ps)
  then obtain p' t qs where t: "moveObject p s = Inr (p', t)" "moveExternalPointers ps t = Inr (qs, s')" "ps' = p' # qs"
    by (auto simp: comp_simps split: sum.splits)
  have "frame_ok s t" using t(1) frames_moveObject[of p] unfolding frames_def by blast
  then show ?case using Cons.IH[OF t(2)] t(3) frame_ok_trans by auto
qed

section \<open>What the memory manager leaves alone\<close>

text \<open>
  Collections, growth and allocation change the objects, the heap geometry, the statistics and the
  values of the external pointers.  They keep the number of external pointers, the static heap, the
  list of static roots, the system's allocator, and the state of whoever extends the record.
\<close>

definition manager_ok :: "'a baker_scheme \<Rightarrow> 'a baker_scheme \<Rightarrow> bool" where
  "manager_ok s s' \<longleftrightarrow> length (m_externalPointers s') = length (m_externalPointers s) \<and>
     m_staticRoots s' = m_staticRoots s \<and> m_staticHeapSize s' = m_staticHeapSize s \<and>
     m_staticHeapBase s' = m_staticHeapBase s \<and> m_staticHeapPointer s' = m_staticHeapPointer s \<and>
     m_maxHeapSize s' = m_maxHeapSize s \<and> libc_alloc s' = libc_alloc s \<and> baker.more s' = baker.more s"

definition manages :: "('a baker_scheme, 'x) comp \<Rightarrow> bool" where
  "manages c \<longleftrightarrow> (\<forall>s x s'. c s = Inr (x, s') \<longrightarrow> manager_ok s s')"

named_theorems manages_intro

lemma manager_ok_refl: "manager_ok s s"
  by (simp add: manager_ok_def)

lemma manager_ok_trans: "manager_ok s t \<Longrightarrow> manager_ok t u \<Longrightarrow> manager_ok s u"
  by (simp add: manager_ok_def)

lemma frame_manager: "frame_ok s s' \<Longrightarrow> manager_ok s s'"
  by (auto simp: frame_ok_def manager_ok_def)

lemma frames_manages: "frames c \<Longrightarrow> manages c"
  unfolding frames_def manages_def using frame_manager by blast

lemmas manages_reads [manages_intro] =
  frames_reads(1-6)[THEN frames_manages] frames_mem_upd[THEN frames_manages]

lemma manages_bnd [manages_intro]:
  assumes "manages c" and "\<And>x. manages (f x)"
  shows "manages (bnd c f)"
  unfolding manages_def
proof (intro allI impI)
  fix s y u assume "bnd c f s = Inr (y, u)"
  then obtain x t where "c s = Inr (x, t)" "f x t = Inr (y, u)" by (rule bnd_InrE)
  then have "manager_ok s t" "manager_ok t u" using assms unfolding manages_def by blast+
  then show "manager_ok s u" by (rule manager_ok_trans)
qed

lemma manages_modify [manages_intro]: "(\<And>s. manager_ok s (f s)) \<Longrightarrow> manages (modify f)"
  unfolding manages_def by (auto simp: comp_simps)

lemma manages_if [manages_intro]: "(b \<Longrightarrow> manages c) \<Longrightarrow> (\<not> b \<Longrightarrow> manages d) \<Longrightarrow> manages (if b then c else d)"
  by simp

lemma manages_libc_malloc [manages_intro]: "manages (libc_malloc n)"
  unfolding manages_def libc_malloc_def by (auto simp: manager_ok_def)

lemma manages_moveObjects [manages_intro]: "manages moveObjects"
  unfolding manages_def
proof (intro allI impI)
  fix s x s' assume m: "moveObjects s = Inr (x, s')"
  obtain t where t: "moveStaticRoots (m_staticRoots s) s = Inr ((), t)"
    using m by (auto simp: moveObjects_def comp_simps split: sum.splits)
  obtain ps' u where u: "moveExternalPointers (rev (m_externalPointers t)) t = Inr (ps', u)"
    "s' = u\<lparr>m_externalPointers := rev ps'\<rparr>"
    using m t by (auto simp: moveObjects_def comp_simps split: sum.splits)
  have "manager_ok s t" using t frames_moveStaticRoots frame_manager unfolding frames_def by blast
  moreover have "frame_ok t u" "length ps' = length (m_externalPointers t)" using moveExternalPointers_frame[OF u(1)] by auto
  then have "manager_ok t s'" using frame_manager[of t u] u(2) by (auto simp: manager_ok_def)
  ultimately show "manager_ok s s'" by (rule manager_ok_trans)
qed

lemma manages_collectGarbage [manages_intro]: "manages collectGarbage"
  unfolding collectGarbage_def by (intro manages_intro) (simp_all add: manager_ok_def swapSpaces_def Let_def)

lemma manages_reallocHeap [manages_intro]: "manages (reallocHeap b m n)"
  unfolding reallocHeap_def by (intro manages_intro) (simp add: manager_ok_def)

lemma manages_prod [manages_intro]: "(\<And>x y. manages (f x y)) \<Longrightarrow> manages (case z of (x, y) \<Rightarrow> f x y)"
  by (cases z) simp

lemma manages_growHeapWith [manages_intro]: "manages collect \<Longrightarrow> manages (growHeapWith collect n)"
  unfolding growHeapWith_def Let_def by (intro manages_intro) (simp_all add: manager_ok_def)

lemma manages_allocateLoopWith [manages_intro]:
  "manages collect \<Longrightarrow> manages (allocateLoopWith collect k n w g)"
proof (induction k arbitrary: g)
  case 0
  then show ?case by (auto intro!: manages_intro)
next
  case (Suc k)
  show ?case unfolding allocateLoopWith.simps
    by (intro manages_intro Suc.IH Suc.prems) (simp_all add: manager_ok_def)
qed

lemma manages_allocateWith [manages_intro]: "manages collect \<Longrightarrow> manages (allocateWith collect n w)"
  unfolding allocateWith_def Let_def by (intro manages_intro)

lemma manages_growHeap [manages_intro]: "manages (growHeap n)"
  unfolding growHeap_def by (intro manages_intro)

lemma manages_allocate [manages_intro]: "manages (allocate n w)"
  unfolding allocate_def by (intro manages_intro)

end
