(* ===== verification/WriteBarrier.thy ===== *)
theory WriteBarrier
  imports BakerState
begin

text \<open>
  The write barrier as a contract.  A collector that does not scan a part of memory keeps a list of the
  slots there that hold a pointer it must follow; \<open>checkRoot\<close> keeps that list up to date before every
  store.  The interface \<open>write_barrier\<close> states what one store does, the lemmas in it that the list
  stays exact over any sequence of stores; it is interpreted for the static roots of the Baker manager
  here and for the references between generations in \<open>Generational\<close>.
\<close>

section \<open>Field updates\<close>

definition slot_value :: "objmem \<Rightarrow> slot \<Rightarrow> ptr option" where
  "slot_value m sl = (case getField m (fst sl) (snd sl) of Inl e \<Rightarrow> None | Inr v \<Rightarrow> Some v)"

lemma putField_get:
  assumes "TObject_putField obj i v = Inr obj'"
  shows "TObject_getField obj' j = (if j = i then Inr v else TObject_getField obj j)"
proof (cases "TSize_isBinary (obj_size obj)")
  case True
  let ?bs = "obj_bytes obj"
  have o: "obj' = obj\<lparr>obj_bytes := take (4 * i) ?bs @ word_to_bytes v @ drop (4 * i + 4) ?bs\<rparr>" "4 * i + 4 \<le> length ?bs"
    using assms True by (auto simp: TObject_putField_def split: if_splits)
  have len: "length (take (4 * i) ?bs @ word_to_bytes v @ drop (4 * i + 4) ?bs) = length ?bs" using o(2) by simp
  consider "j = i" | "j < i" | "i < j" by linarith
  then show ?thesis
  proof cases
    case 1
    then show ?thesis using o True by (simp add: TObject_getField_def)
  next
    case 2
    then have "4 * j + 4 \<le> 4 * i" by simp
    then show ?thesis using o True len 2 by (simp add: TObject_getField_def take_drop min_def)
  next
    case 3
    then have "drop (4 * j) (take (4 * i) ?bs @ word_to_bytes v @ drop (4 * i + 4) ?bs) = drop (4 * j) ?bs"
      using o(2) by simp
    then show ?thesis using o True len 3 by (simp add: TObject_getField_def)
  qed
next
  case False
  then show ?thesis using assms
    by (auto simp: TObject_putField_def TObject_getField_def comp_simps nth_res_def split: sum.splits)
qed

lemma putField_value:
  assumes "putField m p i v = Inr m'"
  shows "slot_value m' = (slot_value m)((p, i) \<mapsto> v)" and "\<exists>old. slot_value m (p, i) = Some old"
proof -
  obtain obj obj' where o: "m p = Some obj" "TObject_putField obj i v = Inr obj'" "m' = m(p \<mapsto> obj')"
    using assms by (auto simp: putField_def objectAt_def comp_simps split: option.splits sum.splits)
  show "slot_value m' = (slot_value m)((p, i) \<mapsto> v)"
  proof
    fix sl show "slot_value m' sl = ((slot_value m)((p, i) \<mapsto> v)) sl"
      using o putField_get[OF o(2)] by (cases sl) (auto simp: slot_value_def getField_def objectAt_def comp_simps)
  qed
  show "\<exists>old. slot_value m (p, i) = Some old"
    using o by (auto simp: slot_value_def getField_def objectAt_def comp_simps TObject_putField_def
        TObject_getField_def split: if_splits sum.splits)
qed

section \<open>The contract\<close>

text \<open>The list holds exactly the watched slots whose value has to be registered, each once.\<close>

definition roots_exact :: "(slot \<Rightarrow> bool) \<Rightarrow> (ptr \<Rightarrow> bool) \<Rightarrow> slot list \<Rightarrow> (slot \<Rightarrow> ptr option) \<Rightarrow> bool" where
  "roots_exact watched registers recorded contents \<longleftrightarrow> distinct recorded \<and>
     (\<forall>sl. sl \<in> set recorded \<longleftrightarrow> watched sl \<and> (\<exists>v. contents sl = Some v \<and> registers v))"

primrec run_stores :: "(slot \<Rightarrow> ptr \<Rightarrow> ('s, unit) comp) \<Rightarrow> (slot \<times> ptr) list \<Rightarrow> ('s, unit) comp" where
  "run_stores store [] = ret ()"
| "run_stores store (w # ws) = bnd (store (fst w) (snd w)) (\<lambda>_. run_stores store ws)"

locale write_barrier =
  fixes watched :: "'s \<Rightarrow> slot \<Rightarrow> bool" and registers :: "'s \<Rightarrow> ptr \<Rightarrow> bool"
    and recorded :: "'s \<Rightarrow> slot list" and contents :: "'s \<Rightarrow> slot \<Rightarrow> ptr option"
    and store :: "slot \<Rightarrow> ptr \<Rightarrow> ('s, unit) comp"
  assumes store_contents: "store sl v s = Inr ((), s') \<Longrightarrow> contents s' = (contents s)(sl \<mapsto> v)"
    and store_stable: "store sl v s = Inr ((), s') \<Longrightarrow> watched s' = watched s \<and> registers s' = registers s"
    and store_old: "store sl v s = Inr ((), s') \<Longrightarrow> \<exists>old. contents s sl = Some old"
    and store_recorded: "store sl v s = Inr ((), s') \<Longrightarrow> contents s sl = Some old \<Longrightarrow>
      recorded s' = (if \<not> watched s sl \<or> registers s v = registers s old then recorded s
                     else if registers s v then sl # recorded s else remove1 sl (recorded s))"
begin

abbreviation exact :: "'s \<Rightarrow> bool" where
  "exact s \<equiv> roots_exact (watched s) (registers s) (recorded s) (contents s)"

lemma store_exact:
  assumes "exact s" and "store sl v s = Inr ((), s')"
  shows "exact s'"
proof -
  obtain old where old: "contents s sl = Some old" using store_old[OF assms(2)] by blast
  show ?thesis
    using assms(1) old store_contents[OF assms(2)] store_stable[OF assms(2)] store_recorded[OF assms(2) old]
    by (auto simp: roots_exact_def simp del: split_paired_All)
qed

lemma stores_exact:
  "exact s \<Longrightarrow> run_stores store ws s = Inr ((), s') \<Longrightarrow>
   exact s' \<and> watched s' = watched s \<and> registers s' = registers s \<and> contents s' = contents s ++ map_of (rev ws)"
proof (induction ws arbitrary: s)
  case Nil
  then show ?case by (simp add: comp_simps)
next
  case (Cons w ws)
  obtain t where t: "store (fst w) (snd w) s = Inr ((), t)" "run_stores store ws t = Inr ((), s')"
    using Cons.prems(2) by (auto elim!: bnd_InrE)
  have "contents t ++ map_of (rev ws) = contents s ++ map_of (rev (w # ws))"
    unfolding store_contents[OF t(1)] by (cases w) (simp add: map_of_append map_add_def fun_eq_iff split: option.split)
  then show ?case using Cons.IH[OF store_exact[OF Cons.prems(1) t(1)] t(2)] store_stable[OF t(1)]
    by (elim conjE, simp only: simp_thms)
qed

end

section \<open>The static roots\<close>

definition static_slot :: "'a baker_scheme \<Rightarrow> slot \<Rightarrow> bool" where
  "static_slot s sl \<longleftrightarrow> isInStaticHeap s (slotAddress sl)"

definition dynamic_value :: "'a baker_scheme \<Rightarrow> ptr \<Rightarrow> bool" where
  "dynamic_value s v \<longleftrightarrow> \<not> isInStaticHeap s v"

definition static_roots_exact :: "'a baker_scheme \<Rightarrow> bool" where
  "static_roots_exact s \<longleftrightarrow> roots_exact (static_slot s) (dynamic_value s) (m_staticRoots s) (slot_value (objs s))"

abbreviation storeSlot :: "slot \<Rightarrow> ptr \<Rightarrow> ('a baker_scheme, unit) comp" where
  "storeSlot sl v \<equiv> storeField (fst sl) (snd sl) v"

text \<open>A store changes the root list and the object memory, nothing else.\<close>

definition new_roots :: "'a baker_scheme \<Rightarrow> slot \<Rightarrow> ptr \<Rightarrow> ptr \<Rightarrow> slot list" where
  "new_roots s sl v old =
     (if \<not> static_slot s sl \<or> dynamic_value s v = dynamic_value s old then m_staticRoots s
      else if dynamic_value s v then sl # m_staticRoots s else remove1 sl (m_staticRoots s))"

lemma checkRoot_shape:
  assumes "slot_value (objs s) sl = Some old"
  shows "\<exists>b. checkRoot v sl s = Inr (b, s\<lparr>m_staticRoots := new_roots s sl v old\<rparr>)"
  using assms
  by (auto simp: checkRoot_def new_roots_def static_slot_def dynamic_value_def slot_value_def addStaticRoot_def
      removeStaticRoot_def split: if_splits sum.splits)

lemma checkRoot_objs: "checkRoot v sl s = Inr (b, t) \<Longrightarrow> objs t = objs s"
  by (auto simp: checkRoot_def addStaticRoot_def removeStaticRoot_def split: if_splits sum.splits)

lemma storeField_shape:
  assumes "storeSlot sl v s = Inr ((), s')"
  shows "\<exists>m old. slot_value (objs s) sl = Some old \<and> slot_value m = (slot_value (objs s))(sl \<mapsto> v) \<and>
    s' = s\<lparr>m_staticRoots := new_roots s sl v old, objs := m\<rparr>"
proof -
  obtain b t where t: "checkRoot v sl s = Inr (b, t)" "mem_upd (\<lambda>m. putField m (fst sl) (snd sl) v) t = Inr ((), s')"
    using assms unfolding storeField_def by (elim bnd_InrE) auto
  obtain m where m: "putField (objs s) (fst sl) (snd sl) v = Inr m" "s' = t\<lparr>objs := m\<rparr>"
    using t(2) checkRoot_objs[OF t(1)] by (auto simp: mem_upd_def split: sum.splits)
  obtain old where old: "slot_value (objs s) sl = Some old" using putField_value(2)[OF m(1)] by auto
  then have "t = s\<lparr>m_staticRoots := new_roots s sl v old\<rparr>" using checkRoot_shape[OF old, of v] t(1) by simp
  then show ?thesis using old m(2) putField_value(1)[OF m(1)] by auto
qed

interpretation static_barrier:
  write_barrier static_slot dynamic_value m_staticRoots "\<lambda>s. slot_value (objs s)" storeSlot
proof
  fix sl :: slot and v old :: ptr and s s' :: "'a baker_scheme"
  assume st: "storeSlot sl v s = Inr ((), s')"
  obtain m old' where r: "slot_value (objs s) sl = Some old'" "slot_value m = (slot_value (objs s))(sl \<mapsto> v)"
    "s' = s\<lparr>m_staticRoots := new_roots s sl v old', objs := m\<rparr>"
    using storeField_shape[OF st] by blast
  show "slot_value (objs s') = (slot_value (objs s))(sl \<mapsto> v)" using r(2,3) by simp
  show "static_slot s' = static_slot s \<and> dynamic_value s' = dynamic_value s"
    using r(3) by (simp add: static_slot_def dynamic_value_def isInStaticHeap_def fun_eq_iff)
  show "\<exists>old. slot_value (objs s) sl = Some old" using r(1) by simp
  assume "slot_value (objs s) sl = Some old"
  then show "m_staticRoots s' = (if \<not> static_slot s sl \<or> dynamic_value s v = dynamic_value s old then m_staticRoots s
      else if dynamic_value s v then sl # m_staticRoots s else remove1 sl (m_staticRoots s))"
    using r(1,3) by (simp add: new_roots_def)
qed

section \<open>Properties\<close>


definition static_sample :: baker where
  "static_sample = baker_new\<lparr>m_staticHeapBase := 4096, m_staticHeapPointer := 4096, m_staticHeapSize := 64,
     objs := [4096 \<mapsto> \<lparr>obj_size = TSize_new 2 False False, obj_class = 4096, obj_fields = [4096, 4096], obj_bytes = []\<rparr>]\<rparr>"


end
