(* ===== verification/BakerCorrect.thy ===== *)
theory BakerCorrect
  imports CollectCorrect BakerFrame WriteBarrier
begin

text \<open>
  Allocation on top of the collection theorem: what a collection leaves of the manager's state, when an
  allocation succeeds after it, a growth that comes too late for its request, and a heap pointer the
  static root list misses.
\<close>

section \<open>The state after a collection\<close>

lemma moveObjects_frame:
  assumes "moveObjects s = Inr ((), s')"
  shows "\<exists>m ap ps. s' = s\<lparr>objs := m, m_activeHeapPointer := ap, m_externalPointers := ps\<rparr> \<and>
    ap mod 4 = m_activeHeapPointer s mod 4"
proof -
  obtain t where t: "moveStaticRoots (m_staticRoots s) s = Inr ((), t)"
    using assms by (auto simp: moveObjects_def comp_simps split: sum.splits)
  obtain ps' u where u: "moveExternalPointers (rev (m_externalPointers t)) t = Inr (ps', u)"
    "s' = u\<lparr>m_externalPointers := rev ps'\<rparr>"
    using assms t by (auto simp: moveObjects_def comp_simps split: sum.splits)
  have "frame_ok s t" using t frames_moveStaticRoots unfolding frames_def by blast
  moreover have "frame_ok t u" using moveExternalPointers_frame[OF u(1)] by blast
  ultimately have "frame_ok s u" by (rule frame_ok_trans)
  then obtain m ap where "u = s\<lparr>objs := m, m_activeHeapPointer := ap\<rparr>" "ap mod 4 = m_activeHeapPointer s mod 4"
    unfolding frame_ok_def by blast
  then show ?thesis unfolding u(2) by (intro exI[of _ m] exI[of _ ap] exI[of _ "rev ps'"]) simp
qed

lemma collectGarbage_state:
  assumes "collectGarbage s = Inr ((), s')"
  shows "m_activeHeapBase s' = m_activeHeapBase (swapSpaces s)" "m_heapSize s' = m_heapSize s"
    "m_maxHeapSize s' = m_maxHeapSize s" "m_staticRoots s' = m_staticRoots s"
    "m_activeHeapPointer s' mod 4 = m_activeHeapPointer (swapSpaces s) mod 4"
    "in_block (m_inactiveHeapBase (swapSpaces s)) (m_heapSize s div 2) a \<Longrightarrow> objs s' a = None"
proof -
  obtain t where t: "moveObjects (swapSpaces s) = Inr ((), t)"
    using assms by (auto simp: collectGarbage_def comp_simps split: sum.splits)
  obtain m ap ps where f: "t = (swapSpaces s)\<lparr>objs := m, m_activeHeapPointer := ap, m_externalPointers := ps\<rparr>"
    "ap mod 4 = m_activeHeapPointer (swapSpaces s) mod 4"
    using moveObjects_frame[OF t] by blast
  have s': "s' = t\<lparr>objs := objs s', m_memoryInfo := m_memoryInfo s'\<rparr>"
    "objs s' = clear_block (m_inactiveHeapBase t) (m_heapSize t div 2) (objs t)"
    using assms t by (auto simp: collectGarbage_def comp_simps)
  show "m_activeHeapBase s' = m_activeHeapBase (swapSpaces s)" by (subst s'(1)) (simp add: f(1))
  show "m_heapSize s' = m_heapSize s" by (subst s'(1)) (simp add: f(1))
  show "m_maxHeapSize s' = m_maxHeapSize s" by (subst s'(1)) (simp add: f(1) swapSpaces_def Let_def)
  show "m_staticRoots s' = m_staticRoots s" by (subst s'(1)) (simp add: f(1))
  show "m_activeHeapPointer s' mod 4 = m_activeHeapPointer (swapSpaces s) mod 4" by (subst s'(1)) (simp add: f)
  assume "in_block (m_inactiveHeapBase (swapSpaces s)) (m_heapSize s div 2) a"
  then show "objs s' a = None" using s'(2) f(1) by (simp add: clear_block_def)
qed

section \<open>Allocation\<close>

lemma allocate_small:
  assumes "n = correctPadding n" and "n \<le> m_heapSize s div 2"
  shows "allocate n w s = allocateLoopWith collectGarbage (Suc (Suc 0)) n w False s"
proof -
  have "\<not> m_heapSize s div 2 < n" using assms(2) by (rule leD)
  then show ?thesis using assms(1)[symmetric]
    by (simp add: allocate_def allocateWith_def bnd_def guard_def gets_def numeral_2_eq_2 del: allocateLoopWith.simps)
qed

lemma allocateLoop_collects:
  "m_activeHeapPointer s - n < m_activeHeapBase s \<Longrightarrow> collect s = Inr ((), t) \<Longrightarrow>
   \<not> (m_activeHeapPointer t - m_activeHeapBase t < m_heapSize t div 16 \<and> m_heapSize t < m_maxHeapSize t) \<Longrightarrow>
   allocateLoopWith collect (Suc k) n w g s = allocateLoopWith collect k n w (g \<or> w) t"
  by (auto simp: comp_simps)

lemma allocateLoop_fits:
  "\<not> m_activeHeapPointer s - n < m_activeHeapBase s \<Longrightarrow> (m_activeHeapPointer s - n) mod 4 = 0 \<Longrightarrow>
   allocateLoopWith collect (Suc k) n w g s = Inr ((m_activeHeapPointer s - n, g),
     s\<lparr>m_activeHeapPointer := m_activeHeapPointer s - n, m_memoryInfo := (m_memoryInfo s)
        \<lparr>allocationsCount := allocationsCount (m_memoryInfo s) + (if w \<and> \<not> g then 1 else 0)\<rparr>\<rparr>)"
  by (simp add: comp_simps is_aligned_properly_def)

lemma collected_space:
  assumes "collectGarbage s = Inr ((), s')" and "unat (m_activeHeapPointer (swapSpaces s)) \<le> unat (m_activeHeapPointer s') + live_bytes s"
    and "unat (m_activeHeapBase (swapSpaces s)) + live_bytes s + unat n \<le> unat (m_activeHeapPointer (swapSpaces s))"
  shows "\<not> m_activeHeapPointer s' - n < m_activeHeapBase s'" "unat (m_activeHeapPointer s' - n) + unat n = unat (m_activeHeapPointer s')"
    "unat (m_activeHeapBase (swapSpaces s)) \<le> unat (m_activeHeapPointer s' - n)"
proof -
  have b: "unat (m_activeHeapBase (swapSpaces s)) + unat n \<le> unat (m_activeHeapPointer s')" using assms(2,3) by linarith
  then have e: "unat (m_activeHeapPointer s' - n) = unat (m_activeHeapPointer s') - unat n"
    by (simp add: unat_sub word_le_nat_alt)
  show "\<not> m_activeHeapPointer s' - n < m_activeHeapBase s'"
    using b e collectGarbage_state(1)[OF assms(1)] by (simp add: word_less_nat_alt)
  show "unat (m_activeHeapPointer s' - n) + unat n = unat (m_activeHeapPointer s')"
    "unat (m_activeHeapBase (swapSpaces s)) \<le> unat (m_activeHeapPointer s' - n)" using b e by linarith+
qed

text \<open>
  C12. Allocation makes room by collecting: in a full heap whose limit is reached, a request that fits
  beside the live objects succeeds, reports the collection, and gets an aligned block of the new space
  that lies below every copied object; the object graph is preserved as by a collection.
\<close>

theorem allocate_after_collection:
  assumes c: "collectable s" and n: "n = correctPadding n" "n \<le> m_heapSize s div 2"
    and full: "m_activeHeapPointer s - n < m_activeHeapBase s" and limit: "m_maxHeapSize s \<le> m_heapSize s"
    and aligned: "m_activeHeapPointer (swapSpaces s) mod 4 = 0"
    and room: "unat (m_activeHeapBase (swapSpaces s)) + live_bytes s + unat n \<le> unat (m_activeHeapPointer (swapSpaces s))"
  shows "\<exists>f s' block. allocate n w s = Inr ((block, w), s') \<and>
    block mod 4 = 0 \<and> unat (m_activeHeapBase (swapSpaces s)) \<le> unat block \<and> m_activeHeapPointer s' = block \<and>
    inj_on f (gc_live s) \<and> m_externalPointers s' = map f (m_externalPointers s) \<and>
    (\<forall>p\<in>gc_live s. unat block + unat n \<le> unat (f p) \<and> (\<exists>obj. objs s p = Some obj \<and>
       objs s' (f p) = Some (obj\<lparr>obj_class := f (obj_class obj), obj_fields := map f (obj_fields obj)\<rparr>)))"
proof -
  obtain f t where g: "collectGarbage s = Inr ((), t)" "inj_on f (gc_live s)"
    "\<forall>p\<in>gc_live s. \<exists>obj. objs s p = Some obj \<and>
       objs t (f p) = Some (obj\<lparr>obj_class := f (obj_class obj), obj_fields := map f (obj_fields obj)\<rparr>) \<and>
       unat (m_activeHeapPointer t) \<le> unat (f p) \<and> unat (f p) + object_bytes obj \<le> unat (m_activeHeapPointer (swapSpaces s))"
    "unat (m_activeHeapPointer (swapSpaces s)) \<le> unat (m_activeHeapPointer t) + live_bytes s"
    "m_externalPointers t = map f (m_externalPointers s)"
    using collectGarbage_graph[OF c] by blast
  note st = collectGarbage_state[OF g(1)] and sp = collected_space[OF g(1,4) room]
  let ?block = "m_activeHeapPointer t - n"
  have n4: "n mod 4 = 0" using correctPadding_mod4[of n] n(1) by simp
  have al: "?block mod 4 = 0" using subtract_mod4[OF n4, of "m_activeHeapPointer t"] st(5) aligned by simp
  have grow: "\<not> m_heapSize t < m_maxHeapSize t" using limit st(2,3) by simp
  let ?s = "t\<lparr>m_activeHeapPointer := ?block, m_memoryInfo := (m_memoryInfo t)
      \<lparr>allocationsCount := allocationsCount (m_memoryInfo t) + (if w \<and> \<not> (False \<or> w) then 1 else 0)\<rparr>\<rparr>"
  have "allocate n w s = allocateLoopWith collectGarbage (Suc 0) n w (False \<or> w) t"
    unfolding allocate_small[OF n] by (rule allocateLoop_collects[where collect = collectGarbage and s = s and t = t]) (use full g(1) grow in auto)
  also have "\<dots> = Inr ((?block, False \<or> w), ?s)" by (rule allocateLoop_fits[OF sp(1) al])
  finally have s': "allocate n w s = Inr ((?block, w), ?s)" by simp
  have "unat ?block + unat n \<le> unat (f p)" if "p \<in> gc_live s" for p using g(3) that sp(2) by fastforce
  then show ?thesis using s' al sp(3) g(2,3,5) by (intro exI[of _ f] exI[of _ ?s] exI[of _ ?block]) auto
qed


lemma moveLoop_unroll: "mv_phase mv \<noteq> Returned \<Longrightarrow> moveStep mv s = Inr (mv', s') \<Longrightarrow> moveLoop mv s = moveLoop mv' s'"
  by (subst moveLoop.simps) simp

lemma moveLoop_end: "mv_phase mv = Returned \<Longrightarrow> moveLoop mv s = Some (Inr (replacement mv, s))"
  by (subst moveLoop.simps) simp

definition cell :: "u32 \<Rightarrow> u8 list \<Rightarrow> tobject" where
  "cell n bs = \<lparr>obj_size = TSize_new n True False, obj_class = NULL, obj_fields = [], obj_bytes = bs\<rparr>"

lemma moveObject_leaf:
  fixes s :: "'a baker_scheme"
  assumes p: "objs s p = Some (cell n bs)" "length bs = unat n" "TSize_getSize (TSize_new n True False) = n"
    and old: "\<not> isSmallInteger p" "inOldSpace s p" "p \<noteq> NULL" "m_inactiveHeapPointer s \<noteq> NULL"
    and fits: "unat (sizeof_TObject + correctPadding n) \<le> unat (m_activeHeapPointer s) - unat (m_activeHeapBase s)"
    and q: "m_activeHeapPointer s - (sizeof_TObject + correctPadding n) \<noteq> p"
  shows "\<exists>old. moveObject p s = Inr (m_activeHeapPointer s - (sizeof_TObject + correctPadding n),
    s\<lparr>m_activeHeapPointer := m_activeHeapPointer s - (sizeof_TObject + correctPadding n),
      objs := (objs s)(m_activeHeapPointer s - (sizeof_TObject + correctPadding n) \<mapsto> cell n bs, p \<mapsto> old)\<rparr>)"
proof -
  let ?q = "m_activeHeapPointer s - (sizeof_TObject + correctPadding n)"
  let ?old = "(cell n bs)\<lparr>obj_size := TSize_setRelocated (TSize_new n True False), obj_class := ?q\<rparr>"
  let ?s1 = "s\<lparr>m_activeHeapPointer := ?q, objs := (objs s)(?q \<mapsto> cell n bs, p \<mapsto> ?old)\<rparr>"
  let ?m1 = "\<lparr>currentObject = NULL, previousObject = p, replacement = NULL, mv_phase = Walking\<rparr>"
  let ?m2 = "\<lparr>currentObject = p, previousObject = p, replacement = NULL, mv_phase = FixingUp\<rparr>"
  let ?m3 = "\<lparr>currentObject = NULL, previousObject = NULL, replacement = ?q, mv_phase = FixingUp\<rparr>"
  have "placeCopy (sizeof_TObject + correctPadding n) (TByteObject_new n NULL) s =
      Inr (?q, s\<lparr>m_activeHeapPointer := ?q, objs := (objs s)(?q \<mapsto> TByteObject_new n NULL)\<rparr>)"
    using fits by (simp add: placeCopy_def Let_def)
  then have 1: "moveStep (moveStart p) s = Inr (?m1, ?s1)"
    using p old q
    by (simp add: moveStep_def moveStart_def walkStep_def moveBinary_def descend_def comp_simps mem_defs objectAt_def
      getData_def putData_def setSize_def copyBytes_def TByteObject_new_def cell_def Let_def)
  have "\<not> isSmallInteger 0" "\<not> inOldSpace ?s1 0"
    using old(4) by (simp_all add: isSmallInteger_def inOldSpace_def word_le_nat_alt unat_eq_zero)
  then have 2: "moveStep ?m1 ?s1 = Inr (?m2, ?s1)"
    by (simp add: moveStep_def walkStep_def comp_simps leaveWith_def Let_def)
  have 3: "moveStep ?m2 ?s1 = Inr (?m3, ?s1)"
    using old(3) q
    by (simp add: moveStep_def fixUpStep_def fixClass_def comp_simps mem_defs objectAt_def getData_def putData_def cell_def Let_def)
  have 4: "moveStep ?m3 ?s1 = Inr (?m3\<lparr>mv_phase := Returned\<rparr>, ?s1)"
    by (simp add: moveStep_def fixUpStep_def comp_simps Let_def)
  have "moveLoop (moveStart p) s = Some (Inr (?q, ?s1))"
    using moveLoop_unroll[OF _ 1] moveLoop_unroll[OF _ 2] moveLoop_unroll[OF _ 3] moveLoop_unroll[OF _ 4]
    by (simp add: moveStart_def moveLoop_end)
  then show ?thesis by (auto simp: moveObject_def)
qed


text \<open>A heap whose only object is the cell at \<open>p\<close>, held by one external pointer.\<close>

definition sole :: "u32 \<Rightarrow> u8 list \<Rightarrow> u32 \<Rightarrow> ptr \<Rightarrow> ptr \<Rightarrow> bool \<Rightarrow> ptr \<Rightarrow> nat \<Rightarrow> baker \<Rightarrow> bool" where
  "sole n bs heapSize one two isOne p calls s \<longleftrightarrow> objs s p = Some (cell n bs) \<and> m_externalPointers s = [p] \<and> m_staticRoots s = [] \<and>
     m_heapSize s = heapSize \<and> m_heapOne s = one \<and> m_heapTwo s = two \<and> m_activeHeapOne s = isOne \<and>
     m_activeHeapBase s = (if isOne then one else two) \<and> m_activeHeapPointer s = p \<and> m_maxHeapSize s = 1024 \<and>
     libc_alloc s = (\<lambda>n _. [12288, 16384] ! n) \<and> libc_calls s = calls"

lemma collect_sole:
  assumes s: "sole n bs heapSize one two isOne p calls s" and bs: "length bs = unat n" "TSize_getSize (TSize_new n True False) = n"
    and p: "\<not> isSmallInteger p" "p \<noteq> NULL"
    and old: "p < (if isOne then one else two) + heapSize div 2" "in_block (if isOne then one else two) (heapSize div 2) p"
    and new: "base = (if isOne then two else one)" "q = base + heapSize div 2 - (sizeof_TObject + correctPadding n)"
      "unat (sizeof_TObject + correctPadding n) \<le> unat (base + heapSize div 2) - unat base"
      "\<not> in_block (if isOne then one else two) (heapSize div 2) q"
  shows "\<exists>s'. collectGarbage s = Inr ((), s') \<and> sole n bs heapSize one two (\<not> isOne) q calls s'"
proof -
  let ?s = "swapSpaces s"
  note d = s[unfolded sole_def]
  have sw: "objs ?s p = Some (cell n bs)" "m_activeHeapPointer ?s = base + heapSize div 2" "m_activeHeapBase ?s = base"
    "m_inactiveHeapPointer ?s = p" "m_inactiveHeapBase ?s = (if isOne then one else two)" "m_heapSize ?s = heapSize"
    "m_externalPointers ?s = [p]" "m_staticRoots ?s = []" "m_heapOne ?s = one" "m_heapTwo ?s = two"
    "m_activeHeapOne ?s = (\<not> isOne)" "m_maxHeapSize ?s = 1024" "libc_alloc ?s = (\<lambda>n _. [12288, 16384] ! n)" "libc_calls ?s = calls"
    using d new(1) by (simp_all add: swapSpaces_def Let_def)
  have qp: "q \<noteq> p" using old(2) new(4) by auto
  then obtain x where m: "moveObject p ?s = Inr (q, ?s\<lparr>m_activeHeapPointer := q, objs := (objs ?s)(q \<mapsto> cell n bs, p \<mapsto> x)\<rparr>)"
    using moveObject_leaf[OF sw(1) bs p(1) _ p(2)] sw new(2,3) old(1) p(2) by (auto simp: inOldSpace_def)
  have mo: "moveObjects ?s = Inr ((), ?s\<lparr>m_activeHeapPointer := q, objs := (objs ?s)(q \<mapsto> cell n bs, p \<mapsto> x), m_externalPointers := [q]\<rparr>)"
    using m sw by (simp add: moveObjects_def comp_simps)
  show ?thesis using mo sw new(1,4) d qp unfolding sole_def
    by (simp add: collectGarbage_def comp_simps clear_block_def)
qed

definition tight_heap :: baker where
  "tight_heap = baker_new\<lparr>
     objs := [4096 \<mapsto> cell 24 (replicate 24 7)],
     m_heapSize := 64, m_maxHeapSize := 1024, m_heapOne := 4096, m_heapTwo := 8192, m_activeHeapOne := True,
     m_activeHeapBase := 4096, m_activeHeapPointer := 4096, m_inactiveHeapBase := 8192, m_inactiveHeapPointer := 8224,
     m_externalPointers := [4096], libc_alloc := (\<lambda>n _. [12288, 16384] ! n)\<rparr>"

abbreviation tight :: "u32 \<Rightarrow> ptr \<Rightarrow> ptr \<Rightarrow> bool \<Rightarrow> ptr \<Rightarrow> nat \<Rightarrow> baker \<Rightarrow> bool" where
  "tight \<equiv> sole 24 (replicate 24 7)"

lemma tight_start: "tight 64 4096 8192 True 4096 0 tight_heap"
  by (simp add: sole_def tight_heap_def baker_new_def)

lemmas tight_eval = in_block_def sizeof_TObject_def correctPadding_def isSmallInteger_def word_le_nat_alt word_less_nat_alt

lemma tight_collect:
  "tight 64 4096 8192 True 4096 0 s \<Longrightarrow> \<exists>s'. collectGarbage s = Inr ((), s') \<and> tight 64 4096 8192 False 8192 0 s'"
  "tight 64 12288 8192 False 8192 1 s \<Longrightarrow> \<exists>s'. collectGarbage s = Inr ((), s') \<and> tight 64 12288 8192 True 12288 1 s'"
  "tight 64 12288 16384 True 12288 2 s \<Longrightarrow> \<exists>s'. collectGarbage s = Inr ((), s') \<and> tight 64 12288 16384 False 16384 2 s'"
  "tight 128 12288 16384 False 16384 2 s \<Longrightarrow> \<exists>s'. collectGarbage s = Inr ((), s') \<and> tight 128 12288 16384 True 12320 2 s'"
  using collect_sole[of 24 "replicate 24 7" 64 4096 8192 True 4096 0 s 8192 8192]
    collect_sole[of 24 "replicate 24 7" 64 12288 8192 False 8192 1 s 12288 12288]
    collect_sole[of 24 "replicate 24 7" 64 12288 16384 True 12288 2 s 16384 16384]
    collect_sole[of 24 "replicate 24 7" 128 12288 16384 False 16384 2 s 12288 12320]
  by (simp_all add: tight_eval)


text \<open>The two reallocations of a growth; the object is not in the block given back.\<close>

lemma tight_realloc:
  "tight 64 4096 8192 False 8192 0 s \<Longrightarrow> \<exists>s'. reallocHeap 4096 32 64 s = Inr (12288, s') \<and>
     tight 64 12288 8192 False 8192 1 (s'\<lparr>m_heapOne := 12288\<rparr>)"
  "tight 64 12288 8192 True 12288 1 s \<Longrightarrow> \<exists>s'. reallocHeap 8192 32 64 s = Inr (16384, s') \<and>
     tight 64 12288 16384 True 12288 2 (s'\<lparr>m_heapTwo := 16384\<rparr>)"
  by (simp_all add: sole_def reallocHeap_def libc_malloc_def comp_simps clear_block_def in_block_def)

lemma tight_grow:
  assumes "tight 64 4096 8192 False 8192 0 s"
  shows "\<exists>s'. growHeap 16 s = Inr ((), s') \<and> tight 128 12288 16384 False 16384 2 s'"
proof -
  have n: "alignHalf (correctPadding (2 * 16 + 64 + 64 div 2)) = 128"
    by (simp add: correctPadding_def alignHalf.simps is_aligned_properly_def)
  obtain s1 where 1: "reallocHeap 4096 32 64 s = Inr (12288, s1)" "tight 64 12288 8192 False 8192 1 (s1\<lparr>m_heapOne := 12288\<rparr>)"
    using tight_realloc(1)[OF assms] by blast
  obtain s2 where 2: "collectGarbage (s1\<lparr>m_heapOne := 12288\<rparr>) = Inr ((), s2)" "tight 64 12288 8192 True 12288 1 s2"
    using tight_collect(2)[OF 1(2)] by blast
  obtain s3 where 3: "reallocHeap 8192 32 64 s2 = Inr (16384, s3)" "tight 64 12288 16384 True 12288 2 (s3\<lparr>m_heapTwo := 16384\<rparr>)"
    using tight_realloc(2)[OF 2(2)] by blast
  obtain s4 where 4: "collectGarbage (s3\<lparr>m_heapTwo := 16384\<rparr>) = Inr ((), s4)" "tight 64 12288 16384 False 16384 2 s4"
    using tight_collect(3)[OF 3(2)] by blast
  have "growHeap 16 s = Inr ((), s4\<lparr>m_heapSize := 128\<rparr>)"
    using assms 1(1) 2(1) 3(1) 4(1) n by (simp add: growHeap_def growHeapWith_def comp_simps sole_def Let_def)
  moreover have "tight 128 12288 16384 False 16384 2 (s4\<lparr>m_heapSize := 128\<rparr>)" using 4(2) by (simp add: sole_def)
  ultimately show ?thesis by blast
qed

text \<open>
  Growing does not help the request that asked for it: \<open>growHeap\<close> leaves the active pointer where
  the old size put it, so the second attempt finds the heap full again and \<open>allocate\<close> gives up.  A full
  heap of 64 bytes with 32 live ones refuses 16 bytes although it grows to 128, with a limit of 1024;
  the same request then succeeds without a collection.
\<close>

theorem growth_fails_request:
  "\<exists>s. allocate 16 True tight_heap = Inr ((NULL, True), s) \<and> m_heapSize s = 128 \<and>
     (\<exists>s'. allocate 16 True s = Inr ((12304, False), s'))"
proof -
  note st = tight_start[unfolded sole_def]
  obtain s1 where 1: "collectGarbage tight_heap = Inr ((), s1)" "tight 64 4096 8192 False 8192 0 s1"
    using tight_collect(1)[OF tight_start] by blast
  obtain s2 where 2: "growHeapWith collectGarbage 16 s1 = Inr ((), s2)" "tight 128 12288 16384 False 16384 2 s2"
    using tight_grow[OF 1(2)] by (auto simp: growHeap_def)
  obtain s3 where 3: "collectGarbage s2 = Inr ((), s3)" "tight 128 12288 16384 True 12320 2 s3"
    using tight_collect(4)[OF 2(2)] by blast
  note d = 1(2)[unfolded sole_def] 2(2)[unfolded sole_def] 3(2)[unfolded sole_def]
  have a: "allocate 16 True tight_heap = allocateLoopWith collectGarbage (Suc (Suc 0)) 16 True False tight_heap"
    "allocate 16 True s3 = allocateLoopWith collectGarbage (Suc (Suc 0)) 16 True False s3"
    by (rule allocate_small; use st d in \<open>simp add: correctPadding_def\<close>)+
  have "allocate 16 True tight_heap = Inr ((NULL, True), s3)"
    unfolding a using st d 1(1) 2(1) 3(1) by (simp add: comp_simps)
  moreover have "\<exists>s'. allocate 16 True s3 = Inr ((12304, False), s')"
    unfolding a using d by (simp add: comp_simps is_aligned_properly_def)
  ultimately show ?thesis using d by blast
qed


section \<open>The gap in the write barrier\<close>

text \<open>
  C13. The static root list can miss a heap pointer: a static slot that holds a small integer, as the image
  loader leaves it, is taken for one that is registered already, so storing a heap pointer into it does
  not register it, and the next collection destroys the object without updating the slot.
\<close>

theorem small_integer_slot_dangles:
  assumes "static_slot s sl" and "slot_value (objs s) sl = Some old" and "isSmallInteger old" and "dynamic_value s old"
    and "dynamic_value s v" and "storeSlot sl v s = Inr ((), t)" and "collectable t"
    and "fst sl \<notin> gc_live t" and "fst sl \<notin> fst ` set (m_staticRoots s)"
    and "\<not> (unat (m_activeHeapBase (swapSpaces t)) \<le> unat (fst sl) \<and> unat (fst sl) < unat (m_activeHeapPointer (swapSpaces t)))"
    and "\<not> in_block (m_inactiveHeapBase (swapSpaces t)) (m_heapSize t div 2) (fst sl)"
    and "in_block (m_inactiveHeapBase (swapSpaces t)) (m_heapSize t div 2) v"
  shows "m_staticRoots t = m_staticRoots s \<and>
    (\<exists>t'. collectGarbage t = Inr ((), t') \<and> slot_value (objs t') sl = Some v \<and> objs t' v = None)"
proof -
  obtain m where t: "t = s\<lparr>m_staticRoots := new_roots s sl v old, objs := m\<rparr>" "slot_value m = (slot_value (objs s))(sl \<mapsto> v)"
    using storeField_shape[OF assms(6)] assms(2) by auto
  have r: "m_staticRoots t = m_staticRoots s" using t(1) assms(4,5) by (simp add: new_roots_def)
  obtain f t' where g: "collectGarbage t = Inr ((), t')"
    "\<forall>p\<in>gc_live t. \<exists>obj. objs t p = Some obj \<and>
       objs t' (f p) = Some (obj\<lparr>obj_class := f (obj_class obj), obj_fields := map f (obj_fields obj)\<rparr>) \<and>
       unat (m_activeHeapPointer t') \<le> unat (f p) \<and> unat (f p) + object_bytes obj \<le> unat (m_activeHeapPointer (swapSpaces t))"
    "unat (m_activeHeapPointer (swapSpaces t)) \<le> unat (m_activeHeapPointer t') + live_bytes t"
    "\<forall>a. a \<notin> gc_live t \<longrightarrow> a \<notin> f ` gc_live t \<longrightarrow> a \<notin> fst ` set (m_staticRoots t) \<longrightarrow>
       \<not> in_block (m_inactiveHeapBase (swapSpaces t)) (m_heapSize t div 2) a \<longrightarrow> objs t' a = objs t a"
    using collectGarbage_graph[OF assms(7)] by blast
  have base: "unat (m_activeHeapBase (swapSpaces t)) \<le> unat (m_activeHeapPointer t')"
    using assms(7) g(3) by (auto simp: collectable_def Let_def)
  have "fst sl \<notin> f ` gc_live t"
  proof
    assume "fst sl \<in> f ` gc_live t"
    then obtain p where "p \<in> gc_live t" "fst sl = f p" by auto
    then obtain obj where "unat (m_activeHeapPointer t') \<le> unat (fst sl)"
      "unat (fst sl) + object_bytes obj \<le> unat (m_activeHeapPointer (swapSpaces t))" using g(2) by auto
    then show False using assms(10) base object_bytes_pos[of obj] by linarith
  qed
  then have "objs t' (fst sl) = objs t (fst sl)" using g(4) assms(8,9,11) r by auto
  then have "slot_value (objs t') sl = slot_value (objs t) sl" by (simp add: slot_value_def getField_def objectAt_def)
  moreover have "slot_value (objs t) sl = Some v" using t by simp
  ultimately show ?thesis using r g(1) collectGarbage_state(6)[OF g(1) assms(12)] by auto
qed

definition stored_heap :: baker where
  "stored_heap = sample_heap_with 4144"

lemma small_integer_slot_dangles_witness:
  "\<exists>t. storeSlot (12304, 0) 4144 sample_heap = Inr ((), t) \<and> m_staticRoots t = [(12288, 0)] \<and>
     (\<exists>t'. collectGarbage t = Inr ((), t') \<and> slot_value (objs t') (12304, 0) = Some 4144 \<and> objs t' 4144 = None)"
proof -
  have st: "storeSlot (12304, 0) 4144 sample_heap = Inr ((), stored_heap)"
    by (simp add: storeField_def checkRoot_def isInStaticHeap_def slotAddress_def sample_heap_def stored_heap_def
        sample_heap_with_def comp_simps getField_ordinary putField_ordinary ordinary_def fun_upd_twist)
  have s: "static_slot sample_heap (12304, 0)" "slot_value (objs sample_heap) (12304, 0) = Some 7" "isSmallInteger 7"
    "dynamic_value sample_heap 7" "dynamic_value sample_heap 4144"
    by (simp_all add: static_slot_def dynamic_value_def isInStaticHeap_def slotAddress_def sample_heap_def sample_heap_with_def
        slot_value_def getField_ordinary ordinary_def isSmallInteger_def)
  have t: "m_staticRoots sample_heap = [(12288, 0)]" by (simp add: sample_heap_def sample_heap_fields)
  show ?thesis
    using small_integer_slot_dangles[OF s st] st t sample_heap_collectable[of 4144]
    by (auto simp: stored_heap_def sample_heap_live sample_heap_space sample_heap_fields in_block_def)
qed

lemma allocate_after_collection_witness:
  "\<exists>f s' block. allocate 32 True sample_heap = Inr ((block, True), s') \<and> block mod 4 = 0 \<and>
     m_externalPointers s' = [f 4144, f 5] \<and> unat block + 32 \<le> unat (f (4144 :: ptr))"
proof -
  have live: "live_bytes sample_heap = 20"
    by (simp add: live_bytes_def sample_heap_def sample_heap_live sample_heap_fields object_bytes_def ordinary_def)
  have p: "32 = correctPadding 32" "32 \<le> m_heapSize sample_heap div 2"
    "m_activeHeapPointer sample_heap - 32 < m_activeHeapBase sample_heap" "m_maxHeapSize sample_heap \<le> m_heapSize sample_heap"
    "m_activeHeapPointer (swapSpaces sample_heap) mod 4 = 0"
    "unat (m_activeHeapBase (swapSpaces sample_heap)) + live_bytes sample_heap + unat (32 :: u32)
       \<le> unat (m_activeHeapPointer (swapSpaces sample_heap))"
    unfolding live by (simp_all add: sample_heap_def sample_heap_space sample_heap_fields correctPadding_def)
      (simp_all add: sample_heap_with_def baker_new_def)
  obtain f s' block where a: "allocate 32 True sample_heap = Inr ((block, True), s')" "block mod 4 = 0"
    "m_externalPointers s' = map f (m_externalPointers sample_heap)"
    "\<forall>p\<in>gc_live sample_heap. unat block + unat (32 :: u32) \<le> unat (f p)"
    using allocate_after_collection[OF sample_heap_collectable[of 7, folded sample_heap_def] p, of True]
    by (elim exE conjE) (rule that, assumption+, simp)
  have "m_externalPointers s' = [f 4144, f 5]" "unat block + 32 \<le> unat (f 4144)"
    using a(3,4) by (simp_all add: sample_heap_def sample_heap_live sample_heap_fields)
  then show ?thesis using a(1,2) by (intro exI[of _ f] exI[of _ s'] exI[of _ block] conjI)
qed

end
