(* ===== verification/Generational.thy ===== *)
theory Generational
  imports BakerCorrect
begin

text \<open>
  \<open>GenerationalMemoryManager\<close> (\<^verbatim>\<open>src/GenerationalMemoryManager.cpp\<close>): the class derived from
  \<open>BakerMemoryManager\<close> that allocates in the left space and keeps the survivors of a collection in
  the right one.  Allocation, growth and the traversal are inherited, with this class's
  \<open>collectGarbage\<close> and \<open>checkRoot\<close> in the place of the virtual ones.
\<close>

section \<open>State\<close>

record generational = baker +
  m_leftToRightCollections :: u32
  m_rightToLeftCollections :: u32
  m_crossGenerationalReferences :: "slot list"

definition generational_new :: generational where
  "generational_new = baker.extend baker_new (generational.fields 0 0 [])"

section \<open>Moving the young objects\<close>

text \<open>The addresses between the pointer of the space being left and the end of the left space.\<close>

definition inLeftSpace :: "'a baker_scheme \<Rightarrow> ptr \<Rightarrow> bool" where
  "inLeftSpace s p \<longleftrightarrow> p \<ge> m_inactiveHeapPointer s \<and> p < m_heapOne s + m_heapSize s div 2"

text \<open>
  The external pointers: the new address is assigned to the local \<open>currentObject\<close> only, the node keeps
  the old one.
\<close>

fun moveYoungExternals :: "ptr list \<Rightarrow> ('a baker_scheme, unit) comp" where
  "moveYoungExternals [] = ret ()"
| "moveYoungExternals (p # ps) =
     bnd (gets (\<lambda>s. inLeftSpace s p)) (\<lambda>young.
     bnd (if young then bnd (moveObject p) (\<lambda>currentObject. ret ()) else ret ()) (\<lambda>_.
     moveYoungExternals ps))"

fun moveYoungRoots :: "slot list \<Rightarrow> ('a baker_scheme, unit) comp" where
  "moveYoungRoots [] = ret ()"
| "moveYoungRoots (iRoot # roots) =
     bnd (mem (\<lambda>m. getField m (fst iRoot) (snd iRoot))) (\<lambda>v.
     bnd (gets (\<lambda>s. inLeftSpace s v \<or> inLeftSpace s (slotAddress iRoot))) (\<lambda>young.
     bnd (if young
          then bnd (moveObject v) (\<lambda>v'. mem_upd (\<lambda>m. putField m (fst iRoot) (snd iRoot) v'))
          else ret ()) (\<lambda>_.
     moveYoungRoots roots)))"

definition moveYoungObjects :: "('a generational_scheme, unit) comp" where
  "moveYoungObjects =
     bnd (gets m_crossGenerationalReferences) (\<lambda>refs.
     bnd (moveStaticRoots refs) (\<lambda>_.
     bnd (modify (\<lambda>s. s\<lparr>m_crossGenerationalReferences := []\<rparr>)) (\<lambda>_.
     bnd (gets m_externalPointers) (\<lambda>ps.
     bnd (moveYoungExternals (rev ps)) (\<lambda>_.
     bnd (gets m_staticRoots) (\<lambda>roots.
     moveYoungRoots roots))))))"

section \<open>Collection\<close>

text \<open>
  The two fill patterns, \<open>0xAA\<close> and \<open>0xBB\<close>, are not kept: what the fill destroys is gone, and a copy
  placed in the space has all of its fields written.
\<close>

definition enterRight :: "'a baker_scheme \<Rightarrow> 'a baker_scheme" where
  "enterRight s = s\<lparr>m_activeHeapBase := m_heapTwo s, m_inactiveHeapBase := m_heapOne s,
     m_activeHeapPointer := m_inactiveHeapPointer s, m_inactiveHeapPointer := m_activeHeapPointer s\<rparr>"

definition leaveRight :: "'a baker_scheme \<Rightarrow> 'a baker_scheme" where
  "leaveRight s = s\<lparr>m_inactiveHeapBase := m_heapTwo s, m_inactiveHeapPointer := m_activeHeapPointer s,
     m_activeHeapBase := m_heapOne s, m_activeHeapPointer := m_heapOne s + m_heapSize s div 2,
     objs := clear_block (m_heapOne s) (m_heapSize s div 2) (objs s)\<rparr>"

definition collectLeftToRight :: "bool \<Rightarrow> ('a generational_scheme, unit) comp" where
  "collectLeftToRight fullCollect =
     bnd (modify enterRight) (\<lambda>_.
     bnd (if fullCollect then moveObjects else moveYoungObjects) (\<lambda>_.
     bnd (modify leaveRight) (\<lambda>_.
     modify (\<lambda>s. s\<lparr>m_leftToRightCollections := m_leftToRightCollections s + 1\<rparr>))))"

definition collectRightToLeft :: "('a generational_scheme, unit) comp" where
  "collectRightToLeft =
     bnd (modify (\<lambda>s. s\<lparr>m_activeHeapBase := m_heapOne s, m_inactiveHeapBase := m_heapTwo s,
            m_activeHeapPointer := m_heapOne s + m_heapSize s div 2\<rparr>)) (\<lambda>_.
     bnd moveObjects (\<lambda>_.
     bnd (modify (\<lambda>s. s\<lparr>m_inactiveHeapPointer := m_heapTwo s + m_heapSize s div 2,
            objs := clear_block (m_heapTwo s) (m_heapSize s div 2) (objs s)\<rparr>)) (\<lambda>_.
     bnd (collectLeftToRight True) (\<lambda>_.
     modify (\<lambda>s. s\<lparr>m_rightToLeftCollections := m_rightToLeftCollections s + 1\<rparr>)))))"

definition checkThreshold :: "'a baker_scheme \<Rightarrow> bool" where
  "checkThreshold s \<longleftrightarrow> m_inactiveHeapPointer s - m_inactiveHeapBase s < m_heapSize s div 8"

definition gen_collectGarbage :: "('a generational_scheme, unit) comp" where
  "gen_collectGarbage =
     bnd (collectLeftToRight False) (\<lambda>_.
     bnd (gets checkThreshold) (\<lambda>low.
     bnd (if low then collectRightToLeft else ret ()) (\<lambda>_.
     modify (\<lambda>s. s\<lparr>m_memoryInfo := (m_memoryInfo s)
       \<lparr>collectionsCount := collectionsCount (m_memoryInfo s) + 1\<rparr>\<rparr>))))"

definition gen_growHeap :: "u32 \<Rightarrow> ('a generational_scheme, unit) comp" where
  "gen_growHeap = growHeapWith gen_collectGarbage"

definition gen_allocate :: "u32 \<Rightarrow> bool \<Rightarrow> ('a generational_scheme, ptr \<times> bool) comp" where
  "gen_allocate = allocateWith gen_collectGarbage"

section \<open>Write barrier\<close>

definition isInYoungHeap :: "'a baker_scheme \<Rightarrow> ptr \<Rightarrow> bool" where
  "isInYoungHeap s location \<longleftrightarrow>
     location \<ge> m_activeHeapPointer s \<and> location < m_heapOne s + m_heapSize s div 2"

definition addCrossgenReference :: "slot \<Rightarrow> 'a generational_scheme \<Rightarrow> 'a generational_scheme" where
  "addCrossgenReference pointer s =
     s\<lparr>m_crossGenerationalReferences := pointer # m_crossGenerationalReferences s\<rparr>"

definition removeCrossgenReference :: "slot \<Rightarrow> 'a generational_scheme \<Rightarrow> 'a generational_scheme" where
  "removeCrossgenReference pointer s =
     s\<lparr>m_crossGenerationalReferences := remove1 pointer (m_crossGenerationalReferences s)\<rparr>"

definition gen_checkRoot :: "ptr \<Rightarrow> slot \<Rightarrow> ('a generational_scheme, bool) comp" where
  "gen_checkRoot val objectSlot s =
     (if isInYoungHeap s (slotAddress objectSlot) then Inr (False, s)
      else if isInStaticHeap s (slotAddress objectSlot) then checkRoot val objectSlot s
      else case getField (objs s) (fst objectSlot) (snd objectSlot) of
             Inl e \<Rightarrow> Inl e
           | Inr previousValue \<Rightarrow>
               (if isInYoungHeap s val
                then (if \<not> isInYoungHeap s previousValue
                      then Inr (True, addCrossgenReference objectSlot s) else Inr (False, s))
                else (if isInYoungHeap s previousValue
                      then Inr (True, removeCrossgenReference objectSlot s) else Inr (False, s))))"

definition gen_storeField :: "ptr \<Rightarrow> nat \<Rightarrow> ptr \<Rightarrow> ('a generational_scheme, unit) comp" where
  "gen_storeField obj index val =
     bnd (gen_checkRoot val (obj, index)) (\<lambda>_. mem_upd (\<lambda>m. putField m obj index val))"

section \<open>Frames\<close>

lemma frames_moveYoungExternals [frames_intro]: "frames (moveYoungExternals ps)"
  by (induction ps) (auto intro!: frames_intro)

lemma frames_moveYoungRoots [frames_intro]: "frames (moveYoungRoots roots)"
  by (induction roots) (auto intro!: frames_intro)

text \<open>The traversals of the young objects change the objects, the active pointer and the reference list.\<close>

definition young_frame :: "'a generational_scheme \<Rightarrow> 'a generational_scheme \<Rightarrow> bool" where
  "young_frame s s' \<longleftrightarrow> m_externalPointers s' = m_externalPointers s \<and> m_heapOne s' = m_heapOne s \<and>
     m_heapTwo s' = m_heapTwo s \<and> m_heapSize s' = m_heapSize s \<and> m_staticRoots s' = m_staticRoots s \<and>
     m_inactiveHeapPointer s' = m_inactiveHeapPointer s"

lemma frame_young: "frame_ok s s' \<Longrightarrow> young_frame s s'"
  by (auto simp: frame_ok_def young_frame_def)

lemma young_frame_trans: "young_frame s t \<Longrightarrow> young_frame t u \<Longrightarrow> young_frame s u"
  by (simp add: young_frame_def)

lemma moveYoungObjects_frame:
  assumes "moveYoungObjects s = Inr ((), s')"
  shows "young_frame s s' \<and> m_crossGenerationalReferences s' = []"
proof -
  obtain t where t: "moveStaticRoots (m_crossGenerationalReferences s) s = Inr ((), t)"
    using assms by (auto simp: moveYoungObjects_def comp_simps split: sum.splits)
  let ?t = "t\<lparr>m_crossGenerationalReferences := []\<rparr>"
  obtain u where u: "moveYoungExternals (rev (m_externalPointers ?t)) ?t = Inr ((), u)"
    "moveYoungRoots (m_staticRoots u) u = Inr ((), s')"
    using assms t by (auto simp: moveYoungObjects_def comp_simps split: sum.splits)
  have f: "frame_ok s t" "frame_ok ?t u" "frame_ok u s'"
    using t u frames_moveStaticRoots frames_moveYoungExternals frames_moveYoungRoots unfolding frames_def by blast+
  have "young_frame t ?t" by (simp add: young_frame_def)
  then have "young_frame s s'" using f[THEN frame_young] young_frame_trans by blast
  moreover have "m_crossGenerationalReferences s' = m_crossGenerationalReferences ?t"
    using f(2,3) by (auto simp: frame_ok_def)
  ultimately show ?thesis by simp
qed

section \<open>The barrier between the generations\<close>

definition old_slot :: "'a generational_scheme \<Rightarrow> slot \<Rightarrow> bool" where
  "old_slot s sl \<longleftrightarrow> \<not> isInYoungHeap s (slotAddress sl) \<and> \<not> isInStaticHeap s (slotAddress sl)"

definition crossgen_exact :: "'a generational_scheme \<Rightarrow> bool" where
  "crossgen_exact s \<longleftrightarrow>
     roots_exact (old_slot s) (isInYoungHeap s) (m_crossGenerationalReferences s) (slot_value (objs s))"

abbreviation gen_storeSlot :: "slot \<Rightarrow> ptr \<Rightarrow> ('a generational_scheme, unit) comp" where
  "gen_storeSlot sl v \<equiv> gen_storeField (fst sl) (snd sl) v"

definition new_crossgen :: "'a generational_scheme \<Rightarrow> slot \<Rightarrow> ptr \<Rightarrow> ptr \<Rightarrow> slot list" where
  "new_crossgen s sl v old =
     (if \<not> old_slot s sl \<or> isInYoungHeap s v = isInYoungHeap s old then m_crossGenerationalReferences s
      else if isInYoungHeap s v then sl # m_crossGenerationalReferences s
      else remove1 sl (m_crossGenerationalReferences s))"

lemma gen_checkRoot_shape:
  assumes "slot_value (objs s) sl = Some old" and "gen_checkRoot v sl s = Inr (b, t)"
  shows "\<exists>roots. t = s\<lparr>m_staticRoots := roots, m_crossGenerationalReferences := new_crossgen s sl v old\<rparr>"
proof -
  consider "isInYoungHeap s (slotAddress sl)" | "\<not> isInYoungHeap s (slotAddress sl)" "isInStaticHeap s (slotAddress sl)"
    | "old_slot s sl" by (auto simp: old_slot_def)
  then show ?thesis
  proof cases
    case 1
    then show ?thesis using assms(2)
      by (intro exI[of _ "m_staticRoots s"]) (simp add: gen_checkRoot_def new_crossgen_def old_slot_def)
  next
    case 2
    then show ?thesis using assms(2) checkRoot_shape[OF assms(1), of v]
      by (intro exI[of _ "new_roots s sl v old"]) (simp add: gen_checkRoot_def new_crossgen_def old_slot_def)
  next
    case 3
    then show ?thesis using assms
      by (intro exI[of _ "m_staticRoots s"]) (auto simp: gen_checkRoot_def new_crossgen_def old_slot_def slot_value_def
          addCrossgenReference_def removeCrossgenReference_def split: sum.splits if_splits)
  qed
qed

lemma gen_storeField_shape:
  assumes "gen_storeSlot sl v s = Inr ((), s')"
  shows "\<exists>m old roots. slot_value (objs s) sl = Some old \<and> slot_value m = (slot_value (objs s))(sl \<mapsto> v) \<and>
    s' = s\<lparr>m_staticRoots := roots, m_crossGenerationalReferences := new_crossgen s sl v old, objs := m\<rparr>"
proof -
  obtain b t where t: "gen_checkRoot v sl s = Inr (b, t)" "mem_upd (\<lambda>m. putField m (fst sl) (snd sl) v) t = Inr ((), s')"
    using assms unfolding gen_storeField_def by (elim bnd_InrE) auto
  have same: "objs t = objs s"
    using t(1) checkRoot_objs[of v sl s] by (auto simp: gen_checkRoot_def addCrossgenReference_def
        removeCrossgenReference_def split: if_splits sum.splits)
  obtain m where m: "putField (objs s) (fst sl) (snd sl) v = Inr m" "s' = t\<lparr>objs := m\<rparr>"
    using t(2) same by (auto simp: mem_upd_def split: sum.splits)
  obtain old where old: "slot_value (objs s) sl = Some old" using putField_value(2)[OF m(1)] by auto
  then show ?thesis using gen_checkRoot_shape[OF old t(1)] m(2) putField_value(1)[OF m(1)] by auto
qed

interpretation crossgen_barrier:
  write_barrier old_slot isInYoungHeap m_crossGenerationalReferences "\<lambda>s. slot_value (objs s)" gen_storeSlot
proof
  fix sl :: slot and v old :: ptr and s s' :: "'a generational_scheme"
  assume st: "gen_storeSlot sl v s = Inr ((), s')"
  obtain m old' roots where r: "slot_value (objs s) sl = Some old'" "slot_value m = (slot_value (objs s))(sl \<mapsto> v)"
    "s' = s\<lparr>m_staticRoots := roots, m_crossGenerationalReferences := new_crossgen s sl v old', objs := m\<rparr>"
    using gen_storeField_shape[OF st] by blast
  show "slot_value (objs s') = (slot_value (objs s))(sl \<mapsto> v)" using r(2,3) by simp
  show "old_slot s' = old_slot s \<and> isInYoungHeap s' = isInYoungHeap s"
    using r(3) by (simp add: old_slot_def isInYoungHeap_def isInStaticHeap_def fun_eq_iff)
  show "\<exists>old. slot_value (objs s) sl = Some old" using r(1) by simp
  assume "slot_value (objs s) sl = Some old"
  then show "m_crossGenerationalReferences s' = (if \<not> old_slot s sl \<or> isInYoungHeap s v = isInYoungHeap s old
      then m_crossGenerationalReferences s
      else if isInYoungHeap s v then sl # m_crossGenerationalReferences s else remove1 sl (m_crossGenerationalReferences s))"
    using r(1,3) by (simp add: new_crossgen_def)
qed

section \<open>Properties\<close>

text \<open>
  C14. The barrier of the generational manager keeps the list of references from the old to the young
  generation exact: each slot outside the young and the static heap that holds a young pointer is listed
  once, and nothing else is, after any sequence of stores.
\<close>

theorem stores_keep_crossgen_references:
  assumes "crossgen_exact s" and "run_stores gen_storeSlot ws s = Inr ((), s')"
  shows "crossgen_exact s' \<and> slot_value (objs s') = slot_value (objs s) ++ map_of (rev ws)"
  using crossgen_barrier.stores_exact[of s ws s', OF assms(1)[unfolded crossgen_exact_def] assms(2)]
  unfolding crossgen_exact_def by (elim conjE, simp only: simp_thms)

text \<open>
  C15. A collection of the young generation does not update the external pointers: each registered slot
  keeps the address it had, and after the collection there is no object at any address of the left
  space, where every young object was.
\<close>

theorem young_collection_leaves_externals:
  assumes "collectLeftToRight False s = Inr ((), s')"
  shows "m_externalPointers s' = m_externalPointers s \<and>
    (\<forall>p\<in>set (m_externalPointers s'). in_block (m_heapOne s) (m_heapSize s div 2) p \<longrightarrow> objs s' p = None) \<and>
    m_activeHeapPointer s' = m_heapOne s + m_heapSize s div 2 \<and> m_crossGenerationalReferences s' = []"
proof -
  obtain t where t: "moveYoungObjects (enterRight s) = Inr ((), t)"
    using assms by (auto simp: collectLeftToRight_def comp_simps split: sum.splits)
  have f: "young_frame (enterRight s) t" "m_crossGenerationalReferences t = []" using moveYoungObjects_frame[OF t] by auto
  have "s' = leaveRight t\<lparr>m_leftToRightCollections := m_leftToRightCollections s' \<rparr>"
    using assms t by (auto simp: collectLeftToRight_def comp_simps)
  then obtain n where s': "s' = leaveRight t\<lparr>m_leftToRightCollections := n\<rparr>" by blast
  show ?thesis unfolding s' using f
    by (simp add: leaveRight_def enterRight_def young_frame_def clear_block_def)
qed

section \<open>Witnesses\<close>

text \<open>A young byte object at 4144, held by an external pointer, and an old object at 8192 with one field.\<close>

definition gen_sample :: generational where
  "gen_sample = generational_new\<lparr>m_heapSize := 128, m_heapOne := 4096, m_heapTwo := 8192,
     m_activeHeapBase := 4096, m_activeHeapPointer := 4144, m_inactiveHeapBase := 8192, m_inactiveHeapPointer := 8240,
     m_staticHeapBase := 12288, m_staticHeapPointer := 12288, m_staticHeapSize := 64, m_externalPointers := [4144],
     objs := [4144 \<mapsto> cell 4 [1, 2, 3, 4],
              8240 \<mapsto> \<lparr>obj_size = TSize_new 1 False False, obj_class = 8240, obj_fields = [8240], obj_bytes = []\<rparr>]\<rparr>"

lemma stores_keep_crossgen_references_witness:
  "\<exists>t. run_stores gen_storeSlot [((8240, 0), 4144)] gen_sample = Inr ((), t) \<and> crossgen_exact t \<and>
     slot_value (objs t) (8240, 0) = Some 4144 \<and> m_crossGenerationalReferences t = [(8240, 0)]"
proof -
  let ?ws = "[((8240, 0), 4144)] :: (slot \<times> ptr) list"
  have val: "v = 8240 \<or> fst sl = 4144" if "slot_value (objs gen_sample) sl = Some v" for sl v
    using that by (auto simp: gen_sample_def slot_value_def getField_def objectAt_def TObject_getField_def
        comp_simps TSize_isBinary_def TSize_new_def FLAG_BINARY_def FLAG_RELOCATED_def nth_Cons' cell_def
        split: if_splits sum.splits)
  have young: "sl = (4144, 0)" if "slot_value (objs gen_sample) sl = Some v" "fst sl = 4144" for sl v
    using that by (cases sl) (auto simp: gen_sample_def slot_value_def getField_def objectAt_def TObject_getField_def
        comp_simps TSize_isBinary_def TSize_new_def FLAG_BINARY_def FLAG_RELOCATED_def cell_def
        split: if_splits sum.splits)
  have e: "crossgen_exact gen_sample"
    unfolding crossgen_exact_def roots_exact_def old_slot_def isInYoungHeap_def
    using val young by (fastforce simp: gen_sample_def generational_new_def generational.defs baker_new_def baker.defs slotAddress_def)
  have "map_sum id (m_crossGenerationalReferences \<circ> snd) (run_stores gen_storeSlot ?ws gen_sample) = Inr [(8240, 0)]" by code_simp
  then obtain t where t: "run_stores gen_storeSlot ?ws gen_sample = Inr ((), t)" "m_crossGenerationalReferences t = [(8240, 0)]"
    by (cases "run_stores gen_storeSlot ?ws gen_sample") auto
  show ?thesis using stores_keep_crossgen_references[OF e t(1)] t by auto
qed

lemma young_collection_leaves_externals_witness:
  "\<exists>s'. collectLeftToRight False gen_sample = Inr ((), s') \<and> m_externalPointers s' = [4144] \<and>
     objs gen_sample 4144 = Some (cell 4 [1, 2, 3, 4]) \<and> objs s' 4144 = None"
proof -
  have cl: "objs ((enterRight gen_sample)\<lparr>m_crossGenerationalReferences := []\<rparr>) 4144 = Some (cell 4 [1, 2, 3, 4])" by (simp add: gen_sample_def enterRight_def)
  let ?e = "(enterRight gen_sample)\<lparr>m_crossGenerationalReferences := []\<rparr>"
  have e: "m_activeHeapPointer ?e - (sizeof_TObject + correctPadding 4) = 8228" "\<not> isSmallInteger 4144"
    "inOldSpace ?e 4144" "m_inactiveHeapPointer ?e \<noteq> NULL" "TSize_getSize (TSize_new 4 True False) = 4"
    "unat (sizeof_TObject + correctPadding 4) \<le> unat (m_activeHeapPointer ?e) - unat (m_activeHeapBase ?e)"
    by (simp_all add: enterRight_def gen_sample_def generational_new_def generational.defs baker_new_def baker.defs
        isSmallInteger_def inOldSpace_def sizeof_TObject_def correctPadding_def TSize_getSize_def TSize_new_def
        FLAG_BINARY_def FLAG_RELOCATED_def)
  obtain old where m: "moveObject 4144 ?e = Inr (8228, ?e\<lparr>m_activeHeapPointer := 8228,
      objs := (objs ?e)(8228 \<mapsto> cell 4 [1, 2, 3, 4], 4144 \<mapsto> old)\<rparr>)"
    using moveObject_leaf[OF cl _ e(5,2,3) _ e(4,6)] unfolding e(1) by auto
  have "inLeftSpace ?e 4144" "m_crossGenerationalReferences (enterRight gen_sample) = []"
    "m_externalPointers ?e = [4144]" "m_staticRoots ?e = []"
    by (simp_all add: inLeftSpace_def enterRight_def gen_sample_def generational_new_def generational.defs baker_new_def baker.defs)
  then have "moveYoungObjects (enterRight gen_sample) \<noteq> Inl x" for x
    by (auto simp: moveYoungObjects_def comp_simps inLeftSpace_def m)
  then obtain s' where s': "collectLeftToRight False gen_sample = Inr ((), s')"
    by (cases "moveYoungObjects (enterRight gen_sample)") (auto simp: collectLeftToRight_def comp_simps)
  show ?thesis using young_collection_leaves_externals[OF s'] s'
    by (simp add: gen_sample_def in_block_def generational_new_def generational.defs baker_new_def baker.defs)
qed

end
