(* ===== verification/NonCollect.thy ===== *)
theory NonCollect
  imports BakerState
begin

text \<open>
  \<open>NonCollectMemoryManager\<close> (\<^verbatim>\<open>src/NonCollectMemoryManager.cpp\<close>, \<^verbatim>\<open>include/memory.h\<close>): a manager
  that never frees and takes a new heap from the system when the current one is full.
\<close>

section \<open>State\<close>

text \<open>
  The class declares its own \<open>m_gcLogger\<close>, an \<open>auto_ptr\<close> that hides the logger of
  \<open>IMemoryManager\<close>; \<open>nc_gcLogger\<close> says whether it points to a logger.
\<close>

record noncollect =
  nc_objs :: objmem
  nc_memoryInfo :: memory_info
  nc_gcLogger :: bool
  nc_heapSize :: u32
  nc_heapBase :: ptr
  nc_heapPointer :: ptr
  nc_usedHeaps :: "ptr list"
  nc_staticHeapSize :: u32
  nc_staticHeapBase :: ptr
  nc_staticHeapPointer :: ptr
  nc_libc_alloc :: "nat \<Rightarrow> u32 \<Rightarrow> ptr"
  nc_libc_calls :: nat

definition noncollect_new :: "(nat \<Rightarrow> u32 \<Rightarrow> ptr) \<Rightarrow> noncollect" where
  "noncollect_new alloc = \<lparr>nc_objs = Map.empty,
     nc_memoryInfo = \<lparr>collectionsCount = 0, allocationsCount = 0, events = []\<rparr>, nc_gcLogger = False,
     nc_heapSize = 0, nc_heapBase = 0, nc_heapPointer = 0, nc_usedHeaps = [],
     nc_staticHeapSize = 0, nc_staticHeapBase = 0, nc_staticHeapPointer = 0,
     nc_libc_alloc = alloc, nc_libc_calls = 0\<rparr>"

definition nc_malloc :: "u32 \<Rightarrow> (noncollect, ptr) comp" where
  "nc_malloc n s = Inr (nc_libc_alloc s (nc_libc_calls s) n, s\<lparr>nc_libc_calls := nc_libc_calls s + 1\<rparr>)"

section \<open>Operations\<close>

text \<open>The size of the static heap is stored in \<open>m_heapSize\<close>.\<close>

definition nc_initializeStaticHeap :: "u32 \<Rightarrow> (noncollect, bool) comp" where
  "nc_initializeStaticHeap staticHeapSize =
     (let staticHeapSize = correctPadding staticHeapSize
      in bnd (nc_malloc staticHeapSize) (\<lambda>heap.
         if heap = NULL then ret False
         else bnd (modify (\<lambda>s. s\<lparr>nc_objs := clear_block heap staticHeapSize (nc_objs s),
                nc_staticHeapBase := heap, nc_staticHeapPointer := heap + staticHeapSize,
                nc_heapSize := staticHeapSize\<rparr>)) (\<lambda>_. ret True)))"

definition nc_initializeHeap :: "u32 \<Rightarrow> (noncollect, bool) comp" where
  "nc_initializeHeap heapSize =
     (let heapSize = correctPadding heapSize
      in bnd (nc_malloc heapSize) (\<lambda>heap.
         if heap = NULL then ret False
         else bnd (modify (\<lambda>s. s\<lparr>nc_objs := clear_block heap heapSize (nc_objs s),
                nc_heapBase := heap, nc_heapPointer := heap + heapSize, nc_heapSize := heapSize,
                nc_usedHeaps := nc_usedHeaps s @ [heap]\<rparr>)) (\<lambda>_. ret True)))"

text \<open>The log line at the end goes through \<open>m_gcLogger\<close>.\<close>

definition nc_growHeap :: "(noncollect, unit) comp" where
  "nc_growHeap =
     bnd (gets (\<lambda>s. of_nat (length (nc_usedHeaps s)) * nc_heapSize s)) (\<lambda>before.
     bnd (modify (\<lambda>s. s\<lparr>nc_memoryInfo := (nc_memoryInfo s)
            \<lparr>collectionsCount := collectionsCount (nc_memoryInfo s) + 1\<rparr>\<rparr>)) (\<lambda>_.
     bnd (gets nc_heapSize) (\<lambda>heapSize.
     bnd (nc_malloc heapSize) (\<lambda>heap.
     bnd (guard Aborted (heap \<noteq> NULL)) (\<lambda>_.
     bnd (modify (\<lambda>s. s\<lparr>nc_objs := clear_block heap heapSize (nc_objs s),
            nc_heapBase := heap, nc_heapPointer := heap + heapSize,
            nc_usedHeaps := nc_usedHeaps s @ [heap]\<rparr>)) (\<lambda>_.
     bnd (modify (\<lambda>s. s\<lparr>nc_memoryInfo := (nc_memoryInfo s)
            \<lparr>events := \<lparr>usedHeapSizeBeforeCollect = before, usedHeapSizeAfterCollect = before,
                totalHeapSize = of_nat (length (nc_usedHeaps s)) * nc_heapSize s\<rparr>
              # events (nc_memoryInfo s)\<rparr>\<rparr>)) (\<lambda>_.
     bnd (gets nc_gcLogger) (\<lambda>logger. guard BadAccess logger))))))))"

definition nc_allocate :: "u32 \<Rightarrow> (noncollect, ptr \<times> bool) comp" where
  "nc_allocate requestedSize =
     bnd (gets (\<lambda>s. nc_heapPointer s - requestedSize < nc_heapBase s)) (\<lambda>full.
     bnd (if full then nc_growHeap else ret ()) (\<lambda>_.
     bnd (modify (\<lambda>s. s\<lparr>nc_heapPointer := nc_heapPointer s - requestedSize,
            nc_memoryInfo := (nc_memoryInfo s)
              \<lparr>allocationsCount := allocationsCount (nc_memoryInfo s) + 1\<rparr>\<rparr>)) (\<lambda>_.
     bnd (gets nc_heapPointer) (\<lambda>block. ret (block, full)))))"

definition nc_staticAllocate :: "u32 \<Rightarrow> (noncollect, ptr) comp" where
  "nc_staticAllocate requestedSize s =
     (let newPointer = nc_staticHeapPointer s - requestedSize
      in if newPointer < nc_staticHeapBase s then Inr (NULL, s)
         else Inr (newPointer, s\<lparr>nc_staticHeapPointer := newPointer\<rparr>))"

definition nc_isInStaticHeap :: "noncollect \<Rightarrow> ptr \<Rightarrow> bool" where
  "nc_isInStaticHeap s location \<longleftrightarrow>
     location \<ge> nc_staticHeapPointer s \<and> location < nc_staticHeapBase s + nc_staticHeapSize s"

text \<open>The collection, root and external pointer operations are empty, the write barrier is False.\<close>

definition nc_collectGarbage :: "(noncollect, unit) comp" where
  "nc_collectGarbage = ret ()"

definition nc_checkRoot :: "ptr \<Rightarrow> slot \<Rightarrow> (noncollect, bool) comp" where
  "nc_checkRoot val objectSlot = ret False"

definition nc_allocsBeyondCollection :: "noncollect \<Rightarrow> u32" where
  "nc_allocsBeyondCollection s = 0"

section \<open>Invariant\<close>

text \<open>
  What every operation keeps: no logger, no static heap size, and pointers inside their blocks that do
  not wrap around.
\<close>

definition nc_inv :: "noncollect \<Rightarrow> bool" where
  "nc_inv s \<longleftrightarrow> \<not> nc_gcLogger s \<and> nc_staticHeapSize s = 0 \<and>
     nc_staticHeapBase s \<le> nc_staticHeapPointer s \<and> nc_heapBase s \<le> nc_heapPointer s"

text \<open>The addresses \<open>malloc\<close> returns: a block never wraps around the address space.\<close>

definition malloc_ok :: "(nat \<Rightarrow> u32 \<Rightarrow> ptr) \<Rightarrow> bool" where
  "malloc_ok alloc \<longleftrightarrow> (\<forall>n sz. unat (alloc n sz) + unat sz < 2 ^ 32)"

lemma block_end: "unat base + unat sz < 2 ^ 32 \<Longrightarrow> (base::u32) \<le> base + sz"
  by (simp add: word_le_nat_alt unat_word_ariths)

lemma nc_inv_new: "nc_inv (noncollect_new alloc)"
  by (simp add: nc_inv_def noncollect_new_def)

lemma nc_inv_initialize:
  assumes "nc_inv s" and "malloc_ok (nc_libc_alloc s)"
  shows "nc_initializeStaticHeap n s = Inr (b, s') \<Longrightarrow> nc_inv s'"
    and "nc_initializeHeap n s = Inr (b, s') \<Longrightarrow> nc_inv s'"
  using assms
  by (auto simp: nc_initializeStaticHeap_def nc_initializeHeap_def nc_malloc_def comp_simps nc_inv_def
      malloc_ok_def Let_def split: if_splits intro!: block_end)

lemma nc_growHeap_faults:
  assumes "nc_inv s"
  shows "nc_growHeap s = Inl BadAccess \<or> nc_growHeap s = Inl Aborted"
  using assms by (simp add: nc_growHeap_def nc_malloc_def comp_simps nc_inv_def)

lemma nc_allocate_cases:
  assumes "nc_inv s"
  shows "nc_allocate n s =
    (if nc_heapPointer s - n < nc_heapBase s
     then Inl (if nc_libc_alloc s (nc_libc_calls s) (nc_heapSize s) = NULL then Aborted else BadAccess)
     else Inr ((nc_heapPointer s - n, False), s\<lparr>nc_heapPointer := nc_heapPointer s - n,
            nc_memoryInfo := (nc_memoryInfo s)
              \<lparr>allocationsCount := allocationsCount (nc_memoryInfo s) + 1\<rparr>\<rparr>))"
  using assms by (simp add: nc_allocate_def nc_growHeap_def nc_malloc_def comp_simps nc_inv_def)

section \<open>Properties\<close>

text \<open>
  The manager cannot grow: from any state its constructor and operations reach, an allocation that
  fits the current heap takes the next lower block of it, and one that does not fit ends in a fault,
  because the logger that \<open>growHeap\<close> writes to is a null pointer.
\<close>

theorem nc_allocate_effect:
  assumes "nc_inv s"
  shows "case nc_allocate n s of
      Inl e \<Rightarrow> nc_heapPointer s - n < nc_heapBase s \<and> e \<in> {Aborted, BadAccess}
    | Inr ((block, gcOccured), s') \<Rightarrow> nc_heapBase s \<le> block \<and> block + n = nc_heapPointer s \<and>
        nc_heapPointer s' = block \<and> \<not> gcOccured \<and> nc_inv s'"
  using assms by (auto simp: nc_allocate_cases nc_inv_def)

definition sample_noncollect :: noncollect where
  "sample_noncollect = (noncollect_new (\<lambda>_ _. 64))
     \<lparr>nc_heapBase := 64, nc_heapPointer := 96, nc_heapSize := 64\<rparr>"

lemma nc_allocate_effect_witness:
  "\<exists>s'. nc_allocate 24 sample_noncollect = Inr ((72, False), s') \<and> nc_inv s' \<and> nc_heapPointer s' = 72"
proof -
  have "nc_inv sample_noncollect" by (simp add: nc_inv_def sample_noncollect_def noncollect_new_def)
  from nc_allocate_effect[OF this, of 24] nc_allocate_cases[OF this, of 24]
  show ?thesis by (simp add: sample_noncollect_def noncollect_new_def)
qed

text \<open>
  \<open>isInStaticHeap\<close> holds of no address in any reachable state, not even of one
  \<open>staticAllocate\<close> just returned: \<open>initializeStaticHeap\<close> never sets the static heap size.
\<close>

theorem nc_isInStaticHeap_never:
  assumes "nc_inv s" and "nc_staticAllocate n s = Inr (p, s')" and "p \<noteq> NULL"
  shows "nc_inv s' \<and> \<not> nc_isInStaticHeap s' p \<and> \<not> nc_isInStaticHeap s' q"
  using assms by (auto simp: nc_staticAllocate_def nc_isInStaticHeap_def nc_inv_def Let_def split: if_splits)

lemma nc_isInStaticHeap_never_witness:
  "case nc_initializeStaticHeap 64 (noncollect_new (\<lambda>_ _. 1024)) of
     Inr (True, s) \<Rightarrow> (case nc_staticAllocate 16 s of
        Inr (p, s') \<Rightarrow> p = 1072 \<and> \<not> nc_isInStaticHeap s' p | Inl _ \<Rightarrow> False)
   | _ \<Rightarrow> False"
  using nc_isInStaticHeap_never[of "snd (projr (nc_initializeStaticHeap 64 (noncollect_new (\<lambda>_ _. 1024))))" 16]
  by (simp add: nc_initializeStaticHeap_def nc_staticAllocate_def nc_malloc_def comp_simps noncollect_new_def correctPadding_def nc_inv_def Let_def)

end
