(* ===== verification/ExternalPointers.thy ===== *)
theory ExternalPointers
  imports BakerState
begin

text \<open>
  The linked list of external pointers (\<open>object_ptr\<close> of \<^verbatim>\<open>include/memory.h\<close>,
  \<open>registerExternalHeapPointer\<close> and \<open>releaseExternalHeapPointer\<close> of
  \<^verbatim>\<open>src/BakerMemoryManager.cpp\<close>), on the nodes themselves.  The \<open>hptr<>\<close> wrappers register in
  their constructor and release in their destructor, so a run of the virtual machine uses the list as a
  stack; the interface \<open>root_stack\<close> states that contract, and both the node list and the list of
  the \<open>baker\<close> state are shown to meet it.
\<close>

section \<open>Nodes\<close>

record object_ptr =
  op_data :: ptr
  op_next :: ptr

type_synonym nodes = "ptr \<rightharpoonup> object_ptr"

record external_list =
  op_nodes :: nodes
  op_head :: ptr     \<comment> \<open>\<open>m_externalPointersHead\<close>\<close>

definition node :: "ptr \<Rightarrow> (external_list, object_ptr) comp" where
  [comp_simps]: "node p s = (case op_nodes s p of None \<Rightarrow> Inl BadAccess | Some n \<Rightarrow> Inr (n, s))"

definition setNode :: "ptr \<Rightarrow> object_ptr \<Rightarrow> (external_list, unit) comp" where
  [comp_simps]: "setNode p n s = Inr ((), s\<lparr>op_nodes := (op_nodes s)(p \<mapsto> n)\<rparr>)"

definition registerExternalHeapPointer :: "ptr \<Rightarrow> (external_list, unit) comp" where
  "registerExternalHeapPointer pointer =
     bnd (node pointer) (\<lambda>n. bnd (gets op_head) (\<lambda>hd.
     bnd (setNode pointer (n\<lparr>op_next := hd\<rparr>)) (\<lambda>_.
     modify (\<lambda>s. s\<lparr>op_head := pointer\<rparr>))))"

text \<open>
  The search for the node before \<open>pointer\<close>; it reads through a null pointer when there is none, and
  does not end on a cyclic list.
\<close>

partial_function (option) findPrevious :: "nodes \<Rightarrow> ptr \<Rightarrow> ptr \<Rightarrow> ptr res option" where
  "findPrevious ns pointer previousPointer =
     (case ns previousPointer of
        None \<Rightarrow> Some (Inl BadAccess)
      | Some n \<Rightarrow> if op_next n = pointer then Some (Inr previousPointer)
                  else findPrevious ns pointer (op_next n))"

definition previousNode :: "ptr \<Rightarrow> (external_list, ptr) comp" where
  "previousNode pointer s =
     (case findPrevious (op_nodes s) pointer (op_head s) of
        None \<Rightarrow> Inl Diverges
      | Some r \<Rightarrow> (case r of Inl e \<Rightarrow> Inl e | Inr p \<Rightarrow> Inr (p, s)))"

definition releaseExternalHeapPointer :: "ptr \<Rightarrow> (external_list, unit) comp" where
  "releaseExternalHeapPointer pointer =
     bnd (node pointer) (\<lambda>n. bnd (gets op_head) (\<lambda>hd.
     if hd = pointer then modify (\<lambda>s. s\<lparr>op_head := op_next n\<rparr>)
     else if op_next n \<noteq> NULL
     then bnd (node (op_next n)) (\<lambda>next_object.
          setNode pointer (n\<lparr>op_data := op_data next_object, op_next := op_next next_object\<rparr>))
     else bnd (previousNode pointer) (\<lambda>previousPointer.
          bnd (node previousPointer) (\<lambda>m. setNode previousPointer (m\<lparr>op_next := NULL\<rparr>)))))"

text \<open>The constructor and the destructor of a registered \<open>hptr<>\<close> over its \<open>target\<close> node.\<close>

definition hptr_new :: "ptr \<Rightarrow> ptr \<Rightarrow> (external_list, unit) comp" where
  "hptr_new target object =
     bnd (setNode target \<lparr>op_data = object, op_next = NULL\<rparr>) (\<lambda>_. registerExternalHeapPointer target)"

definition hptr_delete :: "ptr \<Rightarrow> (external_list, unit) comp" where
  "hptr_delete target = releaseExternalHeapPointer target"

section \<open>The list the nodes stand for\<close>

fun chain :: "nodes \<Rightarrow> ptr \<Rightarrow> ptr list \<Rightarrow> bool" where
  "chain ns p [] \<longleftrightarrow> p = NULL"
| "chain ns p (q # qs) \<longleftrightarrow> p = q \<and> p \<noteq> NULL \<and> (\<exists>n. ns p = Some n \<and> chain ns (op_next n) qs)"

definition external_inv :: "external_list \<Rightarrow> ptr list \<Rightarrow> bool" where
  "external_inv s qs \<longleftrightarrow> chain (op_nodes s) (op_head s) qs \<and> distinct qs"

definition data_of :: "nodes \<Rightarrow> ptr list \<Rightarrow> ptr list" where
  "data_of ns qs = map (\<lambda>q. case ns q of Some n \<Rightarrow> op_data n | None \<Rightarrow> NULL) qs"

lemma chain_upd [simp]: "q \<notin> set qs \<Longrightarrow> chain (ns(q \<mapsto> n)) p qs = chain ns p qs"
  by (induction qs arbitrary: p) auto

lemma data_of_upd [simp]: "q \<notin> set qs \<Longrightarrow> data_of (ns(q \<mapsto> n)) qs = data_of ns qs"
  by (auto simp: data_of_def)

lemma data_of_Cons: "data_of ns (q # qs) = (case ns q of Some n \<Rightarrow> op_data n | None \<Rightarrow> NULL) # data_of ns qs"
  by (simp add: data_of_def)

lemma data_of_append: "data_of ns (qs @ rs) = data_of ns qs @ data_of ns rs"
  by (simp add: data_of_def)

lemma chain_unique: "chain ns p qs \<Longrightarrow> chain ns p rs \<Longrightarrow> qs = rs"
proof (induction qs arbitrary: p rs)
  case Nil
  then show ?case by (cases rs) auto
next
  case (Cons q qs)
  then show ?case by (cases rs) auto
qed

lemma chain_node: "chain ns p qs \<Longrightarrow> q \<in> set qs \<Longrightarrow> \<exists>n. ns q = Some n \<and> q \<noteq> NULL"
  by (induction qs arbitrary: p) auto

lemma chain_suffix: "chain ns p (qs @ rs) \<Longrightarrow> \<exists>r. chain ns r rs"
  by (induction qs arbitrary: p) auto

text \<open>Relinking the node that ends a prefix.\<close>

lemma chain_relink:
  assumes "chain ns p (qs @ q # rs)" and "distinct (qs @ q # rs)" and "ns q = Some n"
    and "chain ns r rs'" and "q \<notin> set rs'"
  shows "chain (ns(q \<mapsto> n\<lparr>op_data := d, op_next := r\<rparr>)) p (qs @ q # rs')"
  using assms
proof (induction qs arbitrary: p)
  case Nil
  then show ?case by (auto simp: fun_upd_def[symmetric])
next
  case (Cons a qs)
  then show ?case by auto
qed

lemma findPrevious_chain:
  "chain ns p (qs @ [q, r]) \<Longrightarrow> distinct (qs @ [q, r]) \<Longrightarrow> findPrevious ns r p = Some (Inr q)"
proof (induction qs arbitrary: p)
  case Nil
  then show ?case by (subst findPrevious.simps) auto
next
  case (Cons a qs)
  then obtain n where n: "ns p = Some n" "p = a" "chain ns (op_next n) (qs @ [q, r])" by auto
  then have "op_next n \<noteq> r"
    using Cons.prems(2) by (cases qs) auto
  then show ?case using n Cons by (subst findPrevious.simps) auto
qed

section \<open>Registering and releasing\<close>

lemma register_chain:
  assumes "external_inv s qs" and "p \<notin> set qs" and "p \<noteq> NULL" and "op_nodes s p = Some n"
  shows "\<exists>s'. registerExternalHeapPointer p s = Inr ((), s') \<and> external_inv s' (p # qs) \<and>
     data_of (op_nodes s') (p # qs) = op_data n # data_of (op_nodes s) qs"
  using assms by (simp add: registerExternalHeapPointer_def comp_simps external_inv_def data_of_Cons)

lemma release_head:
  assumes "external_inv s (p # qs)"
  shows "releaseExternalHeapPointer p s = Inr ((), s\<lparr>op_head := op_next (the (op_nodes s p))\<rparr>)"
    and "external_inv (s\<lparr>op_head := op_next (the (op_nodes s p))\<rparr>) qs"
  using assms by (auto simp: releaseExternalHeapPointer_def comp_simps external_inv_def)

lemma chain_not_head:
  "chain ns p (qs @ q # rs) \<Longrightarrow> distinct (qs @ q # rs) \<Longrightarrow> qs \<noteq> [] \<Longrightarrow> p \<noteq> q"
  by (cases qs) auto

lemma chain_at: "chain ns p (qs @ q # rs) \<Longrightarrow> \<exists>n. ns q = Some n \<and> q \<noteq> NULL \<and> chain ns (op_next n) rs"
  by (induction qs arbitrary: p) auto

text \<open>A node before the last one is not taken out: it takes over its successor, which leaves the list.\<close>

lemma release_middle:
  assumes inv: "external_inv s (qs @ p # q # rs)" and "qs \<noteq> []"
  shows "\<exists>s'. releaseExternalHeapPointer p s = Inr ((), s') \<and> external_inv s' (qs @ p # rs) \<and>
     data_of (op_nodes s') (qs @ p # rs) = data_of (op_nodes s) (qs @ q # rs)"
proof -
  have c: "chain (op_nodes s) (op_head s) (qs @ p # q # rs)" and d: "distinct (qs @ p # q # rs)"
    using inv by (simp_all add: external_inv_def)
  obtain n where n: "op_nodes s p = Some n" "chain (op_nodes s) (op_next n) (q # rs)"
    using chain_at[OF c] by auto
  obtain k where k: "op_next n = q" "q \<noteq> NULL" "op_nodes s q = Some k" "chain (op_nodes s) (op_next k) rs"
    using n(2) by auto
  have "op_head s \<noteq> p" using chain_not_head[OF c d] assms(2) by simp
  moreover have "chain ((op_nodes s)(p \<mapsto> n\<lparr>op_data := op_data k, op_next := op_next k\<rparr>)) (op_head s) (qs @ p # rs)"
    by (rule chain_relink[OF c d n(1) k(4)]) (use d in auto)
  ultimately show ?thesis
    using n k d by (auto simp: releaseExternalHeapPointer_def comp_simps external_inv_def
        data_of_append data_of_Cons)
qed

lemma release_last:
  assumes inv: "external_inv s (qs @ [q, p])"
  shows "\<exists>s'. releaseExternalHeapPointer p s = Inr ((), s') \<and> external_inv s' (qs @ [q]) \<and>
     data_of (op_nodes s') (qs @ [q]) = data_of (op_nodes s) (qs @ [q])"
proof -
  have c: "chain (op_nodes s) (op_head s) (qs @ [q, p])" and d: "distinct (qs @ [q, p])"
    using inv by (simp_all add: external_inv_def)
  obtain n where n: "op_nodes s p = Some n" "op_next n = NULL"
    using chain_at[of _ _ "qs @ [q]" p "[]"] c by auto
  obtain k where k: "op_nodes s q = Some k" using chain_at[OF c] by auto
  have "op_head s \<noteq> p" using chain_not_head[of _ _ "qs @ [q]" p "[]"] c d by simp
  moreover have "findPrevious (op_nodes s) p (op_head s) = Some (Inr q)"
    by (rule findPrevious_chain[OF c d])
  moreover have "chain ((op_nodes s)(q \<mapsto> k\<lparr>op_data := op_data k, op_next := NULL\<rparr>)) (op_head s) (qs @ [q])"
    by (rule chain_relink[OF c d k]) auto
  ultimately show ?thesis
    using n k d by (auto simp: releaseExternalHeapPointer_def previousNode_def comp_simps external_inv_def
        data_of_append data_of_Cons)
qed

section \<open>The stack contract\<close>

text \<open>
  What a client relies on: a handle that is not in use can be acquired, and the one acquired last can
  be discarded.  \<open>represents s hs vs\<close> says that the handles \<open>hs\<close> are registered, the last one
  first, and hold \<open>vs\<close>.
\<close>

definition scoped :: "('h \<Rightarrow> ptr \<Rightarrow> ('s, unit) comp) \<Rightarrow> ('h \<Rightarrow> ('s, unit) comp) \<Rightarrow>
    'h \<Rightarrow> ptr \<Rightarrow> ('s, 'x) comp \<Rightarrow> ('s, 'x) comp" where
  "scoped acquire discard h v body =
     bnd (acquire h v) (\<lambda>_. bnd body (\<lambda>x. bnd (discard h) (\<lambda>_. ret x)))"

locale root_stack =
  fixes represents :: "'s \<Rightarrow> 'h list \<Rightarrow> ptr list \<Rightarrow> bool"
    and available :: "'h \<Rightarrow> 'h list \<Rightarrow> bool"
    and acquire :: "'h \<Rightarrow> ptr \<Rightarrow> ('s, unit) comp"
    and discard :: "'h \<Rightarrow> ('s, unit) comp"
  assumes acquire: "represents s hs vs \<Longrightarrow> available h hs \<Longrightarrow>
      \<exists>s'. acquire h v s = Inr ((), s') \<and> represents s' (h # hs) (v # vs)"
    and discard: "represents s (h # hs) (v # vs) \<Longrightarrow>
      \<exists>s'. discard h s = Inr ((), s') \<and> represents s' hs vs"
begin

text \<open>
  A scope leaves the registered handles as it found them, whatever a collection in the body does to
  the values.
\<close>

lemma scope:
  assumes s: "represents s hs vs" and h: "available h hs"
    and body: "\<And>t. represents t (h # hs) (v # vs) \<Longrightarrow>
      \<exists>x t' v' vs'. body t = Inr (x, t') \<and> represents t' (h # hs) (v' # vs') \<and> P x vs'"
  shows "\<exists>x s' vs'. scoped acquire discard h v body s = Inr (x, s') \<and> represents s' hs vs' \<and> P x vs'"
proof -
  obtain t where t: "acquire h v s = Inr ((), t)" "represents t (h # hs) (v # vs)"
    using acquire[OF s h] by blast
  obtain x t' v' vs' where b: "body t = Inr (x, t')" "represents t' (h # hs) (v' # vs')" "P x vs'"
    using body[OF t(2)] by blast
  obtain u where u: "discard h t' = Inr ((), u)" "represents u hs vs'"
    using discard[OF b(2)] by blast
  show ?thesis using t(1) b u by (auto simp: scoped_def comp_simps)
qed

text \<open>Scopes nest.\<close>

lemma nested_scopes:
  assumes s: "represents s hs vs" and h: "available h hs" and k: "available k (h # hs)"
  shows "\<exists>s'. scoped acquire discard h v (scoped acquire discard k w (ret ())) s = Inr ((), s') \<and>
    represents s' hs vs"
proof -
  have "\<exists>x s' vs'. scoped acquire discard h v (scoped acquire discard k w (ret ())) s = Inr (x, s') \<and>
      represents s' hs vs' \<and> vs' = vs"
  proof (rule scope[OF s h])
    fix t assume t: "represents t (h # hs) (v # vs)"
    have "\<exists>x t' vs'. scoped acquire discard k w (ret ()) t = Inr (x, t') \<and> represents t' (h # hs) vs' \<and>
        vs' = v # vs"
      by (rule scope[OF t k]) (auto simp: comp_simps)
    then show "\<exists>x t' v' vs'. scoped acquire discard k w (ret ()) t = Inr (x, t') \<and>
        represents t' (h # hs) (v' # vs') \<and> vs' = vs" by auto
  qed
  then show ?thesis by auto
qed

end

definition nodes_represent :: "external_list \<Rightarrow> ptr list \<Rightarrow> ptr list \<Rightarrow> bool" where
  "nodes_represent s qs vs \<longleftrightarrow> external_inv s qs \<and> data_of (op_nodes s) qs = vs"

interpretation hptr_nodes: root_stack nodes_represent "\<lambda>p qs. p \<notin> set qs \<and> p \<noteq> NULL" hptr_new hptr_delete
proof unfold_locales
  fix s qs vs p v
  assume s: "nodes_represent s qs vs" and p: "p \<notin> set qs \<and> p \<noteq> NULL"
  then show "\<exists>s'. hptr_new p v s = Inr ((), s') \<and> nodes_represent s' (p # qs) (v # vs)"
    by (simp add: hptr_new_def nodes_represent_def registerExternalHeapPointer_def comp_simps
        external_inv_def data_of_Cons)
next
  fix s p qs v vs
  assume "nodes_represent s (p # qs) (v # vs)"
  then show "\<exists>s'. hptr_delete p s = Inr ((), s') \<and> nodes_represent s' qs vs"
    using release_head[of s p qs] by (simp add: hptr_delete_def nodes_represent_def data_of_Cons)
qed

text \<open>
  The list of the \<open>baker\<close> state keeps the same stack with the oldest entry first; a handle is the
  position of its entry.
\<close>

definition acquirePointer :: "nat \<Rightarrow> ptr \<Rightarrow> ('a baker_scheme, unit) comp" where
  "acquirePointer h v = modify (\<lambda>s. s\<lparr>m_externalPointers := m_externalPointers s @ [v]\<rparr>)"

definition discardPointer :: "nat \<Rightarrow> ('a baker_scheme, unit) comp" where
  "discardPointer h = modify (\<lambda>s. s\<lparr>m_externalPointers := take h (m_externalPointers s)\<rparr>)"

definition positions_represent :: "'a baker_scheme \<Rightarrow> nat list \<Rightarrow> ptr list \<Rightarrow> bool" where
  "positions_represent s hs vs \<longleftrightarrow> hs = rev [0..<length vs] \<and> m_externalPointers s = rev vs"

interpretation hptr_positions: root_stack positions_represent "\<lambda>h hs. h = length hs" acquirePointer discardPointer
  by unfold_locales
    (auto simp: positions_represent_def acquirePointer_def discardPointer_def comp_simps)

section \<open>Properties\<close>

text \<open>
  C5. Registering and releasing external pointers in stack order is exact: whatever nodes are registered,
  a scope that registers a node and releases it again leaves the same nodes registered in the same
  order, with the values its body left in them.
\<close>

theorem hptr_scope_balanced:
  assumes "external_inv s qs" and "p \<notin> set qs" and "p \<noteq> NULL"
    and "\<And>t. external_inv t (p # qs) \<Longrightarrow> data_of (op_nodes t) (p # qs) = v # data_of (op_nodes s) qs \<Longrightarrow>
      \<exists>x t'. body t = Inr (x, t') \<and> external_inv t' (p # qs) \<and> data_of (op_nodes t') qs = ws"
  shows "\<exists>x s'. scoped hptr_new hptr_delete p v body s = Inr (x, s') \<and> external_inv s' qs \<and>
    data_of (op_nodes s') qs = ws"
proof -
  have "\<exists>x s' vs'. scoped hptr_new hptr_delete p v body s = Inr (x, s') \<and> nodes_represent s' qs vs' \<and> vs' = ws"
  proof (rule hptr_nodes.scope)
    show "nodes_represent s qs (data_of (op_nodes s) qs)" using assms(1) by (simp add: nodes_represent_def)
    show "p \<notin> set qs \<and> p \<noteq> NULL" using assms(2,3) by simp
    fix t assume "nodes_represent t (p # qs) (v # data_of (op_nodes s) qs)"
    then have "external_inv t (p # qs)" "data_of (op_nodes t) (p # qs) = v # data_of (op_nodes s) qs"
      by (simp_all add: nodes_represent_def)
    from assms(4)[OF this] show "\<exists>x t' v' vs'. body t = Inr (x, t') \<and>
        nodes_represent t' (p # qs) (v' # vs') \<and> vs' = ws"
      by (auto simp: nodes_represent_def data_of_Cons)
  qed
  then show ?thesis by (auto simp: nodes_represent_def)
qed

definition sample_nodes :: external_list where
  "sample_nodes = \<lparr>op_nodes = [4 \<mapsto> \<lparr>op_data = 40, op_next = 8\<rparr>, 8 \<mapsto> \<lparr>op_data = 80, op_next = 12\<rparr>,
     12 \<mapsto> \<lparr>op_data = 120, op_next = 0\<rparr>], op_head = 4\<rparr>"

lemma sample_nodes_inv: "external_inv sample_nodes [4, 8, 12]"
  by (simp add: external_inv_def sample_nodes_def)

lemma hptr_scope_balanced_witness:
  "\<exists>x s'. scoped hptr_new hptr_delete 16 160 (setNode 8 \<lparr>op_data = 88, op_next = 12\<rparr>) sample_nodes = Inr (x, s') \<and>
     external_inv s' [4, 8, 12] \<and> data_of (op_nodes s') [4, 8, 12] = [40, 88, 120]"
proof (rule hptr_scope_balanced[OF sample_nodes_inv])
  fix t assume t: "external_inv t [16, 4, 8, 12]"
    and v: "data_of (op_nodes t) [16, 4, 8, 12] = 160 # data_of (op_nodes sample_nodes) [4, 8, 12]"
  show "\<exists>x t'. setNode 8 \<lparr>op_data = 88, op_next = 12\<rparr> t = Inr (x, t') \<and> external_inv t' [16, 4, 8, 12] \<and>
      data_of (op_nodes t') [4, 8, 12] = [40, 88, 120]"
    using t v
    apply (auto simp: setNode_def external_inv_def data_of_def sample_nodes_def)
    apply (rule_tac x = n in exI)
    apply auto
    done
qed simp_all



end
