(* ===== verification/Symbols.thy ===== *)
theory Symbols
  imports ObjectTypes "HOL-Library.List_Lexorder"
begin

text \<open>
  Symbols and dictionaries: the comparison functor \<open>TSymbol::TCompareFunctor\<close> of
  \<^verbatim>\<open>src/TSymbol.cpp\<close> in its three overloads, and the binary search \<open>TDictionary::find\<close> of
  \<^verbatim>\<open>src/TDictionary.cpp\<close> with the two standard algorithms it calls.
\<close>

section \<open>Comparing symbols\<close>

text \<open>
  \<open>std::lexicographical_compare\<close> on elements promoted to \<open>int\<close>, as C++ compares a \<open>uint8_t\<close>
  and a \<open>char\<close>.
\<close>

fun lexicographical_compare :: "int list \<Rightarrow> int list \<Rightarrow> bool" where
  "lexicographical_compare [] ys = (ys \<noteq> [])"
| "lexicographical_compare (x # xs) [] = False"
| "lexicographical_compare (x # xs) (y # ys) =
     (if x < y then True else if y < x then False else lexicographical_compare xs ys)"

text \<open>
  A \<open>const uint8_t*\<close> range is read unsigned; a \<open>const char*\<close> range is read signed (\<open>char\<close> is
  signed on the supported targets) up to its terminating zero.
\<close>

definition uchars :: "u8 list \<Rightarrow> int list" where
  "uchars bs = map uint bs"

definition cstring :: "u8 list \<Rightarrow> int list" where
  "cstring s = map sint (takeWhile (\<lambda>b. b \<noteq> 0) s)"

definition compare_symbol_symbol :: "u8 list \<Rightarrow> u8 list \<Rightarrow> bool" where
  "compare_symbol_symbol left right = lexicographical_compare (uchars left) (uchars right)"

definition compare_symbol_cstring :: "u8 list \<Rightarrow> u8 list \<Rightarrow> bool" where
  "compare_symbol_cstring left right = lexicographical_compare (uchars left) (cstring right)"

definition compare_cstring_symbol :: "u8 list \<Rightarrow> u8 list \<Rightarrow> bool" where
  "compare_cstring_symbol left right = lexicographical_compare (cstring left) (uchars right)"

section \<open>Dictionary lookup\<close>

text \<open>
  \<open>std::lower_bound\<close> over positions: \<open>cmp i\<close> is \<open>compare(*(base + i), key)\<close>, which reads
  memory and may fault.
\<close>

fun lower_bound :: "(nat \<Rightarrow> bool res) \<Rightarrow> nat \<Rightarrow> nat \<Rightarrow> nat res" where
  "lower_bound cmp first len =
     (if len = 0 then Inr first
      else let half = len div 2; middle = first + half
           in case cmp middle of
                Inl e \<Rightarrow> Inl e
              | Inr True \<Rightarrow> lower_bound cmp (middle + 1) (len - half - 1)
              | Inr False \<Rightarrow> lower_bound cmp first half)"

declare lower_bound.simps [simp del]

text \<open>The two key types \<open>find\<close> is instantiated with.\<close>

datatype dictionary_key = SymbolKey ptr | CStringKey "u8 list"

definition TByteObject_data :: "tobject \<Rightarrow> u8 list" where
  "TByteObject_data obj =
     take (unat (TSize_getSize (obj_size obj)))
       (if TSize_isBinary (obj_size obj) then obj_bytes obj
        else concat (map word_to_bytes (obj_fields obj)))"

definition symbolBytes :: "objmem \<Rightarrow> ptr \<Rightarrow> u8 list res" where
  "symbolBytes m p = bndR (objectAt m p) (\<lambda>obj. Inr (TByteObject_data obj))"

definition compare_element_key :: "objmem \<Rightarrow> ptr \<Rightarrow> dictionary_key \<Rightarrow> bool res" where
  "compare_element_key m element key =
     bndR (symbolBytes m element) (\<lambda>bs.
       case key of
         SymbolKey k \<Rightarrow> bndR (symbolBytes m k) (\<lambda>kbs. Inr (compare_symbol_symbol bs kbs))
       | CStringKey s \<Rightarrow> Inr (compare_symbol_cstring bs s))"

definition compare_key_element :: "objmem \<Rightarrow> dictionary_key \<Rightarrow> ptr \<Rightarrow> bool res" where
  "compare_key_element m key element =
     bndR (symbolBytes m element) (\<lambda>bs.
       case key of
         SymbolKey k \<Rightarrow> bndR (symbolBytes m k) (\<lambda>kbs. Inr (compare_symbol_symbol kbs bs))
       | CStringKey s \<Rightarrow> Inr (compare_cstring_symbol s bs))"

definition TDictionary_find :: "objmem \<Rightarrow> ptr \<Rightarrow> dictionary_key \<Rightarrow> ptr res" where
  "TDictionary_find m dict key =
     bndR (getField m dict (TDictionary_offset dict_keys)) (\<lambda>keys.
     bndR (getSize m keys) (\<lambda>n.
     bndR (lower_bound (\<lambda>i. bndR (getField m keys i) (\<lambda>e. compare_element_key m e key)) 0 (unat n)) (\<lambda>foundKey.
     bndR (if foundKey \<noteq> unat n
           then bndR (getField m keys foundKey) (\<lambda>e.
                bndR (compare_key_element m key e) (\<lambda>less. Inr (\<not> less)))
           else Inr False) (\<lambda>found.
     if found
     then bndR (getField m dict (TDictionary_offset dict_values)) (\<lambda>vals. getField m vals foundKey)
     else Inr NULL))))"

section \<open>The order laws a binary search needs\<close>

lemma lexicographical_compare_less: "lexicographical_compare xs ys \<longleftrightarrow> xs < ys"
  by (induction xs ys rule: lexicographical_compare.induct) (simp_all, (metis list.exhaust Nil_less_Cons not_less_Nil))

lemma uchars_inj [simp]: "uchars xs = uchars ys \<longleftrightarrow> xs = ys"
  by (simp add: uchars_def inj_map_eq_map injI)

lemma compare_symbol_symbol_less: "compare_symbol_symbol xs ys \<longleftrightarrow> uchars xs < uchars ys"
  by (simp add: compare_symbol_symbol_def lexicographical_compare_less)

text \<open>A C string whose bytes are all ASCII and non-zero reads the same signed and unsigned.\<close>

definition ascii :: "u8 list \<Rightarrow> bool" where
  "ascii s \<longleftrightarrow> (\<forall>b \<in> set s. 0 < b \<and> b < 128)"

lemma sint_ascii: "sint b = uint b" if "(b::u8) < 128"
proof -
  have "- (2 ^ 7) \<le> uint b" by (rule order_trans [OF _ uint_ge_0]) simp
  with that show ?thesis by (simp add: sint_uint word_less_alt signed_take_bit_int_eq_self)
qed

lemma cstring_ascii: "ascii s \<Longrightarrow> cstring s = uchars s"
  by (induction s) (auto simp: ascii_def cstring_def uchars_def sint_ascii)

text \<open>The binary search finds the partition point of any predicate that holds on a prefix.\<close>

lemma lower_bound_partition:
  assumes "\<forall>i. first \<le> i \<and> i < first + len \<longrightarrow> cmp i = Inr (P i)"
    and "\<forall>i j. i \<le> j \<and> first \<le> i \<and> j < first + len \<and> P j \<longrightarrow> P i"
  shows "\<exists>r. lower_bound cmp first len = Inr r \<and> first \<le> r \<and> r \<le> first + len \<and>
    (\<forall>i. first \<le> i \<and> i < r \<longrightarrow> P i) \<and> (\<forall>i. r \<le> i \<and> i < first + len \<longrightarrow> \<not> P i)"
  using assms
proof (induction cmp first len rule: lower_bound.induct)
  case (1 cmp first len)
  show ?case
  proof (cases "len = 0")
    case True
    then show ?thesis by (auto simp: lower_bound.simps)
  next
    case False
    define half where "half = len div 2"
    have m: "first + half < first + len" using False by (simp add: half_def)
    with "1.prems"(1) have c: "cmp (first + half) = Inr (P (first + half))" by simp
    have sub: "\<forall>i j. i \<le> j \<and> a \<le> i \<and> j < b \<and> P j \<longrightarrow> P i" "\<forall>i. a \<le> i \<and> i < b \<longrightarrow> cmp i = Inr (P i)"
      if "first \<le> a" "b \<le> first + len" for a b
      using that "1.prems" by (meson order_trans less_le_trans)+
    show ?thesis
    proof (cases "P (first + half)")
      case True
      have "\<exists>r. lower_bound cmp (first + half + 1) (len - half - 1) = Inr r \<and> first + half + 1 \<le> r \<and>
          r \<le> first + half + 1 + (len - half - 1) \<and> (\<forall>i. first + half + 1 \<le> i \<and> i < r \<longrightarrow> P i) \<and>
          (\<forall>i. r \<le> i \<and> i < first + half + 1 + (len - half - 1) \<longrightarrow> \<not> P i)"
        by (rule "1.IH"(1) [OF False half_def refl c eqTrueI [OF True]]; rule sub; use m in simp)
      moreover have "first + half + 1 + (len - half - 1) = first + len" using m by linarith
      moreover have "\<forall>i. first \<le> i \<and> i \<le> first + half \<longrightarrow> P i" using "1.prems"(2) True m by blast
      ultimately show ?thesis using False True c
        by (subst lower_bound.simps) (auto simp: Let_def half_def [symmetric] not_less_eq_eq Suc_le_eq, metis not_le)
    next
      case P: False
      have "\<exists>r. lower_bound cmp first half = Inr r \<and> first \<le> r \<and> r \<le> first + half \<and>
          (\<forall>i. first \<le> i \<and> i < r \<longrightarrow> P i) \<and> (\<forall>i. r \<le> i \<and> i < first + half \<longrightarrow> \<not> P i)"
        by (rule "1.IH"(2) [OF False half_def refl c iffD2 [OF eq_False P]]; rule sub; use m in simp)
      moreover have "\<forall>i. first + half \<le> i \<and> i < first + len \<longrightarrow> \<not> P i" using "1.prems"(2) P by (meson le_add1)
      ultimately show ?thesis using False P c m
        by (subst lower_bound.simps) (auto simp: Let_def half_def [symmetric], metis not_le)
    qed
  qed
qed

text \<open>
  The interface between the comparison functor and the search: two kinds of things are compared, the
  stored elements and the keys (of which only the valid ones obey the laws).
\<close>

locale key_order =
  fixes less_ee :: "'e \<Rightarrow> 'e \<Rightarrow> bool"
    and less_ek :: "'e \<Rightarrow> 'k \<Rightarrow> bool"
    and less_ke :: "'k \<Rightarrow> 'e \<Rightarrow> bool"
    and same :: "'e \<Rightarrow> 'k \<Rightarrow> bool"
    and valid :: "'k \<Rightarrow> bool"
  assumes less_trans: "valid k \<Longrightarrow> less_ee e f \<Longrightarrow> less_ek f k \<Longrightarrow> less_ek e k"
    and same_iff: "valid k \<Longrightarrow> same e k \<longleftrightarrow> \<not> less_ek e k \<and> \<not> less_ke k e"
    and same_least: "valid k \<Longrightarrow> same f k \<Longrightarrow> less_ee e f \<Longrightarrow> less_ek e k"
begin

text \<open>In a sorted array the elements below the key form a prefix.\<close>

lemma prefix:
  assumes "valid k" "sorted_wrt less_ee es" "i \<le> j" "j < length es" "less_ek (es ! j) k"
  shows "less_ek (es ! i) k"
proof (cases "i = j")
  case False
  with assms(2-4) have "less_ee (es ! i) (es ! j)" by (simp add: sorted_wrt_iff_nth_less)
  with assms(1,5) show ?thesis by (blast intro: less_trans)
qed (use assms in simp)

text \<open>
  The first element that is not below the key is the only one that can be the key.
\<close>

lemma partition_point:
  assumes k: "valid k" and srt: "sorted_wrt less_ee es" and r: "r \<le> length es"
    and below: "\<forall>i<r. less_ek (es ! i) k" and above: "\<forall>i. r \<le> i \<and> i < length es \<longrightarrow> \<not> less_ek (es ! i) k"
  shows "r < length es \<and> \<not> less_ke k (es ! r) \<and> same (es ! r) k \<or>
    (r < length es \<longrightarrow> less_ke k (es ! r)) \<and> (\<forall>e \<in> set es. \<not> same e k)"
proof (cases "r < length es \<and> \<not> less_ke k (es ! r)")
  case True
  with above k show ?thesis by (simp add: same_iff)
next
  case False
  have "\<not> same (es ! i) k" if "i < length es" for i
  proof (cases "i \<le> r")
    case True
    with that False below k show ?thesis by (cases "i = r") (auto simp: same_iff)
  next
    case i: False
    with that srt have "less_ee (es ! r) (es ! i)" by (simp add: sorted_wrt_iff_nth_less)
    with above i that k show ?thesis using same_least [of k "es ! i" "es ! r"] by auto
  qed
  with False show ?thesis by (auto simp: in_set_conv_nth)
qed

text \<open>The search ends at the position of the key, or at a position that does not hold it.\<close>

lemma search:
  assumes k: "valid k" and srt: "sorted_wrt less_ee es"
    and cmp: "\<forall>i<length es. cmp i = Inr (less_ek (es ! i) k)"
  obtains r where "lower_bound cmp 0 (length es) = Inr r" "r \<le> length es"
    "r < length es \<and> \<not> less_ke k (es ! r) \<and> same (es ! r) k \<or>
     (r < length es \<longrightarrow> less_ke k (es ! r)) \<and> (\<forall>e \<in> set es. \<not> same e k)"
proof -
  have pre: "\<forall>i j. i \<le> j \<and> 0 \<le> i \<and> j < 0 + length es \<and> less_ek (es ! j) k \<longrightarrow> less_ek (es ! i) k"
    using prefix [OF k srt] by auto
  have "\<forall>i. 0 \<le> i \<and> i < 0 + length es \<longrightarrow> cmp i = Inr (less_ek (es ! i) k)" using cmp by simp
  from lower_bound_partition [OF this pre] obtain r where
    r: "lower_bound cmp 0 (length es) = Inr r" "r \<le> length es"
    and below: "\<forall>i<r. less_ek (es ! i) k" and above: "\<forall>i. r \<le> i \<and> i < length es \<longrightarrow> \<not> less_ek (es ! i) k"
    by auto
  from r partition_point [OF k srt r(2) below above] show ?thesis by (rule that)
qed

end

interpretation symbol_key: key_order compare_symbol_symbol compare_symbol_symbol compare_symbol_symbol
    "(=)" "\<lambda>_. True"
  by unfold_locales (auto simp: compare_symbol_symbol_less)

interpretation cstring_key: key_order compare_symbol_symbol compare_symbol_cstring compare_cstring_symbol
    "(=)" ascii
  by unfold_locales (auto simp: compare_symbol_symbol_less compare_symbol_cstring_def
    compare_cstring_symbol_def cstring_ascii lexicographical_compare_less)

text \<open>
  A dictionary in memory: its key array \<open>ks\<close> of symbols with the given \<open>names\<close>, and its values.
\<close>

definition array_at :: "objmem \<Rightarrow> ptr \<Rightarrow> ptr list \<Rightarrow> bool" where
  "array_at m p xs \<longleftrightarrow>
     (case m p of None \<Rightarrow> False | Some obj \<Rightarrow> ordinary obj \<and> obj_wf obj \<and> obj_fields obj = xs)"

definition dictionary_at :: "objmem \<Rightarrow> ptr \<Rightarrow> ptr list \<Rightarrow> u8 list list \<Rightarrow> ptr list \<Rightarrow> bool" where
  "dictionary_at m d ks names vs \<longleftrightarrow>
     (case (getField m d (TDictionary_offset dict_keys), getField m d (TDictionary_offset dict_values)) of
        (Inr keys, Inr vals) \<Rightarrow> array_at m keys ks \<and> array_at m vals vs
      | _ \<Rightarrow> False) \<and>
     map (symbolBytes m) ks = map Inr names \<and> length ks \<le> length vs"

lemma array_at_getField: "array_at m p xs \<Longrightarrow> getField m p i = nth_res xs i"
  by (auto simp: array_at_def getField_ordinary split: option.splits)

lemma array_at_getSize: "array_at m p xs \<Longrightarrow> \<exists>n. getSize m p = Inr n \<and> unat n = length xs"
  by (auto simp: array_at_def getSize_def comp_simps obj_wf_def split: option.splits)

definition key_bytes :: "objmem \<Rightarrow> dictionary_key \<Rightarrow> u8 list res" where
  "key_bytes m key = (case key of SymbolKey k \<Rightarrow> symbolBytes m k | CStringKey s \<Rightarrow> Inr s)"

definition searchable_key :: "dictionary_key \<Rightarrow> bool" where
  "searchable_key key = (case key of SymbolKey _ \<Rightarrow> True | CStringKey s \<Rightarrow> ascii s)"

text \<open>What the two comparisons of a search say about the names.\<close>

definition below_key :: "dictionary_key \<Rightarrow> u8 list \<Rightarrow> u8 list \<Rightarrow> bool" where
  "below_key key kb e = (case key of SymbolKey _ \<Rightarrow> compare_symbol_symbol e kb | CStringKey _ \<Rightarrow> compare_symbol_cstring e kb)"

definition above_key :: "dictionary_key \<Rightarrow> u8 list \<Rightarrow> u8 list \<Rightarrow> bool" where
  "above_key key kb e = (case key of SymbolKey _ \<Rightarrow> compare_symbol_symbol kb e | CStringKey _ \<Rightarrow> compare_cstring_symbol kb e)"

lemma compare_key:
  assumes "key_bytes m key = Inr kb" and "symbolBytes m e = Inr bs"
  shows "compare_element_key m e key = Inr (below_key key kb bs)"
    and "compare_key_element m key e = Inr (above_key key kb bs)"
  using assms
  by (auto simp: compare_element_key_def compare_key_element_def key_bytes_def below_key_def
    above_key_def comp_simps split: dictionary_key.splits)

lemma search_names:
  assumes "searchable_key key" and "key_bytes m key = Inr kb" and "sorted_wrt compare_symbol_symbol names"
    and "\<forall>i<length names. cmp i = Inr (below_key key kb (names ! i))"
  obtains r where "lower_bound cmp 0 (length names) = Inr r" "r \<le> length names"
    "r < length names \<and> \<not> above_key key kb (names ! r) \<and> names ! r = kb \<or>
     (r < length names \<longrightarrow> above_key key kb (names ! r)) \<and> kb \<notin> set names"
proof (cases key)
  case (SymbolKey k)
  with assms show ?thesis
    using symbol_key.search [of names cmp kb] that by (auto simp: below_key_def above_key_def)
next
  case (CStringKey s)
  with assms show ?thesis
    using cstring_key.search [of kb names cmp] that
    by (auto simp: below_key_def above_key_def searchable_key_def key_bytes_def)
qed

section \<open>Properties\<close>


text \<open>Two symbols, \<open>a\<close> and the single byte 195, as the keys of a dictionary at address 8.\<close>

definition sample_symbol :: "u8 list \<Rightarrow> tobject" where
  "sample_symbol bs = \<lparr>obj_size = TSize_new (of_nat (length bs)) True False, obj_class = 4,
     obj_fields = [], obj_bytes = bs\<rparr>"

definition sample_array :: "ptr list \<Rightarrow> tobject" where
  "sample_array xs = \<lparr>obj_size = TSize_new (of_nat (length xs)) False False, obj_class = 4,
     obj_fields = xs, obj_bytes = []\<rparr>"

definition sample_dictionary :: objmem where
  "sample_dictionary = [8 \<mapsto> sample_array [24, 40], 24 \<mapsto> sample_array [56, 72], 40 \<mapsto> sample_array [85, 87],
     56 \<mapsto> sample_symbol [97], 72 \<mapsto> sample_symbol [195]]"

lemma sample_size:
  "TSize_getSize (TSize_new 1 b False) = 1" "TSize_getSize (TSize_new 2 b False) = 2"
  by simp_all

lemmas sample_simps = sample_dictionary_def sample_symbol_def sample_array_def getField_def getSize_def
  symbolBytes_def TByteObject_data_def TObject_getField_def objectAt_def comp_simps nth_res_def sample_size

lemma sample_dictionary_at: "dictionary_at sample_dictionary 8 [56, 72] [[97], [195]] [85, 87]"
  by (simp add: dictionary_at_def array_at_def ordinary_def obj_wf_def sample_simps)


text \<open>
  The C-string overload disagrees with the symbol overload outside ASCII: \<open>char\<close> is signed, the
  symbol's bytes are not, so a name with a byte above 127 that a symbol key finds is not found by the
  same C string.
\<close>

theorem TDictionary_find_cstring_signed:
  "TDictionary_find sample_dictionary 8 (SymbolKey 72) = Inr 87 \<and>
   symbolBytes sample_dictionary 72 = Inr [195] \<and>
   TDictionary_find sample_dictionary 8 (CStringKey [195]) = Inr 0"
  by (simp add: TDictionary_find_def lower_bound.simps compare_element_key_def compare_key_element_def
    compare_symbol_symbol_def compare_symbol_cstring_def compare_cstring_symbol_def uchars_def cstring_def
    sample_simps)

end
