(* ===== verification/VMState.thy ===== *)
theory VMState
  imports Baker ExternalPointers Symbols
begin

text \<open>
  The state of the virtual machine: the memory manager it owns, the global objects (\<open>TGlobals\<close> of
  \<^verbatim>\<open>include/memory.h\<close>), the fields of \<open>SmalltalkVM\<close> (\<^verbatim>\<open>include/vm.h\<close>), and the operating
  system, which the development knows only through the replies to its calls.
\<close>

section \<open>Global objects\<close>

record TGlobals =
  nilObject :: ptr
  trueObject :: ptr
  falseObject :: ptr
  smallIntClass :: ptr
  arrayClass :: ptr
  blockClass :: ptr
  contextClass :: ptr
  stringClass :: ptr
  globalsObject :: ptr
  initialMethod :: ptr
  binaryMessages :: "ptr list"
  integerClass :: ptr
  badMethodSymbol :: ptr

section \<open>The operating system\<close>

text \<open>
  The calls the primitives make and the replies they use: the returned \<open>int\<close>, the bytes \<open>read\<close>
  stored, three members of \<open>struct stat\<close> and the two of \<open>timeval\<close>.
\<close>

datatype os_request =
    os_getchar
  | os_putchar u8
  | os_open "u8 list" u32
  | os_close u32
  | os_fstat u32
  | os_read u32 u32
  | os_write u32 "u8 list"
  | os_lseek u32 u32
  | os_gettimeofday
  | os_readline "u8 list"

record os_reply =
  os_result :: u32
  os_bytes :: "u8 list"
  os_stat :: "u32 \<times> u32 \<times> u32"
  os_time :: "u32 \<times> u32"

section \<open>The virtual machine\<close>

record TMethodCacheEntry =
  entry_methodName :: ptr
  entry_receiverClass :: ptr
  entry_method :: ptr

text \<open>
  \<open>m_lookupCache\<close> is indexed by \<open>hash % LOOKUP_CACHE_SIZE\<close>.  \<open>os\<close> answers the n-th call;
  \<open>os_log\<close> keeps the calls made, the last one first.
\<close>

record vm = baker +
  globals :: TGlobals
  m_lookupCache :: "u32 \<Rightarrow> TMethodCacheEntry"
  m_cacheHits :: u32
  m_cacheMisses :: u32
  m_messagesSent :: u32
  m_lastGCOccured :: bool
  os :: "nat \<Rightarrow> os_request \<Rightarrow> os_reply"
  os_log :: "os_request list"

definition os_call :: "os_request \<Rightarrow> ('a vm_scheme, os_reply) comp" where
  "os_call r s = Inr (os s (length (os_log s)) r, s\<lparr>os_log := r # os_log s\<rparr>)"

section \<open>Protected pointers\<close>

text \<open>
  \<open>newPointer v\<close> registers an \<open>hptr<>\<close> holding \<open>v\<close> for the rest of its C++ scope, which is the
  body; the body gets the handle.  Reading and assigning an \<open>hptr<>\<close> go to the registered node,
  where a collection also writes.
\<close>

definition newPointer :: "ptr \<Rightarrow> (nat \<Rightarrow> ('a baker_scheme, 'x) comp) \<Rightarrow> ('a baker_scheme, 'x) comp" where
  "newPointer v body =
     bnd (gets (\<lambda>s. length (m_externalPointers s))) (\<lambda>h.
     scoped acquirePointer discardPointer h v (body h))"

definition hptr_get :: "nat \<Rightarrow> ('a baker_scheme, ptr) comp" where
  "hptr_get h s = (case nth_res (m_externalPointers s) h of Inl e \<Rightarrow> Inl e | Inr p \<Rightarrow> Inr (p, s))"

definition hptr_set :: "nat \<Rightarrow> ptr \<Rightarrow> ('a baker_scheme, unit) comp" where
  "hptr_set h v s = (case upd_res (m_externalPointers s) h v of Inl e \<Rightarrow> Inl e
     | Inr ps \<Rightarrow> Inr ((), s\<lparr>m_externalPointers := ps\<rparr>))"

text \<open>Reading and writing a member of an object; a \<open>TInteger\<close> member holds a tagged value.\<close>

definition getMember :: "ptr \<Rightarrow> nat \<Rightarrow> ('a baker_scheme, ptr) comp" where
  "getMember p i = mem (\<lambda>m. getField m p i)"

definition putMember :: "ptr \<Rightarrow> nat \<Rightarrow> ptr \<Rightarrow> ('a baker_scheme, unit) comp" where
  "putMember p i v = mem_upd (\<lambda>m. putField m p i v)"

definition getInteger :: "ptr \<Rightarrow> nat \<Rightarrow> ('a baker_scheme, u32) comp" where
  "getInteger p i = bnd (getMember p i) (\<lambda>v. ret (TInteger_getValue v))"

definition putInteger :: "ptr \<Rightarrow> nat \<Rightarrow> u32 \<Rightarrow> ('a baker_scheme, unit) comp" where
  "putInteger p i v = putMember p i (TInteger_of_int v)"

definition global :: "(TGlobals \<Rightarrow> 'x) \<Rightarrow> ('a vm_scheme, 'x) comp" where
  "global f = gets (\<lambda>s. f (globals s))"

definition boolObject :: "bool \<Rightarrow> ('a vm_scheme, ptr) comp" where
  "boolObject b = global (if b then trueObject else falseObject)"

end
