(* ===== verification/Image.thy ===== *)
theory Image
  imports BakerFrame VMState
begin

text \<open>
  The heap image (\<^verbatim>\<open>src/Image.cpp\<close>): the byte format objects are stored in, the reader that loads them
  into the static heap and the writer.  The reader numbers the objects in the order it meets them and
  the writer remembers those it has written, so that a later reference is a number.
\<close>

section \<open>Words\<close>

text \<open>
  \<open>readWord\<close> adds up bytes until one is not 255.  The stream throws on a read past its end.
\<close>

fun takeWord :: "u8 list \<Rightarrow> (u32 \<times> u8 list) res" where
  "takeWord [] = Inl IosFailure"
| "takeWord (byte # bytes) =
     (if byte = 0xFF then bndR (takeWord bytes) (\<lambda>(v, rest). Inr (ucast byte + v, rest))
      else Inr (ucast byte, bytes))"

function wordBytes :: "u32 \<Rightarrow> u8 list" where
  "wordBytes word = (if word \<ge> 0xFF then 0xFF # wordBytes (word - 0xFF) else [ucast (word AND 0xFF)])"
  by auto
termination
  by (relation "measure unat") (auto simp: unat_sub word_le_nat_alt)

declare wordBytes.simps [simp del]

section \<open>Record types\<close>

datatype TImageRecordType =
    rec_invalidObject | rec_ordinaryObject | rec_inlineInteger | rec_byteObject | rec_previousObject
  | rec_nilObject

primrec record_code :: "TImageRecordType \<Rightarrow> u32" where
  "record_code rec_invalidObject = 0"
| "record_code rec_ordinaryObject = 1"
| "record_code rec_inlineInteger = 2"
| "record_code rec_byteObject = 3"
| "record_code rec_previousObject = 4"
| "record_code rec_nilObject = 5"

text \<open>The cast from the word read; the other words reach the default case of the switch.\<close>

definition record_cast :: "u32 \<Rightarrow> TImageRecordType option" where
  "record_cast w = map_of [(0, rec_invalidObject), (1, rec_ordinaryObject), (2, rec_inlineInteger),
     (3, rec_byteObject), (4, rec_previousObject), (5, rec_nilObject)] w"

lemma record_cast_code [simp]: "record_cast (record_code t) = Some t"
  by (cases t) (simp_all add: record_cast_def)

section \<open>Reader\<close>

text \<open>The manager the image loads into, the objects read so far and the rest of the stream.\<close>

record image = baker +
  m_indirects :: "ptr list"
  m_inputStream :: "u8 list"

definition readWord :: "('a image_scheme, u32) comp" where
  "readWord s = (case takeWord (m_inputStream s) of Inl e \<Rightarrow> Inl e
     | Inr (w, rest) \<Rightarrow> Inr (w, s\<lparr>m_inputStream := rest\<rparr>))"

definition getChar :: "('a image_scheme, u8) comp" where
  "getChar s = (case m_inputStream s of [] \<Rightarrow> Inl IosFailure
     | byte # rest \<Rightarrow> Inr (byte, s\<lparr>m_inputStream := rest\<rparr>))"

text \<open>
  \<open>get() | (get() << 8) | ...\<close>: the four calls in the order they are written (the language leaves it
  open).
\<close>

definition readInteger :: "('a image_scheme, u32) comp" where
  "readInteger =
     bnd getChar (\<lambda>b0. bnd getChar (\<lambda>b1. bnd getChar (\<lambda>b2. bnd getChar (\<lambda>b3.
     ret (bytes_to_word [b0, b1, b2, b3])))))"

text \<open>
  \<open>staticAllocate\<close> and the placement new.  A full static heap gives the null pointer, which the
  constructor writes through; a size that wraps around gives a block the tail does not fit into.
\<close>

definition newStatic :: "u32 \<Rightarrow> tobject \<Rightarrow> ('a image_scheme, ptr) comp" where
  "newStatic slotSize obj =
     bnd (staticAllocate slotSize) (\<lambda>objectSlot.
     bnd (guard BadAccess (objectSlot \<noteq> NULL \<and>
            8 + 4 * length (obj_fields obj) + length (obj_bytes obj) \<le> unat slotSize)) (\<lambda>_.
     bnd (modify (\<lambda>s. s\<lparr>objs := (objs s)(objectSlot \<mapsto> obj), m_indirects := m_indirects s @ [objectSlot]\<rparr>)) (\<lambda>_.
     ret objectSlot)))"

fun readFields :: "('a image_scheme, ptr) comp \<Rightarrow> ptr \<Rightarrow> nat \<Rightarrow> nat \<Rightarrow> ('a image_scheme, unit) comp" where
  "readFields readObject newObject i 0 = ret ()"
| "readFields readObject newObject i (Suc n) =
     bnd readObject (\<lambda>v. bnd (putMember newObject i v) (\<lambda>_. readFields readObject newObject (i + 1) n))"

fun readBytes :: "ptr \<Rightarrow> nat \<Rightarrow> nat \<Rightarrow> ('a image_scheme, unit) comp" where
  "readBytes newByteObject i 0 = ret ()"
| "readBytes newByteObject i (Suc n) =
     bnd readWord (\<lambda>w. bnd (mem_upd (\<lambda>m. putByte m newByteObject i (ucast w))) (\<lambda>_.
     readBytes newByteObject (i + 1) n))"

definition indirect :: "nat \<Rightarrow> ('a image_scheme, ptr) comp" where
  "indirect index = bnd (gets m_indirects) (\<lambda>xs. lift_res (nth_res xs index))"

text \<open>The bound is the depth of the recursion.\<close>

primrec readObject :: "nat \<Rightarrow> ('a image_scheme, ptr) comp" where
  "readObject 0 = raise OutOfFuel"
| "readObject (Suc fuel) =
     bnd readWord (\<lambda>type.
     case record_cast type of
       Some rec_ordinaryObject \<Rightarrow>
         bnd readWord (\<lambda>fieldsCount.
         bnd (newStatic (sizeof_TObject + fieldsCount * 4) (TObject_new fieldsCount NULL)) (\<lambda>newObject.
         bnd (readObject fuel) (\<lambda>objectClass.
         bnd (mem_upd (\<lambda>m. setClass m newObject objectClass)) (\<lambda>_.
         bnd (readFields (readObject fuel) newObject 0 (unat fieldsCount)) (\<lambda>_.
         ret newObject)))))
     | Some rec_inlineInteger \<Rightarrow> bnd readInteger (\<lambda>v. ret (TInteger_of_int v))
     | Some rec_byteObject \<Rightarrow>
         bnd readWord (\<lambda>dataSize.
         bnd (newStatic (correctPadding (sizeof_TObject + dataSize)) (TByteObject_new dataSize NULL)) (\<lambda>newByteObject.
         bnd (readBytes newByteObject 0 (unat dataSize)) (\<lambda>_.
         bnd (readObject fuel) (\<lambda>objectClass.
         bnd (mem_upd (\<lambda>m. setClass m newByteObject objectClass)) (\<lambda>_.
         ret newByteObject)))))
     | Some rec_previousObject \<Rightarrow> bnd readWord (\<lambda>index. indirect (unat index))
     | Some rec_nilObject \<Rightarrow> indirect 0
     | _ \<Rightarrow> raise Exit1)"

text \<open>
  The globals in the order of the file.  The objects left in \<open>m_indirects\<close> are dropped at the end.
\<close>

fun readMany :: "nat \<Rightarrow> nat \<Rightarrow> ('a image_scheme, ptr list) comp" where
  "readMany fuel 0 = ret []"
| "readMany fuel (Suc n) = bnd (readObject fuel) (\<lambda>p. bnd (readMany fuel n) (\<lambda>ps. ret (p # ps)))"

definition globals_list :: "TGlobals \<Rightarrow> ptr list" where
  "globals_list g = [nilObject g, trueObject g, falseObject g, globalsObject g, smallIntClass g, integerClass g,
     arrayClass g, blockClass g, contextClass g, stringClass g, initialMethod g] @ binaryMessages g @ [badMethodSymbol g]"

definition globals_of :: "ptr list \<Rightarrow> TGlobals" where
  "globals_of ps = \<lparr>nilObject = ps ! 0, trueObject = ps ! 1, falseObject = ps ! 2, smallIntClass = ps ! 4,
     arrayClass = ps ! 6, blockClass = ps ! 7, contextClass = ps ! 8, stringClass = ps ! 9,
     globalsObject = ps ! 3, initialMethod = ps ! 10, binaryMessages = [ps ! 11, ps ! 12, ps ! 13],
     integerClass = ps ! 5, badMethodSymbol = ps ! 14\<rparr>"

text \<open>
  \<open>fileSize * 1.5\<close> is exact in a double.  The file, when it can be opened, is given by its bytes; the
  bound of the recursion is one more than their number.  The result is None when there is no static
  heap, the globals otherwise.
\<close>

definition loadImage :: "u8 list option \<Rightarrow> ('a image_scheme, TGlobals option) comp" where
  "loadImage file =
     (case file of
        None \<Rightarrow> raise RuntimeError
      | Some bytes \<Rightarrow>
          bnd (modify (\<lambda>s. s\<lparr>m_inputStream := bytes\<rparr>)) (\<lambda>_.
          bnd (initializeStaticHeap (of_nat (length bytes + length bytes div 2))) (\<lambda>heap.
          if \<not> heap then ret None
          else bnd (readMany (Suc (length bytes)) 15) (\<lambda>ps.
               bnd (modify (\<lambda>s. s\<lparr>m_indirects := []\<rparr>)) (\<lambda>_.
               ret (Some (globals_of ps)))))))"

text \<open>\<open>getGlobal\<close>: both instances search the dictionary of globals.\<close>

definition getGlobal :: "TGlobals \<Rightarrow> dictionary_key \<Rightarrow> ('a baker_scheme, ptr) comp" where
  "getGlobal g name = mem (\<lambda>m. TDictionary_find m (globalsObject g) name)"

section \<open>Writer\<close>

record writer =
  w_stream :: "u8 list"
  m_writtenObjects :: "ptr list"

definition putBytesOut :: "u8 list \<Rightarrow> (writer, unit) comp" where
  "putBytesOut bs = modify (\<lambda>s. s\<lparr>w_stream := w_stream s @ bs\<rparr>)"

definition writeWord :: "u32 \<Rightarrow> (writer, unit) comp" where
  "writeWord word = putBytesOut (wordBytes word)"

text \<open>\<open>std::find\<close> and \<open>std::distance\<close>.\<close>

fun indexOf :: "ptr \<Rightarrow> ptr list \<Rightarrow> nat option" where
  "indexOf object [] = None"
| "indexOf object (p # ps) = (if p = object then Some 0 else map_option Suc (indexOf object ps))"

definition getObjectType :: "objmem \<Rightarrow> ptr \<Rightarrow> (writer, TImageRecordType) comp" where
  "getObjectType m object =
     (if isSmallInteger object then ret rec_inlineInteger
      else bnd (gets m_writtenObjects) (\<lambda>ws.
           case indexOf object ws of
             Some index \<Rightarrow> ret (if index = 0 then rec_nilObject else rec_previousObject)
           | None \<Rightarrow> bnd (lift_res (isBinary m object)) (\<lambda>binary.
               ret (if binary then rec_byteObject else rec_ordinaryObject))))"

definition getPreviousObjectIndex :: "ptr \<Rightarrow> (writer, u32) comp" where
  "getPreviousObjectIndex object =
     bnd (gets m_writtenObjects) (\<lambda>ws.
     case indexOf object ws of None \<Rightarrow> raise AssertFailed | Some index \<Rightarrow> ret (of_nat index))"

fun writeBytes :: "objmem \<Rightarrow> ptr \<Rightarrow> nat \<Rightarrow> nat \<Rightarrow> (writer, unit) comp" where
  "writeBytes m object i 0 = ret ()"
| "writeBytes m object i (Suc n) =
     bnd (lift_res (getByte m object i)) (\<lambda>b. bnd (writeWord (ucast b)) (\<lambda>_. writeBytes m object (i + 1) n))"

fun writeFields :: "objmem \<Rightarrow> (ptr \<Rightarrow> (writer, unit) comp) \<Rightarrow> ptr \<Rightarrow> nat \<Rightarrow> nat \<Rightarrow> (writer, unit) comp" where
  "writeFields m writeObject object i 0 = ret ()"
| "writeFields m writeObject object i (Suc n) =
     bnd (lift_res (getField m object i)) (\<lambda>v. bnd (writeObject v) (\<lambda>_.
     writeFields m writeObject object (i + 1) n))"

definition classToWrite :: "objmem \<Rightarrow> ptr \<Rightarrow> (writer, ptr) comp" where
  "classToWrite m object =
     bnd (lift_res (getClass m object)) (\<lambda>objectClass.
     bnd (guard AssertFailed (objectClass \<noteq> NULL)) (\<lambda>_. ret objectClass))"

text \<open>The bound is the depth of the recursion.\<close>

primrec writeObject :: "nat \<Rightarrow> objmem \<Rightarrow> ptr \<Rightarrow> (writer, unit) comp" where
  "writeObject 0 = (\<lambda>m object. raise OutOfFuel)"
| "writeObject (Suc fuel) = (\<lambda>m object.
     bnd (guard AssertFailed (object \<noteq> NULL)) (\<lambda>_.
     bnd (getObjectType m object) (\<lambda>type.
     bnd (writeWord (record_code type)) (\<lambda>_.
     bnd (if type = rec_ordinaryObject \<or> type = rec_byteObject
          then modify (\<lambda>s. s\<lparr>m_writtenObjects := m_writtenObjects s @ [object]\<rparr>) else ret ()) (\<lambda>_.
     case type of
       rec_inlineInteger \<Rightarrow>
         bnd (lift_res (integerOf object)) (\<lambda>integer. putBytesOut (word_to_bytes integer))
     | rec_byteObject \<Rightarrow>
         bnd (lift_res (getSize m object)) (\<lambda>fieldsCount.
         bnd (classToWrite m object) (\<lambda>objectClass.
         bnd (writeWord fieldsCount) (\<lambda>_.
         bnd (writeBytes m object 0 (unat fieldsCount)) (\<lambda>_.
         writeObject fuel m objectClass))))
     | rec_ordinaryObject \<Rightarrow>
         bnd (lift_res (getSize m object)) (\<lambda>fieldsCount.
         bnd (classToWrite m object) (\<lambda>objectClass.
         bnd (writeWord fieldsCount) (\<lambda>_.
         bnd (writeObject fuel m objectClass) (\<lambda>_.
         writeFields m (writeObject fuel m) object 0 (unat fieldsCount)))))
     | rec_previousObject \<Rightarrow> bnd (getPreviousObjectIndex object) writeWord
     | rec_nilObject \<Rightarrow> ret ()
     | rec_invalidObject \<Rightarrow> raise Exit1)))))"

fun writeMany :: "nat \<Rightarrow> objmem \<Rightarrow> ptr list \<Rightarrow> (writer, unit) comp" where
  "writeMany fuel m [] = ret ()"
| "writeMany fuel m (p # ps) = bnd (writeObject fuel m p) (\<lambda>_. writeMany fuel m ps)"

definition writeTo :: "nat \<Rightarrow> objmem \<Rightarrow> TGlobals \<Rightarrow> u8 list res" where
  "writeTo fuel m g =
     (case writeMany fuel m (globals_list g) \<lparr>w_stream = [], m_writtenObjects = []\<rparr> of
        Inl e \<Rightarrow> Inl e
      | Inr (u, s) \<Rightarrow> Inr (w_stream s))"

end
