(* ===== verification/ImageCorrect.thy ===== *)
theory ImageCorrect
  imports Image
begin

text \<open>
  The image format is read back as it was written.  The writer numbers the objects in the order it first
  meets them and so does the reader; \<open>loads\<close> says that the reader has loaded the objects the writer
  wrote from a given number on, and composes over the fields of an object and over the globals.
\<close>

section \<open>Words\<close>

lemma takeWord_wordBytes: "takeWord (wordBytes w @ rest) = Inr (w, rest)"
proof (induction w rule: wordBytes.induct)
  case (1 w)
  show ?case
  proof (cases "w \<ge> 0xFF")
    case True
    then show ?thesis using 1 by (subst wordBytes.simps) (simp add: comp_simps)
  next
    case False
    then have w: "unat w < 255" by (simp add: word_le_nat_alt)
    have m: "unat (w AND 0xFF) = unat w"
    proof -
      have "w AND 0xFF = take_bit 8 w" by (simp add: take_bit_eq_mask mask_eq_exp_minus_1)
      then show ?thesis using w by (simp add: unsigned_take_bit_eq take_bit_nat_eq_self)
    qed
    have b: "unat (ucast (w AND 0xFF) :: u8) = unat w"
      using m w by (simp add: unsigned_ucast_eq take_bit_nat_eq_self)
    then have "(ucast (w AND 0xFF) :: u8) \<noteq> 0xFF" using w by auto
    moreover have "ucast (ucast (w AND 0xFF) :: u8) = w"
      using b unat_ucast_byte[of "ucast (w AND 0xFF)"] by (simp add: word_unat_eq_iff del: unsigned_ucast_eq)
    ultimately show ?thesis using False by (subst wordBytes.simps) simp
  qed
qed

lemma wordBytes_nonempty: "wordBytes w \<noteq> []"
  by (subst wordBytes.simps) simp

lemma readWord_wordBytes:
  "m_inputStream s = wordBytes w @ rest \<Longrightarrow> readWord s = Inr (w, s\<lparr>m_inputStream := rest\<rparr>)"
  by (simp add: readWord_def takeWord_wordBytes)

lemma readInteger_bytes:
  assumes "m_inputStream s = word_to_bytes w @ rest"
  shows "readInteger s = Inr (w, s\<lparr>m_inputStream := rest\<rparr>)"
proof -
  obtain b0 b1 b2 b3 where b: "word_to_bytes w = [b0, b1, b2, b3]" by (simp add: word_to_bytes_def)
  have "bytes_to_word [b0, b1, b2, b3] = w" using bytes_to_word_to_bytes[of w] by (simp add: b)
  then show ?thesis using assms by (simp add: readInteger_def getChar_def comp_simps b)
qed

section \<open>The numbering\<close>

definition image_ref :: "ptr list \<Rightarrow> ptr list \<Rightarrow> ptr \<Rightarrow> ptr" where
  "image_ref ws xs p = (if isSmallInteger p then p else the (map_of (zip ws xs) p))"

definition known :: "ptr list \<Rightarrow> ptr \<Rightarrow> bool" where
  "known ws p \<longleftrightarrow> isSmallInteger p \<or> p \<in> set ws"

lemma indexOf_None: "indexOf p ws = None \<longleftrightarrow> p \<notin> set ws"
  by (induction ws) auto

lemma indexOf_Some:
  "indexOf p ws = Some i \<Longrightarrow> i < length ws \<and> p \<in> set ws \<and> (length xs = length ws \<longrightarrow> map_of (zip ws xs) p = Some (xs ! i))"
proof (induction ws arbitrary: i xs)
  case (Cons w ws)
  show ?case
  proof (cases "w = p")
    case True
    then show ?thesis using Cons.prems by (cases xs) auto
  next
    case False
    then obtain j where "indexOf p ws = Some j" "i = Suc j" using Cons.prems by auto
    then show ?thesis using Cons.IH[of j "tl xs"] False by (cases xs) auto
  qed
qed simp

lemma known_mono: "known ws p \<Longrightarrow> known (ws @ new) p"
  by (auto simp: known_def)

lemma image_ref_extend:
  assumes "known ws p" and "length xs = length ws"
  shows "image_ref (ws @ new) (xs @ ys) p = image_ref ws xs p"
proof (cases "isSmallInteger p")
  case False
  then have "p \<in> set ws" using assms(1) by (simp add: known_def)
  then obtain q where "map_of (zip ws xs) p = Some q" using assms(2) by (metis map_of_zip_is_None option.exhaust)
  then show ?thesis using False assms(2) by (simp add: image_ref_def map_add_Some_iff map_of_append)
qed (simp add: image_ref_def)

definition loaded_copy :: "(ptr \<Rightarrow> ptr) \<Rightarrow> tobject \<Rightarrow> tobject" where
  "loaded_copy f obj = obj\<lparr>obj_class := f (obj_class obj), obj_fields := map f (obj_fields obj)\<rparr>"

definition object_known :: "ptr list \<Rightarrow> tobject \<Rightarrow> bool" where
  "object_known ws obj \<longleftrightarrow> known ws (obj_class obj) \<and> list_all (known ws) (obj_fields obj)"

lemma loaded_copy_extend:
  "object_known ws obj \<Longrightarrow> length xs = length ws \<Longrightarrow>
   loaded_copy (image_ref (ws @ new) (xs @ ys)) obj = loaded_copy (image_ref ws xs) obj"
  by (auto simp: loaded_copy_def object_known_def list_all_iff image_ref_extend)

lemma object_known_mono: "object_known ws obj \<Longrightarrow> object_known (ws @ new) obj"
  by (auto simp: object_known_def list_all_iff known_mono)

section \<open>Steps of the writer and of the reader\<close>

text \<open>Objects whose size word is the one a constructor makes.\<close>

definition storable :: "objmem \<Rightarrow> bool" where
  "storable m \<longleftrightarrow> (\<forall>p obj. m p = Some obj \<longrightarrow> obj_wf obj \<and>
     obj_size obj = TSize_new (TSize_getSize (obj_size obj)) (\<not> ordinary obj) False)"

text \<open>The objects \<open>new\<close> are written after \<open>ws\<close>.\<close>

definition written :: "objmem \<Rightarrow> ptr list \<Rightarrow> ptr list \<Rightarrow> bool" where
  "written m ws new \<longleftrightarrow> (distinct ws \<longrightarrow> distinct (ws @ new)) \<and>
     (\<forall>p\<in>set new. \<not> isSmallInteger p \<and> (\<exists>obj. m p = Some obj \<and> object_known (ws @ new) obj))"

definition bytes_of :: "objmem \<Rightarrow> ptr list \<Rightarrow> nat" where
  "bytes_of m ps = sum_list (map (\<lambda>p. object_bytes (the (m p))) ps)"

definition room_for :: "objmem \<Rightarrow> ptr list \<Rightarrow> 'a baker_scheme \<Rightarrow> bool" where
  "room_for m new t \<longleftrightarrow> m_staticHeapBase t \<noteq> NULL \<and>
     unat (m_staticHeapBase t) + bytes_of m new \<le> unat (m_staticHeapPointer t)"

text \<open>
  The objects \<open>new\<close>, numbered after \<open>ws\<close>, are loaded at the addresses \<open>ys\<close>; nothing else changes but
  the objects in \<open>hole\<close>.
\<close>

definition loads :: "objmem \<Rightarrow> ptr list \<Rightarrow> ptr list \<Rightarrow> ptr list \<Rightarrow> ptr list \<Rightarrow> u8 list \<Rightarrow> ptr set \<Rightarrow>
    'a image_scheme \<Rightarrow> 'a image_scheme \<Rightarrow> bool" where
  "loads m ws new xs ys rest hole t t' \<longleftrightarrow>
     length ys = length new \<and> distinct ys \<and> m_indirects t' = xs @ ys \<and> m_inputStream t' = rest \<and>
     m_staticHeapBase t' = m_staticHeapBase t \<and> m_staticHeapSize t' = m_staticHeapSize t \<and>
     unat (m_staticHeapPointer t') + bytes_of m new = unat (m_staticHeapPointer t) \<and>
     (\<forall>y\<in>set ys. unat (m_staticHeapPointer t') \<le> unat y \<and> unat y < unat (m_staticHeapPointer t)) \<and>
     (\<forall>y\<in>insert (m_staticHeapPointer t') (set ys). y mod 4 = m_staticHeapPointer t mod 4) \<and>
     (\<forall>a. a \<notin> set ys \<longrightarrow> a \<notin> hole \<longrightarrow> objs t' a = objs t a) \<and>
     (\<forall>(p, y)\<in>set (zip new ys). objs t' y = Some (loaded_copy (image_ref (ws @ new) (xs @ ys)) (the (m p))))"

lemma written_append:
  assumes "written m ws new" and "written m (ws @ new) new'"
  shows "written m ws (new @ new')"
  unfolding written_def
proof (intro conjI ballI impI)
  show "distinct (ws @ new @ new')" if "distinct ws" using assms that by (simp add: written_def)
  fix p assume "p \<in> set (new @ new')"
  then consider "p \<in> set new" | "p \<in> set new'" by auto
  then have "\<not> isSmallInteger p \<and> (\<exists>obj. m p = Some obj \<and> object_known ((ws @ new) @ new') obj)"
  proof cases
    case 1
    then show ?thesis using assms(1) object_known_mono unfolding written_def by blast
  next
    case 2
    then show ?thesis using assms(2) unfolding written_def by blast
  qed
  then show "\<not> isSmallInteger p" "\<exists>obj. m p = Some obj \<and> object_known (ws @ new @ new') obj" by simp_all
qed

lemma bytes_of_append: "bytes_of m (ps @ qs) = bytes_of m ps + bytes_of m qs"
  by (simp add: bytes_of_def)

lemma room_append:
  "room_for m (new @ new') t \<Longrightarrow> loads m ws new xs ys rest hole t t' \<Longrightarrow> room_for m new t \<and> room_for m new' t'"
  by (auto simp: room_for_def loads_def bytes_of_append)

lemma room_first: "room_for m (new @ new') t \<Longrightarrow> room_for m new t"
  by (simp add: room_for_def bytes_of_append)

lemma loadsD:
  assumes "loads m ws new xs ys rest hole t t'"
  shows "length ys = length new" "distinct ys" "m_indirects t' = xs @ ys" "m_inputStream t' = rest"
    "m_staticHeapBase t' = m_staticHeapBase t"
    "unat (m_staticHeapPointer t') + bytes_of m new = unat (m_staticHeapPointer t)"
    "\<And>y. y \<in> set ys \<Longrightarrow> unat (m_staticHeapPointer t') \<le> unat y \<and> unat y < unat (m_staticHeapPointer t)"
    "\<And>a. a \<notin> set ys \<Longrightarrow> a \<notin> hole \<Longrightarrow> objs t' a = objs t a"
    "\<And>p y. (p, y) \<in> set (zip new ys) \<Longrightarrow> objs t' y = Some (loaded_copy (image_ref (ws @ new) (xs @ ys)) (the (m p)))"
    "m_staticHeapPointer t' mod 4 = m_staticHeapPointer t mod 4"
    "\<And>y. y \<in> set ys \<Longrightarrow> y mod 4 = m_staticHeapPointer t mod 4"
    "m_staticHeapSize t' = m_staticHeapSize t"
  using assms unfolding loads_def by auto

lemma loads_append:
  assumes w: "written m ws new" and len: "length xs = length ws"
    and l1: "loads m ws new xs ys rest hole t t1" and l2: "loads m (ws @ new) new' (xs @ ys) ys' rest' hole' t1 t2"
    and h: "\<And>a. a \<in> hole' \<Longrightarrow> unat (m_staticHeapPointer t) \<le> unat a"
  shows "loads m ws (new @ new') xs (ys @ ys') rest' (hole \<union> hole') t t2"
proof -
  note d1 = loadsD[OF l1] and d2 = loadsD[OF l2]
  have sep: "y \<notin> set ys' \<and> y \<notin> hole'" if "y \<in> set ys" for y
  proof -
    have "unat (m_staticHeapPointer t1) \<le> unat y" "unat y < unat (m_staticHeapPointer t)" using d1(7)[OF that] by auto
    then show ?thesis using d2(7)[of y] h[of y] by auto
  qed
  have old: "objs t2 y = Some (loaded_copy (image_ref (ws @ new @ new') (xs @ ys @ ys')) (the (m p)))"
    if py: "(p, y) \<in> set (zip new ys)" for p y
  proof -
    have p: "p \<in> set new" "y \<in> set ys" using py by (auto dest: set_zip_leftD set_zip_rightD)
    obtain obj where obj: "m p = Some obj" "object_known (ws @ new) obj" using w p(1) unfolding written_def by blast
    have "objs t2 y = objs t1 y" using d2(8) sep[OF p(2)] by blast
    also have "\<dots> = Some (loaded_copy (image_ref (ws @ new) (xs @ ys)) (the (m p)))" using d1(9)[OF py] .
    also have "loaded_copy (image_ref (ws @ new) (xs @ ys)) (the (m p)) =
        loaded_copy (image_ref ((ws @ new) @ new') ((xs @ ys) @ ys')) (the (m p))"
      using obj len d1(1) by (simp add: loaded_copy_extend del: append_assoc)
    finally show ?thesis by simp
  qed
  show ?thesis unfolding loads_def
  proof (intro conjI)
    show "\<forall>y\<in>insert (m_staticHeapPointer t2) (set (ys @ ys')). y mod 4 = m_staticHeapPointer t mod 4"
      using d1(10,11) d2(10,11) by auto
    show "distinct (ys @ ys')" using d1(2) d2(2) sep by auto
    show "\<forall>(p, y)\<in>set (zip (new @ new') (ys @ ys')).
        objs t2 y = Some (loaded_copy (image_ref (ws @ new @ new') (xs @ ys @ ys')) (the (m p)))"
      using old d2(9) d1(1) by auto
    show "\<forall>y\<in>set (ys @ ys'). unat (m_staticHeapPointer t2) \<le> unat y \<and> unat y < unat (m_staticHeapPointer t)"
      using d1(6,7) d2(6,7) by fastforce
    show "\<forall>a. a \<notin> set (ys @ ys') \<longrightarrow> a \<notin> hole \<union> hole' \<longrightarrow> objs t2 a = objs t a"
      using d1(8) d2(8) by auto
  qed (use d1(1,3,4,5,6,12) d2(1,3,4,5,6,12) in \<open>simp_all add: bytes_of_append\<close>)
qed

section \<open>What is read back\<close>

definition reads_back :: "objmem \<Rightarrow> ptr list \<Rightarrow> ptr list \<Rightarrow> ptr \<Rightarrow> u8 list \<Rightarrow> bool" where
  "reads_back m ws new p bs \<longleftrightarrow> (\<forall>k (t :: image) rest xs.
     length bs \<le> k \<longrightarrow> m_indirects t = xs \<longrightarrow> length xs = length ws \<longrightarrow> m_inputStream t = bs @ rest \<longrightarrow> room_for m new t \<longrightarrow>
     (\<exists>ys t'. readObject k t = Inr (image_ref (ws @ new) (xs @ ys) p, t') \<and> loads m ws new xs ys rest {} t t'))"

definition fields_back :: "objmem \<Rightarrow> ptr list \<Rightarrow> ptr list \<Rightarrow> ptr list \<Rightarrow> u8 list \<Rightarrow> bool" where
  "fields_back m ws new vs bs \<longleftrightarrow> (\<forall>k (t :: image) rest xs a i obj.
     length bs \<le> k \<longrightarrow> m_indirects t = xs \<longrightarrow> length xs = length ws \<longrightarrow> m_inputStream t = bs @ rest \<longrightarrow> room_for m new t \<longrightarrow>
     objs t a = Some obj \<longrightarrow> ordinary obj \<longrightarrow> i + length vs \<le> length (obj_fields obj) \<longrightarrow>
     unat (m_staticHeapPointer t) \<le> unat a \<longrightarrow>
     (\<exists>ys t'. readFields (readObject k) a i (length vs) t = Inr ((), t') \<and> loads m ws new xs ys rest {a} t t' \<and>
        objs t' a = Some (obj\<lparr>obj_fields := take i (obj_fields obj) @ map (image_ref (ws @ new) (xs @ ys)) vs @
                                          drop (i + length vs) (obj_fields obj)\<rparr>)))"

lemma loads_nothing:
  assumes "m_indirects t = xs" and "m_inputStream t = bs @ rest"
  shows "loads m ws [] xs [] rest hole t (t\<lparr>m_inputStream := rest\<rparr>)"
  using assms by (simp add: loads_def bytes_of_def)

lemma loads_same:
  assumes "m_indirects t = xs" and "m_inputStream t = rest"
  shows "loads m ws [] xs [] rest hole t t"
  using assms by (simp add: loads_def bytes_of_def)

lemma loads_change:
  assumes "loads m ws new xs ys rest hole t t'" and "unat (m_staticHeapPointer t) \<le> unat a"
  shows "loads m ws new xs ys rest (insert a hole) t (t'\<lparr>objs := (objs t')(a \<mapsto> obj)\<rparr>)"
proof -
  have "a \<notin> set ys" using assms by (force simp: loads_def)
  then have "\<forall>(p, y)\<in>set (zip new ys). y \<noteq> a" by (auto dest: set_zip_rightD)
  then show ?thesis using assms(1) by (fastforce simp: loads_def)
qed

lemma putMember_ordinary:
  "objs t a = Some obj \<Longrightarrow> ordinary obj \<Longrightarrow> i < length (obj_fields obj) \<Longrightarrow>
   putMember a i v t = Inr ((), t\<lparr>objs := (objs t)(a \<mapsto> obj\<lparr>obj_fields := (obj_fields obj)[i := v]\<rparr>)\<rparr>)"
  by (simp add: putMember_def comp_simps putField_ordinary)

lemma fields_back_Nil: "fields_back m ws [] [] []"
  unfolding fields_back_def by (auto simp: comp_simps loads_same intro!: exI[of _ "[]"])

lemma fields_back_Cons:
  assumes r: "reads_back m ws n1 v b1" and f: "fields_back m (ws @ n1) n2 vs b2"
    and w: "written m ws n1" and k: "known (ws @ n1) v"
  shows "fields_back m ws (n1 @ n2) (v # vs) (b1 @ b2)"
  unfolding fields_back_def
proof (intro allI impI)
  fix k and t :: image and rest xs a i obj
  assume p: "length (b1 @ b2) \<le> k" "m_indirects t = xs" "length xs = length ws" "m_inputStream t = (b1 @ b2) @ rest"
    "room_for m (n1 @ n2) t" "objs t a = Some obj" "ordinary obj" "i + length (v # vs) \<le> length (obj_fields obj)"
    "unat (m_staticHeapPointer t) \<le> unat a"
  obtain y1 t1 where 1: "readObject k t = Inr (image_ref (ws @ n1) (xs @ y1) v, t1)" "loads m ws n1 xs y1 (b2 @ rest) {} t t1"
    using r[unfolded reads_back_def, rule_format, of k t xs "b2 @ rest"] p room_first[OF p(5)] by auto
  let ?v = "image_ref (ws @ n1) (xs @ y1) v"
  let ?obj = "obj\<lparr>obj_fields := (obj_fields obj)[i := ?v]\<rparr>"
  let ?t = "t1\<lparr>objs := (objs t1)(a \<mapsto> ?obj)\<rparr>"
  have l1: "loads m ws n1 xs y1 (b2 @ rest) {a} t ?t" by (rule loads_change[OF 1(2) p(9)])
  have ly: "length y1 = length n1" using 1(2) by (simp add: loads_def)
  have "a \<notin> set y1" using 1(2) p(9) by (force simp: loads_def)
  then have o1: "objs t1 a = Some obj" using 1(2) p(6) by (auto simp: loads_def)
  have put: "putMember a i ?v t1 = Inr ((), ?t)" by (rule putMember_ordinary) (use o1 p in auto)
  have below: "unat (m_staticHeapPointer ?t) \<le> unat a" using l1 p(9) by (simp add: loads_def)
  have "\<exists>y2 t2. readFields (readObject k) a (i + 1) (length vs) ?t = Inr ((), t2) \<and>
      loads m (ws @ n1) n2 (xs @ y1) y2 rest {a} ?t t2 \<and>
      objs t2 a = Some (?obj\<lparr>obj_fields := take (i + 1) (obj_fields ?obj) @
        map (image_ref ((ws @ n1) @ n2) ((xs @ y1) @ y2)) vs @ drop (i + 1 + length vs) (obj_fields ?obj)\<rparr>)"
    by (rule f[unfolded fields_back_def, rule_format])
      (use p l1 ly below room_append[OF p(5) l1] in \<open>auto simp: loads_def\<close>)
  then obtain y2 t2 where 2: "readFields (readObject k) a (i + 1) (length vs) ?t = Inr ((), t2)"
    "loads m (ws @ n1) n2 (xs @ y1) y2 rest {a} ?t t2"
    "objs t2 a = Some (?obj\<lparr>obj_fields := take (i + 1) (obj_fields ?obj) @
        map (image_ref ((ws @ n1) @ n2) ((xs @ y1) @ y2)) vs @ drop (i + 1 + length vs) (obj_fields ?obj)\<rparr>)" by blast
  have ref: "image_ref ((ws @ n1) @ n2) ((xs @ y1) @ y2) v = ?v" by (rule image_ref_extend[OF k]) (use p(3) ly in simp)
  have "loads m ws (n1 @ n2) xs (y1 @ y2) rest ({a} \<union> {a}) t t2"
    by (rule loads_append[OF w p(3) l1 2(2)]) (use p(9) in auto)
  moreover have "readFields (readObject k) a i (length (v # vs)) t = Inr ((), t2)"
    using 1(1) put 2(1) by (simp add: comp_simps)
  moreover have "objs t2 a = Some (obj\<lparr>obj_fields := take i (obj_fields obj) @
      map (image_ref (ws @ n1 @ n2) (xs @ y1 @ y2)) (v # vs) @ drop (i + length (v # vs)) (obj_fields obj)\<rparr>)"
    using 2(3) ref p(8) by (simp add: take_Suc_conv_app_nth list_update_append)
  ultimately show "\<exists>ys t'. readFields (readObject k) a i (length (v # vs)) t = Inr ((), t') \<and>
      loads m ws (n1 @ n2) xs ys rest {a} t t' \<and>
      objs t' a = Some (obj\<lparr>obj_fields := take i (obj_fields obj) @
        map (image_ref (ws @ n1 @ n2) (xs @ ys)) (v # vs) @ drop (i + length (v # vs)) (obj_fields obj)\<rparr>)"
    by (intro exI[of _ "y1 @ y2"] exI[of _ t2]) simp
qed


section \<open>Placing an object\<close>

definition fits_object :: "u32 \<Rightarrow> tobject \<Rightarrow> tobject \<Rightarrow> bool" where
  "fits_object slotSize raw obj \<longleftrightarrow> unat slotSize = object_bytes obj \<and>
     slotSize mod 4 = 0 \<and> 8 + 4 * length (obj_fields raw) + length (obj_bytes raw) \<le> object_bytes obj"

definition placed :: "ptr \<Rightarrow> tobject \<Rightarrow> image \<Rightarrow> image" where
  "placed a raw t = t\<lparr>objs := (objs t)(a \<mapsto> raw), m_indirects := m_indirects t @ [a], m_staticHeapPointer := a\<rparr>"

lemma newStatic_placed:
  assumes "room_for m (p # new) t" and "m p = Some obj" and "fits_object slotSize raw obj"
  shows "\<exists>a. newStatic slotSize raw t = Inr (a, placed a raw t) \<and> unat a + object_bytes obj = unat (m_staticHeapPointer t) \<and>
    a mod 4 = m_staticHeapPointer t mod 4 \<and> room_for m new (placed a raw t)"
proof -
  let ?sp = "m_staticHeapPointer t" and ?b = "m_staticHeapBase t"
  have r: "?b \<noteq> NULL" "unat ?b + object_bytes obj + bytes_of m new \<le> unat ?sp"
    using assms(1,2) by (auto simp: room_for_def bytes_of_def)
  have a: "unat (?sp - slotSize) + object_bytes obj = unat ?sp"
    using r(2) assms(3) by (simp add: fits_object_def unat_sub word_le_nat_alt)
  then have le: "unat ?b + bytes_of m new \<le> unat (?sp - slotSize)" using r(2) by linarith
  then have nz: "?sp - slotSize \<noteq> NULL" using r(1) by (metis add_leD1 le_zero_eq unat_0 unat_eq_zero)
  have "\<not> ?sp - slotSize < ?b" using le by (simp add: word_less_nat_alt)
  then have "newStatic slotSize raw t = Inr (?sp - slotSize, placed (?sp - slotSize) raw t)"
    using nz assms(3) by (simp add: newStatic_def staticAllocate_def comp_simps fits_object_def placed_def Let_def)
  moreover have "(?sp - slotSize) mod 4 = ?sp mod 4" using subtract_mod4 assms(3) by (simp add: fits_object_def)
  ultimately show ?thesis using a le r(1) by (intro exI[of _ "?sp - slotSize"]) (simp add: room_for_def placed_def)
qed

lemma room_bound:
  assumes "room_for m (p # new) t" and "m p = Some obj"
  shows "object_bytes obj < 2 ^ 32"
proof -
  have "unat (m_staticHeapPointer t) < 2 ^ 32" using unsigned_less[of "m_staticHeapPointer t"] by simp
  then show ?thesis using assms by (simp add: room_for_def bytes_of_def)
qed

lemma slot_size_ordinary:
  assumes "ordinary obj" and "object_bytes obj < 2 ^ 32"
  shows "unat (sizeof_TObject + TSize_getSize (obj_size obj) * 4) = object_bytes obj"
  using assms by (simp add: object_bytes_def sizeof_TObject_def unat_word_ariths)

lemma TSize_getSize_bound: "unat (TSize_getSize d) < 2 ^ 30"
proof -
  have "unat d < 2 ^ 32" using unsigned_less[of d] by simp
  then show ?thesis unfolding TSize_getSize_def unat_drop_bit_eq by (simp add: drop_bit_eq_div)
qed

lemma slot_size_binary:
  assumes "\<not> ordinary obj"
  shows "unat (correctPadding (sizeof_TObject + TSize_getSize (obj_size obj))) = object_bytes obj"
proof -
  let ?n = "unat (TSize_getSize (obj_size obj))"
  have n: "?n < 2 ^ 30" by (rule TSize_getSize_bound)
  have "unat (sizeof_TObject + TSize_getSize (obj_size obj) + 3) = ?n + 11" "unat (TSize_getSize (obj_size obj) + 3) = ?n + 3"
    using n by (simp_all add: sizeof_TObject_def unat_word_ariths)
  moreover have "(?n + 11) div 4 * 4 = 8 + (?n + 3) div 4 * 4" by presburger
  ultimately show ?thesis using assms by (simp add: object_bytes_def unat_correctPadding_wrap)
qed

lemma loads_first:
  assumes p: "m p = Some obj" and a: "unat a + object_bytes obj = unat (m_staticHeapPointer t)"
      "a mod 4 = m_staticHeapPointer t mod 4" and x: "m_indirects t = xs"
    and l: "loads m (ws @ [p]) new (xs @ [a]) ys rest {a} (placed a raw t) t'"
    and c: "objs t' a = Some (loaded_copy (image_ref (ws @ p # new) (xs @ a # ys)) obj)"
  shows "loads m ws (p # new) xs (a # ys) rest {} t t'"
  using l a p c x object_bytes_pos[of obj] unfolding loads_def
  by (auto simp: placed_def bytes_of_def)

section \<open>Objects read back\<close>

lemma storable_at:
  "storable m \<Longrightarrow> m p = Some obj \<Longrightarrow>
   obj_wf obj \<and> obj_size obj = TSize_new (TSize_getSize (obj_size obj)) (\<not> ordinary obj) False"
  unfolding storable_def by blast

lemma setClass_at:
  "objs t a = Some obj \<Longrightarrow>
   mem_upd (\<lambda>m. setClass m a c) t = Inr ((), t\<lparr>objs := (objs t)(a \<mapsto> obj\<lparr>obj_class := c\<rparr>)\<rparr>)"
  by (simp add: comp_simps setClass_def objectAt_def)

text \<open>The part both records share: the class is read and stored in the new object.\<close>

definition readClass :: "nat \<Rightarrow> ptr \<Rightarrow> (image, unit) comp" where
  "readClass k a = bnd (readObject k) (\<lambda>objectClass. mem_upd (\<lambda>m. setClass m a objectClass))"

lemma readClass_loads:
  assumes r: "reads_back m ws new c bs"
    and t: "length bs \<le> k" "m_indirects t = xs" "length xs = length ws" "m_inputStream t = bs @ rest" "room_for m new t"
    and a: "objs t a = Some raw" "unat (m_staticHeapPointer t) \<le> unat a"
  shows "\<exists>ys t'. readClass k a t = Inr ((), t') \<and> loads m ws new xs ys rest {a} t t' \<and>
    objs t' a = Some (raw\<lparr>obj_class := image_ref (ws @ new) (xs @ ys) c\<rparr>)"
proof -
  obtain ys t1 where 1: "readObject k t = Inr (image_ref (ws @ new) (xs @ ys) c, t1)" "loads m ws new xs ys rest {} t t1"
    using r[unfolded reads_back_def, rule_format, of k t xs rest] t by auto
  have "a \<notin> set ys" using 1(2) a(2) by (force simp: loads_def)
  then have o1: "objs t1 a = Some raw" using 1(2) a(1) by (auto simp: loads_def)
  have "readClass k a t = Inr ((), t1\<lparr>objs := (objs t1)(a \<mapsto> raw\<lparr>obj_class := image_ref (ws @ new) (xs @ ys) c\<rparr>)\<rparr>)"
    unfolding readClass_def bnd_def 1(1) using setClass_at[OF o1] by simp
  then show ?thesis using loads_change[OF 1(2) a(2)] by force
qed

lemma readTail_loads:
  assumes r: "reads_back m ws n1 c b1" and w: "written m ws n1" and kc: "known (ws @ n1) c"
    and f: "fields_back m (ws @ n1) n2 vs b2"
    and t: "length b1 \<le> k" "length b2 \<le> k" "m_indirects t = xs" "length xs = length ws" "m_inputStream t = b1 @ b2 @ rest"
      "room_for m (n1 @ n2) t"
    and a: "objs t a = Some raw" "unat (m_staticHeapPointer t) \<le> unat a" "ordinary raw" "length (obj_fields raw) = length vs"
  shows "\<exists>ys t'. bnd (readClass k a) (\<lambda>_. readFields (readObject k) a 0 (length vs)) t = Inr ((), t') \<and>
    loads m ws (n1 @ n2) xs ys rest {a} t t' \<and>
    objs t' a = Some (raw\<lparr>obj_class := image_ref (ws @ n1 @ n2) (xs @ ys) c,
      obj_fields := map (image_ref (ws @ n1 @ n2) (xs @ ys)) vs\<rparr>)"
proof -
  obtain y1 t1 where 1: "readClass k a t = Inr ((), t1)" "loads m ws n1 xs y1 (b2 @ rest) {a} t t1"
    "objs t1 a = Some (raw\<lparr>obj_class := image_ref (ws @ n1) (xs @ y1) c\<rparr>)"
    using readClass_loads[OF r t(1,3,4,5) room_first[OF t(6)] a(1,2)] by blast
  let ?raw = "raw\<lparr>obj_class := image_ref (ws @ n1) (xs @ y1) c\<rparr>"
  have d: "length y1 = length n1" "m_indirects t1 = xs @ y1" "m_inputStream t1 = b2 @ rest"
    "unat (m_staticHeapPointer t1) \<le> unat a" using 1(2) a(2) by (auto simp: loads_def)
  have "\<exists>y2 t2. readFields (readObject k) a 0 (length vs) t1 = Inr ((), t2) \<and>
      loads m (ws @ n1) n2 (xs @ y1) y2 rest {a} t1 t2 \<and>
      objs t2 a = Some (?raw\<lparr>obj_fields := take 0 (obj_fields ?raw) @
        map (image_ref ((ws @ n1) @ n2) ((xs @ y1) @ y2)) vs @ drop (0 + length vs) (obj_fields ?raw)\<rparr>)"
    by (rule f[unfolded fields_back_def, rule_format])
      (use t(2,4) d 1(3) a(3,4) room_append[OF t(6) 1(2)] in auto)
  then obtain y2 t2 where 2: "readFields (readObject k) a 0 (length vs) t1 = Inr ((), t2)"
    "loads m (ws @ n1) n2 (xs @ y1) y2 rest {a} t1 t2"
    "objs t2 a = Some (?raw\<lparr>obj_fields := map (image_ref ((ws @ n1) @ n2) ((xs @ y1) @ y2)) vs\<rparr>)"
    using a(4) by auto
  have "loads m ws (n1 @ n2) xs (y1 @ y2) rest ({a} \<union> {a}) t t2"
    by (rule loads_append[OF w t(4) 1(2) 2(2)]) (use a(2) in simp)
  moreover have "image_ref ((ws @ n1) @ n2) ((xs @ y1) @ y2) c = image_ref (ws @ n1) (xs @ y1) c"
    by (rule image_ref_extend[OF kc]) (use t(4) d(1) in simp)
  ultimately show ?thesis using 1(1) 2(1,3) by (intro exI[of _ "y1 @ y2"] exI[of _ t2]) (simp add: bnd_def)
qed

lemma image_ref_first:
  "\<not> isSmallInteger p \<Longrightarrow> p \<notin> set ws \<Longrightarrow> length xs = length ws \<Longrightarrow> image_ref (ws @ p # new) (xs @ a # ys) p = a"
  by (simp add: image_ref_def map_of_append map_add_def map_of_zip_is_None[THEN iffD2])

lemma record_fuel:
  assumes "length (wordBytes c @ bs) \<le> k"
  obtains k' where "k = Suc k'" and "length bs \<le> k'"
  using assms wordBytes_nonempty[of c] by (cases k; cases "wordBytes c") auto

lemma readObject_record:
  assumes "m_inputStream t = wordBytes (record_code ty) @ r"
  shows "readObject (Suc k) t = (case ty of
       rec_ordinaryObject \<Rightarrow>
         bnd readWord (\<lambda>n. bnd (newStatic (sizeof_TObject + n * 4) (TObject_new n NULL)) (\<lambda>a.
         bnd (bnd (readClass k a) (\<lambda>_. readFields (readObject k) a 0 (unat n))) (\<lambda>_. ret a)))
     | rec_inlineInteger \<Rightarrow> bnd readInteger (\<lambda>v. ret (TInteger_of_int v))
     | rec_byteObject \<Rightarrow>
         bnd readWord (\<lambda>n. bnd (newStatic (correctPadding (sizeof_TObject + n)) (TByteObject_new n NULL)) (\<lambda>a.
         bnd (bnd (readBytes a 0 (unat n)) (\<lambda>_. readClass k a)) (\<lambda>_. ret a)))
     | rec_previousObject \<Rightarrow> bnd readWord (\<lambda>index. indirect (unat index))
     | rec_nilObject \<Rightarrow> indirect 0
     | rec_invalidObject \<Rightarrow> raise Exit1) (t\<lparr>m_inputStream := r\<rparr>)"
proof -
  have "readObject (Suc k) t = (case Some ty of
       Some rec_ordinaryObject \<Rightarrow>
         bnd readWord (\<lambda>n. bnd (newStatic (sizeof_TObject + n * 4) (TObject_new n NULL)) (\<lambda>a.
         bnd (readObject k) (\<lambda>c. bnd (mem_upd (\<lambda>m. setClass m a c)) (\<lambda>_.
         bnd (readFields (readObject k) a 0 (unat n)) (\<lambda>_. ret a)))))
     | Some rec_inlineInteger \<Rightarrow> bnd readInteger (\<lambda>v. ret (TInteger_of_int v))
     | Some rec_byteObject \<Rightarrow>
         bnd readWord (\<lambda>n. bnd (newStatic (correctPadding (sizeof_TObject + n)) (TByteObject_new n NULL)) (\<lambda>a.
         bnd (readBytes a 0 (unat n)) (\<lambda>_. bnd (readObject k) (\<lambda>c. bnd (mem_upd (\<lambda>m. setClass m a c)) (\<lambda>_. ret a)))))
     | Some rec_previousObject \<Rightarrow> bnd readWord (\<lambda>index. indirect (unat index))
     | Some rec_nilObject \<Rightarrow> indirect 0
     | _ \<Rightarrow> raise Exit1) (t\<lparr>m_inputStream := r\<rparr>)"
    unfolding readObject.simps bnd_def[of readWord] readWord_wordBytes[OF assms] sum.case prod.case record_cast_code ..
  then show ?thesis unfolding option.case readClass_def bnd_assoc .
qed

lemma readObject_ordinary:
  assumes st: "storable m" and p: "m p = Some obj" "ordinary obj" "\<not> isSmallInteger p" "p \<notin> set ws"
    and r: "reads_back m (ws @ [p]) n1 (obj_class obj) b1" "written m (ws @ [p]) n1" "known ((ws @ [p]) @ n1) (obj_class obj)"
    and f: "fields_back m ((ws @ [p]) @ n1) n2 (obj_fields obj) b2"
  shows "reads_back m ws (p # n1 @ n2) p
    (wordBytes (record_code rec_ordinaryObject) @ wordBytes (TSize_getSize (obj_size obj)) @ b1 @ b2)"
  unfolding reads_back_def
proof (intro allI impI)
  fix k and t :: image and rest xs
  let ?n = "TSize_getSize (obj_size obj)"
  assume h: "length (wordBytes (record_code rec_ordinaryObject) @ wordBytes ?n @ b1 @ b2) \<le> k"
    "m_indirects t = xs" "length xs = length ws"
    "m_inputStream t = (wordBytes (record_code rec_ordinaryObject) @ wordBytes ?n @ b1 @ b2) @ rest"
    "room_for m (p # n1 @ n2) t"
  obtain k' where k: "k = Suc k'" "length b1 \<le> k'" "length b2 \<le> k'" by (rule record_fuel[OF h(1)]) auto
  have wf: "length (obj_fields obj) = unat ?n" "obj_bytes obj = []" "obj_size obj = TSize_new ?n False False"
    using storable_at[OF st p(1)] p(2) by (auto simp: obj_wf_def)
  let ?o = "TObject_new ?n NULL" and ?t0 = "t\<lparr>m_inputStream := b1 @ b2 @ rest\<rparr>"
  have room0: "room_for m (p # n1 @ n2) ?t0" using h(5) by (simp add: room_for_def)
  have "fits_object (sizeof_TObject + ?n * 4) ?o obj"
    using slot_size_ordinary[OF p(2) room_bound[OF room0 p(1)]] p(2)
    block_size_mod4(2)[of ?n]
    by (simp add: fits_object_def TObject_new_def object_bytes_def)
  from newStatic_placed[OF room0 p(1) this] obtain a where a:
    "newStatic (sizeof_TObject + ?n * 4) ?o ?t0 = Inr (a, placed a ?o ?t0)"
    "unat a + object_bytes obj = unat (m_staticHeapPointer t)" "room_for m (n1 @ n2) (placed a ?o ?t0)"
    "a mod 4 = m_staticHeapPointer t mod 4" by auto
  obtain ys t' where 1: "bnd (readClass k' a) (\<lambda>_. readFields (readObject k') a 0 (unat ?n)) (placed a ?o ?t0) = Inr ((), t')"
    "loads m (ws @ [p]) (n1 @ n2) (xs @ [a]) ys rest {a} (placed a ?o ?t0) t'"
    "objs t' a = Some (loaded_copy (image_ref (ws @ p # n1 @ n2) (xs @ a # ys)) obj)"
    using readTail_loads[OF r f k(2,3) _ _ _ a(3), of "xs @ [a]" rest a ?o] h(2,3) wf p(2)
    by (auto simp: placed_def TObject_new_def ordinary_def loaded_copy_def)
  have "loads m ws (p # n1 @ n2) xs (a # ys) rest {} t t'"
    using loads_first[OF p(1) _ _ _ 1(2,3), unfolded append_Cons] a(2,4) h(2) by (simp add: loads_def)
  moreover have "readObject k t = Inr (a, t')"
    using readObject_record[of t rec_ordinaryObject "wordBytes ?n @ b1 @ b2 @ rest" k'] h(4) a(1) 1(1)
      readWord_wordBytes[of "t\<lparr>m_inputStream := wordBytes ?n @ b1 @ b2 @ rest\<rparr>" ?n "b1 @ b2 @ rest"]
    unfolding k(1) by (simp add: bnd_def ret_def del: record_code.simps readObject.simps)
  ultimately show "\<exists>ys t'. readObject k t = Inr (image_ref (ws @ p # n1 @ n2) (xs @ ys) p, t') \<and>
      loads m ws (p # n1 @ n2) xs ys rest {} t t'"
    using image_ref_first[OF p(3,4) h(3)] by metis
qed


definition encodedBytes :: "u8 list \<Rightarrow> u8 list" where
  "encodedBytes bs = concat (map (\<lambda>b. wordBytes (ucast b)) bs)"

lemma ucast_byte_inverse: "ucast (ucast (b :: u8) :: u32) = b"
  by (rule bit_word_eqI) (auto simp: bit_simps)

lemma readBytes_back:
  "m_inputStream t = encodedBytes bs @ rest \<Longrightarrow> objs t a = Some raw \<Longrightarrow> \<not> ordinary raw \<Longrightarrow>
   i + length bs = length (obj_bytes raw) \<Longrightarrow>
   readBytes a i (length bs) t = Inr ((), t\<lparr>m_inputStream := rest,
     objs := (objs t)(a \<mapsto> raw\<lparr>obj_bytes := take i (obj_bytes raw) @ bs\<rparr>)\<rparr>)"
proof (induction bs arbitrary: i t raw)
  case Nil
  then have "(objs t)(a \<mapsto> raw) = objs t" by (intro fun_upd_idem) simp
  then show ?case using Nil by (simp add: comp_simps encodedBytes_def)
next
  case (Cons b bs)
  let ?raw = "raw\<lparr>obj_bytes := (obj_bytes raw)[i := b]\<rparr>"
  let ?t = "t\<lparr>m_inputStream := encodedBytes bs @ rest, objs := (objs t)(a \<mapsto> ?raw)\<rparr>"
  have w: "readWord t = Inr (ucast b, t\<lparr>m_inputStream := encodedBytes bs @ rest\<rparr>)"
    by (rule readWord_wordBytes) (use Cons.prems(1) in \<open>simp add: encodedBytes_def\<close>)
  have p: "putByte (objs t) a i b = Inr ((objs t)(a \<mapsto> ?raw))"
    by (rule putByte_binary) (use Cons.prems in auto)
  have bs: "take (i + 1) (obj_bytes ?raw) @ bs = take i (obj_bytes raw) @ b # bs"
    using Cons.prems(4) by (simp add: take_Suc_conv_app_nth list_update_append)
  have ih: "readBytes a (i + 1) (length bs) ?t = Inr ((), ?t\<lparr>m_inputStream := rest,
     objs := (objs ?t)(a \<mapsto> ?raw\<lparr>obj_bytes := take (i + 1) (obj_bytes ?raw) @ bs\<rparr>)\<rparr>)"
    by (rule Cons.IH) (use Cons.prems in auto)
  have "readBytes a i (length (b # bs)) t = readBytes a (i + 1) (length bs) ?t"
    using w p by (simp add: bnd_def mem_upd_def ucast_byte_inverse)
  also have "\<dots> = Inr ((), ?t\<lparr>m_inputStream := rest,
     objs := (objs ?t)(a \<mapsto> ?raw\<lparr>obj_bytes := take i (obj_bytes raw) @ b # bs\<rparr>)\<rparr>)" using ih unfolding bs .
  also have "?t\<lparr>m_inputStream := rest, objs := (objs ?t)(a \<mapsto> ?raw\<lparr>obj_bytes := take i (obj_bytes raw) @ b # bs\<rparr>)\<rparr> =
      t\<lparr>m_inputStream := rest, objs := (objs t)(a \<mapsto> raw\<lparr>obj_bytes := take i (obj_bytes raw) @ b # bs\<rparr>)\<rparr>" by simp
  finally show ?case .
qed

lemma readObject_binary:
  assumes st: "storable m" and p: "m p = Some obj" "\<not> ordinary obj" "\<not> isSmallInteger p" "p \<notin> set ws"
    and r: "reads_back m (ws @ [p]) new (obj_class obj) bs"
  shows "reads_back m ws (p # new) p
    (wordBytes (record_code rec_byteObject) @ wordBytes (TSize_getSize (obj_size obj)) @ encodedBytes (obj_bytes obj) @ bs)"
  unfolding reads_back_def
proof (intro allI impI)
  fix k and t :: image and rest xs
  let ?n = "TSize_getSize (obj_size obj)" and ?e = "encodedBytes (obj_bytes obj)"
  assume h: "length (wordBytes (record_code rec_byteObject) @ wordBytes ?n @ ?e @ bs) \<le> k"
    "m_indirects t = xs" "length xs = length ws"
    "m_inputStream t = (wordBytes (record_code rec_byteObject) @ wordBytes ?n @ ?e @ bs) @ rest"
    "room_for m (p # new) t"
  obtain k' where k: "k = Suc k'" "length bs \<le> k'" by (rule record_fuel[OF h(1)]) auto
  have wf: "length (obj_bytes obj) = unat ?n" "obj_fields obj = []" "obj_size obj = TSize_new ?n True False"
    using storable_at[OF st p(1)] p(2) by (auto simp: obj_wf_def)
  let ?o = "TByteObject_new ?n NULL" and ?t0 = "t\<lparr>m_inputStream := ?e @ bs @ rest\<rparr>"
  have room0: "room_for m (p # new) ?t0" using h(5) by (simp add: room_for_def)
  have "unat ?n \<le> unat (correctPadding ?n)"
  proof -
    have "unat (?n + 3) = unat ?n + 3" using TSize_getSize_bound[of "obj_size obj"] by (simp add: unat_word_ariths)
    then show ?thesis unfolding unat_correctPadding_wrap by presburger
  qed
  then have "fits_object (correctPadding (sizeof_TObject + ?n)) ?o obj"
    using slot_size_binary[OF p(2)] p(2) correctPadding_mod4[of "sizeof_TObject + ?n"]
    by (simp add: fits_object_def TByteObject_new_def object_bytes_def)
  from newStatic_placed[OF room0 p(1) this] obtain a where a:
    "newStatic (correctPadding (sizeof_TObject + ?n)) ?o ?t0 = Inr (a, placed a ?o ?t0)"
    "unat a + object_bytes obj = unat (m_staticHeapPointer t)" "room_for m new (placed a ?o ?t0)"
    "a mod 4 = m_staticHeapPointer t mod 4" by auto
  let ?o1 = "?o\<lparr>obj_bytes := obj_bytes obj\<rparr>" and ?t1 = "placed a (?o\<lparr>obj_bytes := obj_bytes obj\<rparr>) (t\<lparr>m_inputStream := bs @ rest\<rparr>)"
  have b: "readBytes a 0 (unat ?n) (placed a ?o ?t0) = Inr ((), ?t1)"
    using readBytes_back[of "placed a ?o ?t0" "obj_bytes obj" "bs @ rest" a ?o 0] wf p(2)
    by (simp add: placed_def TByteObject_new_def ordinary_def)
  obtain ys t' where 1: "readClass k' a ?t1 = Inr ((), t')" "loads m (ws @ [p]) new (xs @ [a]) ys rest {a} ?t1 t'"
    "objs t' a = Some (loaded_copy (image_ref (ws @ p # new) (xs @ a # ys)) obj)"
    using readClass_loads[OF r k(2), of ?t1 "xs @ [a]" rest a ?o1] h(2,3) wf a(3)
    by (auto simp: placed_def TByteObject_new_def loaded_copy_def room_for_def)
  have "loads m ws (p # new) xs (a # ys) rest {} t t'"
    using loads_first[OF p(1) _ _ _ 1(2,3)] a(2,4) h(2) by (simp add: loads_def)
  moreover have "readObject k t = Inr (a, t')"
    using readObject_record[of t rec_byteObject "wordBytes ?n @ ?e @ bs @ rest" k'] h(4) a(1) b 1(1)
      readWord_wordBytes[of "t\<lparr>m_inputStream := wordBytes ?n @ ?e @ bs @ rest\<rparr>" ?n "?e @ bs @ rest"]
    unfolding k(1) by (simp add: bnd_def ret_def del: record_code.simps readObject.simps)
  ultimately show "\<exists>ys t'. readObject k t = Inr (image_ref (ws @ p # new) (xs @ ys) p, t') \<and>
      loads m ws (p # new) xs ys rest {} t t'"
    using image_ref_first[OF p(3,4) h(3)] by metis
qed

lemma readObject_integer:
  assumes "isSmallInteger p"
  shows "reads_back m ws [] p (wordBytes (record_code rec_inlineInteger) @ word_to_bytes (TInteger_getValue p))"
  unfolding reads_back_def
proof (intro allI impI)
  fix k and t :: image and rest xs
  let ?b = "word_to_bytes (TInteger_getValue p)"
  assume h: "length (wordBytes (record_code rec_inlineInteger) @ ?b) \<le> k" "m_indirects t = xs" 
    "m_inputStream t = (wordBytes (record_code rec_inlineInteger) @ ?b) @ rest"
  obtain k' where k: "k = Suc k'" by (rule record_fuel[OF h(1)])
  have "TInteger_of_int (TInteger_getValue p) = p" using assms
    by (simp add: TInteger_of_int_def TInteger_getValue_def newInteger_getIntegerValue)
  then have "readObject k t = Inr (p, t\<lparr>m_inputStream := rest\<rparr>)"
    using readObject_record[of t rec_inlineInteger "?b @ rest" k'] h(3)
      readInteger_bytes[of "t\<lparr>m_inputStream := ?b @ rest\<rparr>" "TInteger_getValue p" rest]
    unfolding k by (simp add: bnd_def ret_def del: record_code.simps readObject.simps)
  then show "\<exists>ys t'. readObject k t = Inr (image_ref (ws @ []) (xs @ ys) p, t') \<and> loads m ws [] xs ys rest {} t t'"
    using loads_nothing[OF h(2,3)] assms by (intro exI[of _ "[]"]) (simp add: image_ref_def)
qed

lemma readObject_reference:
  assumes p: "\<not> isSmallInteger p" "indexOf p ws = Some i" "i < 2 ^ 32"
    and bs: "bs = (if i = 0 then wordBytes (record_code rec_nilObject)
       else wordBytes (record_code rec_previousObject) @ wordBytes (of_nat i))"
  shows "reads_back m ws [] p bs"
  unfolding reads_back_def
proof (intro allI impI)
  fix k and t :: image and rest xs
  assume h: "length bs \<le> k" "m_indirects t = xs" "length xs = length ws" "m_inputStream t = bs @ rest"
  have q: "i < length xs" "image_ref ws xs p = xs ! i" using indexOf_Some[OF p(2), of xs] h(3) p(1) by (auto simp: image_ref_def)
  have "\<exists>c r. bs = wordBytes c @ r" using bs by auto
  then obtain k' where k: "k = Suc k'" using h(1) record_fuel by metis
  have ind: "indirect i (t\<lparr>m_inputStream := r\<rparr>) = Inr (xs ! i, t\<lparr>m_inputStream := r\<rparr>)" for r
    using q(1) h(2) by (simp add: indirect_def comp_simps)
  have "readObject k t = Inr (xs ! i, t\<lparr>m_inputStream := rest\<rparr>)"
  proof (cases "i = 0")
    case True
    then show ?thesis using readObject_record[of t rec_nilObject rest k'] h(4) bs ind
      unfolding k by (simp del: record_code.simps readObject.simps)
  next
    case False
    have "unat (of_nat i :: u32) = i" using p(3) by (simp add: unat_of_nat)
    then show ?thesis using readObject_record[of t rec_previousObject "wordBytes (of_nat i) @ rest" k'] h(4) bs ind False
        readWord_wordBytes[of "t\<lparr>m_inputStream := wordBytes (of_nat i) @ rest\<rparr>" "of_nat i" rest]
      unfolding k by (simp add: bnd_def del: record_code.simps readObject.simps)
  qed
  then show "\<exists>ys t'. readObject k t = Inr (image_ref (ws @ []) (xs @ ys) p, t') \<and> loads m ws [] xs ys rest {} t t'"
    using loads_nothing[OF h(2,4)] q(2) by (intro exI[of _ "[]"]) simp
qed


section \<open>The writer\<close>

definition append_out :: "u8 list \<Rightarrow> ptr list \<Rightarrow> writer \<Rightarrow> writer" where
  "append_out bs new w = w\<lparr>w_stream := w_stream w @ bs, m_writtenObjects := m_writtenObjects w @ new\<rparr>"

lemma append_out_fields [simp]:
  "w_stream (append_out bs new w) = w_stream w @ bs" "m_writtenObjects (append_out bs new w) = m_writtenObjects w @ new"
  by (simp_all add: append_out_def)

lemma writer_commute: "w\<lparr>m_writtenObjects := a, w_stream := b\<rparr> = w\<lparr>w_stream := b, m_writtenObjects := a\<rparr>"
  by simp

definition transfers :: "writer \<Rightarrow> writer \<Rightarrow> u8 list \<Rightarrow> ptr list \<Rightarrow> bool" where
  "transfers w w' bs new \<longleftrightarrow> w' = append_out bs new w"

definition object_stored :: "objmem \<Rightarrow> ptr \<Rightarrow> writer \<Rightarrow> writer \<Rightarrow> bool" where
  "object_stored m p w w' \<longleftrightarrow> (\<exists>bs new. transfers w w' bs new \<and> written m (m_writtenObjects w) new \<and>
     known (m_writtenObjects w @ new) p \<and> reads_back m (m_writtenObjects w) new p bs)"

definition fields_stored :: "objmem \<Rightarrow> ptr list \<Rightarrow> writer \<Rightarrow> writer \<Rightarrow> bool" where
  "fields_stored m vs w w' \<longleftrightarrow> (\<exists>bs new. transfers w w' bs new \<and> written m (m_writtenObjects w) new \<and>
     list_all (known (m_writtenObjects w @ new)) vs \<and> fields_back m (m_writtenObjects w) new vs bs)"

lemma written_Nil: "written m ws []"
  by (simp add: written_def)

lemma written_Cons:
  "m p = Some obj \<Longrightarrow> p \<notin> set ws \<Longrightarrow> \<not> isSmallInteger p \<Longrightarrow> written m (ws @ [p]) new \<Longrightarrow> object_known (ws @ p # new) obj \<Longrightarrow> written m ws (p # new)"
  by (auto simp: written_def)

lemma putBytesOut_out: "putBytesOut bs w = Inr ((), w\<lparr>w_stream := w_stream w @ bs\<rparr>)"
  by (simp add: putBytesOut_def comp_simps)

lemma writeBytes_out:
  "m p = Some obj \<Longrightarrow> \<not> ordinary obj \<Longrightarrow> i + n = length (obj_bytes obj) \<Longrightarrow>
   writeBytes m p i n w = Inr ((), w\<lparr>w_stream := w_stream w @ encodedBytes (drop i (obj_bytes obj))\<rparr>)"
proof (induction n arbitrary: i w)
  case 0
  then show ?case by (simp add: comp_simps encodedBytes_def)
next
  case (Suc n)
  let ?b = "obj_bytes obj ! i"
  have "drop i (obj_bytes obj) = ?b # drop (Suc i) (obj_bytes obj)" using Suc.prems(3) by (simp add: Cons_nth_drop_Suc)
  then show ?case
    using Suc.prems Suc.IH[of "i + 1" "w\<lparr>w_stream := w_stream w @ wordBytes (ucast ?b)\<rparr>"]
    by (simp add: comp_simps getByte_binary writeWord_def putBytesOut_out encodedBytes_def)
qed

lemma writeFields_stored:
  assumes W: "\<And>v w w'. W v w = Inr ((), w') \<Longrightarrow> distinct (m_writtenObjects w) \<Longrightarrow> object_stored m v w w'"
  shows "writeFields m W p i n w = Inr ((), w') \<Longrightarrow> m p = Some obj \<Longrightarrow> ordinary obj \<Longrightarrow>
    i + n = length (obj_fields obj) \<Longrightarrow> distinct (m_writtenObjects w) \<Longrightarrow> fields_stored m (drop i (obj_fields obj)) w w'"
proof (induction n arbitrary: i w)
  case 0
  then show ?case
    by (auto simp: fields_stored_def transfers_def append_out_def comp_simps fields_back_Nil written_Nil intro!: exI[of _ "[]"])
next
  case (Suc n)
  let ?v = "obj_fields obj ! i"
  have d: "drop i (obj_fields obj) = ?v # drop (Suc i) (obj_fields obj)" using Suc.prems(4) by (simp add: Cons_nth_drop_Suc)
  obtain w1 where 1: "W ?v w = Inr ((), w1)" "writeFields m W p (i + 1) n w1 = Inr ((), w')"
    using Suc.prems by (auto simp: getField_ordinary comp_simps split: sum.splits)
  obtain b1 n1 where s1: "transfers w w1 b1 n1" "written m (m_writtenObjects w) n1" "known (m_writtenObjects w @ n1) ?v"
    "reads_back m (m_writtenObjects w) n1 ?v b1"
    using W[OF 1(1) Suc.prems(5)] unfolding object_stored_def by blast
  have w1: "m_writtenObjects w1 = m_writtenObjects w @ n1" using s1(1) by (simp add: transfers_def append_out_def)
  have "distinct (m_writtenObjects w1)" using s1(2) Suc.prems(5) w1 by (simp add: written_def)
  then have "fields_stored m (drop (i + 1) (obj_fields obj)) w1 w'" by (intro Suc.IH[OF 1(2)]) (use Suc.prems in auto)
  then obtain b2 n2 where s2: "transfers w1 w' b2 n2" "written m (m_writtenObjects w @ n1) n2"
    "list_all (known ((m_writtenObjects w @ n1) @ n2)) (drop (Suc i) (obj_fields obj))"
    "fields_back m (m_writtenObjects w @ n1) n2 (drop (Suc i) (obj_fields obj)) b2"
    unfolding fields_stored_def w1 by auto
  have "transfers w w' (b1 @ b2) (n1 @ n2)" using s1(1) s2(1) by (simp add: transfers_def append_out_def)
  then show ?case unfolding fields_stored_def d
    using fields_back_Cons[OF s1(4) s2(4) s1(2,3)] written_append[OF s1(2) s2(2)] s2(3) known_mono[OF s1(3), of n2]
    by (intro exI[of _ "b1 @ b2"] exI[of _ "n1 @ n2"]) simp
qed

lemma getObjectType_cases:
  assumes "getObjectType m p w = Inr (ty, w1)"
  obtains (small) "w1 = w" "ty = rec_inlineInteger" "isSmallInteger p"
  | (old) i where "w1 = w" "\<not> isSmallInteger p" "indexOf p (m_writtenObjects w) = Some i"
      "ty = (if i = 0 then rec_nilObject else rec_previousObject)"
  | (new) obj where "w1 = w" "\<not> isSmallInteger p" "p \<notin> set (m_writtenObjects w)" "m p = Some obj"
      "ty = (if ordinary obj then rec_ordinaryObject else rec_byteObject)"
proof (cases "isSmallInteger p")
  case True
  then show thesis using assms small by (simp add: getObjectType_def comp_simps)
next
  case False
  show thesis
  proof (cases "indexOf p (m_writtenObjects w)")
    case None
    then obtain obj where "m p = Some obj" "w1 = w" "ty = (if ordinary obj then rec_ordinaryObject else rec_byteObject)"
      using assms False by (auto simp: getObjectType_def comp_simps isBinary_def objectAt_def ordinary_def split: option.splits)
    then show thesis using new False None indexOf_None by metis
  next
    case (Some i)
    then have "w1 = w" "ty = (if i = 0 then rec_nilObject else rec_previousObject)"
      using assms False by (auto simp: getObjectType_def comp_simps split: if_splits)
    then show thesis using old False Some by blast
  qed
qed

lemma index_bound: "distinct ws \<Longrightarrow> indexOf (p :: ptr) ws = Some i \<Longrightarrow> i < 2 ^ 32"
proof -
  assume d: "distinct ws" and i: "indexOf p ws = Some i"
  have "length ws = card (set ws)" using d by (simp add: distinct_card)
  also have "\<dots> \<le> card (UNIV :: ptr set)" by (rule card_mono) auto
  finally show ?thesis using indexOf_Some[OF i, of ws] by (simp add: card_word)
qed


lemma bnd_Inr: "m s = Inr (x, t) \<Longrightarrow> bnd m f s = f x t"
  by (simp add: bnd_def)

lemma classToWrite_at: "m p = Some obj \<Longrightarrow> classToWrite m p w = Inr (c, w1) \<Longrightarrow> c = obj_class obj \<and> w1 = w"
  by (auto simp: classToWrite_def comp_simps getClass_def objectAt_def split: if_splits)

lemma writeObject_ordinary_inv:
  assumes "writeObject (Suc k) m p w = Inr ((), w')" and "getObjectType m p w = Inr (rec_ordinaryObject, w)"
    and "m p = Some obj"
  obtains w1 where "writeObject k m (obj_class obj)
      (append_out (wordBytes (record_code rec_ordinaryObject) @ wordBytes (TSize_getSize (obj_size obj))) [p] w) = Inr ((), w1)"
    and "writeFields m (writeObject k m) p 0 (unat (TSize_getSize (obj_size obj))) w1 = Inr ((), w')"
proof -
  let ?n = "TSize_getSize (obj_size obj)"
  have "bnd (classToWrite m p) (\<lambda>c. bnd (writeWord ?n) (\<lambda>_. bnd (writeObject k m c) (\<lambda>_.
      writeFields m (writeObject k m) p 0 (unat ?n))))
      (append_out (wordBytes (record_code rec_ordinaryObject)) [p] w) = Inr ((), w')"
    using assms
    by (simp add: comp_simps writeWord_def putBytesOut_out getSize_def objectAt_def append_out_def
        del: record_code.simps split: if_splits)
  then obtain c w0 where 1: "classToWrite m p (append_out (wordBytes (record_code rec_ordinaryObject)) [p] w) = Inr (c, w0)"
    "bnd (writeWord ?n) (\<lambda>_. bnd (writeObject k m c) (\<lambda>_. writeFields m (writeObject k m) p 0 (unat ?n))) w0 = Inr ((), w')"
    by (rule bnd_InrE)
  have "c = obj_class obj" "w0 = append_out (wordBytes (record_code rec_ordinaryObject)) [p] w"
    using classToWrite_at[of m p obj, OF assms(3) 1(1)] by simp_all
  then show thesis using that 1(2)
    by (auto simp: bnd_def writeWord_def putBytesOut_out append_out_def writer_commute split: sum.splits)
qed

lemma writeObject_binary_inv:
  assumes "writeObject (Suc k) m p w = Inr ((), w')" and "getObjectType m p w = Inr (rec_byteObject, w)"
    and "m p = Some obj" and "\<not> ordinary obj" and "unat (TSize_getSize (obj_size obj)) = length (obj_bytes obj)"
  shows "writeObject k m (obj_class obj) (append_out (wordBytes (record_code rec_byteObject) @
    wordBytes (TSize_getSize (obj_size obj)) @ encodedBytes (obj_bytes obj)) [p] w) = Inr ((), w')"
proof -
  let ?n = "TSize_getSize (obj_size obj)"
  have "bnd (classToWrite m p) (\<lambda>c. bnd (writeWord ?n) (\<lambda>_. bnd (writeBytes m p 0 (unat ?n)) (\<lambda>_. writeObject k m c)))
      (append_out (wordBytes (record_code rec_byteObject)) [p] w) = Inr ((), w')"
    using assms(1-3)
    by (simp add: comp_simps writeWord_def putBytesOut_out getSize_def objectAt_def append_out_def
        del: record_code.simps split: if_splits)
  then obtain c w0 where 1: "classToWrite m p (append_out (wordBytes (record_code rec_byteObject)) [p] w) = Inr (c, w0)"
    "bnd (writeWord ?n) (\<lambda>_. bnd (writeBytes m p 0 (unat ?n)) (\<lambda>_. writeObject k m c)) w0 = Inr ((), w')"
    by (rule bnd_InrE)
  have "c = obj_class obj" "w0 = append_out (wordBytes (record_code rec_byteObject)) [p] w"
    using classToWrite_at[of m p obj, OF assms(3) 1(1)] by simp_all
  then show ?thesis using 1(2) writeBytes_out[of m p obj, OF assms(3,4), of 0 "unat ?n"] assms(5)
    by (auto simp: bnd_def writeWord_def putBytesOut_out append_out_def writer_commute split: sum.splits)
qed

lemma writeObject_stored:
  assumes st: "storable m"
  shows "writeObject k m p w = Inr ((), w') \<Longrightarrow> distinct (m_writtenObjects w) \<Longrightarrow> object_stored m p w w'"
proof (induction k arbitrary: p w w')
  case 0
  then show ?case by (simp add: comp_simps)
next
  case (Suc k)
  let ?ws = "m_writtenObjects w"
  obtain ty w1 where ty: "getObjectType m p w = Inr (ty, w1)"
    using Suc.prems(1) by (auto simp: comp_simps split: if_splits sum.splits)
  from ty show ?case
  proof (cases rule: getObjectType_cases)
    case small
    then have "transfers w w' (wordBytes (record_code rec_inlineInteger) @ word_to_bytes (TInteger_getValue p)) []"
      using Suc.prems(1) ty
      by (auto simp: comp_simps writeWord_def putBytesOut_out integerOf_def TInteger_of_object_def transfers_def append_out_def
          simp del: record_code.simps split: if_splits)
    then show ?thesis
      using readObject_integer[OF small(3)] small(3) written_Nil unfolding object_stored_def known_def by blast
  next
    case (old i)
    let ?bs = "if i = 0 then wordBytes (record_code rec_nilObject)
       else wordBytes (record_code rec_previousObject) @ wordBytes (of_nat i)"
    have "transfers w w' ?bs []"
      using Suc.prems(1) ty old
      by (auto simp: comp_simps writeWord_def putBytesOut_out getPreviousObjectIndex_def transfers_def append_out_def
          simp del: record_code.simps split: if_splits)
    then show ?thesis
      using readObject_reference[OF old(2,3) index_bound[OF Suc.prems(2) old(3)] refl, of m]
        indexOf_Some[OF old(3), of ?ws] written_Nil unfolding object_stored_def known_def by auto
  next
    case (new obj)
    have d: "distinct (?ws @ [p])" using Suc.prems(2) new(3) by simp
    show ?thesis
    proof (cases "ordinary obj")
      case True
      let ?n = "TSize_getSize (obj_size obj)" and ?hd = "wordBytes (record_code rec_ordinaryObject) @ wordBytes (TSize_getSize (obj_size obj))"
      have len: "length (obj_fields obj) = unat ?n" using storable_at[OF st new(4)] True by (simp add: obj_wf_def)
      obtain w1 where w1: "writeObject k m (obj_class obj) (append_out ?hd [p] w) = Inr ((), w1)"
        "writeFields m (writeObject k m) p 0 (unat ?n) w1 = Inr ((), w')"
        using writeObject_ordinary_inv[OF Suc.prems(1) _ new(4)] ty new(1,5) True by auto
      obtain b1 n1 where s1: "transfers (append_out ?hd [p] w) w1 b1 n1" "written m (?ws @ [p]) n1"
        "known ((?ws @ [p]) @ n1) (obj_class obj)" "reads_back m (?ws @ [p]) n1 (obj_class obj) b1"
        using Suc.IH[OF w1(1)] d unfolding object_stored_def by auto
      have m1: "m_writtenObjects w1 = (?ws @ [p]) @ n1" using s1(1) by (simp add: transfers_def append_out_def)
      have "distinct (m_writtenObjects w1)" using s1(2) d m1 by (simp add: written_def)
      then have "fields_stored m (drop 0 (obj_fields obj)) w1 w'"
        by (intro writeFields_stored[OF Suc.IH w1(2) new(4) True]) (use len in auto)
      then obtain b2 n2 where s2: "transfers w1 w' b2 n2" "written m ((?ws @ [p]) @ n1) n2"
        "list_all (known (((?ws @ [p]) @ n1) @ n2)) (obj_fields obj)"
        "fields_back m ((?ws @ [p]) @ n1) n2 (obj_fields obj) b2"
        unfolding fields_stored_def m1 by auto
      have "object_known (?ws @ p # n1 @ n2) obj"
        using known_mono[OF s1(3), of n2] s2(3) by (simp add: object_known_def)
      then have "written m ?ws (p # n1 @ n2)" by (rule written_Cons[OF new(4,3,2) written_append[OF s1(2) s2(2)]])
      moreover have "transfers w w' (?hd @ b1 @ b2) (p # n1 @ n2)" using s1(1) s2(1) by (simp add: transfers_def append_out_def)
      ultimately show ?thesis
        using readObject_ordinary[OF st new(4) True new(2,3) s1(4,2,3) s2(4)] unfolding object_stored_def known_def
        by (intro exI[of _ "?hd @ b1 @ b2"] exI[of _ "p # n1 @ n2"]) simp
    next
      case False
      let ?hd = "wordBytes (record_code rec_byteObject) @ wordBytes (TSize_getSize (obj_size obj)) @ encodedBytes (obj_bytes obj)"
      have wf: "unat (TSize_getSize (obj_size obj)) = length (obj_bytes obj)" "obj_fields obj = []"
        using storable_at[OF st new(4)] False by (auto simp: obj_wf_def)
      have "writeObject k m (obj_class obj) (append_out ?hd [p] w) = Inr ((), w')"
        by (rule writeObject_binary_inv[OF Suc.prems(1) _ new(4) False wf(1)]) (use ty new(1,5) False in simp)
      then obtain b1 n1 where s1: "transfers (append_out ?hd [p] w) w' b1 n1" "written m (?ws @ [p]) n1"
        "known ((?ws @ [p]) @ n1) (obj_class obj)" "reads_back m (?ws @ [p]) n1 (obj_class obj) b1"
        using Suc.IH d unfolding object_stored_def by fastforce
      have "object_known (?ws @ p # n1) obj" using s1(3) wf(2) by (simp add: object_known_def)
      then have "written m ?ws (p # n1)" by (rule written_Cons[OF new(4,3,2) s1(2)])
      moreover have "transfers w w' (?hd @ b1) (p # n1)" using s1(1) by (simp add: transfers_def append_out_def)
      ultimately show ?thesis
        using readObject_binary[OF st new(4) False new(2,3) s1(4)] unfolding object_stored_def known_def
        by (intro exI[of _ "?hd @ b1"] exI[of _ "p # n1"]) simp
    qed
  qed
qed


section \<open>The whole image\<close>

definition many_back :: "objmem \<Rightarrow> ptr list \<Rightarrow> ptr list \<Rightarrow> ptr list \<Rightarrow> u8 list \<Rightarrow> bool" where
  "many_back m ws new ps bs \<longleftrightarrow> (\<forall>k (t :: image) rest xs.
     length bs \<le> k \<longrightarrow> m_indirects t = xs \<longrightarrow> length xs = length ws \<longrightarrow> m_inputStream t = bs @ rest \<longrightarrow> room_for m new t \<longrightarrow>
     (\<exists>ys t'. readMany k (length ps) t = Inr (map (image_ref (ws @ new) (xs @ ys)) ps, t') \<and> loads m ws new xs ys rest {} t t'))"

definition many_stored :: "objmem \<Rightarrow> ptr list \<Rightarrow> writer \<Rightarrow> writer \<Rightarrow> bool" where
  "many_stored m ps w w' \<longleftrightarrow> (\<exists>bs new. transfers w w' bs new \<and> written m (m_writtenObjects w) new \<and>
     list_all (known (m_writtenObjects w @ new)) ps \<and> many_back m (m_writtenObjects w) new ps bs)"

lemma many_back_Cons:
  assumes r: "reads_back m ws n1 p b1" and f: "many_back m (ws @ n1) n2 ps b2"
    and w: "written m ws n1" and k: "known (ws @ n1) p"
  shows "many_back m ws (n1 @ n2) (p # ps) (b1 @ b2)"
  unfolding many_back_def
proof (intro allI impI)
  fix k and t :: image and rest xs
  assume h: "length (b1 @ b2) \<le> k" "m_indirects t = xs" "length xs = length ws" "m_inputStream t = (b1 @ b2) @ rest"
    "room_for m (n1 @ n2) t"
  obtain y1 t1 where 1: "readObject k t = Inr (image_ref (ws @ n1) (xs @ y1) p, t1)" "loads m ws n1 xs y1 (b2 @ rest) {} t t1"
    using r[unfolded reads_back_def, rule_format, of k t xs "b2 @ rest"] h room_first[OF h(5)] by auto
  have d: "length y1 = length n1" "m_indirects t1 = xs @ y1" "m_inputStream t1 = b2 @ rest" using 1(2) by (auto simp: loads_def)
  obtain y2 t2 where 2: "readMany k (length ps) t1 = Inr (map (image_ref ((ws @ n1) @ n2) ((xs @ y1) @ y2)) ps, t2)"
    "loads m (ws @ n1) n2 (xs @ y1) y2 rest {} t1 t2"
    using f[unfolded many_back_def, rule_format, of k t1 "xs @ y1" rest] d h(1,3) room_append[OF h(5) 1(2)] by auto
  have "loads m ws (n1 @ n2) xs (y1 @ y2) rest ({} \<union> {}) t t2" by (rule loads_append[OF w h(3) 1(2) 2(2)]) simp
  moreover have "image_ref ((ws @ n1) @ n2) ((xs @ y1) @ y2) p = image_ref (ws @ n1) (xs @ y1) p"
    by (rule image_ref_extend[OF k]) (use h(3) d(1) in simp)
  ultimately show "\<exists>ys t'. readMany k (length (p # ps)) t = Inr (map (image_ref (ws @ n1 @ n2) (xs @ ys)) (p # ps), t') \<and>
      loads m ws (n1 @ n2) xs ys rest {} t t'"
    using 1(1) 2(1) by (intro exI[of _ "y1 @ y2"] exI[of _ t2]) (simp add: comp_simps del: readObject.simps)
qed

lemma writeMany_stored:
  assumes st: "storable m"
  shows "writeMany k m ps w = Inr ((), w') \<Longrightarrow> distinct (m_writtenObjects w) \<Longrightarrow> many_stored m ps w w'"
proof (induction ps arbitrary: w)
  case Nil
  then show ?case
    by (auto simp: many_stored_def transfers_def append_out_def comp_simps many_back_def written_Nil loads_same intro!: exI[of _ "[]"])
next
  case (Cons p ps)
  obtain w1 where 1: "writeObject k m p w = Inr ((), w1)" "writeMany k m ps w1 = Inr ((), w')"
    using Cons.prems(1) by (auto elim!: bnd_InrE)
  obtain b1 n1 where s1: "transfers w w1 b1 n1" "written m (m_writtenObjects w) n1" "known (m_writtenObjects w @ n1) p"
    "reads_back m (m_writtenObjects w) n1 p b1"
    using writeObject_stored[OF st 1(1) Cons.prems(2)] unfolding object_stored_def by blast
  have w1: "m_writtenObjects w1 = m_writtenObjects w @ n1" using s1(1) by (simp add: transfers_def append_out_def)
  have "distinct (m_writtenObjects w1)" using s1(2) Cons.prems(2) w1 by (simp add: written_def)
  then obtain b2 n2 where s2: "transfers w1 w' b2 n2" "written m (m_writtenObjects w @ n1) n2"
    "list_all (known ((m_writtenObjects w @ n1) @ n2)) ps" "many_back m (m_writtenObjects w @ n1) n2 ps b2"
    using Cons.IH[OF 1(2)] unfolding many_stored_def w1 by blast
  have "transfers w w' (b1 @ b2) (n1 @ n2)" using s1(1) s2(1) by (simp add: transfers_def append_out_def)
  then show ?case unfolding many_stored_def
    using many_back_Cons[OF s1(4) s2(4) s1(2,3)] written_append[OF s1(2) s2(2)] s2(3) known_mono[OF s1(3), of n2]
    by (intro exI[of _ "b1 @ b2"] exI[of _ "n1 @ n2"]) simp
qed


lemma globals_list_length: "length (binaryMessages g) = 3 \<Longrightarrow> length (globals_list g) = 15"
  by (simp add: globals_list_def)

lemma globals_list_of: "length ps = 15 \<Longrightarrow> globals_list (globals_of ps) = ps"
  by (simp add: globals_list_def globals_of_def list_eq_iff_nth_eq All_less_Suc numeral_eq_Suc nth_append)

text \<open>The size \<open>loadImage\<close> asks for its static heap.\<close>

definition image_heap_size :: "u8 list \<Rightarrow> u32" where
  "image_heap_size bytes = correctPadding (of_nat (length bytes + length bytes div 2))"

definition loaded_image :: "objmem \<Rightarrow> TGlobals \<Rightarrow> (ptr \<Rightarrow> ptr) \<Rightarrow> ptr set \<Rightarrow> TGlobals \<Rightarrow> image \<Rightarrow> bool" where
  "loaded_image m g f W g' t' \<longleftrightarrow>
     globals_list g' = map f (globals_list g) \<and>
     (\<forall>v. isSmallInteger v \<longrightarrow> f v = v) \<and> inj_on f W \<and>
     (\<forall>v\<in>set (globals_list g). isSmallInteger v \<or> v \<in> W) \<and>
     (\<forall>p\<in>W. isInStaticHeap t' (f p) \<and> f p mod 4 = 0 \<and>
        (\<exists>obj. m p = Some obj \<and> objs t' (f p) = Some (loaded_copy f obj) \<and>
          (\<forall>v\<in>insert (obj_class obj) (set (obj_fields obj)). isSmallInteger v \<or> v \<in> W)))"

lemma image_ref_at:
  assumes "i < length ws" and "distinct ws" and "length ys = length ws" and "\<not> isSmallInteger (ws ! i)"
  shows "image_ref ws ys (ws ! i) = ys ! i"
  using assms by (simp add: image_ref_def map_of_zip_nth)

lemma written_image:
  assumes w: "written m [] ws" and l: "loads m [] ws [] ys rest {} t0 t'" and b: "m_staticHeapPointer t0 mod 4 = 0"
    and st: "m_staticHeapPointer t0 = m_staticHeapBase t0 + m_staticHeapSize t0"
    and p: "p \<in> set ws"
  shows "isInStaticHeap t' (image_ref ws ys p) \<and> image_ref ws ys p mod 4 = 0 \<and>
    (\<exists>obj. m p = Some obj \<and> objs t' (image_ref ws ys p) = Some (loaded_copy (image_ref ws ys) obj) \<and>
      (\<forall>v\<in>insert (obj_class obj) (set (obj_fields obj)). isSmallInteger v \<or> v \<in> set ws))"
proof -
  note d = loadsD[OF l, simplified]
  have dist: "distinct ws" using w by (simp add: written_def)
  obtain obj where obj: "\<not> isSmallInteger p" "m p = Some obj" "object_known ws obj"
    using w p unfolding written_def by auto
  obtain i where i: "i < length ws" "p = ws ! i" using p by (auto simp: in_set_conv_nth)
  have f: "image_ref ws ys p = ys ! i" using image_ref_at[OF i(1) dist d(1)] obj(1) i(2) by simp
  have y: "ys ! i \<in> set ys" using i(1) d(1) by simp
  have "(p, ys ! i) \<in> set (zip ws ys)" using i d(1) by (auto simp: set_zip)
  then have "objs t' (ys ! i) = Some (loaded_copy (image_ref ws ys) obj)" using d(9) obj(2) by simp
  moreover have "isInStaticHeap t' (ys ! i)"
    using d(7)[OF y] st d(5,12) by (simp add: isInStaticHeap_def word_le_nat_alt word_less_nat_alt)
  moreover have "ys ! i mod 4 = 0" using d(11)[OF y] b by simp
  ultimately show ?thesis using obj unfolding f
    by (auto simp: object_known_def known_def list_all_iff)
qed

lemma written_inj:
  assumes w: "written m [] ws" and "length ys = length ws" and "distinct ys"
  shows "inj_on (image_ref ws ys) (set ws)"
proof (rule inj_onI)
  fix p q assume h: "p \<in> set ws" "q \<in> set ws" "image_ref ws ys p = image_ref ws ys q"
  obtain i j where ij: "i < length ws" "p = ws ! i" "j < length ws" "q = ws ! j" using h(1,2) by (auto simp: in_set_conv_nth)
  have "distinct ws" "\<not> isSmallInteger p" "\<not> isSmallInteger q" using w h(1,2) by (auto simp: written_def)
  then have "ys ! i = ys ! j" using h(3) ij assms(2) image_ref_at[of _ ws ys] by simp
  then show "p = q" using assms(2,3) ij nth_eq_iff_index_eq by metis
qed

lemma bytes_of_le:
  assumes "finite (dom m)" and "distinct ps" and "set ps \<subseteq> dom m"
  shows "bytes_of m ps \<le> (\<Sum>p\<in>dom m. object_bytes (the (m p)))"
proof -
  have "bytes_of m ps = (\<Sum>p\<in>set ps. object_bytes (the (m p)))"
    using assms(2) by (simp add: bytes_of_def sum_list_distinct_conv_sum_set)
  then show ?thesis using sum_mono2[OF assms(1,3), of "\<lambda>p. object_bytes (the (m p))"] by simp
qed

section \<open>Properties\<close>

text \<open>
  C10. Storing an image and loading it again gives the same object graph: when the objects of a memory
  together fit into the static heap \<open>loadImage\<close> asks for, the file \<open>writeTo\<close> produces loads, the
  globals come back, and every object they reach is copied to an aligned address of its own in the static
  heap, with its size, flags and bytes, and with every pointer replaced by the new address of its target.
\<close>

theorem image_roundtrip:
  assumes "storable m" and "finite (dom m)" and "length (binaryMessages g) = 3"
    and "writeTo k m g = Inr bytes"
    and "libc_alloc t (libc_calls t) (image_heap_size bytes) = heap" and "heap \<noteq> NULL" and "heap mod 4 = 0"
    and "unat heap + unat (image_heap_size bytes) < 2 ^ 32"
    and "(\<Sum>p\<in>dom m. object_bytes (the (m p))) \<le> unat (image_heap_size bytes)"
    and "m_indirects (t :: image) = []"
  shows "\<exists>f W g' t'. loadImage (Some bytes) t = Inr (Some g', t') \<and> loaded_image m g f W g' t'"
proof -
  let ?n = "image_heap_size bytes"
  obtain w' where w': "writeMany k m (globals_list g) \<lparr>w_stream = [], m_writtenObjects = []\<rparr> = Inr ((), w')" "w_stream w' = bytes"
    using assms(4) by (auto simp: writeTo_def split: sum.splits)
  then obtain ws where ws: "written m [] ws" "list_all (known ws) (globals_list g)" "many_back m [] ws (globals_list g) bytes"
    using writeMany_stored[OF assms(1) w'(1)] by (auto simp: many_stored_def transfers_def append_out_def)
  define t0 where "t0 = t\<lparr>m_inputStream := bytes, libc_calls := libc_calls t + 1, objs := clear_block heap ?n (objs t),
    m_staticHeapBase := heap, m_staticHeapPointer := heap + ?n, m_staticHeapSize := ?n\<rparr>"
  have top: "unat (heap + ?n) = unat heap + unat ?n" using assms(8) by (simp add: unat_word_ariths)
  have "set ws \<subseteq> dom m" "distinct ws" using ws(1) by (auto simp: written_def)
  then have "room_for m ws t0"
    using bytes_of_le[OF assms(2)] assms(6,9) top by (fastforce simp: room_for_def t0_def)
  then have "\<exists>ys t'. readMany (Suc (length bytes)) (length (globals_list g)) t0 =
      Inr (map (image_ref ([] @ ws) ([] @ ys)) (globals_list g), t') \<and> loads m [] ws [] ys [] {} t0 t'"
    using ws(3)[unfolded many_back_def, rule_format, of "Suc (length bytes)" t0 "[]" "[]"] assms(10) by (simp add: t0_def)
  then obtain ys t1 where r: "readMany (Suc (length bytes)) 15 t0 = Inr (map (image_ref ws ys) (globals_list g), t1)"
    "loads m [] ws [] ys [] {} t0 t1" using globals_list_length[OF assms(3)] by auto
  let ?f = "image_ref ws ys" and ?g = "globals_of (map (image_ref ws ys) (globals_list g))" and ?t = "t1\<lparr>m_indirects := []\<rparr>"
  have "loadImage (Some bytes) t = Inr (Some ?g, ?t)"
    using r(1) assms(5,6) unfolding t0_def
    by (simp add: loadImage_def initializeStaticHeap_def libc_malloc_def comp_simps image_heap_size_def Let_def
        del: readMany.simps)
  moreover have "loaded_image m g ?f (set ws) ?g ?t"
    unfolding loaded_image_def
  proof (intro conjI ballI)
    show "globals_list ?g = map ?f (globals_list g)"
      by (rule globals_list_of) (simp add: globals_list_length[OF assms(3)])
    show "\<forall>v. isSmallInteger v \<longrightarrow> ?f v = v" by (simp add: image_ref_def)
    show "inj_on ?f (set ws)" using written_inj[OF ws(1)] loadsD(1,2)[OF r(2)] by blast
    show "isSmallInteger v \<or> v \<in> set ws" if "v \<in> set (globals_list g)" for v
      using ws(2) that by (auto simp: list_all_iff known_def)
    fix p assume p: "p \<in> set ws"
    have al: "m_staticHeapPointer t0 mod 4 = 0" "m_staticHeapPointer t0 = m_staticHeapBase t0 + m_staticHeapSize t0"
      using subtract_mod4[of ?n "heap + ?n"] correctPadding_mod4 assms(7) unfolding image_heap_size_def
      by (simp_all add: t0_def image_heap_size_def)
    note q = written_image[OF ws(1) r(2) al p]
    show "isInStaticHeap ?t (?f p)" using q by (simp add: isInStaticHeap_def)
    show "?f p mod 4 = 0" using q by simp
    show "\<exists>obj. m p = Some obj \<and> objs ?t (?f p) = Some (loaded_copy ?f obj) \<and>
          (\<forall>v\<in>insert (obj_class obj) (set (obj_fields obj)). isSmallInteger v \<or> v \<in> set ws)" using q by simp
  qed
  ultimately show ?thesis by blast
qed


definition sample_image :: objmem where
  "sample_image = [8 \<mapsto> \<lparr>obj_size = TSize_new 0 False False, obj_class = 24, obj_fields = [], obj_bytes = []\<rparr>,
     24 \<mapsto> \<lparr>obj_size = TSize_new 2 False False, obj_class = 24, obj_fields = [40, 7], obj_bytes = []\<rparr>,
     40 \<mapsto> \<lparr>obj_size = TSize_new 40 True False, obj_class = 24, obj_fields = [], obj_bytes = replicate 40 1\<rparr>]"

definition sample_image_globals :: TGlobals where
  "sample_image_globals = globals_of [8, 24, 40, 24, 24, 24, 24, 24, 24, 24, 24, 24, 24, 24, 40]"

definition sample_image_bytes :: "u8 list" where
  "sample_image_bytes = [1, 0, 1, 2, 4, 1, 3, 40] @ replicate 40 1 @ [4, 1, 2, 3, 0, 0, 0, 4, 1, 4, 2, 4, 1,
     4, 1, 4, 1, 4, 1, 4, 1, 4, 1, 4, 1, 4, 1, 4, 1, 4, 1, 4, 1, 4, 2]"

definition sample_loader :: image where
  "sample_loader = baker.extend (baker_new\<lparr>libc_alloc := (\<lambda>_ _. 4096)\<rparr>) (image.fields [] [])"

lemma sample_image_written: "writeTo 10 sample_image sample_image_globals = Inr sample_image_bytes"
  by code_simp

lemma sample_image_heap_size: "image_heap_size sample_image_bytes = 124"
  by code_simp

lemma sample_image_storable: "storable sample_image"
  by (auto simp: storable_def sample_image_def obj_wf_def ordinary_def split: if_splits)

lemma sample_image_dom: "dom sample_image = {8, 24, 40}"
  by (auto simp: sample_image_def split: if_splits)

lemma sample_image_bytes_total: "(\<Sum>p\<in>dom sample_image. object_bytes (the (sample_image p))) = 72"
proof -
  have "object_bytes (the (sample_image 8)) = 8" "object_bytes (the (sample_image 24)) = 16"
    "object_bytes (the (sample_image 40)) = 48" by code_simp+
  then show ?thesis by (simp add: sample_image_dom)
qed

lemma image_roundtrip_witness:
  "\<exists>(f :: ptr \<Rightarrow> ptr) g' t'. loadImage (Some sample_image_bytes) sample_loader = Inr (Some g', t') \<and>
     nilObject g' = f 8 \<and> f 8 \<noteq> f 24 \<and> isInStaticHeap t' (f 24) \<and>
     objs t' (f 24) = Some \<lparr>obj_size = TSize_new 2 False False, obj_class = f 24, obj_fields = [f 40, 7], obj_bytes = []\<rparr>"
proof -
  have s: "libc_alloc sample_loader (libc_calls sample_loader) (image_heap_size sample_image_bytes) = 4096"
    "m_indirects sample_loader = []" "finite (dom sample_image)" "length (binaryMessages sample_image_globals) = 3"
    by (simp_all add: sample_loader_def baker.defs image.defs sample_image_def sample_image_globals_def globals_of_def)
  obtain f W g' t' where l: "loadImage (Some sample_image_bytes) sample_loader = Inr (Some g', t')"
    "loaded_image sample_image sample_image_globals f W g' t'"
    using image_roundtrip[OF sample_image_storable s(3,4) sample_image_written s(1) _ _ _ _ s(2)]
    by (auto simp: sample_image_heap_size sample_image_bytes_total)
  have g: "globals_list sample_image_globals = [8, 24, 40, 24, 24, 24, 24, 24, 24, 24, 24, 24, 24, 24, 40]"
    unfolding sample_image_globals_def by (rule globals_list_of) simp
  have small: "\<not> isSmallInteger 8" "\<not> isSmallInteger 24" "isSmallInteger 7" by code_simp+
  have w: "8 \<in> W" "24 \<in> W" "f 7 = 7" "inj_on f W" "globals_list g' = map f (globals_list sample_image_globals)"
    using l(2) small unfolding loaded_image_def g by auto
  have "isInStaticHeap t' (f 24)" "objs t' (f 24) = Some (loaded_copy f (the (sample_image 24)))"
    using l(2) w(2) unfolding loaded_image_def by auto
  moreover have "f 8 \<noteq> f 24" using inj_onD[OF w(4) _ w(1,2)] by auto
  moreover have "nilObject g' = f 8" using w(5) unfolding g by (simp add: globals_list_def)
  ultimately show ?thesis using l(1) w(3)
    by (intro exI[of _ f] exI[of _ g'] exI[of _ t']) (simp add: sample_image_def loaded_copy_def)
qed

end
