(* ===== verification/ImageTerminates.thy ===== *)
theory ImageTerminates
  imports ImageCorrect
begin

text \<open>
  The recursion of the image reader is bounded by the length of the file, that of the writer by the
  number of objects in memory.
\<close>

section \<open>Termination\<close>

text \<open>The reader consumes a byte at every level of the recursion.\<close>

definition consumes :: "('a image_scheme, 'x) comp \<Rightarrow> bool" where
  "consumes c \<longleftrightarrow> (\<forall>s x s'. c s = Inr (x, s') \<longrightarrow> length (m_inputStream s') \<le> length (m_inputStream s))"

definition fuelled :: "nat \<Rightarrow> ('a image_scheme, 'x) comp \<Rightarrow> bool" where
  "fuelled n c \<longleftrightarrow> (\<forall>s. length (m_inputStream s) < n \<longrightarrow> c s \<noteq> Inl OutOfFuel)"

named_theorems reading

lemma consumes_bnd [reading]: "consumes c \<Longrightarrow> (\<And>x. consumes (f x)) \<Longrightarrow> consumes (bnd c f)"
  unfolding consumes_def by (fastforce elim!: bnd_InrE)

lemma fuelled_bnd [reading]: "consumes c \<Longrightarrow> fuelled n c \<Longrightarrow> (\<And>x. fuelled n (f x)) \<Longrightarrow> fuelled n (bnd c f)"
  unfolding consumes_def fuelled_def bnd_def by (fastforce split: sum.splits)

lemma takeWord_shorter: "takeWord bs = Inr (w, rest) \<Longrightarrow> length rest < length bs"
  by (induction bs arbitrary: w) (auto simp: comp_simps split: if_splits sum.splits prod.splits)

lemma takeWord_fault: "takeWord bs = Inl e \<Longrightarrow> e = IosFailure"
  by (induction bs) (auto simp: comp_simps split: if_splits sum.splits prod.splits)

lemma consumes_basic [reading]:
  "consumes readWord" "consumes getChar" "consumes (raise e)" "consumes (ret x)" "consumes (lift_res r)" "consumes (gets h)"
  "consumes (guard e b)" "consumes (mem_upd k)" "consumes (staticAllocate n)"
  unfolding consumes_def
  by (auto simp: comp_simps readWord_def getChar_def staticAllocate_def Let_def
      split: if_splits sum.splits list.splits prod.splits dest!: takeWord_shorter)

lemma fuelled_basic [reading]:
  "fuelled n readWord" "fuelled n getChar" "fuelled n (ret x)" "fuelled n (gets h)" "fuelled n (modify k)"
  "fuelled n (staticAllocate z)"
  unfolding fuelled_def
  by (auto simp: comp_simps readWord_def getChar_def staticAllocate_def Let_def
      split: if_splits sum.splits list.splits prod.splits dest!: takeWord_fault)

lemma fuelled_raise [reading]: "e \<noteq> OutOfFuel \<Longrightarrow> fuelled n (raise e)" "e \<noteq> OutOfFuel \<Longrightarrow> fuelled n (guard e b)"
  unfolding fuelled_def by (auto simp: comp_simps)

lemma fuelled_memory [reading]:
  "fuelled n (mem_upd (\<lambda>m. setClass m a c))" "fuelled n (putMember a i v)" "fuelled n (mem_upd (\<lambda>m. putByte m a i b))"
  "fuelled n (lift_res (nth_res xs i))"
  unfolding fuelled_def putMember_def
  by (auto simp: comp_simps mem_defs objectAt_def nth_res_def TObject_putField_def TByteObject_putByte_def upd_res_def
      split: option.splits sum.splits if_splits)

lemma consumes_memory [reading]: "consumes (putMember a i v)" "consumes (newStatic n raw)" "consumes (indirect i)" "consumes readInteger"
  unfolding putMember_def newStatic_def indirect_def readInteger_def
  by (intro reading; simp add: consumes_def comp_simps)+

lemma fuelled_steps [reading]: "fuelled n (newStatic z raw)" "fuelled n (indirect i)" "fuelled n readInteger"
  unfolding newStatic_def indirect_def readInteger_def
  by (intro reading; simp add: consumes_def comp_simps)+

lemma reading_loops:
  "consumes (readBytes a i n)" "fuelled k (readBytes a i n)"
  "consumes c \<Longrightarrow> consumes (readFields c a i n)" "consumes c \<Longrightarrow> fuelled k c \<Longrightarrow> fuelled k (readFields c a i n)"
  by (induction n arbitrary: i) (auto intro!: reading)


lemma consumes_readObject [reading]: "consumes (readObject k)"
proof (induction k)
  case 0
  then show ?case by (simp add: reading)
next
  case (Suc k)
  then show ?case
    by (auto simp: consumes_def[of "modify _"] intro!: reading reading_loops split: option.split TImageRecordType.split)
qed

lemma fuelled_first: "(\<And>w. fuelled n (f w)) \<Longrightarrow> fuelled (Suc n) (bnd readWord f)"
  unfolding fuelled_def bnd_def
  by (auto simp: readWord_def split: sum.splits prod.splits dest!: takeWord_shorter takeWord_fault)

lemma fuelled_readObject: "fuelled k (readObject k)"
proof (induction k)
  case 0
  then show ?case by (simp add: fuelled_def)
next
  case (Suc k)
  then show ?case unfolding readObject.simps
    by (intro fuelled_first) (auto intro!: reading reading_loops split: option.split TImageRecordType.split)
qed

lemma consumes_readMany [reading]: "consumes (readMany k n)"
  by (induction n) (auto intro!: reading)

lemma fuelled_readMany [reading]: "fuelled k (readMany k n)"
  by (induction n) (auto intro!: reading fuelled_readObject)

text \<open>The writer meets a new object of the memory at every level.\<close>

definition grows :: "(writer, 'x) comp \<Rightarrow> bool" where
  "grows c \<longleftrightarrow> (\<forall>(w :: writer) x (w' :: writer). c w = Inr (x, w') \<longrightarrow> set (m_writtenObjects w) \<subseteq> set (m_writtenObjects w'))"

definition supplied :: "objmem \<Rightarrow> nat \<Rightarrow> (writer, 'x) comp \<Rightarrow> bool" where
  "supplied m n c \<longleftrightarrow> (\<forall>w :: writer. card (dom m - set (m_writtenObjects w)) < n \<longrightarrow> c w \<noteq> Inl OutOfFuel)"

named_theorems writing

lemma grows_bnd [writing]: "grows c \<Longrightarrow> (\<And>x. grows (f x)) \<Longrightarrow> grows (bnd c f)"
  unfolding grows_def by (fastforce elim!: bnd_InrE)

lemma supplied_bnd [writing]:
  assumes "finite (dom m)" and "grows c" and "supplied m n c" and "\<And>x. supplied m n (f x)"
  shows "supplied m n (bnd c f)"
  unfolding supplied_def
proof (intro allI impI)
  fix w :: writer assume w: "card (dom m - set (m_writtenObjects w)) < n"
  show "bnd c f w \<noteq> Inl OutOfFuel"
  proof (cases "c w")
    case (Inl e)
    then show ?thesis using assms(3) w by (auto simp: supplied_def bnd_def)
  next
    case (Inr r)
    obtain x w' where r: "c w = Inr (x, w')" using Inr by (cases r) auto
    then have "set (m_writtenObjects w) \<subseteq> set (m_writtenObjects w')" using assms(2) unfolding grows_def by blast
    then have "card (dom m - set (m_writtenObjects w')) \<le> card (dom m - set (m_writtenObjects w))"
      by (intro card_mono) (use assms(1) in auto)
    then show ?thesis using assms(4)[of x] w r by (auto simp: supplied_def bnd_def)
  qed
qed

lemma grows_basic [writing]:
  "grows (raise e)" "grows (ret x)" "grows (lift_res r)" "grows (guard e b)" "grows (putBytesOut bs)" "grows (writeWord n)"
  "grows (getObjectType m p)" "grows (gets h)" "grows (classToWrite m p)" "grows (getPreviousObjectIndex p)"
  "grows (modify (\<lambda>s. s\<lparr>m_writtenObjects := m_writtenObjects s @ [p]\<rparr>))"
  unfolding grows_def
  by (auto simp: comp_simps putBytesOut_def writeWord_def getObjectType_def classToWrite_def getPreviousObjectIndex_def
      split: if_splits sum.splits option.splits)

lemma supplied_basic [writing]:
  "supplied m n (putBytesOut bs)" "supplied m n (writeWord z)" "supplied m n (getPreviousObjectIndex p)"
  "supplied m n (classToWrite m' p)" "supplied m n (lift_res (getSize m' p))" "supplied m n (lift_res (getByte m' p i))"
  "supplied m n (lift_res (getField m' p i))" "supplied m n (lift_res (integerOf p))" "supplied m n (ret x)"
  unfolding supplied_def
  by (auto simp: comp_simps putBytesOut_def writeWord_def classToWrite_def getPreviousObjectIndex_def mem_defs objectAt_def
      nth_res_def integerOf_def TInteger_of_object_def TByteObject_getByte_def TObject_getField_def
      split: if_splits sum.splits option.splits)

lemma writing_loops:
  "grows (writeBytes m p i n)" "finite (dom m) \<Longrightarrow> supplied m k (writeBytes m p i n)"
  "(\<And>v. grows (W v)) \<Longrightarrow> grows (writeFields m W p i n)"
  "finite (dom m) \<Longrightarrow> (\<And>v. grows (W v)) \<Longrightarrow> (\<And>v. supplied m k (W v)) \<Longrightarrow> supplied m k (writeFields m W p i n)"
  by (induction n arbitrary: i) (auto intro!: writing)

lemma grows_writeObject [writing]: "grows (writeObject k m p)"
proof (induction k arbitrary: p)
  case 0
  then show ?case by (simp add: writing)
next
  case (Suc k)
  then show ?case by (auto intro!: writing writing_loops split: TImageRecordType.split)
qed

lemma supplied_writeObject:
  assumes f: "finite (dom m)"
  shows "supplied m k (writeObject k m p)"
proof (induction k arbitrary: p)
  case 0
  then show ?case by (simp add: supplied_def)
next
  case (Suc k)
  have ord: "supplied m k (bnd (lift_res (getSize m p)) (\<lambda>n. bnd (classToWrite m p) (\<lambda>c. bnd (writeWord n) (\<lambda>_.
      bnd (writeObject k m c) (\<lambda>_. writeFields m (writeObject k m) p 0 (unat n))))))" for p
    by (intro writing writing_loops f Suc.IH)
  have bin: "supplied m k (bnd (lift_res (getSize m p)) (\<lambda>n. bnd (classToWrite m p) (\<lambda>c. bnd (writeWord n) (\<lambda>_.
      bnd (writeBytes m p 0 (unat n)) (\<lambda>_. writeObject k m c)))))" for p
    by (intro writing writing_loops f Suc.IH)
  show ?case unfolding supplied_def
  proof (intro allI impI)
    fix w :: writer assume w: "card (dom m - set (m_writtenObjects w)) < Suc k"
    show "writeObject (Suc k) m p w \<noteq> Inl OutOfFuel"
    proof (cases "getObjectType m p w")
      case (Inl e)
      then have "e \<noteq> OutOfFuel"
        by (auto simp: getObjectType_def comp_simps isBinary_def objectAt_def split: if_splits option.splits)
      then show ?thesis using Inl by (simp add: comp_simps)
    next
      case (Inr r)
      then obtain ty w1 where ty: "getObjectType m p w = Inr (ty, w1)" by (cases r) auto
      from ty show ?thesis
      proof (cases rule: getObjectType_cases)
        case small
        then show ?thesis using ty
          by (simp add: comp_simps writeWord_def putBytesOut_def integerOf_def TInteger_of_object_def del: record_code.simps)
      next
        case (old i)
        then show ?thesis using ty
          by (simp add: comp_simps writeWord_def putBytesOut_def getPreviousObjectIndex_def del: record_code.simps)
      next
        case (new obj)
        let ?w = "w\<lparr>w_stream := w_stream w @ wordBytes (record_code ty), m_writtenObjects := m_writtenObjects w @ [p]\<rparr>"
        have "dom m - set (m_writtenObjects ?w) \<subset> dom m - set (m_writtenObjects w)" using new(3,4) by auto
        then have "card (dom m - set (m_writtenObjects ?w)) < card (dom m - set (m_writtenObjects w))"
          by (rule psubset_card_mono[rotated]) (use f in simp)
        then have c: "card (dom m - set (m_writtenObjects ?w)) < k" using w by linarith
        show ?thesis using ord[of p, unfolded supplied_def, rule_format, OF c] bin[of p, unfolded supplied_def, rule_format, OF c] ty new(1,5)
          by (simp add: bnd_def[of "guard _ _"] bnd_def[of "getObjectType _ _"] bnd_def[of "putBytesOut _"] bnd_def[of "modify _"]
              guard_def modify_def writeWord_def putBytesOut_out del: record_code.simps split: if_splits)
      qed
    qed
  qed
qed

lemma supplied_writeMany: "finite (dom m) \<Longrightarrow> supplied m k (writeMany k m ps)"
  by (induction ps) (auto intro!: writing supplied_writeObject)

text \<open>
  C11. The image code always ends: \<open>loadImage\<close> never uses up its bound on the depth of the recursion,
  whatever the file holds, and \<open>writeTo\<close> does not when the bound exceeds the number of objects.
\<close>

theorem image_terminates:
  "loadImage source (t :: 'a image_scheme) \<noteq> Inl OutOfFuel \<and>
   (finite (dom m) \<and> card (dom m) < k \<longrightarrow> writeTo k m g \<noteq> Inl OutOfFuel)"
proof (intro conjI impI)
  show "loadImage source t \<noteq> Inl OutOfFuel"
  proof (cases source)
    case (Some bytes)
    have "fuelled (Suc (length bytes)) (readMany (Suc (length bytes)) 15 :: ('a image_scheme, ptr list) comp)"
      by (rule fuelled_readMany)
    then have "readMany (Suc (length bytes)) 15 s \<noteq> Inl OutOfFuel" if "m_inputStream s = bytes" for s :: "'a image_scheme"
      unfolding fuelled_def using that by simp
    then show ?thesis
      by (auto simp: Some loadImage_def initializeStaticHeap_def libc_malloc_def comp_simps Let_def
          simp del: readMany.simps split: sum.splits)
  qed (simp add: loadImage_def comp_simps)
  show "writeTo k m g \<noteq> Inl OutOfFuel" if "finite (dom m) \<and> card (dom m) < k"
    using supplied_writeMany[of m k "globals_list g"] that
    by (auto simp: writeTo_def supplied_def split: sum.splits)
qed

lemma image_terminates_witness:
  "writeTo 4 sample_image sample_image_globals \<noteq> Inl OutOfFuel"
  using image_terminates[where m = sample_image and k = 4 and g = sample_image_globals and source = None and t = sample_loader]
  by (simp add: sample_image_dom)

end
