(* ===== verification/ParsedBytecode.thy ===== *)
theory ParsedBytecode
  imports Decoder "HOL-Library.Multiset"
begin

text \<open>
  The bytecode parser (\<^verbatim>\<open>src/ParsedBytecode.cpp\<close>, \<^verbatim>\<open>src/ParsedBlock.cpp\<close>,
  \<^verbatim>\<open>src/ParsedMethod.cpp\<close>, classes of \<^verbatim>\<open>include/stapi.h\<close>): a method's bytecodes
  are cut into basic blocks, the blocks are filled and linked by their referers, and chains of
  unreachable blocks are removed.  Nested Smalltalk blocks are parsed into the container method.

  A parser creates at most one block per offset, so a \<open>BasicBlock*\<close> is the block's offset, and the
  map from offsets to blocks is also the memory the blocks live in.
\<close>

section \<open>Basic blocks\<close>

record BasicBlock =
  m_offset :: u16
  m_instructions :: "u32 list"
  m_referers :: "u16 set"

definition BasicBlock_new :: "u16 \<Rightarrow> BasicBlock" where
  "BasicBlock_new blockOffset = \<lparr>m_offset = blockOffset, m_instructions = [], m_referers = {}\<rparr>"

definition block_append :: "TSmalltalkInstruction \<Rightarrow> BasicBlock \<Rightarrow> BasicBlock" where
  "block_append instruction b = b\<lparr>m_instructions := m_instructions b @ [serialize instruction]\<rparr>"

text \<open>Positions are indices here; the iterators of the code are valid, so at most the end.\<close>

definition block_insert :: "nat \<Rightarrow> TSmalltalkInstruction \<Rightarrow> BasicBlock \<Rightarrow> BasicBlock" where
  "block_insert position instruction b = b\<lparr>m_instructions :=
     take position (m_instructions b) @ [serialize instruction] @ drop position (m_instructions b)\<rparr>"

definition block_replace :: "nat \<Rightarrow> TSmalltalkInstruction \<Rightarrow> BasicBlock \<Rightarrow> BasicBlock res" where
  "block_replace position instruction b =
     (if position = length (m_instructions b) then Inl AssertFailed
      else Inr (b\<lparr>m_instructions := (m_instructions b)[position := serialize instruction]\<rparr>))"

definition block_remove :: "nat \<Rightarrow> BasicBlock \<Rightarrow> BasicBlock res" where
  "block_remove position b =
     (if position = length (m_instructions b) then Inl AssertFailed
      else Inr (b\<lparr>m_instructions := take position (m_instructions b) @ drop (Suc position) (m_instructions b)\<rparr>))"

text \<open>
  \<open>split\<close> copies the tail to the beginning of the new block's vector, which is empty: with a tail to
  copy it writes outside the vector.
\<close>

definition block_split :: "nat \<Rightarrow> BasicBlock \<Rightarrow> (BasicBlock \<times> BasicBlock) res" where
  "block_split position b =
     (if drop position (m_instructions b) \<noteq> [] then Inl BadAccess
      else Inr (BasicBlock_new 0, b\<lparr>m_instructions := take position (m_instructions b)\<rparr>))"

definition getTerminator :: "BasicBlock \<Rightarrow> TSmalltalkInstruction option" where
  "getTerminator b =
     (if m_instructions b = [] then None
      else let result = unpackInstruction (last (m_instructions b))
           in if isTerminator result then Some result else None)"

section \<open>Parsed code\<close>

record ParsedBytecode =
  m_basicBlocks :: "u16 list"
  m_offsetToBasicBlock :: "u16 \<rightharpoonup> BasicBlock"

record ParsedBlock = ParsedBytecode +
  m_startOffset :: u16
  m_stopOffset :: u16

text \<open>
  A \<open>ParsedBlock*\<close> is its place in \<open>m_parsedBlocks\<close>.  While a nested block is parsed, the fields of
  \<open>ParsedBytecode\<close> are the nested block's and the others its container's.
\<close>

record ParsedMethod = ParsedBytecode +
  m_parsedBlocks :: "ParsedBlock list"
  m_offsetToParsedBlock :: "u16 \<rightharpoonup> nat"
  m_endOffsetToParsedBlock :: "u16 \<rightharpoonup> nat"

definition getBasicBlockByOffset :: "u16 \<Rightarrow> 'a ParsedBytecode_scheme \<Rightarrow> BasicBlock option" where
  "getBasicBlockByOffset offset s = m_offsetToBasicBlock s offset"

definition getParsedBlockByOffset :: "u16 \<Rightarrow> 'a ParsedMethod_scheme \<Rightarrow> nat option" where
  "getParsedBlockByOffset startOffset s = m_offsetToParsedBlock s startOffset"

definition getParsedBlockByEndOffset :: "u16 \<Rightarrow> 'a ParsedMethod_scheme \<Rightarrow> nat option" where
  "getParsedBlockByEndOffset endOffset s = m_endOffsetToParsedBlock s endOffset"

definition createBasicBlock :: "u16 \<Rightarrow> 'a ParsedBytecode_scheme \<Rightarrow> 'a ParsedBytecode_scheme" where
  "createBasicBlock blockOffset s =
     (if m_offsetToBasicBlock s blockOffset \<noteq> None then s
      else s\<lparr>m_offsetToBasicBlock := (m_offsetToBasicBlock s)(blockOffset \<mapsto> BasicBlock_new blockOffset),
             m_basicBlocks := m_basicBlocks s @ [blockOffset]\<rparr>)"

text \<open>Reading and changing the block behind a pointer.\<close>

definition blockAt :: "u16 \<Rightarrow> ('a ParsedBytecode_scheme, BasicBlock) comp" where
  "blockAt block s = (case m_offsetToBasicBlock s block of None \<Rightarrow> Inl BadAccess | Some b \<Rightarrow> Inr (b, s))"

definition changeBlock :: "u16 \<Rightarrow> (BasicBlock \<Rightarrow> BasicBlock) \<Rightarrow> ('a ParsedBytecode_scheme, unit) comp" where
  "changeBlock block f =
     bnd (blockAt block) (\<lambda>b. modify (\<lambda>s. s\<lparr>m_offsetToBasicBlock := (m_offsetToBasicBlock s)(block \<mapsto> f b)\<rparr>))"

text \<open>The lookup of a branch target, with its assertion, and the change of its referers.\<close>

definition changeReferers :: "u16 \<Rightarrow> (u16 set \<Rightarrow> u16 set) \<Rightarrow> ('a ParsedBytecode_scheme, unit) comp" where
  "changeReferers targetOffset f =
     bnd (gets (\<lambda>s. m_offsetToBasicBlock s targetOffset)) (\<lambda>iTargetBlock.
     bnd (guard AssertFailed (iTargetBlock \<noteq> None)) (\<lambda>_.
     changeBlock targetOffset (\<lambda>b. b\<lparr>m_referers := f (m_referers b)\<rparr>)))"

definition updateReferences :: "u16 \<Rightarrow> u16 \<Rightarrow> u16 \<Rightarrow> ('a ParsedBytecode_scheme, unit) comp" where
  "updateReferences currentBasicBlock nextBlock bytePointer =
     bnd (blockAt currentBasicBlock) (\<lambda>b.
     case getTerminator b of
       Some terminator \<Rightarrow>
         (if isBranch terminator
          then if special_cast (m_argument terminator) = spc_branch
               then changeReferers (m_extra terminator) (insert currentBasicBlock)
               else bnd (changeReferers nextBlock (insert currentBasicBlock)) (\<lambda>_.
                    changeReferers (m_extra terminator) (insert currentBasicBlock))
          else ret ())
     | None \<Rightarrow>
         bnd (changeBlock currentBasicBlock (block_append (mkInstruction op_doSpecial 6 bytePointer))) (\<lambda>_.
         changeReferers nextBlock (insert currentBasicBlock)))"

definition eraseReferer :: "u16 \<Rightarrow> u16 \<Rightarrow> ('a ParsedBytecode_scheme, unit) comp" where
  "eraseReferer targetOffset referer = changeReferers targetOffset (\<lambda>r. r - {referer})"

definition eraseBasicBlock :: "u16 \<Rightarrow> 'a ParsedBytecode_scheme \<Rightarrow> 'a ParsedBytecode_scheme" where
  "eraseBasicBlock block s =
     s\<lparr>m_offsetToBasicBlock := (m_offsetToBasicBlock s)(block := None),
       m_basicBlocks := remove1 block (m_basicBlocks s)\<rparr>"

text \<open>The search of the next block: offsets are \<open>uint16_t\<close>, and 0 says there is none.\<close>

function nextBlockFrom :: "(u16 \<rightharpoonup> BasicBlock) \<Rightarrow> u16 \<Rightarrow> u16 \<Rightarrow> u16" where
  "nextBlockFrom m offset stopOffset =
     (if offset < stopOffset
      then if m offset \<noteq> None then offset else nextBlockFrom m (offset + 1) stopOffset
      else 0)"
  by auto
termination
proof (relation "measure (\<lambda>(m, offset, stopOffset). unat stopOffset - unat offset)")
  fix m :: "u16 \<rightharpoonup> BasicBlock" and offset stopOffset :: u16
  assume "offset < stopOffset"
  then have lt: "unat offset < unat stopOffset" by (simp add: word_less_nat_alt)
  moreover have "unat stopOffset < 2 ^ 16" using unsigned_less[of stopOffset] by simp
  ultimately have "unat (offset + 1) = unat offset + 1" by (simp add: unat_word_ariths)
  then show "((m, offset + 1, stopOffset), m, offset, stopOffset) \<in> measure (\<lambda>(m, offset, stopOffset). unat stopOffset - unat offset)"
    using lt by simp
qed simp

declare nextBlockFrom.simps [simp del]

definition getNextBlockOffset :: "u16 \<Rightarrow> u16 \<Rightarrow> 'a ParsedBytecode_scheme \<Rightarrow> u16" where
  "getNextBlockOffset currentBlock stopOffset s =
     nextBlockFrom (m_offsetToBasicBlock s) (currentBlock + 1) stopOffset"

section \<open>Phase 1: branch targets and nested blocks\<close>

text \<open>
  One iteration is determined by the byte pointer alone, so a loop that ends visits a pointer at most
  once: the bound that \<open>parse\<close> gives below, one more than the number of bytes, is used up only by a loop
  that never ends (a \<open>pushBlock\<close> whose end offset jumps back).
\<close>

primrec collectBranches :: "(u16 \<Rightarrow> u16 \<Rightarrow> ('a ParsedBytecode_scheme, unit) comp) \<Rightarrow> u8 list \<Rightarrow> u16 \<Rightarrow>
    nat \<Rightarrow> u16 \<Rightarrow> ('a ParsedBytecode_scheme, unit) comp" where
  "collectBranches parseBlock byteCodes stopPointer 0 bytePointer = raise OutOfFuel"
| "collectBranches parseBlock byteCodes stopPointer (Suc n) bytePointer =
     (if \<not> bytePointer < stopPointer then ret ()
      else bnd (lift_res (decodeAndShiftPointer byteCodes bytePointer)) (\<lambda>(instruction, bytePointer).
        if m_opcode instruction = op_pushBlock
        then bnd (parseBlock bytePointer (m_extra instruction)) (\<lambda>_.
             bnd (guard AssertFailed (unat (m_extra instruction) < length byteCodes)) (\<lambda>_.
             collectBranches parseBlock byteCodes stopPointer n (m_extra instruction)))
        else if m_opcode instruction \<noteq> op_doSpecial
        then collectBranches parseBlock byteCodes stopPointer n bytePointer
        else bnd (modify (\<lambda>s.
               (case special_cast (m_argument instruction) of
                  spc_branchIfTrue \<Rightarrow> createBasicBlock (m_extra instruction) (createBasicBlock bytePointer s)
                | spc_branchIfFalse \<Rightarrow> createBasicBlock (m_extra instruction) (createBasicBlock bytePointer s)
                | spc_branch \<Rightarrow> createBasicBlock (m_extra instruction) s
                | _ \<Rightarrow> s))) (\<lambda>_.
             collectBranches parseBlock byteCodes stopPointer n bytePointer)))"

section \<open>Phase 2: instructions\<close>

definition createStartBlock :: "u16 \<Rightarrow> 'a ParsedBytecode_scheme \<Rightarrow> 'a ParsedBytecode_scheme" where
  "createStartBlock startOffset s =
     (if m_offsetToBasicBlock s startOffset \<noteq> None then s
      else s\<lparr>m_offsetToBasicBlock := (m_offsetToBasicBlock s)(startOffset \<mapsto> BasicBlock_new startOffset),
             m_basicBlocks := startOffset # m_basicBlocks s\<rparr>)"

text \<open>
  An iteration is determined by the byte pointer and the flag, so twice the number of bytes bounds a
  loop that ends.
\<close>

primrec populate :: "u8 list \<Rightarrow> u16 \<Rightarrow> u16 \<Rightarrow> nat \<Rightarrow> u16 \<Rightarrow> u16 \<Rightarrow> bool \<Rightarrow> ('a ParsedBytecode_scheme, unit) comp" where
  "populate byteCodes startOffset stopPointer 0 bytePointer currentBasicBlock terminatorEncoded = raise OutOfFuel"
| "populate byteCodes startOffset stopPointer (Suc n) bytePointer currentBasicBlock terminatorEncoded =
     (if \<not> bytePointer < stopPointer then ret ()
      else bnd (gets (\<lambda>s. bytePointer \<noteq> startOffset \<and> m_offsetToBasicBlock s bytePointer \<noteq> None)) (\<lambda>switch.
        bnd (if switch then updateReferences currentBasicBlock bytePointer bytePointer else ret ()) (\<lambda>_.
        let currentBasicBlock = (if switch then bytePointer else currentBasicBlock);
            terminatorEncoded = (\<not> switch \<and> terminatorEncoded)
        in bnd (lift_res (decodeAndShiftPointer byteCodes bytePointer)) (\<lambda>(instruction, bytePointer).
           if terminatorEncoded
           then populate byteCodes startOffset stopPointer n bytePointer currentBasicBlock terminatorEncoded
           else bnd (changeBlock currentBasicBlock (block_append instruction)) (\<lambda>_.
             if m_opcode instruction = op_pushBlock
             then bnd (guard AssertFailed (unat (m_extra instruction) < length byteCodes)) (\<lambda>_.
                  populate byteCodes startOffset stopPointer n (m_extra instruction) currentBasicBlock False)
             else bnd (if bytePointer \<ge> stopPointer \<and> isBranch instruction
                       then changeReferers (m_extra instruction) (insert currentBasicBlock) else ret ()) (\<lambda>_.
                  populate byteCodes startOffset stopPointer n bytePointer currentBasicBlock
                    (isTerminator instruction)))))))"

section \<open>Phase 3: unreachable blocks\<close>

text \<open>One pass over the list; the flag says whether a block was removed.\<close>

definition eraseUnreachable :: "u16 \<Rightarrow> u16 \<Rightarrow> ('a ParsedBytecode_scheme, unit) comp" where
  "eraseUnreachable stopOffset block =
     bnd (blockAt block) (\<lambda>b.
     bnd (case getTerminator b of
            Some terminator \<Rightarrow>
              (if isBranch terminator
               then bnd (gets (\<lambda>s. if special_cast (m_argument terminator) = spc_branch then 0
                                    else getNextBlockOffset block stopOffset s)) (\<lambda>skipOffset.
                    bnd (eraseReferer (m_extra terminator) block) (\<lambda>_.
                    if skipOffset \<noteq> 0 then eraseReferer skipOffset block else ret ()))
               else ret ())
          | None \<Rightarrow> ret ()) (\<lambda>_.
     modify (eraseBasicBlock block)))"

primrec wipePass :: "u16 \<Rightarrow> u16 \<Rightarrow> u16 list \<Rightarrow> bool \<Rightarrow> ('a ParsedBytecode_scheme, bool) comp" where
  "wipePass startOffset stopOffset [] blockRemoved = ret blockRemoved"
| "wipePass startOffset stopOffset (block # blocks) blockRemoved =
     bnd (blockAt block) (\<lambda>b.
     if m_referers b = {} \<and> m_offset b \<noteq> startOffset
     then bnd (eraseUnreachable stopOffset block) (\<lambda>_. wipePass startOffset stopOffset blocks True)
     else wipePass startOffset stopOffset blocks blockRemoved)"

text \<open>Every pass but the last shortens the list of blocks.\<close>

lemma changeReferers_list: "changeReferers t f s = Inr (x, s') \<Longrightarrow> m_basicBlocks s' = m_basicBlocks s"
  by (auto simp: changeReferers_def changeBlock_def blockAt_def comp_simps split: option.splits if_splits)

lemma eraseUnreachable_list:
  "eraseUnreachable stop b s = Inr (x, s') \<Longrightarrow> m_basicBlocks s' = remove1 b (m_basicBlocks s)"
  by (auto simp: eraseUnreachable_def eraseBasicBlock_def eraseReferer_def blockAt_def comp_simps
      split: option.splits if_splits sum.splits dest!: changeReferers_list)

lemma wipePass_list:
  "wipePass start stop bs r s = Inr (r', s') \<Longrightarrow> mset bs \<subseteq># mset (m_basicBlocks s) \<Longrightarrow>
   length (m_basicBlocks s') \<le> length (m_basicBlocks s) \<and>
   (r' \<and> \<not> r \<longrightarrow> length (m_basicBlocks s') < length (m_basicBlocks s))"
proof (induction bs arbitrary: r s)
  case Nil
  then show ?case by (simp add: comp_simps)
next
  case (Cons b bs)
  then obtain bb where bb: "blockAt b s = Inr (bb, s)"
    by (auto simp: blockAt_def comp_simps split: option.splits)
  show ?case
  proof (cases "m_referers bb = {} \<and> m_offset bb \<noteq> start")
    case True
    then obtain t where t: "eraseUnreachable stop b s = Inr ((), t)" "wipePass start stop bs True t = Inr (r', s')"
      using Cons.prems(1) bb by (auto simp: comp_simps split: sum.splits)
    have l: "m_basicBlocks t = remove1 b (m_basicBlocks s)" by (rule eraseUnreachable_list[OF t(1)])
    have in_list: "b \<in> set (m_basicBlocks s)" using mset_subset_eqD[OF Cons.prems(2)] by simp
    have "mset bs \<subseteq># mset (m_basicBlocks t)"
      using Cons.prems(2) by (simp add: l insert_subset_eq_iff)
    then have "length (m_basicBlocks s') \<le> length (m_basicBlocks t)" using Cons.IH[OF t(2)] by blast
    moreover have "length (m_basicBlocks t) < length (m_basicBlocks s)"
      using in_list length_pos_if_in_set[OF in_list] by (simp add: l length_remove1)
    ultimately show ?thesis by linarith
  next
    case False
    then have "wipePass start stop bs r s = Inr (r', s')" using Cons.prems(1) bb by (simp only: wipePass.simps bnd_def) (simp add: if_not_P[OF False])
    then show ?thesis using Cons.IH[of r s] mset_subset_eq_insertD[of b "mset bs"] Cons.prems(2) by (simp add: subset_mset.less_imp_le)
  qed
qed

function wipeUnreachable :: "u16 \<Rightarrow> u16 \<Rightarrow> ('a ParsedBytecode_scheme, unit) comp" where
  "wipeUnreachable startOffset stopOffset s =
     (case wipePass startOffset stopOffset (m_basicBlocks s) False s of
        Inl e \<Rightarrow> Inl e
      | Inr (blockRemoved, s') \<Rightarrow>
          (if blockRemoved then wipeUnreachable startOffset stopOffset s' else Inr ((), s')))"
  by pat_completeness auto
termination
  by (relation "measure (\<lambda>(start, stop, s). length (m_basicBlocks s))") (auto dest: wipePass_list)

declare wipeUnreachable.simps [simp del]

section \<open>Parsing\<close>

definition parseBytecode :: "(u16 \<Rightarrow> u16 \<Rightarrow> ('a ParsedBytecode_scheme, unit) comp) \<Rightarrow> u8 list \<Rightarrow>
    u16 \<Rightarrow> u16 \<Rightarrow> ('a ParsedBytecode_scheme, unit) comp" where
  "parseBytecode parseBlock byteCodes startOffset stopOffset =
     (let stopPointer = (if stopOffset \<noteq> 0 then stopOffset else of_nat (length byteCodes))
      in bnd (collectBranches parseBlock byteCodes stopPointer (Suc (length byteCodes)) startOffset) (\<lambda>_.
         bnd (modify (createStartBlock startOffset)) (\<lambda>_.
         bnd (guard AssertFailed (unat startOffset < length byteCodes)) (\<lambda>_.
         bnd (populate byteCodes startOffset stopPointer (Suc (2 * length byteCodes)) startOffset startOffset False) (\<lambda>_.
         wipeUnreachable startOffset stopOffset)))))"

definition addParsedBlock :: "ParsedBlock \<Rightarrow> 'a ParsedMethod_scheme \<Rightarrow> 'a ParsedMethod_scheme" where
  "addParsedBlock parsedBlock s = s\<lparr>m_parsedBlocks := m_parsedBlocks s @ [parsedBlock],
     m_offsetToParsedBlock := (m_offsetToParsedBlock s)(m_startOffset parsedBlock \<mapsto> length (m_parsedBlocks s)),
     m_endOffsetToParsedBlock := (m_endOffsetToParsedBlock s)(m_stopOffset parsedBlock \<mapsto> length (m_parsedBlocks s))\<rparr>"

text \<open>
  A nested block, of the method or of another block: parsed with block fields of its own and then added
  to the container, after the blocks nested in it.
\<close>

primrec parseNested :: "nat \<Rightarrow> u8 list \<Rightarrow> u16 \<Rightarrow> u16 \<Rightarrow> (ParsedMethod, unit) comp" where
  "parseNested 0 byteCodes startOffset stopOffset = raise OutOfFuel"
| "parseNested (Suc n) byteCodes startOffset stopOffset =
     bnd (gets (\<lambda>s. (m_basicBlocks s, m_offsetToBasicBlock s))) (\<lambda>(outerBlocks, outerMap).
     bnd (modify (\<lambda>s. s\<lparr>m_basicBlocks := [], m_offsetToBasicBlock := Map.empty\<rparr>)) (\<lambda>_.
     bnd (parseBytecode (parseNested n byteCodes) byteCodes startOffset stopOffset) (\<lambda>_.
     modify (\<lambda>s. addParsedBlock
       \<lparr>m_basicBlocks = m_basicBlocks s, m_offsetToBasicBlock = m_offsetToBasicBlock s,
        m_startOffset = startOffset, m_stopOffset = stopOffset\<rparr>
       (s\<lparr>m_basicBlocks := outerBlocks, m_offsetToBasicBlock := outerMap\<rparr>)))))"

text \<open>Nested blocks start behind their \<open>pushBlock\<close>, so the nesting is no deeper than the method is long.\<close>

definition ParsedMethod_empty :: ParsedMethod where
  "ParsedMethod_empty = \<lparr>m_basicBlocks = [], m_offsetToBasicBlock = Map.empty, m_parsedBlocks = [],
     m_offsetToParsedBlock = Map.empty, m_endOffsetToParsedBlock = Map.empty\<rparr>"

definition ParsedMethod_new :: "u8 list \<Rightarrow> ParsedMethod res" where
  "ParsedMethod_new byteCodes =
     bndR (parseBytecode (parseNested (Suc (length byteCodes)) byteCodes) byteCodes 0 0 ParsedMethod_empty)
       (\<lambda>r. Inr (snd r))"

end
