(* ===== verification/CodeLayout.thy ===== *)
theory CodeLayout
  imports ParsedBytecode
begin

text \<open>
  How the bytecodes of a body are laid out: the offsets reading passes through, the branches among them,
  the leaders at which basic blocks begin, and what the instructions of a block say of where control
  goes.  The first phase of the parser is shown to create a block for every leader.
\<close>

section \<open>The code of a method\<close>

text \<open>Where reading continues after an instruction: behind it, or behind the block it pushes.\<close>

definition next_offset :: "TSmalltalkInstruction \<Rightarrow> u16 \<Rightarrow> u16" where
  "next_offset i q = (if m_opcode i = op_pushBlock then m_extra i else q)"

text \<open>Instructions read one after the other, skipping nested blocks.\<close>

inductive runs :: "u8 list \<Rightarrow> u16 \<Rightarrow> TSmalltalkInstruction list \<Rightarrow> u16 \<Rightarrow> bool" for code p where
  runs_none: "runs code p [] p"
| runs_more: "runs code p is q \<Longrightarrow> decodeAndShiftPointer code q = Inr (i, r) \<Longrightarrow> runs code p (is @ [i]) (next_offset i r)"

text \<open>The offsets of a body that starts at \<open>start\<close>, nested blocks left out.\<close>

definition body_offset :: "u8 list \<Rightarrow> u16 \<Rightarrow> u16 \<Rightarrow> bool" where
  "body_offset code start p \<longleftrightarrow> (\<exists>is. runs code start is p)"

lemma body_start: "body_offset code start start"
  unfolding body_offset_def by (blast intro: runs_none)

lemma body_next:
  "body_offset code start p \<Longrightarrow> decodeAndShiftPointer code p = Inr (i, q) \<Longrightarrow> body_offset code start (next_offset i q)"
  unfolding body_offset_def by (blast intro: runs_more)

text \<open>
  A set of offsets closed under reading: behind each of its offsets an instruction can be decoded, the
  next one is in the set again with no other in between, and a pushed block ends behind its \<open>pushBlock\<close>, inside the method.
\<close>

definition instruction_starts :: "u8 list \<Rightarrow> u16 set \<Rightarrow> bool" where
  "instruction_starts code P \<longleftrightarrow> length code < 2 ^ 16 \<and>
     (\<forall>p\<in>P. unat p < length code \<longrightarrow> (\<exists>i q. decodeAndShiftPointer code p = Inr (i, q) \<and> q \<in> P \<and>
        (\<forall>r\<in>P. \<not> (p < r \<and> r < q)) \<and>
        (m_opcode i = op_pushBlock \<longrightarrow> q \<le> m_extra i \<and> unat (m_extra i) < length code \<and> m_extra i \<in> P)))"

lemma instruction_startsE:
  assumes "instruction_starts code P" and "p \<in> P" and "unat p < length code"
  obtains i q where "decodeAndShiftPointer code p = Inr (i, q)" "q \<in> P" "next_offset i q \<in> P" "unat p < unat q"
    "unat q \<le> length code" "unat p < unat (next_offset i q)" "unat (next_offset i q) \<le> length code"
    "m_opcode i = op_pushBlock \<Longrightarrow> unat (m_extra i) < length code" "\<And>r. r \<in> P \<Longrightarrow> \<not> (p < r \<and> r < q)"
proof -
  obtain i q where d: "decodeAndShiftPointer code p = Inr (i, q)" "q \<in> P" "\<forall>r\<in>P. \<not> (p < r \<and> r < q)"
    "m_opcode i = op_pushBlock \<Longrightarrow> q \<le> m_extra i \<and> unat (m_extra i) < length code \<and> m_extra i \<in> P"
    using assms unfolding instruction_starts_def by blast
  have len: "length code < 2 ^ 16" using assms(1) by (simp add: instruction_starts_def)
  have p: "unat p < unat q" "unat q \<le> length code" using decode_step[OF d(1) len] by auto
  have n: "next_offset i q \<in> P" "unat p < unat (next_offset i q)" "unat (next_offset i q) \<le> length code"
    using d p by (auto simp: next_offset_def word_le_nat_alt)
  show thesis using that[OF d(1,2) n(1) p n(2,3)] d(3,4) by blast
qed

text \<open>The branches of a body: where they are, what they are and where the code behind them goes on.\<close>

definition branch_at :: "u8 list \<Rightarrow> u16 \<Rightarrow> u16 \<Rightarrow> TSmalltalkInstruction \<Rightarrow> u16 \<Rightarrow> bool" where
  "branch_at code start stop i q \<longleftrightarrow>
     (\<exists>p. body_offset code start p \<and> p < stop \<and> decodeAndShiftPointer code p = Inr (i, q) \<and> isBranch i)"

abbreviation conditional :: "TSmalltalkInstruction \<Rightarrow> bool" where
  "conditional i \<equiv> special_cast (m_argument i) \<noteq> spc_branch"

text \<open>The offsets at which a body has a basic block.\<close>

definition leader :: "u8 list \<Rightarrow> u16 \<Rightarrow> u16 \<Rightarrow> u16 \<Rightarrow> bool" where
  "leader code start stop p \<longleftrightarrow> p = start \<or>
     (\<exists>i q. branch_at code start stop i q \<and> (p = m_extra i \<or> conditional i \<and> p = q))"

section \<open>Runs of the parser\<close>

text \<open>The parts of the state that phases 1 and 2 keep apart: the list and the map agree.\<close>

definition blocks_ok :: "'a ParsedBytecode_scheme \<Rightarrow> bool" where
  "blocks_ok s \<longleftrightarrow> distinct (m_basicBlocks s) \<and> set (m_basicBlocks s) = dom (m_offsetToBasicBlock s) \<and>
     (\<forall>p b. m_offsetToBasicBlock s p = Some b \<longrightarrow> m_offset b = p)"

definition fresh_blocks :: "'a ParsedBytecode_scheme \<Rightarrow> bool" where
  "fresh_blocks s \<longleftrightarrow> distinct (m_basicBlocks s) \<and> set (m_basicBlocks s) = dom (m_offsetToBasicBlock s) \<and>
     (\<forall>p b. m_offsetToBasicBlock s p = Some b \<longrightarrow> b = BasicBlock_new p)"

lemma fresh_create [simp]:
  "fresh_blocks s \<Longrightarrow> fresh_blocks (createBasicBlock p s)"
  "dom (m_offsetToBasicBlock (createBasicBlock p s)) = insert p (dom (m_offsetToBasicBlock s))"
  by (auto simp: fresh_blocks_def createBasicBlock_def)

lemma more_create: "ParsedBytecode.ParsedBytecode.more (createBasicBlock p s) = ParsedBytecode.ParsedBytecode.more s"
  "ParsedBytecode.ParsedBytecode.more (createStartBlock p s) = ParsedBytecode.ParsedBytecode.more s"
  by (simp_all add: createBasicBlock_def createStartBlock_def)

lemma fresh_start [simp]:
  "fresh_blocks s \<Longrightarrow> fresh_blocks (createStartBlock p s)"
  "dom (m_offsetToBasicBlock (createStartBlock p s)) = insert p (dom (m_offsetToBasicBlock s))"
  by (auto simp: fresh_blocks_def createStartBlock_def)

text \<open>
  The parser of nested blocks returns with the fields of the outer one as they were, and keeps a
  property of the container.
\<close>

definition keeps_outer :: "('a \<Rightarrow> bool) \<Rightarrow> ('a ParsedBytecode_scheme, unit) comp \<Rightarrow> bool" where
  "keeps_outer Q c \<longleftrightarrow> (\<forall>s. Q (ParsedBytecode.ParsedBytecode.more s) \<longrightarrow>
     (\<exists>s'. c s = Inr ((), s') \<and> m_basicBlocks s' = m_basicBlocks s \<and>
        m_offsetToBasicBlock s' = m_offsetToBasicBlock s \<and> Q (ParsedBytecode.ParsedBytecode.more s')))"

lemma collectBranches_step:
  assumes "p < stop" "decodeAndShiftPointer code p = Inr (i, q)" "m_opcode i \<noteq> op_pushBlock"
  shows "\<exists>g. collectBranches pb code stop (Suc n) p s = collectBranches pb code stop n q (g s) \<and>
    (fresh_blocks s \<longrightarrow> fresh_blocks (g s)) \<and> ParsedBytecode.ParsedBytecode.more (g s) = ParsedBytecode.ParsedBytecode.more s \<and>
    dom (m_offsetToBasicBlock (g s)) = dom (m_offsetToBasicBlock s) \<union>
      (if isBranch i then insert (m_extra i) (if conditional i then {q} else {}) else {})"
proof (cases "m_opcode i = op_doSpecial")
  case False
  then show ?thesis using assms by (intro exI[of _ "\<lambda>s. s"]) (simp add: comp_simps isBranch_def)
next
  case True
  let ?g = "\<lambda>s. (case special_cast (m_argument i) of
                  spc_branchIfTrue \<Rightarrow> createBasicBlock (m_extra i) (createBasicBlock q s)
                | spc_branchIfFalse \<Rightarrow> createBasicBlock (m_extra i) (createBasicBlock q s)
                | spc_branch \<Rightarrow> createBasicBlock (m_extra i) s
                | _ \<Rightarrow> s)"
  show ?thesis using assms True
    by (intro exI[of _ ?g]) (auto simp: comp_simps isBranch_def more_create split: TSpecial.split)
qed

lemma runs_first:
  "runs code p is r \<Longrightarrow> is = [] \<and> r = p \<or>
     (\<exists>i q js. is = i # js \<and> decodeAndShiftPointer code p = Inr (i, q) \<and> runs code (next_offset i q) js r)"
proof (induction rule: runs.induct)
  case runs_none
  then show ?case by simp
next
  case (runs_more "is" q i r)
  then show ?case
  proof (elim disjE exE conjE)
    assume "is = []" "q = p"
    then show ?thesis using runs_more.hyps by (auto intro: runs_none)
  next
    fix j q' js assume "is = j # js" "decodeAndShiftPointer code p = Inr (j, q')" "runs code (next_offset j q') js q"
    then show ?thesis using runs.runs_more[OF _ runs_more.hyps(2)] by auto
  qed
qed

lemma runs_Cons:
  assumes "decodeAndShiftPointer code p = Inr (i, q)" and "runs code (next_offset i q) js r"
  shows "runs code p (i # js) r"
  using assms(2)
proof (induction rule: runs.induct)
  case runs_none
  then show ?case using runs.runs_more[OF runs.runs_none assms(1)] by simp
next
  case (runs_more "is" q' j r)
  then show ?case using runs.runs_more[OF runs_more.IH runs_more.hyps(2)] by simp
qed

lemma runs_append: "runs code p is q \<Longrightarrow> runs code q js r \<Longrightarrow> runs code p (is @ js) r"
proof (induction "is" arbitrary: p)
  case Nil
  then show ?case using runs_first by fastforce
next
  case (Cons i "is")
  then obtain q' where q': "decodeAndShiftPointer code p = Inr (i, q')" "runs code (next_offset i q') is q"
    using runs_first[OF Cons.prems(1)] by auto
  show ?case using runs_Cons[OF q'(1) Cons.IH[OF q'(2) Cons.prems(2)]] by simp
qed

lemma body_offset_trans: "body_offset code p q \<Longrightarrow> body_offset code q r \<Longrightarrow> body_offset code p r"
  unfolding body_offset_def by (blast intro: runs_append)

lemma body_first:
  assumes "decodeAndShiftPointer code p = Inr (i, q)"
  shows "body_offset code p r \<longleftrightarrow> r = p \<or> body_offset code (next_offset i q) r"
proof
  assume "body_offset code p r"
  then obtain js where "runs code p js r" by (auto simp: body_offset_def)
  from runs_first[OF this] show "r = p \<or> body_offset code (next_offset i q) r"
    using assms by (auto simp: body_offset_def)
next
  assume "r = p \<or> body_offset code (next_offset i q) r"
  then show "body_offset code p r" using assms runs_Cons body_start unfolding body_offset_def by blast
qed

lemma runs_total:
  "runs code p is a \<Longrightarrow> runs code p js b \<Longrightarrow> body_offset code a b \<or> body_offset code b a"
proof (induction "is" arbitrary: p js)
  case Nil
  then have "a = p" using runs_first by fastforce
  then show ?case using Nil by (auto simp: body_offset_def)
next
  case (Cons i "is")
  obtain q where q: "decodeAndShiftPointer code p = Inr (i, q)" "runs code (next_offset i q) is a"
    using runs_first[OF Cons.prems(1)] by auto
  show ?case
  proof (cases js)
    case Nil
    then have "b = p" using runs_first[OF Cons.prems(2)] by auto
    then show ?thesis using Cons.prems(1) by (auto simp: body_offset_def)
  next
    case (Cons j js')
    then have "runs code (next_offset i q) js' b" using runs_first[OF Cons.prems(2)] q(1) by auto
    then show ?thesis using Cons.IH[OF q(2)] by blast
  qed
qed

lemma body_grows:
  assumes starts: "instruction_starts code P"
  shows "p \<in> P \<Longrightarrow> unat p \<le> length code \<Longrightarrow> runs code p is r \<Longrightarrow>
    r \<in> P \<and> unat r \<le> length code \<and> unat p + length is \<le> unat r"
proof (induction "is" arbitrary: p)
  case Nil
  then show ?case using runs_first by fastforce
next
  case (Cons i "is")
  obtain q where q: "decodeAndShiftPointer code p = Inr (i, q)" "runs code (next_offset i q) is r"
    using runs_first[OF Cons.prems(3)] by auto
  have "unat p < length code" using q(1) by (auto simp: decodeAndShiftPointer_def comp_simps split: if_splits)
  from instruction_startsE[OF starts Cons.prems(1) this] q(1) have
    "next_offset i q \<in> P" "unat p < unat (next_offset i q)" "unat (next_offset i q) \<le> length code" by auto
  then show ?case using Cons.IH[OF _ _ q(2)] by fastforce
qed

text \<open>Between an offset of a body and the next one there is no other.\<close>

lemma body_between:
  assumes starts: "instruction_starts code P" and p: "p \<in> P" "unat p \<le> length code"
    and ab: "body_offset code p a" "body_offset code p b" "a < b" and d: "decodeAndShiftPointer code a = Inr (i, q)"
  shows "next_offset i q \<le> b"
proof -
  obtain js ks where js: "runs code p js a" "runs code p ks b" using ab(1,2) by (auto simp: body_offset_def)
  have in_P: "a \<in> P" "unat a \<le> length code" "b \<in> P" "unat b \<le> length code"
    using body_grows[OF starts p js(1)] body_grows[OF starts p js(2)] by auto
  have "\<not> body_offset code b a"
  proof
    assume "body_offset code b a"
    then obtain ls where "runs code b ls a" by (auto simp: body_offset_def)
    then show False using body_grows[OF starts in_P(3,4)] ab(3) by (fastforce simp: word_less_nat_alt)
  qed
  then have "body_offset code a b" using runs_total[OF js] by blast
  then obtain ls where ls: "runs code (next_offset i q) ls b"
    using ab(3) body_first[OF d] by (auto simp: body_offset_def)
  have "unat a < length code" using d by (auto simp: decodeAndShiftPointer_def comp_simps split: if_splits)
  from instruction_startsE[OF starts in_P(1) this] d have
    "next_offset i q \<in> P" "unat (next_offset i q) \<le> length code" by auto
  from body_grows[OF starts this ls] show ?thesis by (simp add: word_le_nat_alt)
qed

section \<open>Phase 1\<close>

definition branches_from :: "u8 list \<Rightarrow> u16 \<Rightarrow> u16 \<Rightarrow> u16 set" where
  "branches_from code p stop =
     {x. \<exists>i q. branch_at code p stop i q \<and> (x = m_extra i \<or> conditional i \<and> x = q)}"

lemma branches_first:
  assumes "p < stop" "decodeAndShiftPointer code p = Inr (i, q)"
  shows "branches_from code p stop = branches_from code (next_offset i q) stop \<union>
    (if isBranch i then insert (m_extra i) (if conditional i then {q} else {}) else {})"
proof -
  have "branch_at code p stop j r \<longleftrightarrow> (j = i \<and> r = q \<and> isBranch i) \<or> branch_at code (next_offset i q) stop j r" for j r
    unfolding branch_at_def body_first[OF assms(2)] using assms by auto
  then show ?thesis unfolding branches_from_def by auto
qed

lemma branches_end:
  assumes "instruction_starts code P" "p \<in> P" "unat p \<le> length code" "\<not> p < stop"
  shows "branches_from code p stop = {}"
proof -
  have "\<not> branch_at code p stop i q" for i q
    using body_grows[OF assms(1-3)] assms(4)
    by (fastforce simp: branch_at_def body_offset_def word_less_nat_alt)
  then show ?thesis by (simp add: branches_from_def)
qed

text \<open>The nested blocks of a body are parsed by such a computation.\<close>

definition nested_parser :: "('a \<Rightarrow> bool) \<Rightarrow> (u16 \<Rightarrow> u16 \<Rightarrow> ('a ParsedBytecode_scheme, unit) comp) \<Rightarrow> u8 list \<Rightarrow> u16 \<Rightarrow> u16 \<Rightarrow> bool" where
  "nested_parser Q pb code start stop \<longleftrightarrow> (\<forall>p i q. body_offset code start p \<longrightarrow> p < stop \<longrightarrow>
     decodeAndShiftPointer code p = Inr (i, q) \<longrightarrow> m_opcode i = op_pushBlock \<longrightarrow> keeps_outer Q (pb q (m_extra i)))"

lemma collectBranches_returns:
  assumes starts: "instruction_starts code P" and stop: "unat stop \<le> length code"
    and nested: "nested_parser Q pb code start stop"
  shows "p \<in> P \<Longrightarrow> body_offset code start p \<Longrightarrow> unat p \<le> length code \<Longrightarrow> length code < n + unat p \<Longrightarrow> fresh_blocks s \<Longrightarrow>
    Q (ParsedBytecode.ParsedBytecode.more s) \<Longrightarrow>
    \<exists>s'. collectBranches pb code stop n p s = Inr ((), s') \<and> fresh_blocks s' \<and> Q (ParsedBytecode.ParsedBytecode.more s') \<and>
      dom (m_offsetToBasicBlock s') = dom (m_offsetToBasicBlock s) \<union> branches_from code p stop"
proof (induction n arbitrary: p s)
  case 0
  then show ?case by simp
next
  case (Suc n)
  show ?case
  proof (cases "p < stop")
    case False
    then show ?thesis using Suc.prems branches_end[OF starts Suc.prems(1,3) False] by (simp add: comp_simps)
  next
    case True
    then have len: "unat p < length code" using stop by (simp add: word_less_nat_alt)
    obtain i q where d: "decodeAndShiftPointer code p = Inr (i, q)" "next_offset i q \<in> P" "unat (next_offset i q) \<le> length code"
      "unat p < unat (next_offset i q)" "m_opcode i = op_pushBlock \<Longrightarrow> unat (m_extra i) < length code"
      by (rule instruction_startsE[OF starts Suc.prems(1) len]) blast
    note body = body_next[OF Suc.prems(2) d(1)] and first = branches_first[OF True d(1)]
    have fuel: "length code < n + unat (next_offset i q)" using Suc.prems(4) d(4) by linarith
    note IH = Suc.IH[OF d(2) body d(3) fuel]
    show ?thesis
    proof (cases "m_opcode i = op_pushBlock")
      case block: True
      obtain t where t: "pb q (m_extra i) s = Inr ((), t)" "m_basicBlocks t = m_basicBlocks s"
        "m_offsetToBasicBlock t = m_offsetToBasicBlock s" "Q (ParsedBytecode.ParsedBytecode.more t)"
        using nested Suc.prems(2,6) True d(1) block unfolding nested_parser_def keeps_outer_def by blast
      have "fresh_blocks t" using Suc.prems(5) t by (simp add: fresh_blocks_def)
      moreover have "next_offset i q = m_extra i" "\<not> isBranch i" using block by (simp_all add: next_offset_def isBranch_def)
      moreover have "collectBranches pb code stop (Suc n) p s = collectBranches pb code stop n (m_extra i) t"
        using True d(1,5) block t(1) by (simp add: comp_simps)
      ultimately show ?thesis using IH[of t] first t(3,4) by simp
    next
      case False
      obtain g where g: "collectBranches pb code stop (Suc n) p s = collectBranches pb code stop n q (g s)"
        "fresh_blocks (g s)" "ParsedBytecode.ParsedBytecode.more (g s) = ParsedBytecode.ParsedBytecode.more s"
          "dom (m_offsetToBasicBlock (g s)) = dom (m_offsetToBasicBlock s) \<union>
          (if isBranch i then insert (m_extra i) (if conditional i then {q} else {}) else {})"
        using collectBranches_step[OF True d(1) False, of pb n s] Suc.prems(5) by blast
      have "next_offset i q = q" using False by (simp add: next_offset_def)
      then show ?thesis using IH[OF g(2)] g(1,3,4) first Suc.prems(6) by (simp add: Un_ac)
    qed
  qed
qed

section \<open>The instructions of a block\<close>

text \<open>Where the code of a block ends, after as many instructions as the block holds.\<close>

primrec block_end :: "u8 list \<Rightarrow> u16 \<Rightarrow> nat \<Rightarrow> u16" where
  "block_end code p 0 = p"
| "block_end code p (Suc n) =
     (case decodeAndShiftPointer code (block_end code p n) of
        Inl e \<Rightarrow> block_end code p n
      | Inr (i, q) \<Rightarrow> next_offset i q)"

text \<open>The blocks control can reach from the end of a block with these instructions.\<close>

definition succs :: "u8 list \<Rightarrow> u16 \<Rightarrow> u32 list \<Rightarrow> u16 set" where
  "succs code p ws =
     (if ws = [] then {}
      else let t = unpackInstruction (last ws)
           in if \<not> isBranch t then {}
              else if conditional t then {m_extra t, block_end code p (length ws)} else {m_extra t})"

lemma block_end_runs: "runs code p is q \<Longrightarrow> block_end code p (length is) = q"
  by (induction rule: runs.induct) simp_all

lemma runs_unpack: "runs code p is q \<Longrightarrow> i \<in> set is \<Longrightarrow> unpackInstruction (serialize i) = i"
  by (induction rule: runs.induct) (auto simp: decode_unpack)

definition no_end :: "TSmalltalkInstruction list \<Rightarrow> bool" where
  "no_end is \<longleftrightarrow> (\<forall>i\<in>set is. \<not> isTerminator i)"

text \<open>
  The instructions read so far, without a terminator; a block closed by its terminator; and one closed
  by the branch the parser adds where it runs into the next block.
\<close>

definition open_block :: "u8 list \<Rightarrow> u16 \<Rightarrow> u32 list \<Rightarrow> u16 \<Rightarrow> bool" where
  "open_block code p ws q \<longleftrightarrow> (\<exists>is. runs code p is q \<and> no_end is \<and> ws = map serialize is)"

definition ended_block :: "u8 list \<Rightarrow> u16 \<Rightarrow> u32 list \<Rightarrow> u16 \<Rightarrow> bool" where
  "ended_block code p ws q \<longleftrightarrow>
     (\<exists>is i. runs code p (is @ [i]) q \<and> no_end is \<and> isTerminator i \<and> ws = map serialize (is @ [i]))"

abbreviation goto :: "u16 \<Rightarrow> TSmalltalkInstruction" where
  "goto q \<equiv> mkInstruction op_doSpecial 6 q"

definition linked_block :: "u8 list \<Rightarrow> u16 \<Rightarrow> u32 list \<Rightarrow> u16 \<Rightarrow> bool" where
  "linked_block code p ws q \<longleftrightarrow> (\<exists>is. runs code p is q \<and> no_end is \<and> ws = map serialize is @ [serialize (goto q)])"

lemma unpack_goto [simp]: "unpackInstruction (serialize (goto q)) = goto q"
  using unpack_serialize[of "goto q"] by (simp add: mkInstruction_def opcode_cast_def)

lemma goto_branch [simp]: "isBranch (goto q)" "\<not> conditional (goto q)" "m_extra (goto q) = q"
  by (simp_all add: mkInstruction_def isBranch_def special_cast_def)

lemma succs_empty [simp]: "succs code p [] = {}"
  by (simp add: succs_def)

lemma succs_open: "open_block code p ws q \<Longrightarrow> succs code p ws = {}"
proof -
  assume "open_block code p ws q"
  then obtain "is" where i: "runs code p is q" "no_end is" "ws = map serialize is" by (auto simp: open_block_def)
  show ?thesis
  proof (cases "is = []")
    case False
    then have "unpackInstruction (last ws) = last is" "\<not> isTerminator (last is)"
      using runs_unpack[OF i(1)] i(2,3) by (simp_all add: last_map no_end_def)
    then have "unpackInstruction (last ws) = last is" "\<not> isBranch (last is)" using branch_terminator by blast+
    then show ?thesis by (simp add: succs_def)
  qed (simp add: i)
qed

lemma succs_linked: "linked_block code p ws q \<Longrightarrow> succs code p ws = {q}"
  by (auto simp: linked_block_def succs_def)

text \<open>The terminator the parser reads back is the block's last instruction.\<close>

lemma terminator_open: "open_block code (m_offset b) (m_instructions b) q \<Longrightarrow> getTerminator b = None"
proof -
  assume "open_block code (m_offset b) (m_instructions b) q"
  then obtain "is" where i: "runs code (m_offset b) is q" "no_end is" "m_instructions b = map serialize is"
    by (auto simp: open_block_def)
  then show ?thesis using runs_unpack[OF i(1)] by (cases "is = []") (auto simp: getTerminator_def last_map no_end_def Let_def)
qed

lemma terminator_ended:
  assumes "ended_block code (m_offset b) (m_instructions b) q"
  obtains i p where "getTerminator b = Some i" "isTerminator i" "decodeAndShiftPointer code p = Inr (i, q)"
    "body_offset code (m_offset b) p" "succs code (m_offset b) (m_instructions b) =
      (if \<not> isBranch i then {} else if conditional i then {m_extra i, q} else {m_extra i})"
proof -
  obtain "is" i where i: "runs code (m_offset b) (is @ [i]) q" "no_end is" "isTerminator i"
    "m_instructions b = map serialize (is @ [i])"
    using assms by (auto simp: ended_block_def)
  have u: "unpackInstruction (last (m_instructions b)) = i" using runs_unpack[OF i(1)] i(4) by simp
  have g: "getTerminator b = Some i" using u i(3,4) by (simp add: getTerminator_def)
  obtain p r where p: "runs code (m_offset b) is p" "decodeAndShiftPointer code p = Inr (i, r)" "q = next_offset i r"
    using i(1) by (auto elim: runs.cases)
  have "m_opcode i = op_doSpecial" using terminator_special i(3) by blast
  then have q: "q = r" using p(3) by (simp add: next_offset_def)
  have "succs code (m_offset b) (m_instructions b) =
      (if \<not> isBranch i then {} else if conditional i then {m_extra i, q} else {m_extra i})"
    using u i(4) block_end_runs[OF i(1)] by (simp add: succs_def Let_def)
  moreover have "decodeAndShiftPointer code p = Inr (i, q)" using p(2) by (simp add: q)
  moreover have "body_offset code (m_offset b) p" using p(1) by (auto simp: body_offset_def)
  ultimately show thesis using that[OF g i(3)] by blast
qed

section \<open>The state of phase 2\<close>

text \<open>What the invariant says of: the instructions and the referers of each block.\<close>

definition words :: "'a ParsedBytecode_scheme \<Rightarrow> u16 \<Rightarrow> u32 list" where
  "words s p = (case m_offsetToBasicBlock s p of None \<Rightarrow> [] | Some b \<Rightarrow> m_instructions b)"

definition refs :: "'a ParsedBytecode_scheme \<Rightarrow> u16 \<Rightarrow> u16 set" where
  "refs s p = (case m_offsetToBasicBlock s p of None \<Rightarrow> {} | Some b \<Rightarrow> m_referers b)"

definition same_shape :: "'a ParsedBytecode_scheme \<Rightarrow> 'a ParsedBytecode_scheme \<Rightarrow> bool" where
  "same_shape s s' \<longleftrightarrow> m_basicBlocks s' = m_basicBlocks s \<and> dom (m_offsetToBasicBlock s') = dom (m_offsetToBasicBlock s) \<and>
     (blocks_ok s \<longrightarrow> blocks_ok s') \<and> ParsedBytecode.ParsedBytecode.more s' = ParsedBytecode.ParsedBytecode.more s"

lemma same_shape_trans: "same_shape s t \<Longrightarrow> same_shape t u \<Longrightarrow> same_shape s u"
  by (simp add: same_shape_def)

lemma changeReferers_exec:
  assumes "p \<in> dom (m_offsetToBasicBlock s)"
  shows "\<exists>s'. changeReferers p f s = Inr ((), s') \<and> same_shape s s' \<and> words s' = words s \<and>
    refs s' = (refs s)(p := f (refs s p))"
  using assms
  by (auto simp: changeReferers_def changeBlock_def blockAt_def comp_simps same_shape_def blocks_ok_def words_def refs_def fun_eq_iff)

lemma append_exec:
  assumes "p \<in> dom (m_offsetToBasicBlock s)"
  shows "\<exists>s'. changeBlock p (block_append i) s = Inr ((), s') \<and> same_shape s s' \<and>
    words s' = (words s)(p := words s p @ [serialize i]) \<and> refs s' = refs s"
  using assms
  by (auto simp: changeBlock_def blockAt_def comp_simps same_shape_def blocks_ok_def words_def refs_def fun_eq_iff block_append_def)

end
