(* ===== verification/ParsePhases.thy ===== *)
theory ParsePhases
  imports CodeLayout
begin

text \<open>
  The second phase of the parser: an invariant of the loop that fills the basic blocks, kept where one
  block ends and the next begins, by live instructions and by skipped dead code.
\<close>

section \<open>Well-targeted code\<close>

text \<open>
  Every branch of a body leads to one of the body's instructions; a conditional branch is not its last
  instruction; and behind an unconditional one the body ends or a later block begins, so that no dead
  code closes it.
\<close>

definition targeted :: "u8 list \<Rightarrow> u16 \<Rightarrow> u16 \<Rightarrow> bool" where
  "targeted code start stop \<longleftrightarrow> (\<forall>i q. branch_at code start stop i q \<longrightarrow>
     body_offset code start (m_extra i) \<and> m_extra i < stop \<and>
     (if conditional i then q < stop else stop \<le> q \<or> (\<exists>r. leader code start stop r \<and> q \<le> r)))"

definition parsable :: "u8 list \<Rightarrow> u16 set \<Rightarrow> u16 \<Rightarrow> u16 \<Rightarrow> bool" where
  "parsable code P start stop \<longleftrightarrow> instruction_starts code P \<and> start \<in> P \<and> start < stop \<and>
     unat stop \<le> length code \<and> targeted code start stop"

lemma parsable_body:
  assumes "parsable code P start stop" and "body_offset code start p"
  shows "p \<in> P" "unat p \<le> length code" "start \<le> p"
  using assms body_grows[of code P start _ p]
  by (fastforce simp: parsable_def body_offset_def word_less_nat_alt word_le_nat_alt)+

lemma leader_body:
  assumes "parsable code P start stop" and "leader code start stop r"
  shows "body_offset code start r" "r < stop"
proof -
  have "body_offset code start r \<and> r < stop"
  proof (cases "r = start")
    case True
    then show ?thesis using assms(1) body_start by (simp add: parsable_def)
  next
    case False
    then obtain i q where b: "branch_at code start stop i q" "r = m_extra i \<or> conditional i \<and> r = q"
      using assms(2) by (auto simp: leader_def)
    have t: "body_offset code start (m_extra i)" "m_extra i < stop" "conditional i \<Longrightarrow> q < stop"
      using b(1) assms(1) unfolding parsable_def targeted_def by metis+
    obtain p where p: "body_offset code start p" "decodeAndShiftPointer code p = Inr (i, q)" "isBranch i"
      using b(1) by (auto simp: branch_at_def)
    have "body_offset code start (next_offset i q)" by (rule body_next[OF p(1,2)])
    moreover have "next_offset i q = q" using p(3) by (auto simp: next_offset_def isBranch_def)
    ultimately show ?thesis using b(2) t by auto
  qed
  then show "body_offset code start r" "r < stop" by auto
qed

lemma succs_more:
  "runs code p (is @ [i]) q \<Longrightarrow> succs code p (map serialize is @ [serialize i]) =
     (if \<not> isBranch i then {} else if conditional i then {m_extra i, q} else {m_extra i})"
  using runs_unpack[of code p "is @ [i]" q i] block_end_runs[of code p "is @ [i]" q] by (simp add: succs_def Let_def)

section \<open>The invariant\<close>

definition finished :: "u8 list \<Rightarrow> u16 \<Rightarrow> u16 \<Rightarrow> u16 \<Rightarrow> u32 list \<Rightarrow> bool" where
  "finished code start stop p ws \<longleftrightarrow>
     (\<exists>q. ended_block code p ws q) \<or> (\<exists>q. leader code start stop q \<and> linked_block code p ws q)"

definition registered :: "u8 list \<Rightarrow> u16 \<Rightarrow> u16 \<Rightarrow> (u16 \<Rightarrow> u32 list) \<Rightarrow> (u16 \<Rightarrow> u16 set) \<Rightarrow> u16 \<Rightarrow> bool" where
  "registered code start stop W R r \<longleftrightarrow> (\<forall>c\<in>succs code r (W r). leader code start stop c \<and> r \<in> R c)"

text \<open>
  At the byte pointer, with a current block and the flag: the blocks behind are finished and their
  successors know them, the blocks ahead are empty, and every recorded referer is a real one.
\<close>

definition filling :: "u8 list \<Rightarrow> u16 set \<Rightarrow> u16 \<Rightarrow> u16 \<Rightarrow> u16 \<Rightarrow> u16 \<Rightarrow> bool \<Rightarrow>
    (u16 \<Rightarrow> u32 list) \<Rightarrow> (u16 \<Rightarrow> u16 set) \<Rightarrow> bool" where
  "filling code P start stop bp cur te W R \<longleftrightarrow>
     leader code start stop cur \<and> (cur < bp \<or> cur = bp \<and> \<not> te) \<and> bp \<in> P \<and> unat bp \<le> length code \<and>
     (\<not> te \<longrightarrow> body_offset code start bp \<and> open_block code cur (W cur) bp) \<and>
     (te \<longrightarrow> (\<exists>q\<le>bp. ended_block code cur (W cur) q \<and> (stop \<le> q \<longrightarrow> registered code start stop W R cur))) \<and>
     (\<forall>p. leader code start stop p \<longrightarrow> \<not> (cur < p \<and> p < bp)) \<and>
     (\<forall>p. leader code start stop p \<longrightarrow> p \<noteq> cur \<longrightarrow>
        (if p < bp then finished code start stop p (W p) \<and> registered code start stop W R p else W p = [])) \<and>
     (\<forall>c r. r \<in> R c \<longrightarrow> leader code start stop r \<and> c \<in> succs code r (W r))"

lemma filling_refs:
  "filling code P start stop bp cur te W R \<Longrightarrow> r \<in> R c \<Longrightarrow> leader code start stop r \<and> c \<in> succs code r (W r)"
  unfolding filling_def by blast

lemma filling_start:
  assumes "parsable code P start stop"
  shows "filling code P start stop start start False (\<lambda>_. []) (\<lambda>_. {})"
proof -
  have "open_block code start [] start" unfolding open_block_def no_end_def by (intro exI[of _ "[]"]) (simp add: runs_none)
  moreover have "\<not> p < start" if "leader code start stop p" for p
    using parsable_body(3)[OF assms leader_body(1)[OF assms that]] by simp
  ultimately show ?thesis using assms body_start parsable_body[OF assms body_start]
    by (auto simp: filling_def parsable_def leader_def)
qed

text \<open>Skipping an instruction of dead code.\<close>

lemma filling_dead:
  assumes f: "filling code P start stop bp cur True W R" and "parsable code P start stop"
    and "bp < stop" "\<not> leader code start stop bp" and d: "decodeAndShiftPointer code bp = Inr (i, q)"
  shows "filling code P start stop q cur True W R" "unat bp < unat q"
proof -
  have P: "bp \<in> P" "unat bp < length code" "instruction_starts code P"
    using f assms(2,3) by (auto simp: filling_def parsable_def word_less_nat_alt)
  obtain "q \<in> P" "unat bp < unat q" "unat q \<le> length code" "\<And>r. r \<in> P \<Longrightarrow> \<not> (bp < r \<and> r < q)"
    by (rule instruction_startsE[OF P(3,1,2)]) (use d in auto)
  note q = this
  then show "unat bp < unat q" by simp
  have less: "bp < q" using q(2) by (simp add: word_less_nat_alt)
  have lead: "p < q \<longleftrightarrow> p < bp" if "leader code start stop p" for p
    using q(4)[of p] parsable_body(1)[OF assms(2) leader_body(1)[OF assms(2) that]] assms(4) that less
    by (metis less_trans linorder_neqE)
  have cur: "cur < bp" using f by (auto simp: filling_def)
  show "filling code P start stop q cur True W R"
    using f q(1,3) less lead cur unfolding filling_def
    by (auto intro: less_trans le_less_trans order.trans less_imp_le)
qed

text \<open>The current block closes where another begins.\<close>

lemma filling_switch:
  assumes f: "filling code P start stop bp cur te W R" and "leader code start stop bp" "cur < bp"
    and W': "\<And>p. p \<noteq> cur \<Longrightarrow> W' p = W p" "finished code start stop cur (W' cur)"
    and R': "registered code start stop W' R' cur" "\<And>p. R p \<subseteq> R' p" "\<And>p r. r \<in> R' p \<Longrightarrow> r \<noteq> cur \<Longrightarrow> r \<in> R p"
      "\<And>p. cur \<in> R' p \<Longrightarrow> p \<in> succs code cur (W' cur)"
    and "parsable code P start stop"
  shows "filling code P start stop bp bp False W' R'"
proof -
  have "open_block code bp (W' bp) bp"
    unfolding open_block_def no_end_def using f assms(2,3) W'(1)[of bp]
    by (intro exI[of _ "[]"]) (auto simp: filling_def runs_none split: if_splits)
  moreover have "registered code start stop W' R' p" if "leader code start stop p" "p \<noteq> bp" "p < bp" for p
  proof (cases "p = cur")
    case False
    then have "registered code start stop W R p" using f that by (auto simp: filling_def)
    then show ?thesis using W'(1)[OF False] R'(2) by (auto simp: registered_def)
  qed (use R'(1) in simp)
  moreover have "finished code start stop p (W' p)" if "leader code start stop p" "p < bp" for p
    using f that W' by (cases "p = cur") (auto simp: filling_def)
  moreover have "W' p = []" if "leader code start stop p" "\<not> p < bp" for p
    using f that W'(1)[of p] assms(3) by (auto simp: filling_def)
  moreover have "leader code start stop r \<and> c \<in> succs code r (W' r)" if "r \<in> R' c" for r c
  proof (cases "r = cur")
    case True
    then show ?thesis using f that R'(4) by (simp add: filling_def)
  next
    case False
    then have "r \<in> R c" using R'(3) that by blast
    then have "leader code start stop r \<and> c \<in> succs code r (W r)" by (rule filling_refs[OF f])
    then show ?thesis using W'(1)[OF False] by simp
  qed
  ultimately show ?thesis
    using f assms(2) leader_body(1)[OF assms(10) assms(2)] by (auto simp: filling_def)
qed

text \<open>A live instruction is appended; the one that ends the block may register its target.\<close>

lemma filling_append:
  assumes f: "filling code P start stop bp cur False W R" and ok: "parsable code P start stop" and "bp < stop"
    and current: "leader code start stop bp \<Longrightarrow> cur = bp"
    and d: "decodeAndShiftPointer code bp = Inr (i, q)"
    and W': "W' = W(cur := W cur @ [serialize i])"
    and R': "R' = (if isBranch i \<and> stop \<le> q then R(m_extra i := insert cur (R (m_extra i))) else R)"
  shows "filling code P start stop (next_offset i q) cur (isTerminator i) W' R'" "unat bp < unat (next_offset i q)"
    "isBranch i \<Longrightarrow> leader code start stop (m_extra i)"
proof -
  have P: "bp \<in> P" "unat bp < length code" "instruction_starts code P" "body_offset code start bp"
    using f assms(2,3) by (auto simp: filling_def parsable_def word_less_nat_alt)
  let ?n = "next_offset i q"
  obtain n: "?n \<in> P" "unat bp < unat ?n" "unat ?n \<le> length code"
    by (rule instruction_startsE[OF P(3,1,2)]) (use d in auto)
  have less: "bp < ?n" using n(2) by (simp add: word_less_nat_alt)
  have start_P: "start \<in> P" "unat start \<le> length code" using parsable_body[OF ok body_start] by auto
  have lead: "\<not> (cur < p \<and> p < ?n)" if "leader code start stop p" for p
  proof
    assume p: "cur < p \<and> p < ?n"
    then have "\<not> p < bp" using f that by (auto simp: filling_def)
    moreover have "\<not> bp < p" using body_between[OF P(3) start_P P(4) leader_body(1)[OF ok that] _ d] p by auto
    ultimately show False using current that p by auto
  qed
  have behind: "p < ?n \<longleftrightarrow> p < bp" if "leader code start stop p" "p \<noteq> cur" for p
  proof
    assume "p < ?n"
    then have "p < cur" using lead[OF that(1)] that(2) by (meson linorder_neqE)
    then show "p < bp" using f by (auto simp: filling_def)
  next
    assume "p < bp" then show "p < ?n" using less by simp
  qed
  show "unat bp < unat ?n" by (rule n(2))
  have at: "branch_at code start stop i q" if "isBranch i" using that P(4) assms(3) d by (auto simp: branch_at_def)
  show target: "leader code start stop (m_extra i)" if "isBranch i" using at[OF that] by (auto simp: leader_def)
  obtain "is" where i: "runs code cur is bp" "no_end is" "W cur = map serialize is"
    using f by (auto simp: filling_def open_block_def)
  note more = runs_more[OF i(1) d]
  have succ: "succs code cur (W' cur) = (if \<not> isBranch i then {} else if conditional i then {m_extra i, ?n} else {m_extra i})"
    using succs_more[OF more] i(3) by (simp add: W')
  have none: "succs code cur (W cur) = {}" using f succs_open by (auto simp: filling_def)
  have old: "leader code start stop r \<and> r \<noteq> cur \<and> c \<in> succs code r (W r)" if "r \<in> R c" for r c
    using filling_refs[OF f that] none by auto
  have closed: "registered code start stop W' R' cur" if "stop \<le> ?n"
  proof (cases "isBranch i")
    case True
    have "?n = q" using True by (auto simp: next_offset_def isBranch_def)
    moreover have "\<not> conditional i \<or> q < stop" using at[OF True] ok unfolding parsable_def targeted_def by metis
    ultimately have "\<not> conditional i" "stop \<le> q" using that by auto
    then show ?thesis using True target by (simp add: registered_def succ R')
  qed (simp add: registered_def succ)
  have "open_block code cur (W' cur) ?n" if "\<not> isTerminator i"
    unfolding open_block_def using more i that
    by (intro exI[of _ "is @ [i]"]) (auto simp: no_end_def W')
  moreover have "ended_block code cur (W' cur) ?n" if "isTerminator i"
    unfolding ended_block_def using more i that
    by (intro exI[of _ "is"] exI[of _ i]) (auto simp: W')
  moreover have "registered code start stop W' R' p" if "leader code start stop p" "p \<noteq> cur" "p < bp" for p
  proof -
    have "registered code start stop W R p" using f that by (auto simp: filling_def)
    then show ?thesis using that(2) by (auto simp: registered_def W' R')
  qed
  moreover have "leader code start stop r \<and> c \<in> succs code r (W' r)" if "r \<in> R' c" for r c
  proof (cases "r \<in> R c")
    case True
    then show ?thesis using old[OF True] by (simp add: W')
  next
    case False
    then have "r = cur" "isBranch i" "c = m_extra i" using that by (auto simp: R' split: if_splits)
    then show ?thesis using f succ by (auto simp: filling_def)
  qed
  moreover have "cur < ?n" using f less by (auto simp: filling_def)
  ultimately show "filling code P start stop ?n cur (isTerminator i) W' R'"
    using f n(1,3) lead behind closed body_next[OF P(4) d] unfolding filling_def
    by (auto simp: W')
qed

section \<open>Phase 2\<close>

text \<open>The state the phase runs in: a block for every leader.\<close>

definition leaders_present :: "u8 list \<Rightarrow> u16 \<Rightarrow> u16 \<Rightarrow> 'a ParsedBytecode_scheme \<Rightarrow> bool" where
  "leaders_present code start stop s \<longleftrightarrow> blocks_ok s \<and> dom (m_offsetToBasicBlock s) = Collect (leader code start stop)"

abbreviation filling_state :: "u8 list \<Rightarrow> u16 set \<Rightarrow> u16 \<Rightarrow> u16 \<Rightarrow> u16 \<Rightarrow> u16 \<Rightarrow> bool \<Rightarrow> 'a ParsedBytecode_scheme \<Rightarrow> bool" where
  "filling_state code P start stop bp cur te s \<equiv>
     leaders_present code start stop s \<and> filling code P start stop bp cur te (words s) (refs s)"

lemma leaders_same_shape: "leaders_present code start stop s \<Longrightarrow> same_shape s s' \<Longrightarrow> leaders_present code start stop s'"
  by (simp add: leaders_present_def same_shape_def)

lemma leader_block:
  assumes "leaders_present code start stop s" and "leader code start stop p"
  obtains b where "m_offsetToBasicBlock s p = Some b" "m_offset b = p" "m_instructions b = words s p" "blockAt p s = Inr (b, s)"
proof -
  have "p \<in> dom (m_offsetToBasicBlock s)" using assms by (simp add: leaders_present_def)
  then obtain b where b: "m_offsetToBasicBlock s p = Some b" by blast
  then have "m_offset b = p" using assms(1) by (simp add: leaders_present_def blocks_ok_def)
  then show thesis using that[of b] b by (simp add: words_def blockAt_def)
qed

lemma leader_register:
  assumes "leaders_present code start stop s" and "leader code start stop p"
  obtains s' where "changeReferers p f s = Inr ((), s')" "same_shape s s'" "words s' = words s"
    "refs s' = (refs s)(p := f (refs s p))" "leaders_present code start stop s'"
  using changeReferers_exec[of p s f] leaders_same_shape[OF assms(1)] assms
  by (auto simp: leaders_present_def)

lemma ended_behind:
  assumes ok: "parsable code P start stop" and cur: "leader code start stop cur" and e: "ended_block code cur ws q"
  shows "cur < q" and "body_offset code cur p \<Longrightarrow> decodeAndShiftPointer code p = Inr (i, q) \<Longrightarrow> q \<le> stop \<Longrightarrow> isBranch i \<Longrightarrow>
    branch_at code start stop i q"
proof -
  note at = leader_body[OF ok cur]
  note in_P = parsable_body(1,2)[OF ok at(1)]
  have starts: "instruction_starts code P" using ok by (simp add: parsable_def)
  obtain "is" j where r: "runs code cur (is @ [j]) q" using e by (auto simp: ended_block_def)
  show "cur < q" using body_grows[OF starts in_P r] by (simp add: word_less_nat_alt)
  assume p: "body_offset code cur p" "decodeAndShiftPointer code p = Inr (i, q)" "q \<le> stop" "isBranch i"
  have "length code < 2 ^ 16" using starts by (simp add: instruction_starts_def)
  then have "p < q" using decode_step[OF p(2)] by (simp add: word_less_nat_alt)
  then show "branch_at code start stop i q"
    using p body_offset_trans[OF at(1) p(1)] by (auto simp: branch_at_def)
qed

text \<open>Entering a block: the one before learns its successors, and is linked to this one if it is open.\<close>

lemma updateReferences_returns:
  assumes s: "filling_state code P start stop bp cur te s" and lead: "leader code start stop bp" and behind: "cur < bp"
    and ok: "parsable code P start stop"
  obtains s' where "updateReferences cur bp bp s = Inr ((), s')" "same_shape s s'" "filling_state code P start stop bp bp False s'"
proof -
  have f: "filling code P start stop bp cur te (words s) (refs s)" and l: "leaders_present code start stop s" using s by auto
  have cur: "leader code start stop cur" using f by (simp add: filling_def)
  obtain b where b: "m_offset b = cur" "m_instructions b = words s cur" "blockAt cur s = Inr (b, s)"
    by (rule leader_block[OF l cur])
  note refs_cur = filling_refs[OF f, of cur]
  note switch = filling_switch[OF f lead behind _ _ _ _ _ _ ok]
  show thesis
  proof (cases te)
    case False
    then have o: "open_block code cur (words s cur) bp" using f by (simp add: filling_def)
    then have t: "getTerminator b = None" using terminator_open[of code b bp] b by simp
    obtain u where u: "changeBlock cur (block_append (goto bp)) s = Inr ((), u)" "same_shape s u"
      "words u = (words s)(cur := words s cur @ [serialize (goto bp)])" "refs u = refs s"
      using append_exec[of cur s "goto bp"] l cur by (auto simp: leaders_present_def)
    obtain s' where s': "changeReferers bp (insert cur) u = Inr ((), s')" "same_shape u s'" "words s' = words u"
      "refs s' = (refs u)(bp := insert cur (refs u bp))" "leaders_present code start stop s'"
      by (rule leader_register[OF leaders_same_shape[OF l u(2)] lead])
    have linked: "linked_block code cur (words s' cur) bp"
      using o by (auto simp: open_block_def linked_block_def s'(3) u(3))
    have "cur \<notin> refs s p" for p using refs_cur succs_open[OF o] by auto
    then have "filling code P start stop bp bp False (words s') (refs s')"
      by (intro switch) (use linked succs_linked[OF linked] lead in
        \<open>auto simp: s' u finished_def registered_def split: if_splits\<close>)
    then show thesis using that b(3) t u(1) s' same_shape_trans[OF u(2) s'(2)] by (simp add: updateReferences_def bnd_def)
  next
    case True
    then obtain q where q: "q \<le> bp" "ended_block code cur (words s cur) q" using f by (auto simp: filling_def)
    then have fin: "finished code start stop cur (words s cur)" by (auto simp: finished_def)
    obtain i p where t: "getTerminator b = Some i" "decodeAndShiftPointer code p = Inr (i, q)" "body_offset code cur p"
      and succ: "succs code cur (words s cur) = (if \<not> isBranch i then {} else if conditional i then {m_extra i, q} else {m_extra i})"
      using terminator_ended[of code b q] q(2) b(1,2) by (metis (no_types, lifting))
    note e = ended_behind[OF ok cur q(2)]
    show thesis
    proof (cases "isBranch i")
      case False
      then have "filling code P start stop bp bp False (words s) (refs s)"
        by (intro switch) (use fin succ refs_cur in \<open>auto simp: registered_def\<close>)
      then show thesis using that[of s] b(3) t(1) False l by (simp add: updateReferences_def comp_simps same_shape_def)
    next
      case branch: True
      have "q \<le> stop" using q(1) leader_body(2)[OF ok lead] by simp
      note at = e(2)[OF t(3,2) this branch]
      have target: "leader code start stop (m_extra i)" using at by (auto simp: leader_def)
      show thesis
      proof (cases "conditional i")
        case False
        obtain s' where s': "changeReferers (m_extra i) (insert cur) s = Inr ((), s')" "same_shape s s'" "words s' = words s"
          "refs s' = (refs s)(m_extra i := insert cur (refs s (m_extra i)))" "leaders_present code start stop s'"
          by (rule leader_register[OF l target])
        have "filling code P start stop bp bp False (words s') (refs s')"
          by (intro switch) (use fin succ refs_cur target branch False in \<open>auto simp: s' registered_def split: if_splits\<close>)
        then show thesis using that b(3) t(1) branch False s' by (simp add: updateReferences_def bnd_def)
      next
        case True
        then have "leader code start stop q" using at by (auto simp: leader_def)
        then have "q = bp" using f e(1) q(1) by (auto simp: filling_def)
        obtain u where u: "changeReferers bp (insert cur) s = Inr ((), u)" "same_shape s u" "words u = words s"
          "refs u = (refs s)(bp := insert cur (refs s bp))" "leaders_present code start stop u"
          by (rule leader_register[OF l lead])
        obtain s' where s': "changeReferers (m_extra i) (insert cur) u = Inr ((), s')" "same_shape u s'" "words s' = words u"
          "refs s' = (refs u)(m_extra i := insert cur (refs u (m_extra i)))" "leaders_present code start stop s'"
          by (rule leader_register[OF u(5) target])
        have "filling code P start stop bp bp False (words s') (refs s')"
          by (intro switch) (use fin succ refs_cur target lead branch True \<open>q = bp\<close> in
            \<open>auto simp: s' u registered_def split: if_splits\<close>)
        then show thesis using that b(3) t(1) branch True u(1) s' same_shape_trans[OF u(2) s'(2)]
          by (simp add: updateReferences_def bnd_def)
      qed
    qed
  qed
qed

lemma populate_unfold:
  assumes "bp < stop" and "sw \<longleftrightarrow> bp \<noteq> start \<and> m_offsetToBasicBlock s bp \<noteq> None"
    and "(if sw then updateReferences cur bp bp else ret ()) s = Inr ((), t)" and "decodeAndShiftPointer code bp = Inr (i, q)"
  shows "populate code start stop (Suc n) bp cur te s =
    (if \<not> sw \<and> te then populate code start stop n q (if sw then bp else cur) True t
     else bnd (changeBlock (if sw then bp else cur) (block_append i)) (\<lambda>_.
       if m_opcode i = op_pushBlock
       then bnd (guard AssertFailed (unat (m_extra i) < length code)) (\<lambda>_.
            populate code start stop n (m_extra i) (if sw then bp else cur) False)
       else bnd (if q \<ge> stop \<and> isBranch i then changeReferers (m_extra i) (insert (if sw then bp else cur)) else ret ()) (\<lambda>_.
            populate code start stop n q (if sw then bp else cur) (isTerminator i))) t)"
proof -
  have g: "gets (\<lambda>s. bp \<noteq> start \<and> m_offsetToBasicBlock s bp \<noteq> None) s = Inr (sw, s)"
    by (simp add: gets_def assms(2))
  have d: "lift_res (decodeAndShiftPointer code bp) t = Inr ((i, q), t)" using assms(4) by (simp add: lift_res_def)
  show ?thesis using assms(1)
    by (simp only: populate.simps bnd_def g assms(3) d sum.case prod.case Let_def not_True_eq_False if_False) (simp add: bnd_def)
qed

lemma populate_returns:
  assumes ok: "parsable code P start stop"
  shows "filling_state code P start stop bp cur te s \<Longrightarrow> (if bp = start then cur = start else cur < bp) \<Longrightarrow>
    length code < n + unat bp \<Longrightarrow>
    \<exists>s' bp' cur' te'. populate code start stop n bp cur te s = Inr ((), s') \<and> same_shape s s' \<and>
      filling_state code P start stop bp' cur' te' s' \<and> stop \<le> bp'"
proof (induction n arbitrary: bp cur te s)
  case 0
  then have "unat bp \<le> length code" unfolding filling_def by blast
  then show ?case using 0 by simp
next
  case (Suc n)
  let ?goal = "\<lambda>run. \<exists>s' bp' cur' te'. run = Inr ((), s') \<and> same_shape s s' \<and>
      filling_state code P start stop bp' cur' te' s' \<and> stop \<le> bp'"
  show ?case
  proof (cases "bp < stop")
    case False
    have "populate code start stop (Suc n) bp cur te s = Inr ((), s)" using False by (simp add: comp_simps)
    moreover have "same_shape s s" by (simp add: same_shape_def)
    ultimately show ?thesis using Suc.prems(1) False by (metis linorder_not_less)
  next
    case True
    define sw where "sw \<longleftrightarrow> bp \<noteq> start \<and> m_offsetToBasicBlock s bp \<noteq> None"
    have l: "leaders_present code start stop s" using Suc.prems(1) by simp
    have known: "m_offsetToBasicBlock s p \<noteq> None \<longleftrightarrow> leader code start stop p" for p
      using l by (auto simp: leaders_present_def)
    obtain t where t: "(if sw then updateReferences cur bp bp else ret ()) s = Inr ((), t)" "same_shape s t"
      "filling_state code P start stop bp (if sw then bp else cur) (\<not> sw \<and> te) t"
    proof (cases sw)
      case sw: True
      then have "cur < bp" using Suc.prems(2) by (auto simp: sw_def)
      from updateReferences_returns[OF Suc.prems(1) _ this ok] known sw_def sw obtain u where
        "updateReferences cur bp bp s = Inr ((), u)" "same_shape s u" "filling_state code P start stop bp bp False u" by blast
      then show thesis using that[of u] sw by simp
    next
      case False
      then show thesis using that[of s] Suc.prems(1) by (simp only: if_False simp_thms) (simp add: comp_simps same_shape_def)
    qed
    let ?cur = "if sw then bp else cur" and ?te = "\<not> sw \<and> te"
    have f: "filling code P start stop bp ?cur ?te (words t) (refs t)" using t(3) by simp
    have P: "bp \<in> P" "unat bp < length code" "instruction_starts code P"
      using f ok True by (auto simp: filling_def parsable_def word_less_nat_alt)
    obtain i q where d: "decodeAndShiftPointer code bp = Inr (i, q)" "m_opcode i = op_pushBlock \<Longrightarrow> unat (m_extra i) < length code"
      by (rule instruction_startsE[OF P(3,1,2)]) blast
    have start_le: "start \<le> bp"
      using f parsable_body(3)[OF ok leader_body(1)[OF ok, of ?cur]] by (auto simp: filling_def)
    show ?thesis
    proof (cases ?te)
      case te: True
      have now: te "\<not> sw" using te by auto
      have "cur < bp" using now(1) Suc.prems(1) unfolding filling_def by blast
      then have "bp \<noteq> start" using Suc.prems(2) by auto
      then have "\<not> leader code start stop bp" using now(2) known[of bp] sw_def by blast
      note dead = filling_dead[OF f[unfolded eqTrueI[OF te]] ok True this d(1)]
      have step: "populate code start stop (Suc n) bp cur te s = populate code start stop n q ?cur True t"
        using te by (subst populate_unfold[OF True sw_def t(1) d(1)]) simp
      have "start < q" using dead(2) start_le by (simp add: word_less_nat_alt word_le_nat_alt)
      then have pos: "if q = start then ?cur = start else ?cur < q" using dead(1) by (auto simp: filling_def)
      have "filling_state code P start stop q ?cur True t" using dead(1) t(3) by simp
      moreover have "length code < n + unat q" using Suc.prems(3) dead(2) by linarith
      ultimately have "?goal (populate code start stop n q ?cur True t)"
        using Suc.IH[OF _ pos] same_shape_trans[OF t(2)] by meson
      then show ?thesis unfolding step .
    next
      case te: False
      have f0: "filling code P start stop bp ?cur False (words t) (refs t)" using f by (simp only: te)
      have cur: "leader code start stop ?cur" using f by (simp add: filling_def)
      obtain u where u: "changeBlock ?cur (block_append i) t = Inr ((), u)" "same_shape t u"
        "words u = (words t)(?cur := words t ?cur @ [serialize i])" "refs u = refs t"
        using append_exec[of ?cur t i] t(3) cur by (auto simp: leaders_present_def)
      note lu = leaders_same_shape[OF conjunct1[OF t(3)] u(2)]
      let ?R = "if isBranch i \<and> stop \<le> q then (refs t)(m_extra i := insert ?cur (refs t (m_extra i))) else refs t"
      have here: "?cur = bp" if "leader code start stop bp" using that known[of bp] Suc.prems(2) by (auto simp: sw_def)
      note app = filling_append[OF f0 ok True here d(1) u(3) refl[of ?R]]
      obtain v where v: "(if q \<ge> stop \<and> isBranch i then changeReferers (m_extra i) (insert ?cur) else ret ()) u = Inr ((), v)"
        "same_shape u v" "words v = words u" "refs v = ?R" "leaders_present code start stop v"
      proof (cases "isBranch i \<and> stop \<le> q")
        case br: True
        obtain v where "changeReferers (m_extra i) (insert ?cur) u = Inr ((), v)" "same_shape u v" "words v = words u"
          "refs v = (refs u)(m_extra i := insert ?cur (refs u (m_extra i)))" "leaders_present code start stop v"
          by (rule leader_register[OF lu app(3)]) (use br in auto)
        then show thesis using that[of v] br u(4) by simp
      next
        case False
        then show thesis using that[of u] lu u(4) by (auto simp: comp_simps same_shape_def)
      qed
      have step: "populate code start stop (Suc n) bp cur te s =
          populate code start stop n (next_offset i q) ?cur (isTerminator i) v"
      proof (cases "m_opcode i = op_pushBlock")
        case block: True
        then have "v = u" "next_offset i q = m_extra i" "\<not> isTerminator i"
          using v(1) by (auto simp: isBranch_def next_offset_def isTerminator_def comp_simps)
        then show ?thesis using te u(1) block d(2) by (subst populate_unfold[OF True sw_def t(1) d(1)]) (use te in \<open>auto simp: bnd_def guard_def\<close>)
      next
        case False
        then have "next_offset i q = q" by (simp add: next_offset_def)
        then show ?thesis using te u(1) False v(1) by (subst populate_unfold[OF True sw_def t(1) d(1)]) (use te in \<open>auto simp: bnd_def\<close>)
      qed
      have "start < next_offset i q" using app(2) start_le by (simp add: word_less_nat_alt word_le_nat_alt)
      moreover have "?cur \<le> bp" using f unfolding filling_def
        by (elim conjE disjE) (simp_all only: order.refl order.strict_implies_order)
      then have "?cur < next_offset i q" using app(2) le_less_trans word_less_nat_alt by blast
      ultimately have pos: "if next_offset i q = start then ?cur = start else ?cur < next_offset i q"
        by (metis less_irrefl)
      have fv: "filling_state code P start stop (next_offset i q) ?cur (isTerminator i) v" using app(1) v by simp
      have "length code < n + unat (next_offset i q)" using Suc.prems(3) app(2) by linarith
      from Suc.IH[OF fv pos this] have "?goal (populate code start stop n (next_offset i q) ?cur (isTerminator i) v)"
        using same_shape_trans[OF t(2) same_shape_trans[OF u(2) same_shape_trans[OF v(2)]]] by meson
      then show ?thesis unfolding step .
    qed
  qed
qed

end
