(* ===== verification/ParsedCorrect.thy ===== *)
theory ParsedCorrect
  imports ParsePhases
begin

text \<open>
  The third phase, which removes unreachable blocks, and the parser as a whole: the control-flow graph of
  a well-formed method and of its nested blocks, and two inputs on which the parser goes wrong.
\<close>

lemma runs_last:
  assumes "runs code p (is @ [i]) q"
  shows "\<exists>r r'. runs code p is r \<and> decodeAndShiftPointer code r = Inr (i, r') \<and> q = next_offset i r'"
  using assms by (cases rule: runs.cases) auto

text \<open>At the end of the body every block's successors know it.\<close>

lemma filling_end:
  assumes f: "filling code P start stop bp cur te W R" and ok: "parsable code P start stop" and atEnd: "stop \<le> bp"
    and r: "leader code start stop r"
  shows "registered code start stop W R r" "finished code start stop r (W r) \<or> (\<exists>q. stop \<le> q \<and> open_block code r (W r) q)"
proof -
  have "r < bp" using leader_body(2)[OF ok r] atEnd by simp
  then have other: "finished code start stop r (W r) \<and> registered code start stop W R r" if "r \<noteq> cur"
    using f r that unfolding filling_def by metis
  have "registered code start stop W R cur \<and> (finished code start stop cur (W cur) \<or> (\<exists>q. stop \<le> q \<and> open_block code cur (W cur) q))"
  proof (cases te)
    case False
    then have "open_block code cur (W cur) bp" using f by (simp add: filling_def)
    then show ?thesis using succs_open atEnd by (auto simp: registered_def)
  next
    case True
    then obtain q where q: "q \<le> bp" "ended_block code cur (W cur) q" "stop \<le> q \<longrightarrow> registered code start stop W R cur"
      using f by (auto simp: filling_def)
    have cur: "leader code start stop cur" using f by (simp add: filling_def)
    note e = ended_behind[OF ok cur q(2)]
    have between: "\<not> (cur < p \<and> p < bp)" if "leader code start stop p" for p using f that by (auto simp: filling_def)
    have "registered code start stop W R cur"
    proof (cases "stop \<le> q")
      case False
      obtain is' i' where w: "W cur = map serialize is' @ [serialize i']" "runs code cur (is' @ [i']) q" "isTerminator i'"
        using q(2) by (auto simp: ended_block_def)
      obtain p where p: "body_offset code cur p" "decodeAndShiftPointer code p = Inr (i', q)"
        using runs_last[OF w(2)] terminator_special[of i'] w(3) by (auto simp: next_offset_def body_offset_def)
      have "\<not> isBranch i'"
      proof
        assume "isBranch i'"
        then have at: "branch_at code start stop i' q" using e(2)[OF p] False by simp
        show False
        proof (cases "conditional i'")
          case True
          then have "leader code start stop q" using at by (auto simp: leader_def)
          then show False using between e(1) False atEnd by fastforce
        next
          case False
          then obtain r where "leader code start stop r" "q \<le> r"
            using at ok \<open>\<not> stop \<le> q\<close> unfolding parsable_def targeted_def by metis
          then show False using between[of r] e(1) leader_body(2)[OF ok, of r] atEnd by fastforce
        qed
      qed
      then show ?thesis using succs_more[OF w(2)] by (simp add: registered_def w(1))
    qed (use q(3) in simp)
    then show ?thesis using q(2) by (auto simp: finished_def)
  qed
  then show "registered code start stop W R r" "finished code start stop r (W r) \<or> (\<exists>q. stop \<le> q \<and> open_block code r (W r) q)"
    using other by (cases "r = cur"; blast)+
qed

section \<open>Phase 3\<close>

text \<open>The blocks that are left, with all their successors, the start block among them.\<close>

definition closed_graph :: "u8 list \<Rightarrow> u16 \<Rightarrow> 'a ParsedBytecode_scheme \<Rightarrow> bool" where
  "closed_graph code start s \<longleftrightarrow> blocks_ok s \<and> m_offsetToBasicBlock s start \<noteq> None \<and>
     (\<forall>p b. m_offsetToBasicBlock s p = Some b \<longrightarrow> (\<forall>c\<in>succs code p (m_instructions b).
        \<exists>bc. m_offsetToBasicBlock s c = Some bc \<and> p \<in> m_referers bc))"

definition subgraph :: "'a ParsedBytecode_scheme \<Rightarrow> 'a ParsedBytecode_scheme \<Rightarrow> bool" where
  "subgraph s s' \<longleftrightarrow> ParsedBytecode.ParsedBytecode.more s' = ParsedBytecode.ParsedBytecode.more s \<and>
     (\<forall>p b'. m_offsetToBasicBlock s' p = Some b' \<longrightarrow>
        (\<exists>b. m_offsetToBasicBlock s p = Some b \<and> m_instructions b' = m_instructions b \<and> m_referers b' \<subseteq> m_referers b))"

lemma subgraph_refl: "subgraph s s"
  by (simp add: subgraph_def)

lemma subgraph_trans: "subgraph s t \<Longrightarrow> subgraph t u \<Longrightarrow> subgraph s u"
  by (force simp: subgraph_def)

text \<open>Removing a referer that is going to be erased.\<close>

definition closed_but :: "u8 list \<Rightarrow> u16 \<Rightarrow> u16 \<Rightarrow> 'a ParsedBytecode_scheme \<Rightarrow> bool" where
  "closed_but code start x s \<longleftrightarrow> blocks_ok s \<and> m_offsetToBasicBlock s start \<noteq> None \<and> x \<noteq> start \<and>
     (\<exists>bx. m_offsetToBasicBlock s x = Some bx \<and> m_referers bx = {}) \<and>
     (\<forall>p b. m_offsetToBasicBlock s p = Some b \<longrightarrow> p \<noteq> x \<longrightarrow> (\<forall>c\<in>succs code p (m_instructions b).
        \<exists>bc. m_offsetToBasicBlock s c = Some bc \<and> p \<in> m_referers bc))"

lemma eraseReferer_closed:
  assumes "closed_but code start x s" and "m_offsetToBasicBlock s t = Some b"
  shows "\<exists>s'. eraseReferer t x s = Inr ((), s') \<and> closed_but code start x s' \<and> subgraph s s' \<and>
    m_basicBlocks s' = m_basicBlocks s \<and> dom (m_offsetToBasicBlock s') = dom (m_offsetToBasicBlock s)"
proof -
  let ?s = "s\<lparr>m_offsetToBasicBlock := (m_offsetToBasicBlock s)(t \<mapsto> b\<lparr>m_referers := m_referers b - {x}\<rparr>)\<rparr>"
  have e: "eraseReferer t x s = Inr ((), ?s)"
    using assms(2) by (simp add: eraseReferer_def changeReferers_def changeBlock_def blockAt_def comp_simps)
  have "blocks_ok ?s" using assms by (auto simp: closed_but_def blocks_ok_def)
  moreover have "subgraph s ?s" using assms(2) by (auto simp: subgraph_def)
  moreover have "\<exists>bx. m_offsetToBasicBlock ?s x = Some bx \<and> m_referers bx = {}"
    using assms by (auto simp: closed_but_def)
  moreover have "\<exists>bc. m_offsetToBasicBlock ?s c = Some bc \<and> p \<in> m_referers bc"
    if p: "m_offsetToBasicBlock ?s p = Some bp" "p \<noteq> x" "c \<in> succs code p (m_instructions bp)" for p bp c
  proof -
    obtain b0 where b0: "m_offsetToBasicBlock s p = Some b0" "m_instructions b0 = m_instructions bp"
      using p(1) assms(2) by (auto split: if_splits)
    then obtain bc where "m_offsetToBasicBlock s c = Some bc" "p \<in> m_referers bc"
      using assms(1) p(2,3) unfolding closed_but_def by metis
    then show ?thesis using assms(2) p(2) by auto
  qed
  ultimately have "closed_but code start x ?s" using assms(1) by (auto simp: closed_but_def)
  then show ?thesis using e \<open>subgraph s ?s\<close> assms(2) by (intro exI[of _ ?s]) auto
qed

lemma nextBlockFrom_known: "nextBlockFrom m offset stop = p \<Longrightarrow> p \<noteq> 0 \<Longrightarrow> m p \<noteq> None"
  by (induction m offset stop rule: nextBlockFrom.induct) (auto simp: nextBlockFrom.simps split: if_splits)

lemma erase_closed:
  assumes "closed_but code start x s"
  shows "closed_graph code start (eraseBasicBlock x s)" "subgraph s (eraseBasicBlock x s)"
proof -
  have ok: "blocks_ok (eraseBasicBlock x s)"
    using assms by (auto simp: closed_but_def blocks_ok_def eraseBasicBlock_def)
  have "\<exists>bc. m_offsetToBasicBlock (eraseBasicBlock x s) c = Some bc \<and> p \<in> m_referers bc"
    if q: "m_offsetToBasicBlock (eraseBasicBlock x s) p = Some b" "c \<in> succs code p (m_instructions b)" for p b c
  proof -
    have p: "p \<noteq> x" "m_offsetToBasicBlock s p = Some b" using q(1) by (auto simp: eraseBasicBlock_def split: if_splits)
    then obtain bc where bc: "m_offsetToBasicBlock s c = Some bc" "p \<in> m_referers bc"
      using assms q(2) unfolding closed_but_def by blast
    then have "c \<noteq> x" using assms by (auto simp: closed_but_def)
    then show ?thesis using bc by (simp add: eraseBasicBlock_def)
  qed
  then show "closed_graph code start (eraseBasicBlock x s)" using ok assms
    by (auto simp: closed_graph_def closed_but_def eraseBasicBlock_def)
  show "subgraph s (eraseBasicBlock x s)" by (auto simp: subgraph_def eraseBasicBlock_def split: if_splits)
qed

lemma eraseUnreachable_closed:
  assumes g: "closed_graph code start s" and b: "m_offsetToBasicBlock s x = Some b" "m_referers b = {}" and x: "x \<noteq> start"
  shows "\<exists>s'. eraseUnreachable stop x s = Inr ((), s') \<and> closed_graph code start s' \<and> subgraph s s' \<and>
    dom (m_offsetToBasicBlock s') = dom (m_offsetToBasicBlock s) - {x}"
proof -
  have c: "closed_but code start x s" using assms by (auto simp: closed_graph_def closed_but_def)
  have "\<exists>t. (case getTerminator b of
            Some terminator \<Rightarrow>
              (if isBranch terminator
               then bnd (gets (\<lambda>s. if special_cast (m_argument terminator) = spc_branch then 0
                                    else getNextBlockOffset x stop s)) (\<lambda>skipOffset.
                    bnd (eraseReferer (m_extra terminator) x) (\<lambda>_.
                    if skipOffset \<noteq> 0 then eraseReferer skipOffset x else ret ()))
               else ret ())
          | None \<Rightarrow> ret ()) s = Inr ((), t) \<and> closed_but code start x t \<and> subgraph s t \<and>
      dom (m_offsetToBasicBlock t) = dom (m_offsetToBasicBlock s)"
  proof (cases "\<exists>i. getTerminator b = Some i \<and> isBranch i")
    case False
    then show ?thesis using c by (intro exI[of _ s]) (auto simp: comp_simps subgraph_refl split: option.split)
  next
    case True
    then obtain i where i: "getTerminator b = Some i" "isBranch i" by blast
    have "m_extra i \<in> succs code x (m_instructions b)"
      using i by (auto simp: getTerminator_def succs_def Let_def split: if_splits)
    then obtain bt where bt: "m_offsetToBasicBlock s (m_extra i) = Some bt"
      using g b(1) unfolding closed_graph_def by blast
    obtain t where t: "eraseReferer (m_extra i) x s = Inr ((), t)" "closed_but code start x t" "subgraph s t"
      "dom (m_offsetToBasicBlock t) = dom (m_offsetToBasicBlock s)"
      using eraseReferer_closed[OF c bt] by blast
    define skip where "skip = (if special_cast (m_argument i) = spc_branch then 0 else getNextBlockOffset x stop s)"
    have known: "skip \<noteq> 0 \<Longrightarrow> skip \<in> dom (m_offsetToBasicBlock t)"
      using nextBlockFrom_known t(4) by (auto simp: skip_def getNextBlockOffset_def split: if_splits)
    have "\<exists>u. (if skip \<noteq> 0 then eraseReferer skip x else ret ()) t = Inr ((), u) \<and> closed_but code start x u \<and>
      subgraph t u \<and> dom (m_offsetToBasicBlock u) = dom (m_offsetToBasicBlock t)"
    proof (cases "skip = 0")
      case True
      then show ?thesis using t(2) subgraph_refl[of t] by (intro exI[of _ t]) (simp add: comp_simps)
    next
      case False
      then show ?thesis using eraseReferer_closed[OF t(2)] known[OF False] False by fastforce
    qed
    then obtain u where "(if skip \<noteq> 0 then eraseReferer skip x else ret ()) t = Inr ((), u)" "closed_but code start x u"
      "subgraph t u" "dom (m_offsetToBasicBlock u) = dom (m_offsetToBasicBlock t)" by blast
    then show ?thesis using i t subgraph_trans[OF t(3)]
      by (intro exI[of _ u]) (simp add: bnd_def gets_def skip_def[symmetric])
  qed
  then obtain t where t: "(case getTerminator b of
            Some terminator \<Rightarrow>
              (if isBranch terminator
               then bnd (gets (\<lambda>s. if special_cast (m_argument terminator) = spc_branch then 0
                                    else getNextBlockOffset x stop s)) (\<lambda>skipOffset.
                    bnd (eraseReferer (m_extra terminator) x) (\<lambda>_.
                    if skipOffset \<noteq> 0 then eraseReferer skipOffset x else ret ()))
               else ret ())
          | None \<Rightarrow> ret ()) s = Inr ((), t)" "closed_but code start x t" "subgraph s t"
      "dom (m_offsetToBasicBlock t) = dom (m_offsetToBasicBlock s)" by blast
  have "eraseUnreachable stop x s = Inr ((), eraseBasicBlock x t)"
    using t(1) b(1) by (simp add: eraseUnreachable_def bnd_def blockAt_def modify_def)
  then show ?thesis using erase_closed[OF t(2)] subgraph_trans[OF t(3)] t(4) by (auto simp: eraseBasicBlock_def)
qed

lemma wipePass_closed:
  "closed_graph code start s \<Longrightarrow> set bs \<subseteq> dom (m_offsetToBasicBlock s) \<Longrightarrow> distinct bs \<Longrightarrow>
   \<exists>r' s'. wipePass start stop bs r s = Inr (r', s') \<and> closed_graph code start s' \<and> subgraph s s' \<and>
     (\<not> r' \<longrightarrow> s' = s \<and> \<not> r \<and> (\<forall>p\<in>set bs. \<forall>b. m_offsetToBasicBlock s p = Some b \<longrightarrow> p \<noteq> start \<longrightarrow> m_referers b \<noteq> {}))"
proof (induction bs arbitrary: s r)
  case Nil
  then show ?case using subgraph_refl by (auto simp: comp_simps)
next
  case (Cons p bs)
  obtain b where b: "m_offsetToBasicBlock s p = Some b" using Cons.prems(2) by auto
  then have at: "blockAt p s = Inr (b, s)" "m_offset b = p"
    using Cons.prems(1) by (auto simp: blockAt_def closed_graph_def blocks_ok_def)
  show ?case
  proof (cases "m_referers b = {} \<and> p \<noteq> start")
    case True
    obtain t where t: "eraseUnreachable stop p s = Inr ((), t)" "closed_graph code start t" "subgraph s t"
      "dom (m_offsetToBasicBlock t) = dom (m_offsetToBasicBlock s) - {p}"
      using eraseUnreachable_closed[OF Cons.prems(1) b] True by blast
    have step: "wipePass start stop (p # bs) r s = wipePass start stop bs True t"
      using at True t(1) by (simp add: bnd_def)
    have "set bs \<subseteq> dom (m_offsetToBasicBlock t)" "distinct bs" using Cons.prems(2,3) t(4) by auto
    from Cons.IH[OF t(2) this, of True] show ?thesis unfolding step using subgraph_trans[OF t(3)] by blast
  next
    case False
    have step: "wipePass start stop (p # bs) r s = wipePass start stop bs r s" using at False by (auto simp: bnd_def)
    have "set bs \<subseteq> dom (m_offsetToBasicBlock s)" "distinct bs" using Cons.prems(2,3) by auto
    from Cons.IH[OF Cons.prems(1) this, of r] show ?thesis unfolding step using b False by fastforce
  qed
qed

lemma wipeUnreachable_closed:
  "closed_graph code start s \<Longrightarrow>
   \<exists>s'. wipeUnreachable start stop s = Inr ((), s') \<and> closed_graph code start s' \<and> subgraph s s' \<and>
     (\<forall>p b. m_offsetToBasicBlock s' p = Some b \<longrightarrow> p \<noteq> start \<longrightarrow> m_referers b \<noteq> {})"
proof (induction start stop s rule: wipeUnreachable.induct)
  case (1 start stop s)
  have l: "set (m_basicBlocks s) = dom (m_offsetToBasicBlock s)" "distinct (m_basicBlocks s)"
    using "1.prems" by (simp_all add: closed_graph_def blocks_ok_def)
  then obtain r' s' where w: "wipePass start stop (m_basicBlocks s) False s = Inr (r', s')" "closed_graph code start s'"
    "subgraph s s'" "\<not> r' \<longrightarrow> s' = s \<and> (\<forall>p\<in>set (m_basicBlocks s). \<forall>b. m_offsetToBasicBlock s p = Some b \<longrightarrow> p \<noteq> start \<longrightarrow> m_referers b \<noteq> {})"
    using wipePass_closed[OF "1.prems", of "m_basicBlocks s" stop False] by auto
  show ?case
  proof (cases r')
    case True
    have "wipeUnreachable start stop s = wipeUnreachable start stop s'"
      by (subst wipeUnreachable.simps) (simp add: w(1) True)
    then show ?thesis using "1.IH"[OF w(1) refl True w(2)] subgraph_trans[OF w(3)] by metis
  next
    case False
    have "wipeUnreachable start stop s = Inr ((), s')"
      by (subst wipeUnreachable.simps) (simp add: w(1) False)
    moreover have "\<forall>p b. m_offsetToBasicBlock s' p = Some b \<longrightarrow> p \<noteq> start \<longrightarrow> m_referers b \<noteq> {}"
      using w(4) False l(1) by auto
    ultimately show ?thesis using w(2,3) by blast
  qed
qed

section \<open>The parsed body\<close>

text \<open>
  What a parsed body looks like: its blocks begin at leaders and hold the code from there up to a
  terminator, the next block or the end; every successor of a block is a block again and lists it among
  its referers; every block but the first has a referer, and referers still in the graph are real.
\<close>

definition parsed_body :: "u8 list \<Rightarrow> u16 \<Rightarrow> u16 \<Rightarrow> 'a ParsedBytecode_scheme \<Rightarrow> bool" where
  "parsed_body code start stop s \<longleftrightarrow> closed_graph code start s \<and>
     (\<forall>p b. m_offsetToBasicBlock s p = Some b \<longrightarrow> leader code start stop p \<and>
        (finished code start stop p (m_instructions b) \<or> (\<exists>q. stop \<le> q \<and> open_block code p (m_instructions b) q)) \<and>
        (p \<noteq> start \<longrightarrow> m_referers b \<noteq> {}) \<and>
        (\<forall>r\<in>m_referers b. \<forall>br. m_offsetToBasicBlock s r = Some br \<longrightarrow> p \<in> succs code r (m_instructions br)))"

lemma parsed_body_more: "parsed_body code start stop (s\<lparr>m_basicBlocks := l, m_offsetToBasicBlock := m\<rparr>) \<longleftrightarrow>
    parsed_body code start stop \<lparr>m_basicBlocks = l, m_offsetToBasicBlock = m\<rparr>"
  by (simp add: parsed_body_def closed_graph_def blocks_ok_def)

inductive well_formed :: "u8 list \<Rightarrow> u16 set \<Rightarrow> u16 \<Rightarrow> u16 \<Rightarrow> bool" for code P where
  "parsable code P start stop \<Longrightarrow>
   (\<And>p i q. body_offset code start p \<Longrightarrow> p < stop \<Longrightarrow> decodeAndShiftPointer code p = Inr (i, q) \<Longrightarrow>
      m_opcode i = op_pushBlock \<Longrightarrow> well_formed code P q (m_extra i)) \<Longrightarrow>
   well_formed code P start stop"

inductive_cases well_formedE: "well_formed code P start stop"

lemma fresh_contents:
  assumes "fresh_blocks s"
  shows "words s = (\<lambda>_. [])" "refs s = (\<lambda>_. {})" "blocks_ok s"
proof -
  have b: "b = BasicBlock_new p" if "m_offsetToBasicBlock s p = Some b" for p b
    using assms that by (simp add: fresh_blocks_def)
  show "words s = (\<lambda>_. [])" "refs s = (\<lambda>_. {})"
    by (auto simp: words_def refs_def fun_eq_iff BasicBlock_new_def dest!: b split: option.splits)
  show "blocks_ok s" using assms by (auto simp: blocks_ok_def fresh_blocks_def BasicBlock_new_def dest!: b)
qed

lemma leader_set: "Collect (leader code start stop) = insert start (branches_from code start stop)"
  unfolding set_eq_iff leader_def branches_from_def mem_Collect_eq insert_iff by (intro allI) (rule refl)

lemma parseBytecode_returns:
  fixes Q :: "'a \<Rightarrow> bool"
  assumes w: "parsable code P start stop" and stop: "stop = (if stopOffset \<noteq> 0 then stopOffset else of_nat (length code))"
    and nested: "nested_parser Q pb code start stop"
    and s: "m_basicBlocks s = []" "m_offsetToBasicBlock s = Map.empty" "Q (ParsedBytecode.ParsedBytecode.more s)"
  shows "\<exists>s'. parseBytecode pb code start stopOffset s = Inr ((), s') \<and> parsed_body code start stop s' \<and>
    Q (ParsedBytecode.ParsedBytecode.more s')"
proof -
  have starts: "instruction_starts code P" "start < stop" "unat stop \<le> length code" using w by (auto simp: parsable_def)
  note in_P = parsable_body(1,2)[OF w body_start]
  have "fresh_blocks s" using s by (simp add: fresh_blocks_def)
  moreover have "length code < Suc (length code) + unat start" by simp
  ultimately have "\<exists>t. collectBranches pb code stop (Suc (length code)) start s = Inr ((), t) \<and> fresh_blocks t \<and>
      Q (ParsedBytecode.ParsedBytecode.more t) \<and>
      dom (m_offsetToBasicBlock t) = dom (m_offsetToBasicBlock s) \<union> branches_from code start stop"
    using collectBranches_returns[OF starts(1,3) nested in_P(1) body_start in_P(2)] s(3) by blast
  then obtain t where t: "collectBranches pb code stop (Suc (length code)) start s = Inr ((), t)" "fresh_blocks t"
    "Q (ParsedBytecode.ParsedBytecode.more t)" "dom (m_offsetToBasicBlock t) = branches_from code start stop"
    using s(2) by (simp del: collectBranches.simps) blast
  let ?u = "createStartBlock start t"
  have fresh: "fresh_blocks ?u" using t(2) by simp
  note fresh_contents[OF fresh]
  moreover have "leaders_present code start stop ?u"
    using fresh_contents(3)[OF fresh] t(2,4) by (simp add: leaders_present_def leader_set)
  ultimately have f: "filling_state code P start stop start start False ?u" using filling_start[OF w] by simp
  obtain v bp cur te where v: "populate code start stop (Suc (2 * length code)) start start False ?u = Inr ((), v)" "same_shape ?u v"
    "filling_state code P start stop bp cur te v" "stop \<le> bp"
    using populate_returns[OF w f, of "Suc (2 * length code)"] by auto
  have fv: "filling code P start stop bp cur te (words v) (refs v)" and lv: "leaders_present code start stop v" using v(3) by auto
  note ends = filling_end[OF fv w v(4)]
  have block: "leader code start stop p \<and> words v p = m_instructions b \<and> refs v p = m_referers b"
    if "m_offsetToBasicBlock v p = Some b" for p b
    using lv that by (auto simp: leaders_present_def words_def refs_def)
  have "\<exists>bc. m_offsetToBasicBlock v c = Some bc \<and> p \<in> m_referers bc"
    if b: "m_offsetToBasicBlock v p = Some b" and c: "c \<in> succs code p (m_instructions b)" for p b c
  proof -
    have "leader code start stop c" "p \<in> refs v c" using ends(1)[of p] block[OF b] c by (auto simp: registered_def)
    then show ?thesis using leader_block[OF lv] by (auto simp: refs_def split: option.splits)
  qed
  then have "closed_graph code start v"
    using lv by (auto simp: closed_graph_def leaders_present_def leader_def)
  then obtain s' where s': "wipeUnreachable start stopOffset v = Inr ((), s')" "closed_graph code start s'" "subgraph v s'"
    "\<forall>p b. m_offsetToBasicBlock s' p = Some b \<longrightarrow> p \<noteq> start \<longrightarrow> m_referers b \<noteq> {}"
    using wipeUnreachable_closed by blast
  have "parsed_body code start stop s'"
    unfolding parsed_body_def
  proof (intro conjI allI impI ballI)
    fix p b assume "m_offsetToBasicBlock s' p = Some b"
    then obtain b0 where b0: "m_offsetToBasicBlock v p = Some b0" "m_instructions b = m_instructions b0" "m_referers b \<subseteq> m_referers b0"
      using s'(3) unfolding subgraph_def by blast
    show "leader code start stop p" using block[OF b0(1)] by simp
    show "finished code start stop p (m_instructions b) \<or> (\<exists>q. stop \<le> q \<and> open_block code p (m_instructions b) q)"
      using ends(2)[of p] block[OF b0(1)] b0(2) by simp
    fix r br assume r: "r \<in> m_referers b" "m_offsetToBasicBlock s' r = Some br"
    then obtain br0 where "m_offsetToBasicBlock v r = Some br0" "m_instructions br = m_instructions br0"
      using s'(3) unfolding subgraph_def by blast
    then show "p \<in> succs code r (m_instructions br)"
      using filling_refs[OF fv, of r p] r(1) b0 block by auto
  qed (use s'(2,4) in auto)
  moreover have "Q (ParsedBytecode.ParsedBytecode.more s')"
    using t(3) v(2) s'(3) by (simp add: same_shape_def subgraph_def more_create)
  moreover have "parseBytecode pb code start stopOffset s = Inr ((), s')"
    using t(1) v(1) s'(1) starts(2,3)
    by (simp add: parseBytecode_def Let_def stop[symmetric] bnd_def modify_def guard_def word_less_nat_alt)
  ultimately show ?thesis by blast
qed

section \<open>Nested blocks\<close>

definition nested_ok :: "u8 list \<Rightarrow> 'a ParsedMethod_scheme \<Rightarrow> bool" where
  "nested_ok code m \<longleftrightarrow>
     (\<forall>b\<in>set (m_parsedBlocks m). parsed_body code (m_startOffset b) (m_stopOffset b) b) \<and>
     (\<forall>p k. m_offsetToParsedBlock m p = Some k \<longrightarrow> k < length (m_parsedBlocks m) \<and> m_startOffset (m_parsedBlocks m ! k) = p) \<and>
     (\<forall>p k. m_endOffsetToParsedBlock m p = Some k \<longrightarrow> k < length (m_parsedBlocks m) \<and> m_stopOffset (m_parsedBlocks m ! k) = p)"

text \<open>The same property of the container's own fields.\<close>

definition container_ok :: "u8 list \<Rightarrow> 'a ParsedMethod_ext \<Rightarrow> bool" where
  "container_ok code x \<longleftrightarrow> nested_ok code \<lparr>m_basicBlocks = [], m_offsetToBasicBlock = Map.empty, \<dots> = x\<rparr>"

lemma container_more: "container_ok code (ParsedBytecode.ParsedBytecode.more m) \<longleftrightarrow> nested_ok code m"
  by (cases m) (simp add: container_ok_def nested_ok_def)

lemma nested_add:
  fixes m :: ParsedMethod
  assumes "nested_ok code m" and "parsed_body code start stop m"
  shows "nested_ok code (addParsedBlock
    \<lparr>m_basicBlocks = m_basicBlocks m, m_offsetToBasicBlock = m_offsetToBasicBlock m, m_startOffset = start, m_stopOffset = stop\<rparr>
    (m\<lparr>m_basicBlocks := l, m_offsetToBasicBlock := f\<rparr>))"
proof -
  have "parsed_body code start stop
      \<lparr>m_basicBlocks = m_basicBlocks m, m_offsetToBasicBlock = m_offsetToBasicBlock m, m_startOffset = start, m_stopOffset = stop\<rparr>"
    using assms(2) by (simp add: parsed_body_def closed_graph_def blocks_ok_def)
  then show ?thesis using assms(1) by (auto simp: nested_ok_def addParsedBlock_def nth_append less_Suc_eq)
qed

lemma parseNested_returns:
  "well_formed code P start stop \<Longrightarrow> length code < n + unat start \<Longrightarrow>
   keeps_outer (container_ok code) (parseNested n code start stop)"
proof (induction n arbitrary: start stop)
  case 0
  then have "unat start \<le> length code"
    using parsable_body(2)[OF _ body_start] by (blast elim: well_formedE)
  then show ?case using 0 by simp
next
  case (Suc n)
  have w: "parsable code P start stop" using Suc.prems(1) by (auto elim: well_formedE)
  then have stop: "stop = (if stop \<noteq> 0 then stop else of_nat (length code))" by (auto simp: parsable_def)
  have starts: "instruction_starts code P" "unat stop \<le> length code" using w by (auto simp: parsable_def)
  have "keeps_outer (container_ok code) (parseNested n code q (m_extra i))"
    if p: "body_offset code start p" "p < stop" "decodeAndShiftPointer code p = Inr (i, q)" "m_opcode i = op_pushBlock" for p i q
  proof (rule Suc.IH)
    show "well_formed code P q (m_extra i)" using Suc.prems(1) p by (blast elim: well_formedE)
    have "length code < 2 ^ 16" using starts by (simp add: instruction_starts_def)
    then have "unat p < unat q" using decode_step[OF p(3)] by simp
    then show "length code < n + unat q" using Suc.prems(2) parsable_body(3)[OF w p(1)] by (simp add: word_le_nat_alt)
  qed
  then have nested: "nested_parser (container_ok code) (parseNested n code) code start stop"
    by (simp add: nested_parser_def)
  show ?case unfolding keeps_outer_def
  proof (intro allI impI)
    fix s :: ParsedMethod
    assume s: "container_ok code (ParsedBytecode.ParsedBytecode.more s)"
    let ?s = "s\<lparr>m_basicBlocks := [], m_offsetToBasicBlock := Map.empty\<rparr>"
    have "container_ok code (ParsedBytecode.ParsedBytecode.more ?s)" using s by simp
    then obtain t where t: "parseBytecode (parseNested n code) code start stop ?s = Inr ((), t)" "parsed_body code start stop t"
      "container_ok code (ParsedBytecode.ParsedBytecode.more t)"
      using parseBytecode_returns[OF w stop nested, where s = ?s] by fastforce
    let ?t = "addParsedBlock
       \<lparr>m_basicBlocks = m_basicBlocks t, m_offsetToBasicBlock = m_offsetToBasicBlock t, m_startOffset = start, m_stopOffset = stop\<rparr>
       (t\<lparr>m_basicBlocks := m_basicBlocks s, m_offsetToBasicBlock := m_offsetToBasicBlock s\<rparr>)"
    have "parseNested (Suc n) code start stop s = Inr ((), ?t)"
      using t(1) by (simp add: bnd_def gets_def modify_def)
    moreover have "nested_ok code ?t" by (rule nested_add) (use t(2,3) in \<open>simp_all add: container_more\<close>)
    ultimately show "\<exists>s'. parseNested (Suc n) code start stop s = Inr ((), s') \<and> m_basicBlocks s' = m_basicBlocks s \<and>
        m_offsetToBasicBlock s' = m_offsetToBasicBlock s \<and> container_ok code (ParsedBytecode.ParsedBytecode.more s')"
      by (intro exI[of _ ?t]) (simp add: addParsedBlock_def container_more del: parseNested.simps)
  qed
qed

section \<open>Properties\<close>

text \<open>
  C16. The parser returns for every well-formed method and cuts it into the right control-flow graph: each
  block starts at the entry or at a branch target and holds the code from there to its terminator, to
  the next block (with a branch to it added) or to the end; every block a block can continue in is in
  the graph and lists it as a referer, so that no reachable block is lost; the same holds for each
  nested block, and the two maps of nested blocks agree with the list.
\<close>

theorem parse_graph:
  assumes "well_formed code P 0 (of_nat (length code))"
  shows "\<exists>m. ParsedMethod_new code = Inr m \<and> parsed_body code 0 (of_nat (length code)) m \<and> nested_ok code m"
proof -
  let ?stop = "of_nat (length code)"
  have w: "parsable code P 0 ?stop" using assms by (auto elim: well_formedE)
  have starts: "instruction_starts code P" using w by (simp add: parsable_def)
  have "keeps_outer (container_ok code) (parseNested (Suc (length code)) code q (m_extra i))"
    if p: "body_offset code 0 p" "p < ?stop" "decodeAndShiftPointer code p = Inr (i, q)" "m_opcode i = op_pushBlock" for p i q
    by (rule parseNested_returns) (use assms p in \<open>auto elim: well_formedE\<close>)
  then have nested: "nested_parser (container_ok code) (parseNested (Suc (length code)) code) code 0 ?stop"
    by (simp add: nested_parser_def)
  have "container_ok code (ParsedBytecode.ParsedBytecode.more ParsedMethod_empty)"
    unfolding container_more by (simp add: nested_ok_def ParsedMethod_empty_def)
  then obtain m where m: "parseBytecode (parseNested (Suc (length code)) code) code 0 0 ParsedMethod_empty = Inr ((), m)"
    "parsed_body code 0 ?stop m" "container_ok code (ParsedBytecode.ParsedBytecode.more m)"
    using parseBytecode_returns[OF w _ nested, where s = ParsedMethod_empty and stopOffset = 0]
    by (auto simp: ParsedMethod_empty_def simp del: parseNested.simps)
  then show ?thesis by (simp add: ParsedMethod_new_def bndR_def container_more del: parseNested.simps)
qed


text \<open>
  Dead code at the end of a method hides the last branch: its target is never told of it, and is
  removed as unreachable although the branch is still in the graph.
\<close>

theorem dead_tail_loses_target:
  "\<exists>m b. ParsedMethod_new [0xF6, 4, 0, 0xF1, 0xF6, 3, 0, 0xF5] = Inr m \<and> m_basicBlocks m = [0, 4] \<and>
     m_offsetToBasicBlock m 4 = Some b \<and> succs [0xF6, 4, 0, 0xF1, 0xF6, 3, 0, 0xF5] 4 (m_instructions b) = {3} \<and>
     m_offsetToBasicBlock m 3 = None"
proof -
  let ?code = "[0xF6, 4, 0, 0xF1, 0xF6, 3, 0, 0xF5] :: u8 list"
  have "map_sum id (\<lambda>m. (m_basicBlocks m, map_option (\<lambda>b. succs ?code 4 (m_instructions b)) (m_offsetToBasicBlock m 4),
      map_option m_offset (m_offsetToBasicBlock m 3))) (ParsedMethod_new ?code) = Inr ([0, 4], Some {3}, None)" by code_simp
  then show ?thesis by (cases "ParsedMethod_new ?code") auto
qed

section \<open>Witnesses\<close>

text \<open>A method with a conditional branch over a pushed block: \<open>x ifTrue: [...]\<close> as the compiler lays it out.\<close>

definition sample_code :: "u8 list" where
  "sample_code = [0x5B, 0xF8, 9, 0, 0xC0, 9, 0, 0x50, 0xF2, 0xF1]"

lemma sample_decode:
  "decodeAndShiftPointer sample_code 0 = Inr (mkInstruction op_pushConstant 11 0, 1)"
  "decodeAndShiftPointer sample_code 1 = Inr (mkInstruction op_doSpecial 8 9, 4)"
  "decodeAndShiftPointer sample_code 4 = Inr (mkInstruction op_pushBlock 0 9, 7)"
  "decodeAndShiftPointer sample_code 7 = Inr (mkInstruction op_pushConstant 0 0, 8)"
  "decodeAndShiftPointer sample_code 8 = Inr (mkInstruction op_doSpecial 2 0, 9)"
  "decodeAndShiftPointer sample_code 9 = Inr (mkInstruction op_doSpecial 1 0, 10)"
  "\<exists>e. decodeAndShiftPointer sample_code 10 = Inl e"
  by (simp_all add: sample_code_def decodeAndShiftPointer_def readByte_def readShort_def byteAt_def comp_simps Let_def
      opcode_cast_def decodeExtra_def special_cast_def mkInstruction_def)

lemma body_offset_in:
  assumes "s \<in> S" and "\<And>p i q. p \<in> S \<Longrightarrow> decodeAndShiftPointer code p = Inr (i, q) \<Longrightarrow> next_offset i q \<in> S"
    and "body_offset code s p"
  shows "p \<in> S"
proof -
  obtain "is" where "runs code s is p" using assms(3) by (auto simp: body_offset_def)
  then show ?thesis by (induction rule: runs.induct) (use assms(1,2) in auto)
qed

lemma sample_bodies:
  "body_offset sample_code 0 p \<Longrightarrow> p \<in> {0, 1, 4, 9, 10}" "body_offset sample_code 7 p \<Longrightarrow> p \<in> {7, 8, 9, 10}"
proof -
  show "p \<in> {0, 1, 4, 9, 10}" if "body_offset sample_code 0 p"
    by (rule body_offset_in[OF _ _ that]) (use sample_decode in \<open>auto simp: next_offset_def mkInstruction_def\<close>)
  show "p \<in> {7, 8, 9, 10}" if "body_offset sample_code 7 p"
    by (rule body_offset_in[OF _ _ that]) (use sample_decode in \<open>auto simp: next_offset_def mkInstruction_def\<close>)
qed

lemma sample_well_formed: "well_formed sample_code {0, 1, 4, 7, 8, 9, 10} 0 10"
proof -
  let ?P = "{0, 1, 4, 7, 8, 9, 10} :: u16 set"
  have len: "length sample_code = 10" by (simp add: sample_code_def)
  have "instruction_starts sample_code ?P"
    unfolding instruction_starts_def len using sample_decode by (auto simp: mkInstruction_def)
  moreover have b0: "i = mkInstruction op_doSpecial 8 9 \<and> q = 4" if "branch_at sample_code 0 10 i q" for i q
    using that sample_decode by (auto simp: branch_at_def mkInstruction_def isBranch_def special_cast_def dest!: sample_bodies)
  have b7: "\<not> branch_at sample_code 7 9 i q" for i q
    using sample_decode by (auto simp: branch_at_def mkInstruction_def isBranch_def special_cast_def dest!: sample_bodies)
  have "body_offset sample_code 0 1" using body_next[OF body_start sample_decode(1)] by (simp add: next_offset_def mkInstruction_def)
  from body_next[OF this sample_decode(2)] have "body_offset sample_code 0 4" by (simp add: next_offset_def mkInstruction_def)
  from body_next[OF this sample_decode(3)] have "body_offset sample_code 0 9" by (simp add: next_offset_def mkInstruction_def)
  note nine = this
  have "targeted sample_code 0 10" unfolding targeted_def
  proof (intro allI impI)
    fix i q assume "branch_at sample_code 0 10 i q"
    then have "i = mkInstruction op_doSpecial 8 9" "q = 4" using b0 by blast+
    then show "body_offset sample_code 0 (m_extra i) \<and> m_extra i < 10 \<and>
       (if conditional i then q < 10 else 10 \<le> q \<or> (\<exists>r. leader sample_code 0 10 r \<and> q \<le> r))"
      using nine by (simp add: mkInstruction_def special_cast_def)
  qed
  moreover have "targeted sample_code 7 9" using b7 by (simp add: targeted_def)
  ultimately have p: "parsable sample_code ?P 0 10" "parsable sample_code ?P 7 9"
    by (simp_all add: parsable_def len)
  have seven: "well_formed sample_code ?P 7 9"
    by (rule well_formed.intros[OF p(2)]) (use sample_decode in \<open>auto simp: mkInstruction_def dest!: sample_bodies\<close>)
  show ?thesis
    by (rule well_formed.intros[OF p(1)]) (use sample_decode seven in \<open>auto simp: mkInstruction_def dest!: sample_bodies\<close>)
qed

lemma parse_graph_witness:
  "\<exists>m. ParsedMethod_new sample_code = Inr m \<and> parsed_body sample_code 0 10 m \<and> nested_ok sample_code m"
  using parse_graph[of sample_code "{0, 1, 4, 7, 8, 9, 10}"] sample_well_formed by (simp add: sample_code_def)

end
