(* ===== verification/Primitives.thy ===== *)
theory Primitives
  imports VMState "HOL-Library.Signed_Division"
begin

text \<open>
  The primitives that need no execution context (\<^verbatim>\<open>src/primitives.cpp\<close>): small-integer
  arithmetic, object and string access, and the calls to the operating system.  A primitive returns its
  value together with \<open>primitiveFailed\<close>.
\<close>

section \<open>Numbers of the primitives\<close>

datatype TPrimitive =
    prim_objectsAreEqual | prim_ioPutChar | prim_getClass | prim_getSize | prim_arrayAtPut
  | prim_startNewProcess | prim_allocateObject | prim_blockInvoke | prim_ioGetChar
  | prim_smallIntAdd | prim_smallIntDiv | prim_smallIntMod | prim_smallIntLess | prim_smallIntEqual
  | prim_smallIntMul | prim_smallIntSub
  | prim_throwError | prim_allocateByteArray | prim_stringAt | prim_stringAtPut | prim_cloneByteObject
  | prim_arrayAt | prim_integerNew | prim_flushCache | prim_smallIntBitOr | prim_smallIntBitAnd
  | prim_bulkReplace | prim_smallIntBitShift
  | prim_ioFileOpen | prim_ioFileClose | prim_ioFileSetStatIntoArray | prim_ioFileReadIntoByteArray
  | prim_ioFileWriteFromByteArray | prim_ioFileSeek
  | prim_readline | prim_LLVMsendMessage | prim_getSystemTicks | prim_collectGarbage | prim_debugTrap
  | prim_other u8

definition primitive_table :: "(u8 \<times> TPrimitive) list" where
  "primitive_table =
    [(1, prim_objectsAreEqual), (2, prim_getClass), (3, prim_ioPutChar), (4, prim_getSize),
     (5, prim_arrayAtPut), (6, prim_startNewProcess), (7, prim_allocateObject), (8, prim_blockInvoke),
     (9, prim_ioGetChar), (10, prim_smallIntAdd), (11, prim_smallIntDiv), (12, prim_smallIntMod),
     (13, prim_smallIntLess), (14, prim_smallIntEqual), (15, prim_smallIntMul), (16, prim_smallIntSub),
     (19, prim_throwError), (20, prim_allocateByteArray), (21, prim_stringAt), (22, prim_stringAtPut),
     (23, prim_cloneByteObject), (24, prim_arrayAt), (32, prim_integerNew), (34, prim_flushCache),
     (36, prim_smallIntBitOr), (37, prim_smallIntBitAnd), (38, prim_bulkReplace),
     (39, prim_smallIntBitShift), (100, prim_ioFileOpen), (103, prim_ioFileClose),
     (105, prim_ioFileSetStatIntoArray), (106, prim_ioFileReadIntoByteArray),
     (107, prim_ioFileWriteFromByteArray), (108, prim_ioFileSeek), (251, prim_readline),
     (252, prim_LLVMsendMessage), (253, prim_getSystemTicks), (254, prim_collectGarbage),
     (255, prim_debugTrap)]"

definition primitive_cast :: "u8 \<Rightarrow> TPrimitive" where
  "primitive_cast n = (case map_of primitive_table n of Some p \<Rightarrow> p | None \<Rightarrow> prim_other n)"

section \<open>Small integers\<close>

text \<open>How a primitive ends: nil with \<open>primitiveFailed\<close> set, or its value.\<close>

definition failed :: "('a vm_scheme, ptr \<times> bool) comp" where
  "failed = bnd (global nilObject) (\<lambda>nil. ret (nil, True))"

definition succeed :: "ptr \<Rightarrow> ('a vm_scheme, ptr \<times> bool) comp" where
  "succeed v = ret (v, False)"

text \<open>
  \<open>rightOperand < 0\<close> shifts right by \<open>- rightOperand\<close> (arithmetically), the other shifts left.
  C++ leaves a shift by 32 and more undefined: a fault.  The other operations are those of the
  two's complement machine word; \<open>TInteger\<close> then drops the highest bit of the result.
\<close>

definition bitShift :: "u32 \<Rightarrow> u32 \<Rightarrow> u32 option res" where
  "bitShift leftOperand rightOperand =
     (if sint rightOperand < 0
      then (let n = unat (- rightOperand)
            in if n < 32 then Inr (Some (signed_drop_bit n leftOperand)) else Inl BadAccess)
      else if unat rightOperand < 32
           then (let r = push_bit (unat rightOperand) leftOperand
                 in Inr (if sint leftOperand > sint r then None else Some r))
           else Inl BadAccess)"

definition callSmallIntPrimitive :: "TPrimitive \<Rightarrow> u32 \<Rightarrow> u32 \<Rightarrow> ('a vm_scheme, ptr \<times> bool) comp" where
  "callSmallIntPrimitive opc l r =
     (case opc of
        prim_smallIntAdd \<Rightarrow> succeed (TInteger_of_int (l + r))
      | prim_smallIntDiv \<Rightarrow>
          if r = 0 then failed else succeed (TInteger_of_int (word_of_int (sint l sdiv sint r)))
      | prim_smallIntMod \<Rightarrow>
          if r = 0 then failed else succeed (TInteger_of_int (word_of_int (sint l smod sint r)))
      | prim_smallIntLess \<Rightarrow> bnd (boolObject (sint l < sint r)) succeed
      | prim_smallIntEqual \<Rightarrow> bnd (boolObject (l = r)) succeed
      | prim_smallIntMul \<Rightarrow> succeed (TInteger_of_int (l * r))
      | prim_smallIntSub \<Rightarrow> succeed (TInteger_of_int (l - r))
      | prim_smallIntBitOr \<Rightarrow> succeed (TInteger_of_int (l OR r))
      | prim_smallIntBitAnd \<Rightarrow> succeed (TInteger_of_int (l AND r))
      | prim_smallIntBitShift \<Rightarrow>
          bnd (lift_res (bitShift l r)) (\<lambda>v. case v of
             None \<Rightarrow> failed
           | Some w \<Rightarrow> succeed (TInteger_of_int w))
      | _ \<Rightarrow> raise Exit1)"

section \<open>Input and output\<close>

text \<open>The bytes of a string object, and a block of bytes stored into one.\<close>

fun getBytes :: "objmem \<Rightarrow> ptr \<Rightarrow> nat \<Rightarrow> u8 list res" where
  "getBytes m p 0 = Inr []"
| "getBytes m p (Suc n) =
     bndR (getBytes m p n) (\<lambda>bs. bndR (getByte m p n) (\<lambda>b. Inr (bs @ [b])))"

fun putBytes :: "objmem \<Rightarrow> ptr \<Rightarrow> nat \<Rightarrow> u8 list \<Rightarrow> objmem res" where
  "putBytes m p i [] = Inr m"
| "putBytes m p i (b # bs) = bndR (putByte m p i b) (\<lambda>m. putBytes m p (i + 1) bs)"

definition stringBytes :: "ptr \<Rightarrow> ('a baker_scheme, u8 list) comp" where
  "stringBytes p = mem (\<lambda>m. bndR (getSize m p) (\<lambda>n. getBytes m p (unat n)))"

definition intArg :: "ptr \<Rightarrow> nat \<Rightarrow> ('a baker_scheme, u32) comp" where
  "intArg args i = bnd (getMember args i) (\<lambda>v. lift_res (integerOf v))"

definition ioFileOpen :: "ptr \<Rightarrow> ('a vm_scheme, ptr \<times> bool) comp" where
  "ioFileOpen args =
     bnd (getMember args 0) (\<lambda>name.
     bnd (intArg args 1) (\<lambda>mode.
     bnd (stringBytes name) (\<lambda>filename.
     bnd (os_call (os_open (takeWhile (\<lambda>b. b \<noteq> 0) filename) mode)) (\<lambda>r.
     if sint (os_result r) < 0 then failed else succeed (TInteger_of_int (os_result r))))))"

definition ioFileSetStat :: "ptr \<Rightarrow> ('a vm_scheme, ptr \<times> bool) comp" where
  "ioFileSetStat args =
     bnd (intArg args 0) (\<lambda>fileID.
     bnd (getMember args 1) (\<lambda>array.
     bnd (os_call (os_fstat fileID)) (\<lambda>r.
     if sint (os_result r) < 0 then failed
     else (case os_stat r of (st_size, st_ino, st_mode) \<Rightarrow>
       bnd (putMember array 0 (TInteger_of_int st_size)) (\<lambda>_.
       bnd (putMember array 1 (TInteger_of_int st_ino)) (\<lambda>_.
       bnd (putMember array 2 (TInteger_of_int st_mode)) (\<lambda>_.
       bnd (global nilObject) succeed)))))))"

text \<open>Only as many bytes as \<open>read\<close> returned are stored.\<close>

definition ioFileTransfer :: "bool \<Rightarrow> ptr \<Rightarrow> ('a vm_scheme, ptr \<times> bool) comp" where
  "ioFileTransfer isRead args =
     bnd (intArg args 0) (\<lambda>fileID.
     bnd (getMember args 1) (\<lambda>bufferArray.
     bnd (intArg args 2) (\<lambda>sz.
     bnd (mem (\<lambda>m. getSize m bufferArray)) (\<lambda>bufferSize.
     if sz > bufferSize then failed
     else if isRead
     then bnd (os_call (os_read fileID sz)) (\<lambda>r.
          if sint (os_result r) < 0 then failed
          else bnd (mem_upd (\<lambda>m. putBytes m bufferArray 0
                      (take (min (unat sz) (unat (os_result r))) (os_bytes r)))) (\<lambda>_.
               succeed (TInteger_of_int (os_result r))))
     else bnd (mem (\<lambda>m. getBytes m bufferArray (unat sz))) (\<lambda>bs.
          bnd (os_call (os_write fileID bs)) (\<lambda>r.
          if sint (os_result r) < 0 then failed else succeed (TInteger_of_int (os_result r))))))))"

definition ioFileSeek :: "ptr \<Rightarrow> ('a vm_scheme, ptr \<times> bool) comp" where
  "ioFileSeek args =
     bnd (intArg args 0) (\<lambda>fileID.
     bnd (intArg args 1) (\<lambda>position.
     if sint position < 0 then failed
     else bnd (os_call (os_lseek fileID position)) (\<lambda>r.
          if sint (os_result r) < 0 then failed else succeed (TInteger_of_int (os_result r)))))"

definition callIOPrimitive :: "TPrimitive \<Rightarrow> ptr \<Rightarrow> ('a vm_scheme, ptr \<times> bool) comp" where
  "callIOPrimitive opc args =
     (case opc of
        prim_ioGetChar \<Rightarrow>
          bnd (os_call os_getchar) (\<lambda>r.
          if os_result r = - 1 then bnd (global nilObject) succeed
          else succeed (TInteger_of_int (os_result r)))
      | prim_ioPutChar \<Rightarrow>
          bnd (intArg args 0) (\<lambda>charValue.
          bnd (os_call (os_putchar (ucast charValue))) (\<lambda>_.
          bnd (global nilObject) succeed))
      | prim_ioFileOpen \<Rightarrow> ioFileOpen args
      | prim_ioFileClose \<Rightarrow>
          bnd (intArg args 0) (\<lambda>fileID.
          bnd (os_call (os_close fileID)) (\<lambda>r.
          if sint (os_result r) < 0 then failed else bnd (global nilObject) succeed))
      | prim_ioFileSetStatIntoArray \<Rightarrow> ioFileSetStat args
      | prim_ioFileReadIntoByteArray \<Rightarrow> ioFileTransfer True args
      | prim_ioFileWriteFromByteArray \<Rightarrow> ioFileTransfer False args
      | prim_ioFileSeek \<Rightarrow> ioFileSeek args
      | _ \<Rightarrow> raise Exit1)"

section \<open>Dispatch\<close>

definition objectClass :: "ptr \<Rightarrow> ('a vm_scheme, ptr) comp" where
  "objectClass object =
     (if isSmallInteger object then global smallIntClass else mem (\<lambda>m. getClass m object))"

definition stringPrimitive :: "bool \<Rightarrow> ptr \<Rightarrow> ('a vm_scheme, ptr \<times> bool) comp" where
  "stringPrimitive isPut args =
     bnd (getMember args (if isPut then 2 else 1)) (\<lambda>indexObject.
     bnd (getMember args (if isPut then 1 else 0)) (\<lambda>string.
     bnd (if isPut then getMember args 0 else ret NULL) (\<lambda>valueObject.
     if \<not> isSmallInteger indexObject \<or> isSmallInteger string then failed else
     let actualIndex = TInteger_getValue indexObject - 1 in
     bnd (mem (\<lambda>m. getSize m string)) (\<lambda>size.
     if actualIndex \<ge> size then failed
     else if \<not> isPut
     then bnd (mem (\<lambda>m. getByte m string (unat actualIndex))) (\<lambda>b. succeed (TInteger_of_int (ucast b)))
     else bnd (lift_res (integerOf valueObject)) (\<lambda>v.
          bnd (mem_upd (\<lambda>m. putByte m string (unat actualIndex) (ucast v))) (\<lambda>_.
          succeed string))))))"

text \<open>\<open>(tv_sec * 1000000 + tv_usec) / 1000\<close> in \<open>long\<close>, which has 32 bits.\<close>

definition systemTicks :: "u32 \<times> u32 \<Rightarrow> u32" where
  "systemTicks tv = word_of_int (sint (fst tv * 1000000 + snd tv) sdiv 1000)"

definition callPrimitive :: "u8 \<Rightarrow> ptr \<Rightarrow> ('a vm_scheme, ptr \<times> bool) comp" where
  "callPrimitive opc args =
     (let prim = primitive_cast opc in
      if prim = prim_objectsAreEqual
      then bnd (getMember args 1) (\<lambda>right. bnd (getMember args 0) (\<lambda>left.
           bnd (boolObject (left = right)) succeed))
      else if prim = prim_getClass then bnd (getMember args 0) (\<lambda>object. bnd (objectClass object) succeed)
      else if prim = prim_getSize
      then bnd (getMember args 0) (\<lambda>object.
           bnd (if isSmallInteger object then ret 0 else mem (\<lambda>m. getSize m object)) (\<lambda>n.
           succeed (TInteger_of_int n)))
      else if prim = prim_stringAt then stringPrimitive False args
      else if prim = prim_stringAtPut then stringPrimitive True args
      else if prim \<in> {prim_ioGetChar, prim_ioPutChar, prim_ioFileOpen, prim_ioFileClose,
                      prim_ioFileSetStatIntoArray, prim_ioFileReadIntoByteArray,
                      prim_ioFileWriteFromByteArray, prim_ioFileSeek}
      then callIOPrimitive prim args
      else if prim \<in> {prim_smallIntAdd, prim_smallIntDiv, prim_smallIntMod, prim_smallIntLess,
                      prim_smallIntEqual, prim_smallIntMul, prim_smallIntSub, prim_smallIntBitOr,
                      prim_smallIntBitAnd, prim_smallIntBitShift}
      then bnd (getMember args 1) (\<lambda>rightObject. bnd (getMember args 0) (\<lambda>leftObject.
           if \<not> isSmallInteger leftObject \<or> \<not> isSmallInteger rightObject then failed
           else callSmallIntPrimitive prim (TInteger_getValue leftObject) (TInteger_getValue rightObject)))
      else if prim = prim_getSystemTicks
      then bnd (os_call os_gettimeofday) (\<lambda>r. succeed (TInteger_of_int (systemTicks (os_time r))))
      else failed)"

end
