(* ===== verification/MethodLookup.thy ===== *)
theory MethodLookup
  imports VMState
begin

text \<open>
  Method lookup (\<^verbatim>\<open>src/vm.cpp\<close>): the search through the class hierarchy and the direct-mapped cache
  in front of it.
\<close>

section \<open>The cache\<close>

definition LOOKUP_CACHE_SIZE :: u32 where "LOOKUP_CACHE_SIZE = 512"

definition cacheIndex :: "ptr \<Rightarrow> ptr \<Rightarrow> u32" where
  "cacheIndex selector klass = (selector XOR klass) mod LOOKUP_CACHE_SIZE"

definition lookupMethodInCache :: "ptr \<Rightarrow> ptr \<Rightarrow> ('a vm_scheme, ptr) comp" where
  "lookupMethodInCache selector klass s =
     (let entry = m_lookupCache s (cacheIndex selector klass)
      in if entry_methodName entry = selector \<and> entry_receiverClass entry = klass
         then Inr (entry_method entry, s\<lparr>m_cacheHits := m_cacheHits s + 1\<rparr>)
         else Inr (NULL, s\<lparr>m_cacheMisses := m_cacheMisses s + 1\<rparr>))"

definition updateMethodCache :: "ptr \<Rightarrow> ptr \<Rightarrow> ptr \<Rightarrow> ('a vm_scheme, unit) comp" where
  "updateMethodCache selector klass method =
     modify (\<lambda>s. s\<lparr>m_lookupCache := (m_lookupCache s)(cacheIndex selector klass :=
       \<lparr>entry_methodName = selector, entry_receiverClass = klass, entry_method = method\<rparr>)\<rparr>)"

text \<open>Only the method names are reset.\<close>

definition flushMethodCache :: "('a vm_scheme, unit) comp" where
  "flushMethodCache = modify (\<lambda>s. s\<lparr>m_lookupCache := (\<lambda>i. (m_lookupCache s i)\<lparr>entry_methodName := NULL\<rparr>)\<rparr>)"

definition onCollectionOccured :: "('a vm_scheme, unit) comp" where
  "onCollectionOccured = flushMethodCache"

section \<open>The hierarchy search\<close>

text \<open>
  The loop over the parent classes ends at nil.  It does not end on a cyclic hierarchy; the value is
  then None.
\<close>

partial_function (option) searchHierarchy :: "objmem \<Rightarrow> ptr \<Rightarrow> ptr \<Rightarrow> ptr \<Rightarrow> ptr res option" where
  "searchHierarchy m nil selector currentClass =
     (if currentClass = nil then Some (Inr NULL)
      else if currentClass = NULL then Some (Inl AssertFailed)
      else case bndR (getField m currentClass (TClass_offset cls_methods))
                  (\<lambda>methods. TDictionary_find m methods (SymbolKey selector)) of
             Inl e \<Rightarrow> Some (Inl e)
           | Inr method \<Rightarrow>
               if method \<noteq> NULL then Some (Inr method)
               else case getField m currentClass (TClass_offset cls_parentClass) of
                      Inl e \<Rightarrow> Some (Inl e)
                    | Inr parent \<Rightarrow> searchHierarchy m nil selector parent)"

definition search :: "ptr \<Rightarrow> ptr \<Rightarrow> ('a vm_scheme, ptr) comp" where
  "search selector klass s =
     (case searchHierarchy (objs s) (nilObject (globals s)) selector klass of
        None \<Rightarrow> Inl Diverges
      | Some r \<Rightarrow> (case r of Inl e \<Rightarrow> Inl e | Inr method \<Rightarrow> Inr (method, s)))"

definition lookupMethod :: "ptr \<Rightarrow> ptr \<Rightarrow> ('a vm_scheme, ptr) comp" where
  "lookupMethod selector klass =
     bnd (guard AssertFailed (selector \<noteq> NULL \<and> klass \<noteq> NULL)) (\<lambda>_.
     bnd (lookupMethodInCache selector klass) (\<lambda>cached.
     if cached \<noteq> NULL then ret cached
     else bnd (search selector klass) (\<lambda>method.
          if method = NULL then ret NULL
          else bnd (updateMethodCache selector klass method) (\<lambda>_. ret method))))"

section \<open>Specification\<close>

text \<open>
  The method a class understands a selector by: the first one on the way up the hierarchy.  A path of
  classes is given explicitly, from the class to the last one before nil.
\<close>

fun class_path :: "objmem \<Rightarrow> ptr \<Rightarrow> ptr \<Rightarrow> ptr list \<Rightarrow> bool" where
  "class_path m nil c [] \<longleftrightarrow> c = nil"
| "class_path m nil c (d # ds) \<longleftrightarrow> c = d \<and> c \<noteq> nil \<and> c \<noteq> NULL \<and>
     (\<exists>p. getField m c (TClass_offset cls_parentClass) = Inr p \<and> class_path m nil p ds)"

definition own_method :: "objmem \<Rightarrow> ptr \<Rightarrow> ptr \<Rightarrow> ptr res" where
  "own_method m selector c =
     bndR (getField m c (TClass_offset cls_methods)) (\<lambda>methods. TDictionary_find m methods (SymbolKey selector))"

text \<open>Every cache entry that has a name holds the method the search finds.\<close>

definition cache_valid :: "'a vm_scheme \<Rightarrow> bool" where
  "cache_valid s \<longleftrightarrow> (\<forall>i. let e = m_lookupCache s i in
     entry_methodName e \<noteq> NULL \<longrightarrow>
       i = cacheIndex (entry_methodName e) (entry_receiverClass e) \<and> entry_method e \<noteq> NULL \<and>
       searchHierarchy (objs s) (nilObject (globals s)) (entry_methodName e) (entry_receiverClass e)
         = Some (Inr (entry_method e)))"

lemma searchHierarchy_path:
  assumes "class_path m nil c ds" and "\<And>d. d \<in> set ds \<Longrightarrow> own_method m selector d = Inr (f d)"
  shows "searchHierarchy m nil selector c = Some (Inr (case filter (\<lambda>d. f d \<noteq> NULL) ds of [] \<Rightarrow> NULL | d # _ \<Rightarrow> f d))"
  using assms
proof (induction ds arbitrary: c)
  case Nil
  then show ?case by (subst searchHierarchy.simps) simp
next
  case (Cons d ds)
  then obtain p where p: "c = d" "c \<noteq> nil" "c \<noteq> NULL" "getField m c (TClass_offset cls_parentClass) = Inr p"
    "class_path m nil p ds" by auto
  have own: "bndR (getField m c (TClass_offset cls_methods))
      (\<lambda>methods. TDictionary_find m methods (SymbolKey selector)) = Inr (f d)"
    using Cons.prems(2)[of d] p(1) by (simp add: own_method_def)
  have "searchHierarchy m nil selector p = Some (Inr (case filter (\<lambda>d. f d \<noteq> NULL) ds of [] \<Rightarrow> NULL | d # _ \<Rightarrow> f d))"
    by (rule Cons.IH[OF p(5)]) (use Cons.prems(2) in simp)
  then show ?case using p own by (subst searchHierarchy.simps) (simp split: if_splits)
qed

lemma cache_valid_flush: "flushMethodCache s = Inr (u, s') \<Longrightarrow> cache_valid s'"
  by (auto simp: flushMethodCache_def comp_simps cache_valid_def Let_def)

lemma cacheIndex_entry:
  "cache_valid s \<Longrightarrow> entry_methodName (m_lookupCache s (cacheIndex selector klass)) = selector \<Longrightarrow>
   entry_receiverClass (m_lookupCache s (cacheIndex selector klass)) = klass \<Longrightarrow> selector \<noteq> NULL \<Longrightarrow>
   searchHierarchy (objs s) (nilObject (globals s)) selector klass
     = Some (Inr (entry_method (m_lookupCache s (cacheIndex selector klass))))"
  unfolding cache_valid_def Let_def by metis

lemma lookupMethod_search:
  assumes "cache_valid s" and "selector \<noteq> NULL" and "klass \<noteq> NULL"
    and "searchHierarchy (objs s) (nilObject (globals s)) selector klass = Some (Inr method)"
  shows "\<exists>s'. lookupMethod selector klass s = Inr (method, s') \<and> cache_valid s' \<and> objs s' = objs s \<and>
    globals s' = globals s \<and> m_externalPointers s' = m_externalPointers s"
proof -
  let ?e = "m_lookupCache s (cacheIndex selector klass)"
  show ?thesis
  proof (cases "entry_methodName ?e = selector \<and> entry_receiverClass ?e = klass")
    case True
    then have "entry_method ?e = method" "method \<noteq> NULL"
      using cacheIndex_entry[OF assms(1)] assms unfolding cache_valid_def Let_def by force+
    then show ?thesis
      using True assms by (simp add: lookupMethod_def lookupMethodInCache_def comp_simps cache_valid_def Let_def)
  next
    case False
    then have "lookupMethodInCache selector klass s = Inr (NULL, s\<lparr>m_cacheMisses := m_cacheMisses s + 1\<rparr>)"
      by (auto simp: lookupMethodInCache_def Let_def)
    then show ?thesis
      using assms False
      by (auto simp: lookupMethod_def search_def updateMethodCache_def comp_simps cache_valid_def Let_def)
  qed
qed

section \<open>Properties\<close>

text \<open>
  C7. Cached method lookup is the hierarchy search: with a valid cache, the lookup of a selector in a
  class returns the method of the first class on the path to the root whose dictionary has one, null
  when none has, and leaves the cache valid.
\<close>

theorem lookupMethod_first_in_hierarchy:
  assumes "cache_valid s" and "selector \<noteq> NULL" and "ds \<noteq> []"
    and "class_path (objs s) (nilObject (globals s)) klass ds"
    and "\<And>d. d \<in> set ds \<Longrightarrow> own_method (objs s) selector d = Inr (f d)"
  shows "\<exists>s'. lookupMethod selector klass s =
      Inr (case filter (\<lambda>d. f d \<noteq> NULL) ds of [] \<Rightarrow> NULL | d # _ \<Rightarrow> f d, s') \<and>
    cache_valid s' \<and> objs s' = objs s"
proof -
  have "klass \<noteq> NULL" using assms(3,4) by (cases ds) auto
  then show ?thesis
    using lookupMethod_search[OF assms(1,2) _ searchHierarchy_path[OF assms(4,5)]] by blast
qed

text \<open>A class 104 without methods of its own below the class 136, whose dictionary is the sample one.\<close>

definition sample_hierarchy :: objmem where
  "sample_hierarchy = sample_dictionary(104 \<mapsto> sample_array [1, 136, 200], 136 \<mapsto> sample_array [1, 168, 8],
     200 \<mapsto> sample_array [216, 216], 216 \<mapsto> sample_array [])"

definition sample_globals :: TGlobals where
  "sample_globals = \<lparr>nilObject = 168, trueObject = 176, falseObject = 184, smallIntClass = 0, arrayClass = 0,
     blockClass = 0, contextClass = 0, stringClass = 0, globalsObject = 0, initialMethod = 0,
     binaryMessages = [], integerClass = 0, badMethodSymbol = 0\<rparr>"

definition sample_vm :: vm where
  "sample_vm = baker.extend (baker_new\<lparr>objs := sample_hierarchy\<rparr>)
     (vm.fields sample_globals (\<lambda>_. \<lparr>entry_methodName = 0, entry_receiverClass = 0, entry_method = 0\<rparr>) 0 0 0 False
        (\<lambda>_ _. \<lparr>os_result = 0, os_bytes = [], os_stat = (0, 0, 0), os_time = (0, 0)\<rparr>) [])"

lemma sample_vm_fields:
  "objs sample_vm = sample_hierarchy" "globals sample_vm = sample_globals" "cache_valid sample_vm"
  by (simp_all add: sample_vm_def baker.defs vm.defs baker_new_def cache_valid_def)

theorem lookupMethod_first_in_hierarchy_witness:
  "\<exists>s'. lookupMethod 72 104 sample_vm = Inr (87, s') \<and> cache_valid s' \<and> objs s' = sample_hierarchy"
proof -
  have own: "own_method sample_hierarchy 72 d = Inr (if d = 104 then 0 else 87)" if "d \<in> set [104, 136]" for d
    using that by (auto simp: own_method_def sample_hierarchy_def TDictionary_find_def lower_bound.simps
      compare_element_key_def compare_key_element_def compare_symbol_symbol_def uchars_def sample_simps
      TClass_offset.simps)
  have path: "class_path sample_hierarchy 168 104 [104, 136]"
    by (simp add: sample_hierarchy_def sample_simps)
  show ?thesis
    using lookupMethod_first_in_hierarchy[OF sample_vm_fields(3), of 72 "[104, 136]" 104
      "\<lambda>d. if d = 104 then 0 else 87"] own path
    by (simp add: sample_vm_fields sample_globals_def)
qed

end
