(* ===== verification/VMContext.thy ===== *)
theory VMContext
  imports Primitives MethodLookup Decoder
begin

text \<open>
  The execution context of the bytecode interpreter, its stack, the allocation of objects and the
  instructions that only push (\<^verbatim>\<open>src/vm.cpp\<close>, \<^verbatim>\<open>include/vm.h\<close>), in the build without LLVM.  Every
  handler takes the execution context and returns it updated.  Pointers that the code keeps in an
  \<open>hptr<>\<close> are handles of registered external pointers; the others are plain addresses, which a
  collection leaves behind.  Where the code assigns the result of an allocating call to a member
  (\<open>newBlock->stack = newObject<...>(...)\<close>) the call comes first.
\<close>

section \<open>Execution context\<close>

datatype TExecuteResult =
  returnError | returnBadMethod | returnReturned | returnTimeExpired | returnBreak | returnNoReturn

primrec executeResult_code :: "TExecuteResult \<Rightarrow> u32" where
  "executeResult_code returnError = 2"
| "executeResult_code returnBadMethod = 3"
| "executeResult_code returnReturned = 4"
| "executeResult_code returnTimeExpired = 5"
| "executeResult_code returnBreak = 6"
| "executeResult_code returnNoReturn = 255"

text \<open>\<open>currentContext\<close> and \<open>returnedValue\<close> are \<open>hptr<>\<close>s: the record keeps their handles.\<close>

record TVMExecutionContext =
  currentContext :: nat
  instruction :: TSmalltalkInstruction
  bytePointer :: u16
  stackTop :: u32
  returnedValue :: nat

definition contextMember :: "TVMExecutionContext \<Rightarrow> TContext_member \<Rightarrow> ('a vm_scheme, ptr) comp" where
  "contextMember ec member =
     bnd (hptr_get (currentContext ec)) (\<lambda>c. getMember c (TContext_offset member))"

definition methodMember :: "TVMExecutionContext \<Rightarrow> TMethod_member \<Rightarrow> ('a vm_scheme, ptr) comp" where
  "methodMember ec member =
     bnd (contextMember ec ctx_method) (\<lambda>m. getMember m (TMethod_offset member))"

definition loadPointers :: "TVMExecutionContext \<Rightarrow> ('a vm_scheme, TVMExecutionContext) comp" where
  "loadPointers ec =
     bnd (hptr_get (currentContext ec)) (\<lambda>c.
     bnd (getInteger c (TContext_offset ctx_bytePointer)) (\<lambda>bp.
     bnd (getInteger c (TContext_offset ctx_stackTop)) (\<lambda>top.
     ret (ec\<lparr>bytePointer := ucast bp, stackTop := top\<rparr>))))"

definition storePointers :: "TVMExecutionContext \<Rightarrow> ('a vm_scheme, unit) comp" where
  "storePointers ec =
     bnd (hptr_get (currentContext ec)) (\<lambda>c.
     bnd (putInteger c (TContext_offset ctx_bytePointer) (ucast (bytePointer ec))) (\<lambda>_.
     putInteger c (TContext_offset ctx_stackTop) (stackTop ec)))"

section \<open>Allocation of objects\<close>

text \<open>
  The placement new and the loop that fills the fields with nil; writing past the block is a fault.
  A byte object is only given its header: the tail is what the block has, and the size word may
  promise more.
\<close>

definition placeOrdinary :: "ptr \<Rightarrow> u32 \<Rightarrow> u32 \<Rightarrow> ptr \<Rightarrow> ('a vm_scheme, unit) comp" where
  "placeOrdinary block blockSize fieldsCount klass =
     bnd (global nilObject) (\<lambda>nil.
     bnd (guard BadAccess (8 + 4 * unat fieldsCount \<le> unat blockSize)) (\<lambda>_.
     modify (\<lambda>s. s\<lparr>objs := (objs s)(block \<mapsto>
       (TObject_new fieldsCount klass)\<lparr>obj_fields := replicate (unat fieldsCount) nil\<rparr>)\<rparr>)))"

definition placeBinary :: "ptr \<Rightarrow> u32 \<Rightarrow> u32 \<Rightarrow> ptr \<Rightarrow> ('a vm_scheme, unit) comp" where
  "placeBinary block blockSize dataSize klass =
     bnd (guard BadAccess (8 \<le> unat blockSize)) (\<lambda>_.
     modify (\<lambda>s. s\<lparr>objs := (objs s)(block \<mapsto>
       \<lparr>obj_size = TSize_new dataSize True False, obj_class = klass, obj_fields = [],
        obj_bytes = replicate (min (unat dataSize) (unat blockSize - 8)) 0\<rparr>)\<rparr>))"

definition newInstance :: "ptr \<Rightarrow> u32 \<Rightarrow> (ptr \<Rightarrow> ptr \<Rightarrow> ('a vm_scheme, unit) comp) \<Rightarrow> ('a vm_scheme, ptr) comp" where
  "newInstance klass slotSize place =
     newPointer klass (\<lambda>pClass.
       bnd (allocate (correctPadding slotSize) True) (\<lambda>(objectSlot, gcOccured).
       bnd (modify (\<lambda>s. s\<lparr>m_lastGCOccured := gcOccured\<rparr>)) (\<lambda>_.
       if objectSlot = NULL then global nilObject
       else bnd (if gcOccured then onCollectionOccured else ret ()) (\<lambda>_.
            bnd (hptr_get pClass) (\<lambda>klass.
            bnd (place objectSlot klass) (\<lambda>_. ret objectSlot))))))"

definition newOrdinaryObject :: "ptr \<Rightarrow> u32 \<Rightarrow> ('a vm_scheme, ptr) comp" where
  "newOrdinaryObject klass slotSize =
     newInstance klass slotSize (\<lambda>block. placeOrdinary block (correctPadding slotSize) (slotSize div 4 - 2))"

definition newBinaryObject :: "ptr \<Rightarrow> u32 \<Rightarrow> ('a vm_scheme, ptr) comp" where
  "newBinaryObject klass dataSize =
     (let slotSize = sizeof_TObject + dataSize
      in newInstance klass slotSize (\<lambda>block. placeBinary block (correctPadding slotSize) dataSize))"

definition newObjectArray :: "u32 \<Rightarrow> ('a vm_scheme, ptr) comp" where
  "newObjectArray dataSize =
     bnd (global arrayClass) (\<lambda>klass. newOrdinaryObject klass (sizeof_TObject + dataSize * 4))"

definition newContextObject :: "('a vm_scheme, ptr) comp" where
  "newContextObject = bnd (global contextClass) (\<lambda>klass. newOrdinaryObject klass sizeof_TContext)"

definition newBlockObject :: "('a vm_scheme, ptr) comp" where
  "newBlockObject = bnd (global blockClass) (\<lambda>klass. newOrdinaryObject klass sizeof_TBlock)"

section \<open>The stack\<close>

definition stackLast :: "TVMExecutionContext \<Rightarrow> ('a vm_scheme, ptr) comp" where
  "stackLast ec =
     bnd (contextMember ec ctx_stack) (\<lambda>stack. getMember stack (unat (stackTop ec - 1)))"

definition stackPop :: "TVMExecutionContext \<Rightarrow> ('a vm_scheme, ptr \<times> TVMExecutionContext) comp" where
  "stackPop ec =
     bnd (contextMember ec ctx_stack) (\<lambda>stack.
     bnd (getMember stack (unat (stackTop ec - 1))) (\<lambda>top.
     ret (top, ec\<lparr>stackTop := stackTop ec - 1\<rparr>)))"

text \<open>\<open>oldStack\<close> is a C++ reference, the address the stack had before the new one was allocated.\<close>

fun copyStack :: "nat \<Rightarrow> ptr \<Rightarrow> nat \<Rightarrow> nat \<Rightarrow> ('a vm_scheme, unit) comp" where
  "copyStack newStack oldStack i 0 = ret ()"
| "copyStack newStack oldStack i (Suc n) =
     bnd (getMember oldStack i) (\<lambda>v.
     bnd (hptr_get newStack) (\<lambda>stack.
     bnd (putMember stack i v) (\<lambda>_. copyStack newStack oldStack (i + 1) n)))"

definition growStack :: "TVMExecutionContext \<Rightarrow> ptr \<Rightarrow> u32 \<Rightarrow> ('a vm_scheme, unit) comp" where
  "growStack ec oldStack stackSize =
     bnd (newObjectArray (stackSize + 7)) (\<lambda>array. newPointer array (\<lambda>newStack.
       bnd (copyStack newStack oldStack 0 (unat stackSize)) (\<lambda>_.
       bnd (hptr_get (currentContext ec)) (\<lambda>c.
       bnd (hptr_get newStack) (\<lambda>stack.
       bnd (putMember c (TContext_offset ctx_stack) stack) (\<lambda>_.
       bnd (methodMember ec mth_name) (\<lambda>name.
       bnd (stringBytes name) (\<lambda>_. ret ()))))))))"

definition stackPush :: "ptr \<Rightarrow> TVMExecutionContext \<Rightarrow> ('a vm_scheme, TVMExecutionContext) comp" where
  "stackPush object ec =
     bnd (guard AssertFailed (object \<noteq> NULL)) (\<lambda>_.
     bnd (contextMember ec ctx_stack) (\<lambda>oldStack.
     bnd (mem (\<lambda>m. getSize m oldStack)) (\<lambda>stackSize.
     bnd (if stackTop ec \<ge> stackSize then growStack ec oldStack stackSize else ret ()) (\<lambda>_.
     bnd (contextMember ec ctx_stack) (\<lambda>stack.
     bnd (putMember stack (unat (stackTop ec)) object) (\<lambda>_.
     ret (ec\<lparr>stackTop := stackTop ec + 1\<rparr>)))))))"

text \<open>Popping n values into the array behind a handle, the last one first.\<close>

fun popInto :: "nat \<Rightarrow> nat \<Rightarrow> TVMExecutionContext \<Rightarrow> ('a vm_scheme, TVMExecutionContext) comp" where
  "popInto args 0 ec = ret ec"
| "popInto args (Suc n) ec =
     bnd (stackPop ec) (\<lambda>(v, ec).
     bnd (hptr_get args) (\<lambda>array.
     bnd (putMember array n v) (\<lambda>_. popInto args n ec)))"

section \<open>Simple instructions\<close>

definition doPushConstant :: "TVMExecutionContext \<Rightarrow> ('a vm_scheme, TVMExecutionContext) comp" where
  "doPushConstant ec =
     (case constant_cast (m_argument (instruction ec)) of
        const_int n \<Rightarrow> stackPush (TInteger_of_int (ucast n)) ec
      | const_nil \<Rightarrow> bnd (global nilObject) (\<lambda>v. stackPush v ec)
      | const_trueObject \<Rightarrow> bnd (global trueObject) (\<lambda>v. stackPush v ec)
      | const_falseObject \<Rightarrow> bnd (global falseObject) (\<lambda>v. stackPush v ec)
      | const_other n \<Rightarrow> raise Exit1)"

text \<open>The context a block returns from: nested blocks inherit it.\<close>

definition blockCreatingContext :: "TVMExecutionContext \<Rightarrow> ('a vm_scheme, ptr) comp" where
  "blockCreatingContext ec =
     bnd (hptr_get (currentContext ec)) (\<lambda>c.
     bnd (mem (\<lambda>m. getClass m c)) (\<lambda>klass.
     bnd (global blockClass) (\<lambda>blockClass.
     if klass = blockClass then getMember c (TBlock_offset blk_creatingContext) else ret c)))"

definition copyContextMember :: "TVMExecutionContext \<Rightarrow> nat \<Rightarrow> TContext_member \<Rightarrow> ('a vm_scheme, unit) comp" where
  "copyContextMember ec target member =
     bnd (contextMember ec member) (\<lambda>v.
     bnd (hptr_get target) (\<lambda>t. putMember t (TContext_offset member) v))"

definition doPushBlock :: "TVMExecutionContext \<Rightarrow> ('a vm_scheme, TVMExecutionContext) comp" where
  "doPushBlock ec =
     (let newBytePointer = m_extra (instruction ec) in
      bnd newBlockObject (\<lambda>block. newPointer block (\<lambda>newBlock.
        bnd (contextMember ec ctx_method) (\<lambda>method.
        bnd (getInteger method (TMethod_offset mth_stackSize)) (\<lambda>stackSize.
        bnd (newObjectArray stackSize) (\<lambda>stack.
        bnd (hptr_get newBlock) (\<lambda>b.
        bnd (putMember b (TContext_offset ctx_stack) stack) (\<lambda>_.
        bnd (putInteger b (TBlock_offset blk_argumentLocation) (ucast (m_argument (instruction ec)))) (\<lambda>_.
        bnd (putInteger b (TBlock_offset blk_blockBytePointer) (ucast (bytePointer ec))) (\<lambda>_.
        bnd (blockCreatingContext ec) (\<lambda>creating.
        bnd (putMember b (TBlock_offset blk_creatingContext) creating) (\<lambda>_.
        bnd (copyContextMember ec newBlock ctx_method) (\<lambda>_.
        bnd (copyContextMember ec newBlock ctx_arguments) (\<lambda>_.
        bnd (copyContextMember ec newBlock ctx_temporaries) (\<lambda>_.
        bnd (hptr_get newBlock) (\<lambda>b.
        stackPush b (ec\<lparr>bytePointer := newBytePointer\<rparr>)))))))))))))))))"

definition doMarkArguments :: "TVMExecutionContext \<Rightarrow> ('a vm_scheme, TVMExecutionContext) comp" where
  "doMarkArguments ec =
     (let count = m_argument (instruction ec) in
      bnd (newObjectArray (ucast count)) (\<lambda>array. newPointer array (\<lambda>args.
        bnd (popInto args (unat count) ec) (\<lambda>ec.
        bnd (hptr_get args) (\<lambda>a. stackPush a ec)))))"

end
