(* ===== verification/VMSend.thy ===== *)
theory VMSend
  imports VMContext
begin

text \<open>
  Message sends and the special instructions (\<^verbatim>\<open>src/vm.cpp\<close>): \<open>doSendMessage\<close> with its two
  overloads, the \<open>doesNotUnderstand:\<close> fallback, the unary and binary shortcuts and \<open>doSpecial\<close>.
\<close>

section \<open>Sending a message\<close>

text \<open>A missing \<open>doesNotUnderstand:\<close> is reported, and the null method used all the same.\<close>

definition setupVarsForDoesNotUnderstand :: "nat \<Rightarrow> nat \<Rightarrow> ptr \<Rightarrow> ptr \<Rightarrow> ('a vm_scheme, unit) comp" where
  "setupVarsForDoesNotUnderstand method arguments selector receiverClass =
     bnd (global badMethodSymbol) (\<lambda>badMethod.
     bnd (lookupMethod badMethod receiverClass) (\<lambda>m.
     bnd (hptr_set method m) (\<lambda>_.
     newPointer selector (\<lambda>failedSelector.
       bnd (newObjectArray 2) (\<lambda>array. newPointer array (\<lambda>errorArguments.
         bnd (hptr_get arguments) (\<lambda>args.
         bnd (getMember args 0) (\<lambda>receiver.
         bnd (hptr_get errorArguments) (\<lambda>errs.
         bnd (putMember errs 0 receiver) (\<lambda>_.
         bnd (hptr_get failedSelector) (\<lambda>sel.
         bnd (putMember errs 1 sel) (\<lambda>_.
         hptr_set arguments errs))))))))))))"

text \<open>The tail calls: the context a new one returns to, by the instruction that follows the send.\<close>

definition returnContext :: "TVMExecutionContext \<Rightarrow> ('a vm_scheme, ptr) comp" where
  "returnContext ec =
     bnd (methodMember ec mth_byteCodes) (\<lambda>byteCodes.
     bnd (mem (\<lambda>m. getByte m byteCodes (unat (bytePointer ec)))) (\<lambda>nextInstruction.
     if nextInstruction = byte_stackReturn then contextMember ec ctx_previousContext
     else bnd (hptr_get (currentContext ec)) (\<lambda>c.
          bnd (if nextInstruction = byte_blockReturn
               then bnd (mem (\<lambda>m. getClass m c)) (\<lambda>klass.
                    bnd (global blockClass) (\<lambda>blk. ret (klass = blk)))
               else ret False) (\<lambda>returnsFromBlock.
          if returnsFromBlock
          then bnd (getMember c (TBlock_offset blk_creatingContext)) (\<lambda>creating.
               getMember creating (TContext_offset ctx_previousContext))
          else ret c))))"

definition enterMethod :: "nat \<Rightarrow> nat \<Rightarrow> TVMExecutionContext \<Rightarrow> ('a vm_scheme, TVMExecutionContext) comp" where
  "enterMethod receiverMethod messageArguments ec =
     bnd (storePointers ec) (\<lambda>_.
     bnd newContextObject (\<lambda>context. newPointer context (\<lambda>newContext.
       bnd (hptr_get receiverMethod) (\<lambda>method.
       bnd (getInteger method (TMethod_offset mth_stackSize)) (\<lambda>stackSize.
       bnd (newObjectArray stackSize) (\<lambda>stack. newPointer stack (\<lambda>newStack.
         bnd (hptr_get receiverMethod) (\<lambda>method.
         bnd (getInteger method (TMethod_offset mth_temporarySize)) (\<lambda>temporarySize.
         bnd (newObjectArray temporarySize) (\<lambda>temps. newPointer temps (\<lambda>newTemps.
           bnd (hptr_get newContext) (\<lambda>context.
           bnd (hptr_get newStack) (\<lambda>stack.
           bnd (putMember context (TContext_offset ctx_stack) stack) (\<lambda>_.
           bnd (hptr_get newTemps) (\<lambda>temps.
           bnd (putMember context (TContext_offset ctx_temporaries) temps) (\<lambda>_.
           bnd (hptr_get messageArguments) (\<lambda>args.
           bnd (putMember context (TContext_offset ctx_arguments) args) (\<lambda>_.
           bnd (hptr_get receiverMethod) (\<lambda>method.
           bnd (putMember context (TContext_offset ctx_method) method) (\<lambda>_.
           bnd (putInteger context (TContext_offset ctx_stackTop) 0) (\<lambda>_.
           bnd (putInteger context (TContext_offset ctx_bytePointer) 0) (\<lambda>_.
           bnd (returnContext ec) (\<lambda>previous.
           bnd (putMember context (TContext_offset ctx_previousContext) previous) (\<lambda>_.
           bnd (hptr_set (currentContext ec) context) (\<lambda>_.
           bnd (loadPointers ec) (\<lambda>ec.
           bnd (modify (\<lambda>s. s\<lparr>m_messagesSent := m_messagesSent s + 1\<rparr>)) (\<lambda>_.
           ret ec)))))))))))))))))))))))))))"

text \<open>\<open>receiverClass\<close> is null unless the message goes to the superclass.\<close>

definition classOfReceiver :: "nat \<Rightarrow> ptr \<Rightarrow> ('a vm_scheme, ptr) comp" where
  "classOfReceiver messageArguments receiverClass =
     (if receiverClass \<noteq> NULL then ret receiverClass
      else bnd (hptr_get messageArguments) (\<lambda>args.
           bnd (getMember args 0) (\<lambda>receiver.
           bnd (guard AssertFailed (receiver \<noteq> NULL)) (\<lambda>_.
           bnd (objectClass receiver) (\<lambda>klass.
           bnd (guard AssertFailed (klass \<noteq> NULL)) (\<lambda>_. ret klass))))))"

definition sendMessage :: "ptr \<Rightarrow> ptr \<Rightarrow> ptr \<Rightarrow> TVMExecutionContext \<Rightarrow> ('a vm_scheme, TVMExecutionContext) comp" where
  "sendMessage selector arguments receiverClass ec =
     newPointer arguments (\<lambda>messageArguments.
       bnd (classOfReceiver messageArguments receiverClass) (\<lambda>klass.
       bnd (lookupMethod selector klass) (\<lambda>method. newPointer method (\<lambda>receiverMethod.
         bnd (if method = NULL
              then setupVarsForDoesNotUnderstand receiverMethod messageArguments selector klass
              else ret ()) (\<lambda>_.
         enterMethod receiverMethod messageArguments ec)))))"

definition doSendMessage :: "TVMExecutionContext \<Rightarrow> ('a vm_scheme, TVMExecutionContext) comp" where
  "doSendMessage ec =
     bnd (stackPop ec) (\<lambda>(messageArguments, ec).
     bnd (methodMember ec mth_literals) (\<lambda>literals.
     bnd (getMember literals (unat (m_argument (instruction ec)))) (\<lambda>messageSelector.
     sendMessage messageSelector messageArguments NULL ec)))"

section \<open>Unary and binary messages\<close>

definition pushReturned :: "ptr \<Rightarrow> TVMExecutionContext \<Rightarrow> ('a vm_scheme, TVMExecutionContext) comp" where
  "pushReturned v ec =
     bnd (hptr_set (returnedValue ec) v) (\<lambda>_.
     bnd (stackPush v ec) (\<lambda>ec.
     bnd (modify (\<lambda>s. s\<lparr>m_messagesSent := m_messagesSent s + 1\<rparr>)) (\<lambda>_. ret ec)))"

definition doSendUnary :: "TVMExecutionContext \<Rightarrow> ('a vm_scheme, TVMExecutionContext) comp" where
  "doSendUnary ec =
     bnd (stackPop ec) (\<lambda>(top, ec).
     bnd (global nilObject) (\<lambda>nil.
     bnd (case unary_cast (m_argument (instruction ec)) of
            una_isNil \<Rightarrow> boolObject (top = nil)
          | una_notNil \<Rightarrow> boolObject (top \<noteq> nil)
          | una_other n \<Rightarrow> raise Exit1) (\<lambda>v.
     pushReturned v ec)))"

definition binaryResult :: "u8 \<Rightarrow> u32 \<Rightarrow> u32 \<Rightarrow> ('a vm_scheme, ptr) comp" where
  "binaryResult argument leftOperand rightOperand =
     (case binary_cast argument of
        bin_operatorLess \<Rightarrow> boolObject (sint leftOperand < sint rightOperand)
      | bin_operatorLessOrEq \<Rightarrow> boolObject (sint leftOperand \<le> sint rightOperand)
      | bin_operatorPlus \<Rightarrow>
          bnd (callSmallIntPrimitive prim_smallIntAdd leftOperand rightOperand) (\<lambda>(v, _). ret v)
      | bin_other n \<Rightarrow> raise Exit1)"

definition doSendBinary :: "TVMExecutionContext \<Rightarrow> ('a vm_scheme, TVMExecutionContext) comp" where
  "doSendBinary ec =
     bnd (stackPop ec) (\<lambda>(rightObject, ec).
     bnd (stackPop ec) (\<lambda>(leftObject, ec).
     if isSmallInteger leftObject \<and> isSmallInteger rightObject
     then bnd (binaryResult (m_argument (instruction ec))
                 (TInteger_getValue leftObject) (TInteger_getValue rightObject)) (\<lambda>v.
          pushReturned v ec)
     else newPointer rightObject (\<lambda>pRightObject. newPointer leftObject (\<lambda>pLeftObject.
            bnd (newObjectArray 2) (\<lambda>array. newPointer array (\<lambda>messageArguments.
              bnd (hptr_get pRightObject) (\<lambda>right.
              bnd (hptr_get pLeftObject) (\<lambda>left.
              bnd (hptr_get messageArguments) (\<lambda>args.
              bnd (putMember args 1 right) (\<lambda>_.
              bnd (putMember args 0 left) (\<lambda>_.
              bnd (global binaryMessages) (\<lambda>messages.
              bnd (lift_res (nth_res messages (unat (m_argument (instruction ec))))) (\<lambda>messageSelector.
              sendMessage messageSelector args NULL ec)))))))))))))"

section \<open>Special instructions\<close>

text \<open>Leaving a context for \<open>target\<close>; a return to nil ends the process.\<close>

definition finishProcess :: "nat \<Rightarrow> TVMExecutionContext \<Rightarrow> ('a vm_scheme, unit) comp" where
  "finishProcess process ec =
     bnd (hptr_get process) (\<lambda>p.
     bnd (hptr_get (currentContext ec)) (\<lambda>c.
     bnd (hptr_get (returnedValue ec)) (\<lambda>v.
     bnd (putMember p (TProcess_offset proc_context) c) (\<lambda>_.
     putMember p (TProcess_offset proc_result) v))))"

definition returnTo :: "nat \<Rightarrow> ptr \<Rightarrow> TVMExecutionContext \<Rightarrow>
    ('a vm_scheme, TExecuteResult \<times> TVMExecutionContext) comp" where
  "returnTo process target ec =
     bnd (hptr_set (currentContext ec) target) (\<lambda>_.
     bnd (global nilObject) (\<lambda>nil.
     if target = nil
     then bnd (finishProcess process ec) (\<lambda>_. ret (returnReturned, ec))
     else bnd (loadPointers ec) (\<lambda>ec.
          bnd (hptr_get (returnedValue ec)) (\<lambda>v.
          bnd (stackPush v ec) (\<lambda>ec. ret (returnNoReturn, ec))))))"

definition branchIf :: "(TGlobals \<Rightarrow> ptr) \<Rightarrow> TVMExecutionContext \<Rightarrow>
    ('a vm_scheme, TExecuteResult \<times> TVMExecutionContext) comp" where
  "branchIf condition ec =
     bnd (stackPop ec) (\<lambda>(v, ec).
     bnd (hptr_set (returnedValue ec) v) (\<lambda>_.
     bnd (global condition) (\<lambda>object.
     ret (returnNoReturn, if v = object then ec\<lparr>bytePointer := m_extra (instruction ec)\<rparr> else ec))))"

definition doSpecial :: "nat \<Rightarrow> TVMExecutionContext \<Rightarrow>
    ('a vm_scheme, TExecuteResult \<times> TVMExecutionContext) comp" where
  "doSpecial process ec =
     bnd (contextMember ec ctx_arguments) (\<lambda>arguments.
     bnd (methodMember ec mth_literals) (\<lambda>literals.
     case special_cast (m_argument (instruction ec)) of
        spc_selfReturn \<Rightarrow>
          bnd (getMember arguments 0) (\<lambda>self.
          bnd (hptr_set (returnedValue ec) self) (\<lambda>_.
          bnd (contextMember ec ctx_previousContext) (\<lambda>previous.
          returnTo process previous ec)))
      | spc_stackReturn \<Rightarrow>
          bnd (stackPop ec) (\<lambda>(v, ec).
          bnd (hptr_set (returnedValue ec) v) (\<lambda>_.
          bnd (contextMember ec ctx_previousContext) (\<lambda>previous.
          returnTo process previous ec)))
      | spc_blockReturn \<Rightarrow>
          bnd (stackPop ec) (\<lambda>(v, ec).
          bnd (hptr_set (returnedValue ec) v) (\<lambda>_.
          bnd (hptr_get (currentContext ec)) (\<lambda>block.
          bnd (getMember block (TBlock_offset blk_creatingContext)) (\<lambda>creating.
          bnd (getMember creating (TContext_offset ctx_previousContext)) (\<lambda>previous.
          returnTo process previous ec)))))
      | spc_duplicate \<Rightarrow>
          bnd (stackLast ec) (\<lambda>copy.
          bnd (stackPush copy ec) (\<lambda>ec. ret (returnNoReturn, ec)))
      | spc_popTop \<Rightarrow> bnd (stackPop ec) (\<lambda>(_, ec). ret (returnNoReturn, ec))
      | spc_branch \<Rightarrow> ret (returnNoReturn, ec\<lparr>bytePointer := m_extra (instruction ec)\<rparr>)
      | spc_branchIfTrue \<Rightarrow> branchIf trueObject ec
      | spc_branchIfFalse \<Rightarrow> branchIf falseObject ec
      | spc_sendToSuper \<Rightarrow>
          bnd (getMember literals (unat (m_extra (instruction ec)))) (\<lambda>messageSelector.
          bnd (methodMember ec mth_klass) (\<lambda>klass.
          bnd (getMember klass (TClass_offset cls_parentClass)) (\<lambda>receiverClass.
          bnd (stackPop ec) (\<lambda>(messageArguments, ec).
          bnd (sendMessage messageSelector messageArguments receiverClass ec) (\<lambda>ec.
          ret (returnNoReturn, ec))))))
      | spc_other n \<Rightarrow> ret (returnNoReturn, ec)))"

end
