(* ===== verification/VMPrimitives.thy ===== *)
theory VMPrimitives
  imports VMSend
begin

text \<open>
  The primitives that work on the execution context (\<open>performPrimitive\<close>, \<open>doPrimitive\<close> and
  \<open>doBulkReplace\<close> of \<^verbatim>\<open>src/vm.cpp\<close>), in the build without LLVM: the opcodes of the compiler
  runtime fall into the default case.  The recursive call of \<open>execute\<close> is a parameter; theory
  \<open>VMExecute\<close> supplies it.
\<close>

section \<open>Bulk replace\<close>

text \<open>\<open>memmove\<close>: all of the source is read before the first write.\<close>

fun getFields :: "objmem \<Rightarrow> ptr \<Rightarrow> nat \<Rightarrow> nat \<Rightarrow> ptr list res" where
  "getFields m p i 0 = Inr []"
| "getFields m p i (Suc n) =
     bndR (getField m p i) (\<lambda>v. bndR (getFields m p (i + 1) n) (\<lambda>vs. Inr (v # vs)))"

fun putFields :: "objmem \<Rightarrow> ptr \<Rightarrow> nat \<Rightarrow> ptr list \<Rightarrow> objmem res" where
  "putFields m p i [] = Inr m"
| "putFields m p i (v # vs) = bndR (putField m p i v) (\<lambda>m. putFields m p (i + 1) vs)"

fun getBytesFrom :: "objmem \<Rightarrow> ptr \<Rightarrow> nat \<Rightarrow> nat \<Rightarrow> u8 list res" where
  "getBytesFrom m p i 0 = Inr []"
| "getBytesFrom m p i (Suc n) =
     bndR (getByte m p i) (\<lambda>b. bndR (getBytesFrom m p (i + 1) n) (\<lambda>bs. Inr (b # bs)))"

definition moveBytes :: "ptr \<Rightarrow> nat \<Rightarrow> ptr \<Rightarrow> nat \<Rightarrow> nat \<Rightarrow> ('a baker_scheme, unit) comp" where
  "moveBytes destination di source si n =
     bnd (mem (\<lambda>m. getBytesFrom m source si n)) (\<lambda>bs. mem_upd (\<lambda>m. putBytes m destination di bs))"

definition moveFields :: "ptr \<Rightarrow> nat \<Rightarrow> ptr \<Rightarrow> nat \<Rightarrow> nat \<Rightarrow> ('a baker_scheme, unit) comp" where
  "moveFields destination di source si n =
     bnd (mem (\<lambda>m. getFields m source si n)) (\<lambda>vs. mem_upd (\<lambda>m. putFields m destination di vs))"

definition doBulkReplace :: "ptr \<Rightarrow> ptr \<Rightarrow> ptr \<Rightarrow> ptr \<Rightarrow> ptr \<Rightarrow> ('a vm_scheme, bool) comp" where
  "doBulkReplace destination destinationStartOffset destinationStopOffset source sourceStartOffset =
     (if \<not> isSmallInteger sourceStartOffset \<or> \<not> isSmallInteger destinationStartOffset \<or>
         \<not> isSmallInteger destinationStopOffset
      then ret False
      else
        let iSourceStart = TInteger_getValue sourceStartOffset - 1;
            iDestinationStart = TInteger_getValue destinationStartOffset - 1;
            iDestinationStop = TInteger_getValue destinationStopOffset - 1;
            iCount = iDestinationStop - iDestinationStart + 1
        in
        if sint iSourceStart < 0 \<or> sint iDestinationStart < 0 \<or> sint iDestinationStop < 0 \<or> sint iCount < 1
        then ret False
        else
        bnd (mem (\<lambda>m. getSize m destination)) (\<lambda>destinationSize.
        if destinationSize < iDestinationStop then ret False
        else
        bnd (mem (\<lambda>m. getSize m source)) (\<lambda>sourceSize.
        if sourceSize < iSourceStart + iCount then ret False
        else
        bnd (mem (\<lambda>m. isBinary m source)) (\<lambda>sourceBinary.
        bnd (mem (\<lambda>m. isBinary m destination)) (\<lambda>destinationBinary.
        if sourceBinary \<and> destinationBinary
        then bnd (moveBytes destination (unat iDestinationStart) source (unat iSourceStart) (unat iCount))
               (\<lambda>_. ret True)
        else
        bnd (gets (\<lambda>s. isInStaticHeap s source \<noteq> isInStaticHeap s destination)) (\<lambda>crossing.
        if crossing then ret False
        else if \<not> sourceBinary \<and> \<not> destinationBinary
        then bnd (moveFields destination (unat iDestinationStart) source (unat iSourceStart) (unat iCount))
               (\<lambda>_. ret True)
        else ret False))))))"

section \<open>Primitives of the execution context\<close>

text \<open>
  A primitive returns its value, \<open>failed\<close>, and the execution context.
\<close>

type_synonym 's primitive_result = "(('s, ptr \<times> bool \<times> TVMExecutionContext) comp)"

definition primFailed :: "TVMExecutionContext \<Rightarrow> 'a vm_scheme primitive_result" where
  "primFailed ec = bnd (global nilObject) (\<lambda>nil. ret (nil, True, ec))"

definition primNil :: "TVMExecutionContext \<Rightarrow> 'a vm_scheme primitive_result" where
  "primNil ec = bnd (global nilObject) (\<lambda>nil. ret (nil, False, ec))"

definition popInteger :: "TVMExecutionContext \<Rightarrow> ('a vm_scheme, u32 \<times> TVMExecutionContext) comp" where
  "popInteger ec = bnd (stackPop ec) (\<lambda>(v, ec). bnd (lift_res (integerOf v)) (\<lambda>n. ret (n, ec)))"

definition primStartNewProcess ::
  "(ptr \<Rightarrow> u32 \<Rightarrow> ('a vm_scheme, TExecuteResult) comp) \<Rightarrow> TVMExecutionContext \<Rightarrow> 'a vm_scheme primitive_result" where
  "primStartNewProcess exec ec =
     bnd (popInteger ec) (\<lambda>(ticks, ec).
     bnd (stackPop ec) (\<lambda>(newProcess, ec).
     bnd (exec newProcess ticks) (\<lambda>result.
     ret (TInteger_of_int (executeResult_code result), False, ec))))"

definition primAllocateObject :: "TVMExecutionContext \<Rightarrow> 'a vm_scheme primitive_result" where
  "primAllocateObject ec =
     bnd (stackPop ec) (\<lambda>(size, ec).
     bnd (stackPop ec) (\<lambda>(klass, ec).
     bnd (lift_res (integerOf size)) (\<lambda>fieldsCount.
     bnd (newOrdinaryObject klass (sizeof_TObject + fieldsCount * 4)) (\<lambda>object.
     ret (object, False, ec)))))"

definition primAllocateByteArray :: "TVMExecutionContext \<Rightarrow> 'a vm_scheme primitive_result" where
  "primAllocateByteArray ec =
     bnd (popInteger ec) (\<lambda>(dataSize, ec).
     bnd (stackPop ec) (\<lambda>(klass, ec).
     bnd (newBinaryObject klass dataSize) (\<lambda>object. ret (object, False, ec))))"

definition primCloneByteObject :: "TVMExecutionContext \<Rightarrow> 'a vm_scheme primitive_result" where
  "primCloneByteObject ec =
     bnd (stackPop ec) (\<lambda>(klass, ec).
     bnd (stackPop ec) (\<lambda>(object, ec). newPointer object (\<lambda>original.
       bnd (hptr_get original) (\<lambda>o1.
       bnd (mem (\<lambda>m. getSize m o1)) (\<lambda>dataSize.
       bnd (newBinaryObject klass dataSize) (\<lambda>clone.
       bnd (hptr_get original) (\<lambda>o2.
       bnd (moveBytes clone 0 o2 0 (unat dataSize)) (\<lambda>_.
       ret (clone, False, ec)))))))))"

text \<open>
  Popping the arguments into the temporaries, from the last one on.  The index is a \<open>uint32_t\<close>.
\<close>

fun popArguments :: "ptr \<Rightarrow> u32 \<Rightarrow> nat \<Rightarrow> TVMExecutionContext \<Rightarrow> ('a vm_scheme, TVMExecutionContext) comp" where
  "popArguments temps location 0 ec = ret ec"
| "popArguments temps location (Suc n) ec =
     bnd (stackPop ec) (\<lambda>(v, ec).
     bnd (putMember temps (unat (location + of_nat n)) v) (\<lambda>_. popArguments temps location n ec))"

definition primBlockInvoke :: "TVMExecutionContext \<Rightarrow> 'a vm_scheme primitive_result" where
  "primBlockInvoke ec =
     bnd (stackPop ec) (\<lambda>(block, ec).
     bnd (getInteger block (TBlock_offset blk_argumentLocation)) (\<lambda>argumentLocation.
     let argCount = ucast (m_argument (instruction ec)) - 1 :: u32 in
     bnd (getMember block (TContext_offset ctx_temporaries)) (\<lambda>blockTemps.
     bnd (if blockTemps \<noteq> NULL
          then bnd (mem (\<lambda>m. getSize m blockTemps)) (\<lambda>n. ret (n - argumentLocation))
          else ret 0) (\<lambda>available.
     if argCount > available
     then primFailed (ec\<lparr>stackTop := stackTop ec - (argCount + 1)\<rparr>)
     else bnd (popArguments blockTemps argumentLocation (unat argCount) ec) (\<lambda>ec.
          bnd (contextMember ec ctx_previousContext) (\<lambda>previous.
          bnd (putMember block (TContext_offset ctx_previousContext) previous) (\<lambda>_.
          bnd (hptr_set (currentContext ec) block) (\<lambda>_.
          bnd (getInteger block (TBlock_offset blk_blockBytePointer)) (\<lambda>bp.
          ret (block, False, ec\<lparr>stackTop := 0, bytePointer := ucast bp\<rparr>))))))))))"

definition primThrowError :: "nat \<Rightarrow> TVMExecutionContext \<Rightarrow> 'a vm_scheme primitive_result" where
  "primThrowError process ec = bnd (finishProcess process ec) (\<lambda>_. primNil ec)"

definition primArray :: "bool \<Rightarrow> TVMExecutionContext \<Rightarrow> 'a vm_scheme primitive_result" where
  "primArray isPut ec =
     bnd (stackPop ec) (\<lambda>(indexObject, ec).
     bnd (stackPop ec) (\<lambda>(array, ec).
     bnd (if isPut then stackPop ec else ret (NULL, ec)) (\<lambda>(valueObject, ec).
     if \<not> isSmallInteger indexObject then primFailed ec
     else let actualIndex = TInteger_getValue indexObject - 1 in
     bnd (mem (\<lambda>m. getSize m array)) (\<lambda>size.
     if actualIndex \<ge> size then primFailed ec
     else if \<not> isPut
     then bnd (getMember array (unat actualIndex)) (\<lambda>v. ret (v, False, ec))
     else bnd (storeField array (unat actualIndex) valueObject) (\<lambda>_. ret (array, False, ec))))))"

definition primReadline :: "TVMExecutionContext \<Rightarrow> 'a vm_scheme primitive_result" where
  "primReadline ec =
     bnd (stackPop ec) (\<lambda>(prompt, ec).
     bnd (stringBytes prompt) (\<lambda>strPrompt.
     bnd (os_call (os_readline strPrompt)) (\<lambda>r.
     if os_result r \<noteq> 0
     then let input = os_bytes r in
          bnd (global stringClass) (\<lambda>klass.
          bnd (newBinaryObject klass (of_nat (length input))) (\<lambda>result.
          bnd (mem_upd (\<lambda>m. putBytes m result 0 input)) (\<lambda>_.
          ret (result, False, ec))))
     else primNil ec)))"

definition primIntegerNew :: "TVMExecutionContext \<Rightarrow> 'a vm_scheme primitive_result" where
  "primIntegerNew ec =
     bnd (stackPop ec) (\<lambda>(object, ec).
     if isSmallInteger object then ret (object, False, ec) else primFailed ec)"

definition primBulkReplace :: "TVMExecutionContext \<Rightarrow> 'a vm_scheme primitive_result" where
  "primBulkReplace ec =
     bnd (stackPop ec) (\<lambda>(destination, ec).
     bnd (stackPop ec) (\<lambda>(sourceStartOffset, ec).
     bnd (stackPop ec) (\<lambda>(source, ec).
     bnd (stackPop ec) (\<lambda>(destinationStopOffset, ec).
     bnd (stackPop ec) (\<lambda>(destinationStartOffset, ec).
     bnd (doBulkReplace destination destinationStartOffset destinationStopOffset source sourceStartOffset)
       (\<lambda>isSucceeded. if isSucceeded then ret (destination, False, ec) else primFailed ec))))))"

definition primDefault :: "u8 \<Rightarrow> TVMExecutionContext \<Rightarrow> 'a vm_scheme primitive_result" where
  "primDefault opc ec =
     (let argCount = m_argument (instruction ec) in
      bnd (newObjectArray (ucast argCount)) (\<lambda>array. newPointer array (\<lambda>args.
        bnd (popInto args (unat argCount) ec) (\<lambda>ec.
        bnd (hptr_get args) (\<lambda>arguments.
        bnd (callPrimitive opc arguments) (\<lambda>(v, failed). ret (v, failed, ec)))))))"

definition performPrimitive ::
  "(ptr \<Rightarrow> u32 \<Rightarrow> ('a vm_scheme, TExecuteResult) comp) \<Rightarrow> u8 \<Rightarrow> nat \<Rightarrow> TVMExecutionContext \<Rightarrow>
   'a vm_scheme primitive_result" where
  "performPrimitive exec opc process ec =
     (case primitive_cast opc of
        prim_debugTrap \<Rightarrow> primNil ec
      | prim_collectGarbage \<Rightarrow> bnd collectGarbage (\<lambda>_. primNil ec)
      | prim_readline \<Rightarrow> primReadline ec
      | prim_startNewProcess \<Rightarrow> primStartNewProcess exec ec
      | prim_allocateObject \<Rightarrow> primAllocateObject ec
      | prim_blockInvoke \<Rightarrow> primBlockInvoke ec
      | prim_throwError \<Rightarrow> primThrowError process ec
      | prim_allocateByteArray \<Rightarrow> primAllocateByteArray ec
      | prim_arrayAt \<Rightarrow> primArray False ec
      | prim_arrayAtPut \<Rightarrow> primArray True ec
      | prim_cloneByteObject \<Rightarrow> primCloneByteObject ec
      | prim_integerNew \<Rightarrow> primIntegerNew ec
      | prim_flushCache \<Rightarrow> bnd flushMethodCache (\<lambda>_. primNil ec)
      | prim_bulkReplace \<Rightarrow> primBulkReplace ec
      | _ \<Rightarrow> primDefault opc ec)"

section \<open>The instruction\<close>

definition leaveContext :: "nat \<Rightarrow> TVMExecutionContext \<Rightarrow>
    ('a vm_scheme, TExecuteResult \<times> TVMExecutionContext) comp" where
  "leaveContext process ec =
     bnd (contextMember ec ctx_previousContext) (\<lambda>previous.
     bnd (hptr_set (currentContext ec) previous) (\<lambda>_.
     bnd (global nilObject) (\<lambda>nil.
     if previous = nil
     then bnd (finishProcess process ec) (\<lambda>_. ret (returnReturned, ec))
     else bnd (getInteger previous (TContext_offset ctx_stackTop)) (\<lambda>top.
          bnd (hptr_get (returnedValue ec)) (\<lambda>v.
          bnd (stackPush v (ec\<lparr>stackTop := top\<rparr>)) (\<lambda>ec.
          bnd (hptr_get (currentContext ec)) (\<lambda>c.
          bnd (putInteger c (TContext_offset ctx_stackTop) (stackTop ec)) (\<lambda>_.
          bnd (getInteger c (TContext_offset ctx_bytePointer)) (\<lambda>bp.
          ret (returnNoReturn, ec\<lparr>bytePointer := ucast bp\<rparr>))))))))))"

definition doPrimitive ::
  "(ptr \<Rightarrow> u32 \<Rightarrow> ('a vm_scheme, TExecuteResult) comp) \<Rightarrow> nat \<Rightarrow> TVMExecutionContext \<Rightarrow>
   ('a vm_scheme, TExecuteResult \<times> TVMExecutionContext) comp" where
  "doPrimitive exec process ec =
     (let opc = ucast (m_extra (instruction ec)) :: u8 in
      bnd (performPrimitive exec opc process ec) (\<lambda>(v, failed, ec).
      bnd (hptr_set (returnedValue ec) v) (\<lambda>_.
      if failed
      then if primitive_cast opc = prim_LLVMsendMessage then ret (returnError, ec)
           else bnd (global nilObject) (\<lambda>nil.
                bnd (stackPush nil ec) (\<lambda>ec. ret (returnNoReturn, ec)))
      else (case primitive_cast opc of
              prim_debugTrap \<Rightarrow> ret (returnNoReturn, ec)
            | prim_throwError \<Rightarrow> ret (returnError, ec)
            | prim_blockInvoke \<Rightarrow> ret (returnNoReturn, ec)
            | _ \<Rightarrow> leaveContext process ec))))"

end
