(* ===== verification/VMExecute.thy ===== *)
theory VMExecute
  imports VMPrimitives
begin

text \<open>
  The interpreter loop (\<open>SmalltalkVM::execute\<close> of \<^verbatim>\<open>src/vm.cpp\<close>).  A process started by a
  primitive runs in a recursive call of \<open>execute\<close>.  The bound \<open>fuel\<close> counts the instructions of
  the loop and of the calls nested in it together; \<open>OutOfFuel\<close> says that it was too small.
\<close>

section \<open>One instruction\<close>

text \<open>The helper references the loop computes before it decodes, with the asserts before them.\<close>

record references =
  ref_byteCodes :: ptr
  ref_temporaries :: ptr
  ref_arguments :: ptr
  ref_instanceVariables :: ptr
  ref_literals :: ptr

definition loadReferences :: "TVMExecutionContext \<Rightarrow> ('a vm_scheme, references) comp" where
  "loadReferences ec =
     bnd (hptr_get (currentContext ec)) (\<lambda>c.
     bnd (guard AssertFailed (c \<noteq> NULL)) (\<lambda>_.
     bnd (contextMember ec ctx_method) (\<lambda>method.
     bnd (guard AssertFailed (method \<noteq> NULL)) (\<lambda>_.
     bnd (contextMember ec ctx_stack) (\<lambda>stack.
     bnd (guard AssertFailed (stack \<noteq> NULL)) (\<lambda>_.
     bnd (methodMember ec mth_byteCodes) (\<lambda>byteCodes.
     bnd (mem (\<lambda>m. getSize m byteCodes)) (\<lambda>size.
     bnd (guard AssertFailed (unat (bytePointer ec) \<le> unat size)) (\<lambda>_.
     bnd (contextMember ec ctx_arguments) (\<lambda>arguments.
     bnd (mem (\<lambda>m. getSize m arguments)) (\<lambda>argumentsSize.
     bnd (guard AssertFailed (argumentsSize \<ge> 1)) (\<lambda>_.
     bnd (getMember arguments 0) (\<lambda>self.
     bnd (guard AssertFailed (self \<noteq> NULL)) (\<lambda>_.
     bnd (contextMember ec ctx_temporaries) (\<lambda>temporaries.
     bnd (methodMember ec mth_literals) (\<lambda>literals.
     ret \<lparr>ref_byteCodes = byteCodes, ref_temporaries = temporaries, ref_arguments = arguments,
          ref_instanceVariables = self, ref_literals = literals\<rparr>))))))))))))))))"

definition fetch :: "references \<Rightarrow> TVMExecutionContext \<Rightarrow> ('a vm_scheme, TVMExecutionContext) comp" where
  "fetch refs ec =
     bnd (mem (\<lambda>m. symbolBytes m (ref_byteCodes refs))) (\<lambda>byteCodes.
     bnd (lift_res (decodeAndShiftPointer byteCodes (bytePointer ec))) (\<lambda>(i, bp).
     ret (ec\<lparr>instruction := i, bytePointer := bp\<rparr>)))"

definition continue :: "('a vm_scheme, TVMExecutionContext) comp \<Rightarrow>
    ('a vm_scheme, TExecuteResult \<times> TVMExecutionContext) comp" where
  "continue m = bnd m (\<lambda>ec. ret (returnNoReturn, ec))"

definition pushFrom :: "ptr \<Rightarrow> TVMExecutionContext \<Rightarrow> ('a vm_scheme, TVMExecutionContext) comp" where
  "pushFrom array ec =
     bnd (getMember array (unat (m_argument (instruction ec)))) (\<lambda>v. stackPush v ec)"

definition invalidOpcode :: "TVMExecutionContext \<Rightarrow> ('a vm_scheme, TVMExecutionContext) comp" where
  "invalidOpcode ec =
     bnd (methodMember ec mth_name) (\<lambda>name. bnd (stringBytes name) (\<lambda>_. raise Exit1))"

definition executeInstruction ::
  "(ptr \<Rightarrow> u32 \<Rightarrow> ('a vm_scheme, TExecuteResult) comp) \<Rightarrow> nat \<Rightarrow> references \<Rightarrow> TVMExecutionContext \<Rightarrow>
   ('a vm_scheme, TExecuteResult \<times> TVMExecutionContext) comp" where
  "executeInstruction exec process refs ec =
     (case m_opcode (instruction ec) of
        op_pushInstance \<Rightarrow> continue (pushFrom (ref_instanceVariables refs) ec)
      | op_pushArgument \<Rightarrow> continue (pushFrom (ref_arguments refs) ec)
      | op_pushTemporary \<Rightarrow> continue (pushFrom (ref_temporaries refs) ec)
      | op_pushLiteral \<Rightarrow> continue (pushFrom (ref_literals refs) ec)
      | op_pushConstant \<Rightarrow> continue (doPushConstant ec)
      | op_pushBlock \<Rightarrow> continue (doPushBlock ec)
      | op_assignTemporary \<Rightarrow>
          bnd (stackLast ec) (\<lambda>v.
          bnd (putMember (ref_temporaries refs) (unat (m_argument (instruction ec))) v) (\<lambda>_.
          ret (returnNoReturn, ec)))
      | op_assignInstance \<Rightarrow>
          bnd (stackLast ec) (\<lambda>newValue.
          bnd (storeField (ref_instanceVariables refs) (unat (m_argument (instruction ec))) newValue) (\<lambda>_.
          ret (returnNoReturn, ec)))
      | op_markArguments \<Rightarrow> continue (doMarkArguments ec)
      | op_sendMessage \<Rightarrow> continue (doSendMessage ec)
      | op_sendUnary \<Rightarrow> continue (doSendUnary ec)
      | op_sendBinary \<Rightarrow> continue (doSendBinary ec)
      | op_doPrimitive \<Rightarrow> doPrimitive exec process ec
      | op_doSpecial \<Rightarrow> doSpecial process ec
      | op_extended \<Rightarrow> continue (invalidOpcode ec)
      | op_other n \<Rightarrow> continue (invalidOpcode ec))"

section \<open>The loop\<close>

definition timeExpired :: "nat \<Rightarrow> TVMExecutionContext \<Rightarrow> ('a vm_scheme, TExecuteResult) comp" where
  "timeExpired process ec =
     bnd (storePointers ec) (\<lambda>_.
     bnd (finishProcess process ec) (\<lambda>_. ret returnTimeExpired))"

definition startExecute ::
  "(nat \<Rightarrow> TVMExecutionContext \<Rightarrow> u32 \<Rightarrow> ('a vm_scheme, TExecuteResult) comp) \<Rightarrow> ptr \<Rightarrow> u32 \<Rightarrow>
   ('a vm_scheme, TExecuteResult) comp" where
  "startExecute loop p ticks =
     newPointer p (\<lambda>process.
       bnd (getMember p (TProcess_offset proc_context)) (\<lambda>context.
       bnd (guard AssertFailed (context \<noteq> NULL)) (\<lambda>_.
       bnd (getMember context (TContext_offset ctx_method)) (\<lambda>method.
       bnd (guard AssertFailed (method \<noteq> NULL)) (\<lambda>_.
       bnd (global nilObject) (\<lambda>nil.
       newPointer nil (\<lambda>current. newPointer nil (\<lambda>returned.
         bnd (hptr_set current context) (\<lambda>_.
         bnd (loadPointers \<lparr>currentContext = current, instruction = mkInstruction op_extended 0 0,
                bytePointer = 0, stackTop = 0, returnedValue = returned\<rparr>) (\<lambda>ec.
         loop process ec ticks))))))))))"

primrec executeLoop :: "nat \<Rightarrow> nat \<Rightarrow> TVMExecutionContext \<Rightarrow> u32 \<Rightarrow> ('a vm_scheme, TExecuteResult) comp" where
  "executeLoop 0 = (\<lambda>process ec ticks. raise OutOfFuel)"
| "executeLoop (Suc fuel) = (\<lambda>process ec ticks.
     bnd (loadReferences ec) (\<lambda>refs.
     let left = (if ticks = 0 then 0 else ticks - 1) in
     if ticks \<noteq> 0 \<and> left = 0 then timeExpired process ec
     else bnd (fetch refs ec) (\<lambda>ec.
          bnd (executeInstruction (startExecute (executeLoop fuel)) process refs ec) (\<lambda>(result, ec).
          if result \<noteq> returnNoReturn then ret result
          else executeLoop fuel process ec left))))"

definition execute :: "nat \<Rightarrow> ptr \<Rightarrow> u32 \<Rightarrow> ('a vm_scheme, TExecuteResult) comp" where
  "execute fuel = startExecute (executeLoop fuel)"

end
