(* ===== verification/VMFrame.thy ===== *)
theory VMFrame
  imports VMExecute BakerFrame
begin

text \<open>
  What the interpreter as a whole leaves alone.  Whatever an instruction, a primitive or a whole process
  does, the registered external pointers are as many as before, the global objects and the static heap
  are the same, and the calls already made to the operating system stay made.  The facts are collected
  under \<open>preserves_intro\<close>, one rule per operation.
\<close>

section \<open>The frame of a computation\<close>

definition vm_kept :: "'a vm_scheme \<Rightarrow> 'a vm_scheme \<Rightarrow> bool" where
  "vm_kept s s' \<longleftrightarrow> length (m_externalPointers s') = length (m_externalPointers s) \<and>
     globals s' = globals s \<and> os s' = os s \<and> (\<exists>calls. os_log s' = calls @ os_log s) \<and>
     m_staticHeapBase s' = m_staticHeapBase s \<and> m_staticHeapSize s' = m_staticHeapSize s \<and>
     m_staticHeapPointer s' = m_staticHeapPointer s \<and> m_maxHeapSize s' = m_maxHeapSize s \<and>
     vm.more s' = vm.more s"

definition preserves :: "('a vm_scheme, 'x) comp \<Rightarrow> bool" where
  "preserves c \<longleftrightarrow> (\<forall>s x s'. c s = Inr (x, s') \<longrightarrow> vm_kept s s')"

named_theorems preserves_intro \<open>which computations keep the frame\<close>

lemma vm_kept_refl: "vm_kept s s"
  by (simp add: vm_kept_def)

lemma vm_kept_trans: "vm_kept s t \<Longrightarrow> vm_kept t u \<Longrightarrow> vm_kept s u"
  by (auto simp: vm_kept_def)

lemma preserves_bnd [preserves_intro]:
  assumes "preserves c" and "\<And>x. preserves (f x)"
  shows "preserves (bnd c f)"
  unfolding preserves_def
proof (intro allI impI)
  fix s y u assume "bnd c f s = Inr (y, u)"
  then obtain x t where "c s = Inr (x, t)" "f x t = Inr (y, u)" by (rule bnd_InrE)
  then have "vm_kept s t" "vm_kept t u" using assms unfolding preserves_def by blast+
  then show "vm_kept s u" by (rule vm_kept_trans)
qed

lemma preserves_manages: "manages c \<Longrightarrow> preserves c"
  unfolding manages_def preserves_def
proof (intro allI impI)
  fix s :: "'a vm_scheme" and x s'
  assume "\<forall>s x s'. c s = Inr (x, s') \<longrightarrow> manager_ok s s'" "c s = Inr (x, s')"
  then have "manager_ok s s'" by blast
  then show "vm_kept s s'" by (cases s; cases s') (auto simp: manager_ok_def vm_kept_def)
qed

lemmas preserves_reads [preserves_intro] =
  manages_reads[THEN preserves_manages]
  manages_allocate[THEN preserves_manages] manages_collectGarbage[THEN preserves_manages]

lemma preserves_modify [preserves_intro]: "(\<And>s. vm_kept s (f s)) \<Longrightarrow> preserves (modify f)"
  unfolding preserves_def by (auto simp: comp_simps)

lemma preserves_if [preserves_intro]: "(b \<Longrightarrow> preserves c) \<Longrightarrow> (\<not> b \<Longrightarrow> preserves d) \<Longrightarrow> preserves (if b then c else d)"
  by simp

lemma preserves_prod [preserves_intro]: "(\<And>x y. preserves (f x y)) \<Longrightarrow> preserves (case z of (x, y) \<Rightarrow> f x y)"
  by (cases z) simp

lemma preserves_option [preserves_intro]:
  "preserves c \<Longrightarrow> (\<And>x. preserves (f x)) \<Longrightarrow> preserves (case z of None \<Rightarrow> c | Some x \<Rightarrow> f x)"
  by (cases z) simp_all

section \<open>State operations\<close>

lemma preserves_os_call [preserves_intro]: "preserves (os_call r)"
  unfolding preserves_def os_call_def by (auto simp: vm_kept_def)

lemma preserves_global [preserves_intro]: "preserves (global f)" "preserves (boolObject b)"
  unfolding boolObject_def global_def by (intro preserves_intro)+

lemma preserves_hptr [preserves_intro]: "preserves (hptr_get h)" "preserves (hptr_set h v)"
  unfolding preserves_def hptr_get_def hptr_set_def
  by (auto simp: vm_kept_def upd_res_def split: sum.splits if_splits)

lemma preserves_members [preserves_intro]:
  "preserves (getMember p i)" "preserves (putMember p i v)" "preserves (getInteger p i)" "preserves (putInteger p i w)"
  unfolding getMember_def putMember_def getInteger_def putInteger_def by (intro preserves_intro)+

lemma preserves_newPointer [preserves_intro]:
  assumes "\<And>h. preserves (body h)"
  shows "preserves (newPointer v body)"
  unfolding preserves_def
proof (intro allI impI)
  fix s y u assume "newPointer v body s = Inr (y, u)"
  then obtain x t where t: "body (length (m_externalPointers s)) (s\<lparr>m_externalPointers := m_externalPointers s @ [v]\<rparr>) = Inr (x, t)"
    "u = t\<lparr>m_externalPointers := take (length (m_externalPointers s)) (m_externalPointers t)\<rparr>"
    by (auto simp: newPointer_def scoped_def acquirePointer_def discardPointer_def comp_simps split: sum.splits)
  then have "vm_kept (s\<lparr>m_externalPointers := m_externalPointers s @ [v]\<rparr>) t" using assms unfolding preserves_def by blast
  then show "vm_kept s u" unfolding t(2) vm_kept_def by auto
qed

lemma preserves_checkRoot [preserves_intro]: "preserves (checkRoot v sl)"
  unfolding preserves_def checkRoot_def
  by (auto simp: vm_kept_def addStaticRoot_def removeStaticRoot_def split: if_splits sum.splits)

lemma preserves_storeField [preserves_intro]: "preserves (storeField p i v)"
  unfolding storeField_def by (intro preserves_intro)

section \<open>Method lookup\<close>

lemma preserves_search [preserves_intro]: "preserves (search selector klass)"
  unfolding preserves_def search_def by (auto simp: vm_kept_refl split: option.splits sum.splits)

lemma preserves_cache [preserves_intro]:
  "preserves (lookupMethodInCache selector klass)" "preserves (updateMethodCache selector klass m)"
  "preserves flushMethodCache" "preserves onCollectionOccured"
  unfolding preserves_def lookupMethodInCache_def updateMethodCache_def flushMethodCache_def onCollectionOccured_def Let_def
  by (auto simp: vm_kept_def comp_simps split: if_splits)

lemma preserves_lookupMethod [preserves_intro]: "preserves (lookupMethod selector klass)"
  unfolding lookupMethod_def by (intro preserves_intro)

section \<open>Primitives without a context\<close>

lemma preserves_results [preserves_intro]: "preserves failed" "preserves (succeed v)"
  unfolding failed_def succeed_def by (intro preserves_intro)+

lemma preserves_smallInt [preserves_intro]: "preserves (callSmallIntPrimitive opc l r)"
  unfolding callSmallIntPrimitive_def by (cases opc; simp only: TPrimitive.case; intro preserves_intro)

lemma preserves_strings [preserves_intro]: "preserves (stringBytes p)" "preserves (intArg p i)" "preserves (objectClass p)"
  unfolding stringBytes_def intArg_def objectClass_def by (intro preserves_intro)+

lemma preserves_files [preserves_intro]:
  "preserves (ioFileOpen p)" "preserves (ioFileTransfer b p)" "preserves (ioFileSeek p)"
  unfolding ioFileOpen_def ioFileTransfer_def ioFileSeek_def Let_def by (intro preserves_intro)+

lemma preserves_fileStat [preserves_intro]: "preserves (ioFileSetStat p)"
  unfolding ioFileSetStat_def by (intro preserves_intro)

lemma preserves_io [preserves_intro]: "preserves (callIOPrimitive opc p)"
  unfolding callIOPrimitive_def by (cases opc; simp only: TPrimitive.case; intro preserves_intro)

lemma preserves_stringPrimitive [preserves_intro]: "preserves (stringPrimitive b p)"
  unfolding stringPrimitive_def Let_def by (intro preserves_intro)

lemma preserves_callPrimitive [preserves_intro]: "preserves (callPrimitive opc p)"
  unfolding callPrimitive_def Let_def by (intro preserves_intro)

section \<open>Contexts and the stack\<close>

lemma preserves_contextMembers [preserves_intro]:
  "preserves (contextMember ec m)" "preserves (methodMember ec n)" "preserves (loadPointers ec)" "preserves (storePointers ec)"
  unfolding contextMember_def methodMember_def loadPointers_def storePointers_def by (intro preserves_intro)+

lemma preserves_place [preserves_intro]: "preserves (placeOrdinary b bs n k)" "preserves (placeBinary b bs n k)"
  unfolding placeOrdinary_def placeBinary_def by (intro preserves_intro; simp add: vm_kept_def)+

lemma preserves_newInstance [preserves_intro]:
  "(\<And>b k. preserves (place b k)) \<Longrightarrow> preserves (newInstance k n place)"
  unfolding newInstance_def by (intro preserves_intro) (simp_all add: vm_kept_def)

lemma preserves_newObjects [preserves_intro]:
  "preserves (newOrdinaryObject k n)" "preserves (newBinaryObject k n)" "preserves (newObjectArray n)"
  "preserves newContextObject" "preserves newBlockObject"
  unfolding newOrdinaryObject_def newBinaryObject_def newObjectArray_def newContextObject_def newBlockObject_def Let_def
  by (intro preserves_intro)+

lemma preserves_copyStack [preserves_intro]: "preserves (copyStack newStack oldStack i n)"
  by (induction n arbitrary: i) (simp_all only: copyStack.simps, (intro preserves_intro | assumption)+)

lemma preserves_stack [preserves_intro]:
  "preserves (stackLast ec)" "preserves (stackPop ec)" "preserves (growStack ec p n)" "preserves (stackPush v ec)"
  unfolding stackLast_def stackPop_def growStack_def stackPush_def by (intro preserves_intro)+

lemma preserves_popInto [preserves_intro]: "preserves (popInto a n ec)"
  by (induction n arbitrary: ec) (simp_all only: popInto.simps, (intro preserves_intro | assumption)+)

lemma preserves_push [preserves_intro]:
  "preserves (blockCreatingContext ec)" "preserves (copyContextMember ec t m)" "preserves (doPushBlock ec)"
  "preserves (doMarkArguments ec)"
  unfolding blockCreatingContext_def copyContextMember_def doPushBlock_def doMarkArguments_def Let_def
  by (intro preserves_intro)+

lemma preserves_pushConstant [preserves_intro]: "preserves (doPushConstant ec)"
  unfolding doPushConstant_def
  by (cases "constant_cast (m_argument (instruction ec))"; simp only: TPushConstant.case; intro preserves_intro)

section \<open>Sends\<close>

lemma preserves_send [preserves_intro]:
  "preserves (setupVarsForDoesNotUnderstand m a sel k)" "preserves (returnContext ec)" "preserves (classOfReceiver a k)"
  unfolding setupVarsForDoesNotUnderstand_def returnContext_def classOfReceiver_def by (intro preserves_intro)+

lemma preserves_enterMethod [preserves_intro]: "preserves (enterMethod m a ec)"
  unfolding enterMethod_def by (intro preserves_intro) (simp_all add: vm_kept_def)

lemma preserves_sendMessage [preserves_intro]: "preserves (sendMessage sel a k ec)" "preserves (doSendMessage ec)"
  unfolding sendMessage_def doSendMessage_def by (intro preserves_intro)+

lemma preserves_pushReturned [preserves_intro]: "preserves (pushReturned v ec)"
  unfolding pushReturned_def by (intro preserves_intro) (simp_all add: vm_kept_def)

lemma preserves_unary_case [preserves_intro]:
  "preserves c \<Longrightarrow> preserves d \<Longrightarrow> (\<And>n. preserves (f n)) \<Longrightarrow>
   preserves (case z of una_isNil \<Rightarrow> c | una_notNil \<Rightarrow> d | una_other n \<Rightarrow> f n)"
  by (cases z) simp_all

lemma preserves_unary [preserves_intro]: "preserves (doSendUnary ec)"
  unfolding doSendUnary_def by (intro preserves_intro)

lemma preserves_binaryResult [preserves_intro]: "preserves (binaryResult a l r)"
  unfolding binaryResult_def by (cases "binary_cast a"; simp only: TBinaryBuiltIn.case; intro preserves_intro)

lemma preserves_binary [preserves_intro]: "preserves (doSendBinary ec)"
  unfolding doSendBinary_def by (intro preserves_intro)

lemma preserves_return [preserves_intro]:
  "preserves (finishProcess p ec)" "preserves (returnTo p t ec)" "preserves (branchIf c ec)"
  unfolding finishProcess_def returnTo_def branchIf_def by (intro preserves_intro)+

lemma preserves_special [preserves_intro]: "preserves (doSpecial p ec)"
  unfolding doSpecial_def
  by (cases "special_cast (m_argument (instruction ec))"; simp only: TSpecial.case; intro preserves_intro)

section \<open>Primitives of the execution context\<close>

lemma preserves_move [preserves_intro]: "preserves (moveBytes d i p j n)" "preserves (moveFields d i p j n)"
  unfolding moveBytes_def moveFields_def by (intro preserves_intro)+

lemma preserves_bulkReplace [preserves_intro]: "preserves (doBulkReplace d ds de p ps)"
  unfolding doBulkReplace_def Let_def by (intro preserves_intro)

lemma preserves_popArguments [preserves_intro]: "preserves (popArguments t l n ec)"
  by (induction n arbitrary: ec) (simp_all only: popArguments.simps, (intro preserves_intro | assumption)+)

lemma preserves_primResults [preserves_intro]: "preserves (primFailed ec)" "preserves (primNil ec)" "preserves (popInteger ec)"
  unfolding primFailed_def primNil_def popInteger_def by (intro preserves_intro)+

lemma preserves_prims [preserves_intro]:
  "preserves (primAllocateObject ec)" "preserves (primAllocateByteArray ec)" "preserves (primCloneByteObject ec)"
  "preserves (primBlockInvoke ec)" "preserves (primThrowError p ec)" "preserves (primArray b ec)"
  "preserves (primReadline ec)" "preserves (primIntegerNew ec)" "preserves (primBulkReplace ec)" "preserves (primDefault opc ec)"
  unfolding primAllocateObject_def primAllocateByteArray_def primCloneByteObject_def primBlockInvoke_def primThrowError_def
    primArray_def primReadline_def primIntegerNew_def primBulkReplace_def primDefault_def Let_def
  by (intro preserves_intro)+

text \<open>From here on the nested process is any computation that keeps the frame.\<close>

lemma preserves_performPrimitive:
  assumes "\<And>p t. preserves (exec p t)"
  shows "preserves (performPrimitive exec opc process ec)"
  unfolding performPrimitive_def primStartNewProcess_def
  by (cases "primitive_cast opc"; simp only: TPrimitive.case; intro preserves_intro assms)

lemma preserves_leaveContext [preserves_intro]: "preserves (leaveContext process ec)"
  unfolding leaveContext_def by (intro preserves_intro)

lemma preserves_primitive_case:
  "(\<And>ec. preserves (d ec)) \<Longrightarrow> preserves (case primitive_cast opc of prim_debugTrap \<Rightarrow> ret (returnNoReturn, ec)
     | prim_throwError \<Rightarrow> ret (returnError, ec) | prim_blockInvoke \<Rightarrow> ret (returnNoReturn, ec) | _ \<Rightarrow> d ec)"
  by (cases "primitive_cast opc"; simp only: TPrimitive.case; intro preserves_intro; assumption)

lemma preserves_doPrimitive:
  assumes "\<And>p t. preserves (exec p t)"
  shows "preserves (doPrimitive exec process ec)"
  unfolding doPrimitive_def Let_def
  by (intro preserves_intro preserves_performPrimitive preserves_primitive_case assms)

section \<open>The interpreter\<close>

lemma preserves_loadReferences [preserves_intro]: "preserves (loadReferences ec)" "preserves (fetch refs ec)"
  unfolding loadReferences_def fetch_def by (intro preserves_intro)+

lemma preserves_continue [preserves_intro]: "preserves c \<Longrightarrow> preserves (continue c)"
  unfolding continue_def by (intro preserves_intro)

lemma preserves_pushFrom [preserves_intro]: "preserves (pushFrom a ec)" "preserves (invalidOpcode ec)" "preserves (timeExpired p ec)"
  unfolding pushFrom_def invalidOpcode_def timeExpired_def by (intro preserves_intro)+

lemma preserves_executeInstruction:
  assumes "\<And>p t. preserves (exec p t)"
  shows "preserves (executeInstruction exec process refs ec)"
  unfolding executeInstruction_def
  by (cases "m_opcode (instruction ec)"; simp only: TOpcode.case; intro preserves_intro preserves_doPrimitive assms)

lemma preserves_startExecute:
  assumes "\<And>p ec t. preserves (loop p ec t)"
  shows "preserves (startExecute loop p ticks)"
  unfolding startExecute_def by (intro preserves_intro assms)

lemma preserves_executeLoop: "preserves (executeLoop fuel process ec ticks)"
proof (induction fuel arbitrary: process ec ticks)
  case 0
  then show ?case by (simp only: executeLoop.simps) (intro preserves_intro)
next
  case (Suc fuel)
  show ?case unfolding executeLoop.simps Let_def
    by (intro preserves_intro preserves_executeInstruction preserves_startExecute Suc.IH)
qed

section \<open>Properties\<close>


text \<open>A process that evaluates \<open>3 + 4\<close> and returns: push, push, send \<open>+\<close>, return from the stack.\<close>

definition sum_process :: objmem where
  "sum_process = [168 \<mapsto> sample_array [],
     1024 \<mapsto> sample_array [1040, 168, 168],
     1040 \<mapsto> sample_array [1088, 1136, 1152, 1168, 1, 1, 168],
     1088 \<mapsto> sample_array [168, 1200, 1152, 9, 1, 168, 168, 168],
     1136 \<mapsto> sample_array [168], 1152 \<mapsto> sample_array [], 1168 \<mapsto> sample_array [168, 168, 168, 168],
     1200 \<mapsto> \<lparr>obj_size = TSize_new 4 True False, obj_class = 168, obj_fields = [], obj_bytes = [0x53, 0x54, 0xB2, 0xF2]\<rparr>]"

definition sum_vm :: vm where
  "sum_vm = sample_vm\<lparr>objs := sum_process, m_externalPointers := [1024, 7]\<rparr>"


end
