(* ===== verification/VMFuel.thy ===== *)
theory VMFuel
  imports VMFrame
begin

text \<open>
  The bound of the interpreter model is no part of its behaviour: a run that did not use it up is the
  same with every larger bound.  Computations are ordered by \<open>approximates\<close>, the flat order with
  \<open>OutOfFuel\<close> at the bottom, and every operation that takes the nested \<open>execute\<close> as a parameter is
  monotone in it.
\<close>

section \<open>Approximation\<close>

definition approximates :: "('s, 'x) comp \<Rightarrow> ('s, 'x) comp \<Rightarrow> bool" where
  "approximates c d \<longleftrightarrow> (\<forall>s. c s = Inl OutOfFuel \<or> d s = c s)"

named_theorems approximates_intro \<open>monotone operations\<close>

lemma approximates_refl [approximates_intro]: "approximates c c"
  by (simp add: approximates_def)

lemma approximates_bottom: "approximates (raise OutOfFuel) c"
  by (simp add: approximates_def raise_def)

lemma approximatesD: "approximates c d \<Longrightarrow> c s \<noteq> Inl OutOfFuel \<Longrightarrow> d s = c s"
  by (auto simp: approximates_def)

lemma approximates_bnd [approximates_intro]:
  assumes "approximates c d" and "\<And>x. approximates (f x) (g x)"
  shows "approximates (bnd c f) (bnd d g)"
  unfolding approximates_def
proof (rule allI)
  fix s
  show "bnd c f s = Inl OutOfFuel \<or> bnd d g s = bnd c f s"
  proof (cases "c s = Inl OutOfFuel")
    case True
    then show ?thesis by (simp add: bnd_def)
  next
    case False
    then have "d s = c s" by (rule approximatesD [OF assms(1)])
    then show ?thesis using assms(2) by (auto simp: bnd_def approximates_def split: sum.split)
  qed
qed

lemma approximates_prod [approximates_intro]:
  "(\<And>x y. approximates (f x y) (g x y)) \<Longrightarrow>
   approximates (case z of (x, y) \<Rightarrow> f x y) (case z of (x, y) \<Rightarrow> g x y)"
  by (cases z) simp

lemma approximates_if [approximates_intro]:
  "approximates c c' \<Longrightarrow> approximates d d' \<Longrightarrow>
   approximates (if b then c else d) (if b then c' else d')"
  by simp

lemma approximates_newPointer [approximates_intro]:
  "(\<And>h. approximates (f h) (g h)) \<Longrightarrow> approximates (newPointer v f) (newPointer v g)"
  unfolding newPointer_def scoped_def by (intro approximates_intro)

section \<open>The operations\<close>

lemma approximates_performPrimitive:
  assumes "\<And>p t. approximates (exec p t) (exec' p t)"
  shows "approximates (performPrimitive exec opc process ec) (performPrimitive exec' opc process ec)"
  unfolding performPrimitive_def primStartNewProcess_def
  by (cases "primitive_cast opc"; simp only: TPrimitive.case; intro approximates_intro assms)

lemma approximates_executeInstruction:
  assumes "\<And>p t. approximates (exec p t) (exec' p t)"
  shows "approximates (executeInstruction exec process refs ec) (executeInstruction exec' process refs ec)"
  unfolding executeInstruction_def doPrimitive_def Let_def
  by (cases "m_opcode (instruction ec)"; simp only: TOpcode.case)
    (intro approximates_intro approximates_performPrimitive assms)+

lemma approximates_startExecute:
  assumes "\<And>p ec t. approximates (loop p ec t) (loop' p ec t)"
  shows "approximates (startExecute loop p ticks) (startExecute loop' p ticks)"
  unfolding startExecute_def by (intro approximates_intro assms)

lemma approximates_executeLoop:
  "fuel \<le> fuel' \<Longrightarrow> approximates (executeLoop fuel process ec ticks) (executeLoop fuel' process ec ticks)"
proof (induction fuel arbitrary: fuel' process ec ticks)
  case 0
  show ?case by (simp add: approximates_bottom)
next
  case (Suc fuel)
  then obtain fuel'' where f: "fuel' = Suc fuel''" "fuel \<le> fuel''" by (cases fuel') auto
  show ?case unfolding f(1) executeLoop.simps Let_def
    by (intro approximates_intro approximates_executeInstruction approximates_startExecute Suc.IH f(2))
qed

section \<open>The bound\<close>



end
