(* ===== verification/VMArith.thy ===== *)
theory VMArith
  imports VMFrame
begin

text \<open>
  The arithmetic of small integers: a small integer has 31 bits, the machine works on 32, and what the
  primitives return is the result reduced to 31 bits.
\<close>

section \<open>Reduction to 31 bits\<close>

definition wrap31 :: "int \<Rightarrow> int" where
  "wrap31 x = (x + 2 ^ 30) mod 2 ^ 31 - 2 ^ 30"

lemma wrap31_signed: "wrap31 x = signed_take_bit 30 x"
  by (simp add: wrap31_def signed_take_bit_eq_take_bit_shift take_bit_eq_mod)

lemma wrap31_exact: "- (2 ^ 30) \<le> x \<Longrightarrow> x < 2 ^ 30 \<Longrightarrow> wrap31 x = x"
  by (simp add: wrap31_def)

lemma sint_newInteger: "sint (TInteger_getValue (TInteger_of_int v)) = wrap31 (sint v)"
proof -
  have "sint (TInteger_getValue (TInteger_of_int v)) = signed_take_bit 30 (sint v)"
  proof (rule bit_eqI)
    fix n
    show "bit (sint (TInteger_getValue (TInteger_of_int v))) n \<longleftrightarrow> bit (signed_take_bit 30 (sint v)) n"
      by (auto simp: TInteger_getValue_def TInteger_of_int_def bit_sint_iff bit_getIntegerValue bit_newInteger
          bit_signed_take_bit_iff min_def not_less less_Suc_eq dest: le_antisym)
  qed
  then show ?thesis by (simp add: wrap31_signed)
qed

lemma sint_word_of_int: "sint (word_of_int x :: u32) = signed_take_bit 31 x"
  by (simp add: signed_of_int)

lemma wrap31_word: "wrap31 (sint (word_of_int x :: u32)) = wrap31 x"
  by (simp add: wrap31_signed sint_word_of_int signed_take_bit_signed_take_bit)

definition int_operation :: "TPrimitive \<Rightarrow> (int \<Rightarrow> int \<Rightarrow> int) option" where
  "int_operation opc =
     (case opc of
        prim_smallIntAdd \<Rightarrow> Some (+) | prim_smallIntSub \<Rightarrow> Some (-) | prim_smallIntMul \<Rightarrow> Some (*)
      | prim_smallIntDiv \<Rightarrow> Some (sdiv) | prim_smallIntMod \<Rightarrow> Some (smod)
      | prim_smallIntBitAnd \<Rightarrow> Some (AND) | prim_smallIntBitOr \<Rightarrow> Some (OR) | _ \<Rightarrow> None)"

lemma smallInt_result:
  assumes "int_operation opc = Some f" and "opc = prim_smallIntDiv \<or> opc = prim_smallIntMod \<longrightarrow> r \<noteq> 0"
  shows "callSmallIntPrimitive opc l r s = Inr ((TInteger_of_int (word_of_int (f (sint l) (sint r))), False), s)"
  using assms
  by (cases opc)
    (auto simp: int_operation_def callSmallIntPrimitive_def succeed_def ret_def wi_hom_syms of_int_and_eq of_int_or_eq)

section \<open>The arithmetic primitives\<close>

text \<open>The value of a small-integer object.\<close>

definition small_value :: "ptr \<Rightarrow> int" where
  "small_value v = sint (TInteger_getValue v)"

lemma small_value_newInteger [simp]: "small_value (TInteger_of_int v) = wrap31 (sint v)"
  by (simp add: small_value_def sint_newInteger)

lemma isSmallInteger_TInteger [simp]: "isSmallInteger (TInteger_of_int v)"
  by (simp add: TInteger_of_int_def isSmallInteger_newInteger)

lemma int_operation_arithmetic:
  "int_operation prim = Some f \<Longrightarrow>
   prim \<in> {prim_smallIntAdd, prim_smallIntSub, prim_smallIntMul, prim_smallIntDiv, prim_smallIntMod,
           prim_smallIntBitAnd, prim_smallIntBitOr}"
  by (cases prim) (auto simp: int_operation_def)

lemma callPrimitive_arithmetic:
  assumes "primitive_cast opc \<in>
      {prim_smallIntAdd, prim_smallIntDiv, prim_smallIntMod, prim_smallIntLess, prim_smallIntEqual,
       prim_smallIntMul, prim_smallIntSub, prim_smallIntBitOr, prim_smallIntBitAnd, prim_smallIntBitShift}"
  shows "callPrimitive opc args =
      bnd (getMember args 1) (\<lambda>rightObject. bnd (getMember args 0) (\<lambda>leftObject.
        if \<not> isSmallInteger leftObject \<or> \<not> isSmallInteger rightObject then failed
        else callSmallIntPrimitive (primitive_cast opc)
               (TInteger_getValue leftObject) (TInteger_getValue rightObject)))"
  using assms by (auto simp: callPrimitive_def cong: if_cong)

lemma sdiv_nonzero: "small_value v \<noteq> 0 \<Longrightarrow> TInteger_getValue v \<noteq> 0"
  by (auto simp: small_value_def)

text \<open>
  C26.  The arithmetic primitives on two small integers return the exact result reduced to 31 bits,
  a small integer again; a result that fits into 31 bits is exact, also where the 32-bit product or
  sum of the machine has wrapped around.  Only a division by zero is excluded.
\<close>

lemma small_integer_arithmetic:
  assumes "getMember args 0 s = Inr (leftObject, s)" and "getMember args 1 s = Inr (rightObject, s)"
    and "isSmallInteger leftObject" and "isSmallInteger rightObject"
    and "int_operation (primitive_cast opc) = Some f"
    and "primitive_cast opc \<in> {prim_smallIntDiv, prim_smallIntMod} \<longrightarrow> small_value rightObject \<noteq> 0"
  shows "\<exists>v. callPrimitive opc args s = Inr ((v, False), s) \<and> isSmallInteger v \<and>
      small_value v = wrap31 (f (small_value leftObject) (small_value rightObject)) \<and>
      (- (2 ^ 30) \<le> f (small_value leftObject) (small_value rightObject) \<and>
       f (small_value leftObject) (small_value rightObject) < 2 ^ 30 \<longrightarrow>
       small_value v = f (small_value leftObject) (small_value rightObject))"
proof -
  let ?x = "f (small_value leftObject) (small_value rightObject)"
  have "callPrimitive opc args s =
      callSmallIntPrimitive (primitive_cast opc) (TInteger_getValue leftObject) (TInteger_getValue rightObject) s"
    using assms(1-4) int_operation_arithmetic [OF assms(5)]
    by (subst callPrimitive_arithmetic) (auto simp: bnd_def)
  also have "\<dots> = Inr ((TInteger_of_int (word_of_int ?x), False), s)"
    using smallInt_result [OF assms(5)] assms(6) sdiv_nonzero by (auto simp: small_value_def)
  finally show ?thesis by (auto simp: wrap31_word wrap31_exact)
qed


section \<open>The left shift\<close>

lemma sint_shift_count: "n < 32 \<Longrightarrow> sint (word_of_nat n :: u32) = int n"
  using sint_word_of_int [of "int n"] by (simp add: signed_take_bit_int_eq_self)

lemma unat_shift_count: "n < 32 \<Longrightarrow> unat (word_of_nat n :: u32) = n"
  by (simp add: unat_of_nat)

lemma sint_push_bit:
  "- (2 ^ 31) \<le> sint l * 2 ^ n \<Longrightarrow> sint l < 0 \<Longrightarrow> sint (push_bit n l :: u32) = sint l * 2 ^ n"
  using sint_word_of_int [of "sint l * 2 ^ n"] signed_take_bit_int_eq_self [of 31 "sint l * 2 ^ n"]
  by (simp add: push_bit_eq_mult mult_less_0_iff less_trans [of "sint l * 2 ^ n" 0])

lemma shift_below: "sint (l :: u32) < 0 \<Longrightarrow> 0 < n \<Longrightarrow> sint l * 2 ^ n < sint l"
  by simp

text \<open>
  C28.  The guard of the left shift (\<open>leftOperand > result\<close>) is not an overflow test: every
  negative operand whose shift does not overflow is refused, and a shift that loses all the high
  bits can be accepted.
\<close>

lemma left_shift_guard:
  assumes "sint l < 0" and "0 < n" and "n < 32" and "- (2 ^ 31) \<le> sint l * 2 ^ n"
  shows "callSmallIntPrimitive prim_smallIntBitShift l (word_of_nat n) s = failed s \<and>
    callSmallIntPrimitive prim_smallIntBitShift 5 30 s = Inr ((TInteger_of_int (2 ^ 30), False), s) \<and>
    small_value (TInteger_of_int (2 ^ 30)) = - (2 ^ 30)"
proof (intro conjI)
  have "bitShift l (word_of_nat n) = Inr None"
    using assms shift_below [OF assms(1,2)]
    by (simp add: bitShift_def sint_shift_count unat_shift_count sint_push_bit)
  then show "callSmallIntPrimitive prim_smallIntBitShift l (word_of_nat n) s = failed s"
    by (simp add: callSmallIntPrimitive_def lift_res_def bnd_def)
next
  have "bitShift 5 30 = Inr (Some (2 ^ 30))" by (simp add: bitShift_def)
  then show "callSmallIntPrimitive prim_smallIntBitShift 5 30 s = Inr ((TInteger_of_int (2 ^ 30), False), s)"
    by (simp add: callSmallIntPrimitive_def lift_res_def bnd_def succeed_def ret_def)
next
  show "small_value (TInteger_of_int (2 ^ 30)) = - (2 ^ 30)" by (simp add: wrap31_def)
qed

section \<open>On a machine\<close>

text \<open>An array of the operands: the largest small integer and one.\<close>

definition arith_vm :: vm where
  "arith_vm = sum_vm\<lparr>objs := (objs sum_vm)(4096 \<mapsto>
     \<lparr>obj_size = TSize_new 2 False False, obj_class = NULL,
      obj_fields = [newInteger (2 ^ 30 - 1), newInteger 1], obj_bytes = []\<rparr>)\<rparr>"

lemma arith_vm_members:
  "getMember 4096 0 arith_vm = Inr (newInteger (2 ^ 30 - 1), arith_vm)"
  "getMember 4096 1 arith_vm = Inr (newInteger 1, arith_vm)"
  by (simp_all add: getMember_def mem_def arith_vm_def getField_def objectAt_def TObject_getField_def bndR_def)

lemma small_integer_arithmetic_witness:
  "\<exists>v. callPrimitive 10 4096 arith_vm = Inr ((v, False), arith_vm) \<and> isSmallInteger v \<and>
     small_value v = - (2 ^ 30)"
proof -
  have "small_value (newInteger (2 ^ 30 - 1)) = 2 ^ 30 - 1" "small_value (newInteger 1) = 1"
    "isSmallInteger (newInteger (2 ^ 30 - 1))" "isSmallInteger (newInteger 1)"
    "primitive_cast 10 = prim_smallIntAdd"
    by code_simp+
  moreover from this(5) have "int_operation (primitive_cast 10) = Some (+)" by (simp add: int_operation_def)
  ultimately show ?thesis
    using small_integer_arithmetic [OF arith_vm_members, of 10 "(+)"]
    by (auto simp: wrap31_def)
qed


lemma left_shift_guard_witness:
  "callSmallIntPrimitive prim_smallIntBitShift (- 1) 1 arith_vm = failed arith_vm"
  using left_shift_guard [of "- 1" 1 arith_vm] by simp

end
