(* ===== verification/JITRuntime.thy ===== *)
theory JITRuntime
  imports VMPrimitives
begin

text \<open>
  The runtime of compiled code (\<^verbatim>\<open>src/JITRuntime.cpp\<close>, \<^verbatim>\<open>include/jit.h\<close>): the two caches from
  methods and blocks to compiled functions, the sends and block calls that compiled code makes, the
  statistics of call sites, and the choice of the methods to compile again.  LLVM itself and the code
  it produces are a parameter, the record \<open>llvm\<close>.
\<close>

section \<open>State\<close>

text \<open>
  \<open>code\<close> is the address of compiled code, \<open>func\<close> an \<open>llvm::Function *\<close> and \<open>holder\<close> the \<open>llvm::Value *\<close>
  of a function's own context; 0 is the null pointer.
\<close>

type_synonym code = u32
type_synonym func = u32
type_synonym holder = u32

record TFunctionCacheEntry =
  fce_method :: ptr
  fce_function :: code

record TBlockFunctionCacheEntry =
  bce_containerMethod :: ptr
  bce_blockOffset :: u32
  bce_function :: code

record TCallSite =
  cs_hitCount :: u32
  cs_messageSelector :: ptr
  cs_classHits :: "ptr \<rightharpoonup> u32"

definition TCallSite_new :: TCallSite where
  "TCallSite_new = \<lparr>cs_hitCount = 0, cs_messageSelector = NULL, cs_classHits = Map.empty\<rparr>"

record THotMethod =
  hm_hitCount :: u32
  hm_method :: ptr
  hm_methodFunction :: func
  hm_callSites :: "u32 \<rightharpoonup> TCallSite"

definition THotMethod_new :: THotMethod where
  "THotMethod_new = \<lparr>hm_hitCount = 0, hm_method = NULL, hm_methodFunction = 0, hm_callSites = Map.empty\<rparr>"

text \<open>\<open>m_JITModule\<close> is what the runtime reads of the LLVM module: the functions by their names.\<close>

record jit = vm +
  m_functionLookupCache :: "u32 \<Rightarrow> TFunctionCacheEntry"
  m_blockFunctionLookupCache :: "u32 \<Rightarrow> TBlockFunctionCacheEntry"
  m_functionCacheHits :: u32
  m_functionCacheMisses :: u32
  m_blockCacheHits :: u32
  m_blockCacheMisses :: u32
  m_messagesDispatched :: u32
  m_blocksInvoked :: u32
  m_blockReturnsEmitted :: u32
  m_objectsAllocated :: u32
  m_hotMethods :: "code \<rightharpoonup> THotMethod"
  m_JITModule :: "string \<rightharpoonup> func"

text \<open>How compiled code ends: with a value, or with one of the two exceptions of the runtime.\<close>

datatype outcome = Returned ptr | BlockReturn ptr ptr | ContextThrown ptr

text \<open>
  What is not under \<open>src\<close>.  \<open>compileMethod\<close> and \<open>compileBlock\<close> stand for the method compiler followed by the
  verification and the optimisation passes, \<open>patchCallSite\<close> for the rewriting of one call.
\<close>

record 's llvm =
  compileMethod :: "ptr \<Rightarrow> ('s, func) comp"
  compileBlock :: "ptr \<Rightarrow> ('s, func) comp"
  getPointerToFunction :: "func \<Rightarrow> code"
  callMethod :: "code \<Rightarrow> ptr \<Rightarrow> ('s, outcome) comp"
  callBlock :: "code \<Rightarrow> ptr \<Rightarrow> ('s, outcome) comp"
  eraseFunction :: "func \<Rightarrow> ('s, unit) comp"
  recompile :: "ptr \<Rightarrow> func \<Rightarrow> ('s, holder) comp"
  patchCallSite :: "func \<Rightarrow> holder \<Rightarrow> TCallSite \<Rightarrow> u32 \<Rightarrow> ('s, unit) comp"
  optimizeFunction :: "func \<Rightarrow> ('s, unit) comp"
  inlineMethods :: "('s, unit) comp"
  relinkFunction :: "func \<Rightarrow> ('s, unit) comp"

section \<open>The caches of compiled functions\<close>

definition functionHash :: "ptr \<Rightarrow> ('a baker_scheme, u32) comp" where
  "functionHash method =
     bnd (getMember method (TMethod_offset mth_name)) (\<lambda>name.
     ret ((method XOR name) mod LOOKUP_CACHE_SIZE))"

definition blockFunctionHash :: "ptr \<Rightarrow> u32 \<Rightarrow> u32" where
  "blockFunctionHash containerMethod blockOffset = (containerMethod XOR blockOffset) mod LOOKUP_CACHE_SIZE"

definition lookupFunctionInCache :: "ptr \<Rightarrow> ('a jit_scheme, code) comp" where
  "lookupFunctionInCache method =
     bnd (functionHash method) (\<lambda>hash.
     bnd (gets (\<lambda>s. m_functionLookupCache s hash)) (\<lambda>entry.
     if fce_method entry = method
     then bnd (modify (\<lambda>s. s\<lparr>m_functionCacheHits := m_functionCacheHits s + 1\<rparr>)) (\<lambda>_. ret (fce_function entry))
     else bnd (modify (\<lambda>s. s\<lparr>m_functionCacheMisses := m_functionCacheMisses s + 1\<rparr>)) (\<lambda>_. ret 0)))"

definition lookupBlockFunctionInCache :: "ptr \<Rightarrow> u32 \<Rightarrow> ('a jit_scheme, code) comp" where
  "lookupBlockFunctionInCache containerMethod blockOffset =
     bnd (gets (\<lambda>s. m_blockFunctionLookupCache s (blockFunctionHash containerMethod blockOffset))) (\<lambda>entry.
     if bce_containerMethod entry = containerMethod \<and> bce_blockOffset entry = blockOffset
     then bnd (modify (\<lambda>s. s\<lparr>m_blockCacheHits := m_blockCacheHits s + 1\<rparr>)) (\<lambda>_. ret (bce_function entry))
     else bnd (modify (\<lambda>s. s\<lparr>m_blockCacheMisses := m_blockCacheMisses s + 1\<rparr>)) (\<lambda>_. ret 0))"

definition updateFunctionCache :: "ptr \<Rightarrow> code \<Rightarrow> ('a jit_scheme, unit) comp" where
  "updateFunctionCache method function =
     bnd (functionHash method) (\<lambda>hash.
     modify (\<lambda>s. s\<lparr>m_functionLookupCache := (m_functionLookupCache s)(hash :=
       \<lparr>fce_method = method, fce_function = function\<rparr>)\<rparr>))"

definition updateBlockFunctionCache :: "ptr \<Rightarrow> u32 \<Rightarrow> code \<Rightarrow> ('a jit_scheme, unit) comp" where
  "updateBlockFunctionCache containerMethod blockOffset function =
     modify (\<lambda>s. s\<lparr>m_blockFunctionLookupCache := (m_blockFunctionLookupCache s)
       (blockFunctionHash containerMethod blockOffset :=
         \<lparr>bce_containerMethod = containerMethod, bce_blockOffset = blockOffset, bce_function = function\<rparr>)\<rparr>)"

text \<open>\<open>memset\<close> with zero.\<close>

definition flushBlockFunctionCache :: "('a jit_scheme, unit) comp" where
  "flushBlockFunctionCache = modify (\<lambda>s. s\<lparr>m_blockFunctionLookupCache :=
     (\<lambda>_. \<lparr>bce_containerMethod = NULL, bce_blockOffset = 0, bce_function = 0\<rparr>)\<rparr>)"

definition flushFunctionCache :: "('a jit_scheme, unit) comp" where
  "flushFunctionCache = modify (\<lambda>s. s\<lparr>m_functionLookupCache := (\<lambda>_. \<lparr>fce_method = NULL, fce_function = 0\<rparr>)\<rparr>)"

text \<open>The end of \<open>initialize\<close>: the part that sets up the runtime's own state.\<close>

definition initializeCaches :: "('a jit_scheme, unit) comp" where
  "initializeCaches =
     bnd flushBlockFunctionCache (\<lambda>_.
     bnd flushFunctionCache (\<lambda>_.
     modify (\<lambda>s. s\<lparr>m_blockCacheHits := 0, m_blockCacheMisses := 0, m_functionCacheHits := 0,
       m_functionCacheMisses := 0, m_messagesDispatched := 0, m_blocksInvoked := 0,
       m_blockReturnsEmitted := 0, m_objectsAllocated := 0\<rparr>)))"

section \<open>Names of compiled functions\<close>

text \<open>\<open>toString\<close> as a character list; \<open>Class>>method\<close> and \<open>Class>>method@offset\<close>.\<close>

definition nameString :: "ptr \<Rightarrow> ('a baker_scheme, string) comp" where
  "nameString p = bnd (stringBytes p) (\<lambda>bs. ret (map (\<lambda>b. char_of (unat b)) bs))"

definition functionName :: "ptr \<Rightarrow> ('a baker_scheme, string) comp" where
  "functionName method =
     bnd (getMember method (TMethod_offset mth_klass)) (\<lambda>klass.
     bnd (getMember klass (TClass_offset cls_name)) (\<lambda>className.
     bnd (nameString className) (\<lambda>class_string.
     bnd (getMember method (TMethod_offset mth_name)) (\<lambda>methodName.
     bnd (nameString methodName) (\<lambda>method_string.
     ret (class_string @ ''>>'' @ method_string))))))"

definition blockFunctionName :: "ptr \<Rightarrow> u16 \<Rightarrow> ('a baker_scheme, string) comp" where
  "blockFunctionName method blockOffset =
     bnd (functionName method) (\<lambda>name. ret (name @ ''@'' @ show_nat (unat blockOffset)))"

definition getFunction :: "string \<Rightarrow> ('a jit_scheme, func) comp" where
  "getFunction name = gets (\<lambda>s. case m_JITModule s name of None \<Rightarrow> 0 | Some f \<Rightarrow> f)"

section \<open>Blocks\<close>

definition createBlock :: "ptr \<Rightarrow> u8 \<Rightarrow> u16 \<Rightarrow> ('a jit_scheme, ptr) comp" where
  "createBlock callingContext argLocation blockPointer =
     newPointer callingContext (\<lambda>previousContext.
       bnd newBlockObject (\<lambda>block. newPointer block (\<lambda>newBlock.
         bnd (hptr_get newBlock) (\<lambda>b.
         bnd (hptr_get previousContext) (\<lambda>c.
         bnd (putInteger b (TBlock_offset blk_argumentLocation) (ucast argLocation)) (\<lambda>_.
         bnd (putInteger b (TBlock_offset blk_blockBytePointer) (ucast blockPointer)) (\<lambda>_.
         bnd (getMember c (TContext_offset ctx_method)) (\<lambda>v.
         bnd (putMember b (TContext_offset ctx_method) v) (\<lambda>_.
         bnd (getMember c (TContext_offset ctx_arguments)) (\<lambda>v.
         bnd (putMember b (TContext_offset ctx_arguments) v) (\<lambda>_.
         bnd (getMember c (TContext_offset ctx_temporaries)) (\<lambda>v.
         bnd (putMember b (TContext_offset ctx_temporaries) v) (\<lambda>_.
         bnd (mem (\<lambda>m. getClass m c)) (\<lambda>klass.
         bnd (global blockClass) (\<lambda>blk.
         bnd (if klass = blk then getMember c (TBlock_offset blk_creatingContext) else ret c) (\<lambda>creating.
         bnd (putMember b (TBlock_offset blk_creatingContext) creating) (\<lambda>_.
         ret b)))))))))))))))))"

text \<open>The part of \<open>invokeBlock\<close> that finds or makes the code: the function is 0 after a cache hit.\<close>

definition compiledBlockFor :: "('a jit_scheme) llvm \<Rightarrow> ptr \<Rightarrow> bool \<Rightarrow> ('a jit_scheme, code \<times> func) comp" where
  "compiledBlockFor L block once =
     bnd (getInteger block (TBlock_offset blk_blockBytePointer)) (\<lambda>bp.
     bnd (getMember block (TContext_offset ctx_method)) (\<lambda>method.
     let blockOffset = (ucast bp :: u16) in
     bnd (if once then ret 0 else lookupBlockFunctionInCache method (ucast blockOffset)) (\<lambda>compiled.
     if compiled \<noteq> 0 then ret (compiled, 0)
     else bnd (blockFunctionName method blockOffset) (\<lambda>name.
          bnd (getFunction name) (\<lambda>found.
          bnd (if found \<noteq> 0 then ret found
               else bnd (compileBlock L block) (\<lambda>f. bnd (guard Exit1 (f \<noteq> 0)) (\<lambda>_. ret f))) (\<lambda>f.
          bnd (getMember block (TContext_offset ctx_method)) (\<lambda>method.
          bnd (updateBlockFunctionCache method (ucast blockOffset) (getPointerToFunction L f)) (\<lambda>_.
          ret (getPointerToFunction L f, f)))))))))"

definition invokeBlock :: "('a jit_scheme) llvm \<Rightarrow> ptr \<Rightarrow> ptr \<Rightarrow> bool \<Rightarrow> ('a jit_scheme, outcome) comp" where
  "invokeBlock L block callingContext once =
     bnd (compiledBlockFor L block once) (\<lambda>(compiled, f).
     bnd (getMember callingContext (TContext_offset ctx_previousContext)) (\<lambda>previous.
     bnd (putMember block (TContext_offset ctx_previousContext) previous) (\<lambda>_.
     bnd (callBlock L compiled block) (\<lambda>result.
     case result of
       Returned v \<Rightarrow>
         bnd (if once then bnd (eraseFunction L f) (\<lambda>_. flushBlockFunctionCache) else ret ()) (\<lambda>_. ret result)
     | _ \<Rightarrow> ret result))))"

section \<open>Statistics of call sites\<close>

text \<open>\<open>operator[]\<close> of the maps makes an entry where there is none.\<close>

definition hotMethodAt :: "(code \<rightharpoonup> THotMethod) \<Rightarrow> code \<Rightarrow> THotMethod" where
  "hotMethodAt m c = (case m c of None \<Rightarrow> THotMethod_new | Some h \<Rightarrow> h)"

definition callSiteAt :: "THotMethod \<Rightarrow> u32 \<Rightarrow> TCallSite" where
  "callSiteAt h i = (case hm_callSites h i of None \<Rightarrow> TCallSite_new | Some c \<Rightarrow> c)"

definition changeHotMethod :: "code \<Rightarrow> (THotMethod \<Rightarrow> THotMethod) \<Rightarrow> ('a jit_scheme, unit) comp" where
  "changeHotMethod c f = modify (\<lambda>s. s\<lparr>m_hotMethods := (m_hotMethods s)(c \<mapsto> f (hotMethodAt (m_hotMethods s) c))\<rparr>)"

definition hitSite :: "ptr \<Rightarrow> ptr \<Rightarrow> TCallSite \<Rightarrow> TCallSite" where
  "hitSite message receiverClass site =
     site\<lparr>cs_messageSelector := (if cs_hitCount site = 0 then message else cs_messageSelector site),
       cs_hitCount := cs_hitCount site + 1,
       cs_classHits := (cs_classHits site)(receiverClass \<mapsto>
         (case cs_classHits site receiverClass of None \<Rightarrow> 0 | Some n \<Rightarrow> n) + 1)\<rparr>"

definition updateHotSites :: "code \<Rightarrow> ptr \<Rightarrow> ptr \<Rightarrow> ptr \<Rightarrow> u32 \<Rightarrow> ('a jit_scheme, unit) comp" where
  "updateHotSites methodFunction callingContext message receiverClass callSiteIndex =
     bnd (changeHotMethod methodFunction (\<lambda>h. h\<lparr>hm_hitCount := hm_hitCount h + 1\<rparr>)) (\<lambda>_.
     if callSiteIndex = 0 then ret ()
     else bnd (getMember callingContext (TContext_offset ctx_method)) (\<lambda>callerMethod.
          bnd (lookupFunctionInCache callerMethod) (\<lambda>callerMethodFunction.
          if callerMethodFunction = 0 then ret ()
          else changeHotMethod callerMethodFunction (\<lambda>h. h\<lparr>hm_callSites := (hm_callSites h)
                 (callSiteIndex \<mapsto> hitSite message receiverClass (callSiteAt h callSiteIndex))\<rparr>))))"

section \<open>Sending a message\<close>

text \<open>The compiled function of the method behind a handle: from the cache, from the module, or new.\<close>

definition compiledFunctionFor :: "('a jit_scheme) llvm \<Rightarrow> nat \<Rightarrow> ('a jit_scheme, code) comp" where
  "compiledFunctionFor L method =
     bnd (hptr_get method) (\<lambda>m.
     bnd (lookupFunctionInCache m) (\<lambda>cached.
     if cached \<noteq> 0 then ret cached
     else bnd (functionName m) (\<lambda>name.
          bnd (getFunction name) (\<lambda>found.
          bnd (if found \<noteq> 0 then ret found else compileMethod L m) (\<lambda>f.
          bnd (hptr_get method) (\<lambda>m.
          bnd (updateFunctionCache m (getPointerToFunction L f)) (\<lambda>_.
          bnd (hptr_get method) (\<lambda>m.
          bnd (changeHotMethod (getPointerToFunction L f) (\<lambda>h. h\<lparr>hm_method := m, hm_methodFunction := f\<rparr>)) (\<lambda>_.
          ret (getPointerToFunction L f))))))))))"

definition receiverClassOf :: "nat \<Rightarrow> ptr \<Rightarrow> ('a jit_scheme, ptr) comp" where
  "receiverClassOf messageArguments receiverClass =
     (if receiverClass \<noteq> NULL then ret receiverClass
      else bnd (hptr_get messageArguments) (\<lambda>args. bnd (getMember args 0) objectClass))"

text \<open>The new context has no stack; the compiled code uses its own.\<close>

definition newMethodContext :: "nat \<Rightarrow> nat \<Rightarrow> nat \<Rightarrow> ('a jit_scheme, ptr) comp" where
  "newMethodContext method messageArguments previousContext =
     bnd (hptr_get method) (\<lambda>m.
     bnd (getInteger m (TMethod_offset mth_temporarySize)) (\<lambda>temporarySize.
     bnd (newObjectArray temporarySize) (\<lambda>temps. newPointer temps (\<lambda>newTemps.
       bnd newContextObject (\<lambda>newContext.
       bnd (hptr_get newTemps) (\<lambda>temps.
       bnd (putMember newContext (TContext_offset ctx_temporaries) temps) (\<lambda>_.
       bnd (hptr_get messageArguments) (\<lambda>args.
       bnd (putMember newContext (TContext_offset ctx_arguments) args) (\<lambda>_.
       bnd (hptr_get method) (\<lambda>m.
       bnd (putMember newContext (TContext_offset ctx_method) m) (\<lambda>_.
       bnd (hptr_get previousContext) (\<lambda>previous.
       bnd (putMember newContext (TContext_offset ctx_previousContext) previous) (\<lambda>_.
       ret newContext)))))))))))))"

definition jit_sendMessage :: "('a jit_scheme) llvm \<Rightarrow> ptr \<Rightarrow> ptr \<Rightarrow> ptr \<Rightarrow> ptr \<Rightarrow> u32 \<Rightarrow> ('a jit_scheme, outcome) comp" where
  "jit_sendMessage L callingContext message arguments receiverClass callSiteIndex =
     newPointer arguments (\<lambda>messageArguments. newPointer callingContext (\<lambda>previousContext.
       bnd (bnd (receiverClassOf messageArguments receiverClass) (\<lambda>klass.
            bnd (lookupMethod message klass) (\<lambda>m. newPointer m (\<lambda>method.
              bnd (if m = NULL then setupVarsForDoesNotUnderstand method messageArguments message klass
                   else ret ()) (\<lambda>_.
              bnd (compiledFunctionFor L method) (\<lambda>compiled.
              bnd (hptr_get previousContext) (\<lambda>previous.
              bnd (updateHotSites compiled previous message klass callSiteIndex) (\<lambda>_.
              bnd (newMethodContext method messageArguments previousContext) (\<lambda>newContext.
              ret (compiled, newContext)))))))))) (\<lambda>(compiled, newContext).
       callMethod L compiled newContext)))"

section \<open>The interface of compiled code\<close>

definition counting :: "('a jit_scheme \<Rightarrow> 'a jit_scheme) \<Rightarrow> ('a jit_scheme, 'x) comp \<Rightarrow> ('a jit_scheme, 'x) comp" where
  "counting count c = bnd (modify count) (\<lambda>_. c)"

definition api_newOrdinaryObject :: "ptr \<Rightarrow> u32 \<Rightarrow> ('a jit_scheme, ptr) comp" where
  "api_newOrdinaryObject klass slotSize =
     counting (\<lambda>s. s\<lparr>m_objectsAllocated := m_objectsAllocated s + 1\<rparr>) (newOrdinaryObject klass slotSize)"

definition api_newBinaryObject :: "ptr \<Rightarrow> u32 \<Rightarrow> ('a jit_scheme, ptr) comp" where
  "api_newBinaryObject klass dataSize =
     counting (\<lambda>s. s\<lparr>m_objectsAllocated := m_objectsAllocated s + 1\<rparr>) (newBinaryObject klass dataSize)"

definition api_sendMessage :: "('a jit_scheme) llvm \<Rightarrow> ptr \<Rightarrow> ptr \<Rightarrow> ptr \<Rightarrow> ptr \<Rightarrow> u32 \<Rightarrow> ('a jit_scheme, outcome) comp" where
  "api_sendMessage L callingContext message arguments receiverClass callSiteIndex =
     counting (\<lambda>s. s\<lparr>m_messagesDispatched := m_messagesDispatched s + 1\<rparr>)
       (jit_sendMessage L callingContext message arguments receiverClass callSiteIndex)"

definition api_invokeBlock :: "('a jit_scheme) llvm \<Rightarrow> ptr \<Rightarrow> ptr \<Rightarrow> ('a jit_scheme, outcome) comp" where
  "api_invokeBlock L block callingContext =
     counting (\<lambda>s. s\<lparr>m_blocksInvoked := m_blocksInvoked s + 1\<rparr>) (invokeBlock L block callingContext False)"

definition emitBlockReturn :: "ptr \<Rightarrow> ptr \<Rightarrow> ('a jit_scheme, outcome) comp" where
  "emitBlockReturn v targetContext =
     counting (\<lambda>s. s\<lparr>m_blockReturnsEmitted := m_blockReturnsEmitted s + 1\<rparr>) (ret (BlockReturn v targetContext))"

definition api_checkRoot :: "ptr \<Rightarrow> slot \<Rightarrow> ('a jit_scheme, unit) comp" where
  "api_checkRoot val objectSlot = bnd (checkRoot val objectSlot) (\<lambda>_. ret ())"

section \<open>Compiling hot methods again\<close>

text \<open>
  The pointers to the map's entries, which the loops go through from the highest hit count down.  The
  order \<open>std::sort\<close> gives to equal counts is the parameter \<open>order\<close>.
\<close>

definition hotMethodOrder :: "((code \<times> THotMethod) list \<Rightarrow> (code \<times> THotMethod) list) \<Rightarrow> ('a jit_scheme, code list) comp" where
  "hotMethodOrder order = gets (\<lambda>s. rev (map fst (order (map (\<lambda>c. (c, hotMethodAt (m_hotMethods s) c))
     (sorted_list_of_set (dom (m_hotMethods s)))))))"

definition compareByHitCount :: "THotMethod \<Rightarrow> THotMethod \<Rightarrow> bool" where
  "compareByHitCount m1 m2 \<longleftrightarrow> hm_hitCount m1 < hm_hitCount m2"

definition patchable :: "THotMethod \<Rightarrow> bool" where
  "patchable h \<longleftrightarrow> hm_callSites h \<noteq> Map.empty \<and> hm_method h \<noteq> NULL \<and> hm_methodFunction h \<noteq> 0"

primrec forHotMethods :: "(THotMethod \<Rightarrow> ('a jit_scheme, unit) comp) \<Rightarrow> code list \<Rightarrow> ('a jit_scheme, unit) comp" where
  "forHotMethods act [] = ret ()"
| "forHotMethods act (c # cs) =
     bnd (gets (\<lambda>s. hotMethodAt (m_hotMethods s) c)) (\<lambda>h.
     bnd (if patchable h then act h else ret ()) (\<lambda>_. forHotMethods act cs))"

primrec patchSites :: "('a jit_scheme) llvm \<Rightarrow> THotMethod \<Rightarrow> holder \<Rightarrow> u32 list \<Rightarrow> ('a jit_scheme, unit) comp" where
  "patchSites L h contextHolder [] = ret ()"
| "patchSites L h contextHolder (i # is) =
     bnd (patchCallSite L (hm_methodFunction h) contextHolder (callSiteAt h i) i) (\<lambda>_. patchSites L h contextHolder is)"

definition patchHotMethods :: "((code \<times> THotMethod) list \<Rightarrow> (code \<times> THotMethod) list) \<Rightarrow> ('a jit_scheme) llvm \<Rightarrow> ('a jit_scheme, unit) comp" where
  "patchHotMethods order L =
     bnd (hotMethodOrder order) (\<lambda>cs.
     bnd (forHotMethods (\<lambda>h. bnd (recompile L (hm_method h) (hm_methodFunction h)) (\<lambda>contextHolder.
            patchSites L h contextHolder (sorted_list_of_set (dom (hm_callSites h))))) cs) (\<lambda>_.
     bnd (forHotMethods (\<lambda>h. optimizeFunction L (hm_methodFunction h)) cs) (\<lambda>_.
     bnd (inlineMethods L) (\<lambda>_.
     bnd (forHotMethods (\<lambda>h. relinkFunction L (hm_methodFunction h)) cs) (\<lambda>_.
     bnd flushBlockFunctionCache (\<lambda>_. flushFunctionCache))))))"

end
