(* ===== verification/JITCorrect.thy ===== *)
theory JITCorrect
  imports JITRuntime BakerFrame
begin

text \<open>
  Correctness of the runtime of compiled code: what the function cache returns, whose code a send
  runs, and what the statistics of call sites count.
\<close>

section \<open>Whose code a send runs\<close>

lemma mem_pure: "mem k s = Inr (x, t) \<Longrightarrow> t = s"
  by (auto simp: comp_simps split: sum.splits)

text \<open>A computation that only reads the object memory.\<close>

definition reads_objs :: "('a baker_scheme, 'x) comp \<Rightarrow> bool" where
  "reads_objs c \<longleftrightarrow> (\<exists>k. \<forall>s. c s = (case k (objs s) of Inl e \<Rightarrow> Inl e | Inr x \<Rightarrow> Inr (x, s)))"

lemma reads_objs_mem: "reads_objs (mem k)"
  unfolding reads_objs_def by (intro exI[of _ k]) (simp add: comp_simps split: sum.split)

lemma reads_objs_ret: "reads_objs (ret x)"
  unfolding reads_objs_def by (intro exI[of _ "\<lambda>_. Inr x"]) (simp add: comp_simps)

lemma reads_objs_bnd:
  assumes "reads_objs c" and "\<And>x. reads_objs (f x)"
  shows "reads_objs (bnd c f)"
proof -
  obtain k where k: "\<And>s. c s = (case k (objs s) of Inl e \<Rightarrow> Inl e | Inr x \<Rightarrow> Inr (x, s))"
    using assms(1) unfolding reads_objs_def by blast
  obtain h where h: "\<And>x s. f x s = (case h x (objs s) of Inl e \<Rightarrow> Inl e | Inr y \<Rightarrow> Inr (y, s))"
    using assms(2) unfolding reads_objs_def by metis
  show ?thesis
    unfolding reads_objs_def
    by (intro exI[of _ "\<lambda>m. case k m of Inl e \<Rightarrow> Inl e | Inr x \<Rightarrow> h x m"])
       (simp add: bnd_def k h split: sum.split)
qed

lemma reads_objs_simple:
  "reads_objs (functionName m)" "reads_objs (functionHash m)"
  unfolding functionName_def functionHash_def nameString_def stringBytes_def getMember_def
  by (intro reads_objs_bnd reads_objs_mem reads_objs_ret)+

lemma reads_objs_run:
  assumes "reads_objs c" and "c s = Inr (x, s')" and "objs t = objs s"
  shows "s' = s \<and> c t = Inr (x, t)"
proof -
  obtain k where k: "\<And>s. c s = (case k (objs s) of Inl e \<Rightarrow> Inl e | Inr x \<Rightarrow> Inr (x, s))"
    using assms(1) unfolding reads_objs_def by blast
  show ?thesis using assms(2,3) k [of s] k [of t] by (cases "k (objs s)") simp_all
qed

lemma functionName_hash:
  assumes "functionName m s = Inr (name, t)"
  obtains hash where "functionHash m s = Inr (hash, s)"
proof -
  have pure: "u = t" if "nameString p t = Inr (x, u)" for p x t u
    using that by (auto simp: nameString_def stringBytes_def comp_simps split: sum.splits)
  have "\<exists>v. getMember m (TMethod_offset mth_name) s = Inr (v, s)"
    using assms by (auto simp: functionName_def getMember_def comp_simps dest!: pure split: sum.splits)
  then show thesis using that by (auto simp: functionHash_def bnd_def ret_def)
qed

text \<open>Every entry of the cache holds the code of the function the module has under its method's name.\<close>

definition entry_faithful :: "('a jit_scheme) llvm \<Rightarrow> 'a jit_scheme \<Rightarrow> TFunctionCacheEntry \<Rightarrow> bool" where
  "entry_faithful L s e \<longleftrightarrow> (fce_function e \<noteq> 0 \<longrightarrow>
     (\<exists>name f. functionName (fce_method e) s = Inr (name, s) \<and> m_JITModule s name = Some f \<and> f \<noteq> 0 \<and>
        fce_function e = getPointerToFunction L f))"

definition cache_faithful :: "('a jit_scheme) llvm \<Rightarrow> 'a jit_scheme \<Rightarrow> bool" where
  "cache_faithful L s \<longleftrightarrow> (\<forall>hash. entry_faithful L s (m_functionLookupCache s hash))"

text \<open>No name of the module stands for the null function.\<close>

definition null_free :: "'a jit_scheme \<Rightarrow> bool" where
  "null_free s \<longleftrightarrow> 0 \<notin> ran (m_JITModule s)"

text \<open>
  What the runtime relies on: a method whose name the module does not have is compiled to a function the
  module then has under that name, next to what it had; objects, registered pointers and the cache stay.
\<close>

definition compiles_by_name :: "('a jit_scheme) llvm \<Rightarrow> bool" where
  "compiles_by_name L \<longleftrightarrow> (\<forall>m t name. functionName m t = Inr (name, t) \<longrightarrow> m_JITModule t name = None \<longrightarrow>
     (\<exists>f t'. compileMethod L m t = Inr (f, t') \<and> f \<noteq> 0 \<and> m_JITModule t' name = Some f \<and>
        m_JITModule t \<subseteq>\<^sub>m m_JITModule t' \<and> objs t' = objs t \<and> m_externalPointers t' = m_externalPointers t \<and>
        m_functionLookupCache t' = m_functionLookupCache t \<and> (null_free t \<longrightarrow> null_free t')))"

lemma entry_faithful_mono:
  assumes "entry_faithful L s e" and "objs t = objs s" and "m_JITModule s \<subseteq>\<^sub>m m_JITModule t"
  shows "entry_faithful L t e"
proof -
  have "functionName m t = Inr (name, t)" if "functionName m s = Inr (name, s)" for m name
    using reads_objs_run [OF reads_objs_simple(1) that assms(2)] by simp
  moreover have "m_JITModule t name = Some f" if "m_JITModule s name = Some f" for name f
    using that assms(3) by (metis map_le_def domI)
  ultimately show ?thesis using assms(1) unfolding entry_faithful_def by blast
qed

lemma hptr_get_same: "hptr_get h s = Inr (m, s) \<Longrightarrow> m_externalPointers t = m_externalPointers s \<Longrightarrow> hptr_get h t = Inr (m, t)"
  by (auto simp: hptr_get_def split: sum.splits)

text \<open>A miss: the function of the module, or the one the compiler makes, is remembered and returned.\<close>

lemma compiledFunctionFor_miss:
  assumes miss: "lookupFunctionInCache m s = Inr (0, s1)" "objs s1 = objs s" "m_externalPointers s1 = m_externalPointers s"
      "m_functionLookupCache s1 = m_functionLookupCache s"
    and m: "hptr_get h s = Inr (m, s)" and hash: "functionHash m s = Inr (hash, s)"
    and name: "functionName m s1 = Inr (name, s1)"
    and f: "(if (case m_JITModule s1 name of None \<Rightarrow> 0 | Some f \<Rightarrow> f) \<noteq> 0
             then ret (case m_JITModule s1 name of None \<Rightarrow> 0 | Some f \<Rightarrow> f) else compileMethod L m) s1 = Inr (f, s2)"
      "objs s2 = objs s" "m_externalPointers s2 = m_externalPointers s" "m_functionLookupCache s2 = m_functionLookupCache s"
  shows "\<exists>s'. compiledFunctionFor L h s = Inr (getPointerToFunction L f, s') \<and> objs s' = objs s \<and>
    m_externalPointers s' = m_externalPointers s \<and> m_JITModule s' = m_JITModule s2 \<and>
    m_functionLookupCache s' = (m_functionLookupCache s)(hash := \<lparr>fce_method = m, fce_function = getPointerToFunction L f\<rparr>)"
proof -
  have h2: "hptr_get h s2 = Inr (m, s2)" by (rule hptr_get_same [OF m f(3)])
  have hash2: "functionHash m s2 = Inr (hash, s2)"
    using reads_objs_run [OF reads_objs_simple(2) hash f(2)] by simp
  let ?s3 = "s2\<lparr>m_functionLookupCache := (m_functionLookupCache s2)(hash :=
    \<lparr>fce_method = m, fce_function = getPointerToFunction L f\<rparr>)\<rparr>"
  have h3: "hptr_get h ?s3 = Inr (m, ?s3)" by (rule hptr_get_same [OF m]) (simp add: f(3))
  have upd: "updateFunctionCache m (getPointerToFunction L f) s2 = Inr ((), ?s3)"
    by (simp add: updateFunctionCache_def bnd_def hash2 modify_def)
  let ?s4 = "?s3\<lparr>m_hotMethods := (m_hotMethods ?s3)(getPointerToFunction L f \<mapsto>
    hotMethodAt (m_hotMethods ?s3) (getPointerToFunction L f)\<lparr>hm_method := m, hm_methodFunction := f\<rparr>)\<rparr>"
  have "compiledFunctionFor L h s = Inr (getPointerToFunction L f, ?s4)"
    unfolding compiledFunctionFor_def
    by (simp add: bnd_def m miss(1) name getFunction_def gets_def f(1) h2 upd h3 changeHotMethod_def modify_def ret_def)
  then show ?thesis using f(2-4) by (intro exI [of _ ?s4]) simp
qed

lemma lookupFunctionInCache_exec:
  assumes "functionHash m s = Inr (hash, s)"
  shows "\<exists>s'. lookupFunctionInCache m s =
      Inr (if fce_method (m_functionLookupCache s hash) = m then fce_function (m_functionLookupCache s hash) else 0, s') \<and>
    objs s' = objs s \<and> m_externalPointers s' = m_externalPointers s \<and> m_JITModule s' = m_JITModule s \<and>
    m_functionLookupCache s' = m_functionLookupCache s"
  using assms by (auto simp: lookupFunctionInCache_def comp_simps)

lemma compiledFunctionFor_result:
  assumes "cache_faithful L s" and "null_free s" and "compiles_by_name L"
    and "hptr_get h s = Inr (m, s)" and "functionName m s = Inr (name, s)"
  shows "\<exists>f s'. compiledFunctionFor L h s = Inr (getPointerToFunction L f, s') \<and>
    m_JITModule s' name = Some f \<and> (\<forall>g. m_JITModule s name = Some g \<longrightarrow> f = g) \<and>
    cache_faithful L s' \<and> null_free s' \<and> objs s' = objs s \<and> m_externalPointers s' = m_externalPointers s"
proof -
  obtain hash where hash: "functionHash m s = Inr (hash, s)" using functionName_hash [OF assms(5)] .
  let ?e = "m_functionLookupCache s hash"
  obtain s1 where s1: "lookupFunctionInCache m s = Inr (if fce_method ?e = m then fce_function ?e else 0, s1)"
      "objs s1 = objs s" "m_externalPointers s1 = m_externalPointers s" "m_JITModule s1 = m_JITModule s"
      "m_functionLookupCache s1 = m_functionLookupCache s"
    using lookupFunctionInCache_exec [OF hash] by blast
  have keep: "cache_faithful L t" if "objs t = objs s" "m_JITModule s \<subseteq>\<^sub>m m_JITModule t"
      "m_functionLookupCache t = m_functionLookupCache s" for t
    using assms(1) entry_faithful_mono [OF _ that(1,2)] that(3) unfolding cache_faithful_def by simp
  show ?thesis
  proof (cases "fce_method ?e = m \<and> fce_function ?e \<noteq> 0")
    case True
    then obtain f where f: "m_JITModule s name = Some f" "fce_function ?e = getPointerToFunction L f"
      using assms(1,5) unfolding cache_faithful_def entry_faithful_def by fastforce
    have "compiledFunctionFor L h s = Inr (getPointerToFunction L f, s1)"
      using True s1(1) f(2) by (simp add: compiledFunctionFor_def bnd_def assms(4) ret_def)
    then show ?thesis using f(1) s1 keep [of s1] assms(2) by (auto simp: null_free_def)
  next
    case False
    then have miss: "lookupFunctionInCache m s = Inr (0, s1)" using s1(1) by auto
    have name1: "functionName m s1 = Inr (name, s1)"
      using reads_objs_run [OF reads_objs_simple(1) assms(5) s1(2)] by simp
    obtain f s2 where f: "(if (case m_JITModule s1 name of None \<Rightarrow> 0 | Some f \<Rightarrow> f) \<noteq> 0
        then ret (case m_JITModule s1 name of None \<Rightarrow> 0 | Some f \<Rightarrow> f) else compileMethod L m) s1 = Inr (f, s2)"
      and s2: "objs s2 = objs s" "m_externalPointers s2 = m_externalPointers s"
        "m_functionLookupCache s2 = m_functionLookupCache s" "m_JITModule s2 name = Some f" "f \<noteq> 0"
        "m_JITModule s \<subseteq>\<^sub>m m_JITModule s2" "null_free s2"
    proof (cases "m_JITModule s name")
      case None
      then obtain f t where "compileMethod L m s1 = Inr (f, t)" "f \<noteq> 0" "m_JITModule t name = Some f"
          "m_JITModule s1 \<subseteq>\<^sub>m m_JITModule t" "objs t = objs s1" "m_externalPointers t = m_externalPointers s1"
          "m_functionLookupCache t = m_functionLookupCache s1" "null_free s1 \<longrightarrow> null_free t"
        using assms(3) name1 s1(4) unfolding compiles_by_name_def by metis
      then show ?thesis using that None s1 assms(2) by (auto simp: null_free_def)
    next
      case (Some g)
      then have "g \<noteq> 0" using assms(2) unfolding null_free_def by (metis ranI)
      then show ?thesis using that [of g s1] Some s1 assms(2) by (simp add: ret_def null_free_def)
    qed
    obtain s' where s': "compiledFunctionFor L h s = Inr (getPointerToFunction L f, s')" "objs s' = objs s"
        "m_externalPointers s' = m_externalPointers s" "m_JITModule s' = m_JITModule s2"
        "m_functionLookupCache s' = (m_functionLookupCache s)(hash := \<lparr>fce_method = m, fce_function = getPointerToFunction L f\<rparr>)"
      using compiledFunctionFor_miss [OF miss s1(2,3,5) assms(4) hash name1 f s2(1-3)] by blast
    have "entry_faithful L s' (m_functionLookupCache s' i)" for i
    proof (cases "i = hash")
      case True
      have "functionName m s' = Inr (name, s')" using reads_objs_run [OF reads_objs_simple(1) assms(5) s'(2)] by simp
      then show ?thesis using True s' s2(4,5) unfolding entry_faithful_def by auto
    next
      case other: False
      have "entry_faithful L s (m_functionLookupCache s i)" using assms(1) unfolding cache_faithful_def by blast
      from entry_faithful_mono [OF this s'(2)] have "entry_faithful L s' (m_functionLookupCache s i)"
        using s2(6) s'(4) by simp
      then show ?thesis using other s'(5) by simp
    qed
    then have "cache_faithful L s'" unfolding cache_faithful_def by blast
    moreover have "f = g" if "m_JITModule s name = Some g" for g
      using that s2(4,6) by (metis map_le_def domI option.inject)
    moreover have "m_JITModule s' name = Some f" using s'(4) s2(4) by simp
    moreover have "null_free s'" using s2(7) s'(4) by (simp add: null_free_def)
    ultimately show ?thesis using s'(1-3) by blast
  qed
qed



section \<open>A sample runtime\<close>

text \<open>
  Two methods \<open>A>>x\<close> at 16 and 64, registered in this order.  The compiler of the sample gives a function
  whose address tells the method it was made from.
\<close>

definition sample_objects :: objmem where
  "sample_objects = [16 \<mapsto> sample_array [48, 168, 168, 1, 1, 32, 168, 168], 64 \<mapsto> sample_array [48, 168, 168, 1, 1, 32, 168, 168],
     32 \<mapsto> sample_array [56], 48 \<mapsto> sample_symbol [120], 56 \<mapsto> sample_symbol [65]]"

definition sample_jit :: jit where
  "sample_jit = vm.extend (sample_vm\<lparr>objs := sample_objects, m_externalPointers := [16, 64]\<rparr>)
     (jit.fields (\<lambda>_. \<lparr>fce_method = 0, fce_function = 0\<rparr>)
        (\<lambda>_. \<lparr>bce_containerMethod = 0, bce_blockOffset = 0, bce_function = 0\<rparr>) 0 0 0 0 0 0 0 0 Map.empty Map.empty)"

definition sample_llvm :: "jit llvm" where
  "sample_llvm = \<lparr>compileMethod = (\<lambda>m. bnd (functionName m) (\<lambda>name.
       bnd (modify (\<lambda>s. s\<lparr>m_JITModule := (m_JITModule s)(name \<mapsto> m OR 1)\<rparr>)) (\<lambda>_. ret (m OR 1)))),
     compileBlock = (\<lambda>_. ret 1), getPointerToFunction = (\<lambda>f. f),
     callMethod = (\<lambda>_ _. ret (Returned 0)), callBlock = (\<lambda>_ _. ret (Returned 0)), eraseFunction = (\<lambda>_. ret ()),
     recompile = (\<lambda>_ _. ret 0), patchCallSite = (\<lambda>_ _ _ _. ret ()), optimizeFunction = (\<lambda>_. ret ()),
     inlineMethods = ret (), relinkFunction = (\<lambda>_. ret ())\<rparr>"

lemma sample_llvm_compiles: "compiles_by_name sample_llvm"
proof -
  have odd: "m OR 1 \<noteq> 0" for m :: u32 by (simp add: or_eq_0_iff)
  show ?thesis
    unfolding compiles_by_name_def sample_llvm_def
    by (auto simp: bnd_def modify_def ret_def odd null_free_def map_le_def ran_def split: if_splits)
qed

lemma sample_jit_fields:
  "cache_faithful L sample_jit" "null_free sample_jit" "objs sample_jit = sample_objects"
  "m_externalPointers sample_jit = [16, 64]" "m_JITModule sample_jit = Map.empty"
  "hptr_get 0 sample_jit = Inr (16, sample_jit)" "hptr_get (Suc 0) sample_jit = Inr (64, sample_jit)"
  by (simp_all add: sample_jit_def jit.defs vm.defs cache_faithful_def entry_faithful_def null_free_def hptr_get_def)

lemma sample_names:
  "functionName 16 sample_jit = Inr (''A>>x'', sample_jit)" "functionName 64 sample_jit = Inr (''A>>x'', sample_jit)"
proof -
  have named: "functionName m sample_jit = Inr (name, sample_jit)"
    if "map_sum id fst (functionName m sample_jit) = Inr name" for m name
    using that reads_objs_run [OF reads_objs_simple(1), of m sample_jit _ _ sample_jit]
    by (cases "functionName m sample_jit") auto
  show "functionName 16 sample_jit = Inr (''A>>x'', sample_jit)" by (rule named) code_simp
  show "functionName 64 sample_jit = Inr (''A>>x'', sample_jit)" by (rule named) code_simp
qed



section \<open>Statistics of call sites\<close>

definition site_counted :: "TCallSite \<Rightarrow> bool" where
  "site_counted site \<longleftrightarrow> finite (dom (cs_classHits site)) \<and>
     cs_hitCount site = (\<Sum>k \<in> dom (cs_classHits site). the (cs_classHits site k))"

definition sites_counted :: "'a jit_scheme \<Rightarrow> bool" where
  "sites_counted s \<longleftrightarrow> (\<forall>c h i site. m_hotMethods s c = Some h \<longrightarrow> hm_callSites h i = Some site \<longrightarrow> site_counted site)"

lemma hitSite_counted:
  assumes "site_counted site"
  shows "site_counted (hitSite message klass site)"
proof -
  let ?m = "cs_classHits site" and ?n = "case cs_classHits site klass of None \<Rightarrow> 0 | Some n \<Rightarrow> n"
  have fin: "finite (dom ?m)" using assms by (simp add: site_counted_def)
  have rest: "(\<Sum>k \<in> dom ?m - {klass}. the ((?m(klass \<mapsto> ?n + 1)) k)) = (\<Sum>k \<in> dom ?m - {klass}. the (?m k))"
    by (rule sum.cong) auto
  have "(\<Sum>k \<in> dom ?m. the (?m k)) = ?n + (\<Sum>k \<in> dom ?m - {klass}. the (?m k))"
  proof (cases "?m klass")
    case None
    then have "dom ?m - {klass} = dom ?m" by auto
    then show ?thesis using None by simp
  next
    case (Some n)
    then show ?thesis using fin by (simp add: sum.remove [of _ klass] domI)
  qed
  then show ?thesis
    using assms fin rest by (simp add: site_counted_def hitSite_def sum.insert_remove)
qed

lemma callSiteAt_counted:
  assumes "sites_counted s"
  shows "site_counted (callSiteAt (hotMethodAt (m_hotMethods s) c) i)"
  using assms unfolding sites_counted_def callSiteAt_def hotMethodAt_def
  by (auto simp: THotMethod_new_def TCallSite_new_def site_counted_def split: option.splits)

lemma hotMethodAt_counted:
  "sites_counted s \<Longrightarrow> hm_callSites (hotMethodAt (m_hotMethods s) c) i = Some site \<Longrightarrow> site_counted site"
  by (auto simp: sites_counted_def hotMethodAt_def THotMethod_new_def split: option.splits)

lemma changeHotMethod_counted:
  assumes "sites_counted s" and "changeHotMethod c f s = Inr (u, s')"
    and "\<And>i site. hm_callSites (f (hotMethodAt (m_hotMethods s) c)) i = Some site \<Longrightarrow> site_counted site"
  shows "sites_counted s'"
  using assms unfolding sites_counted_def changeHotMethod_def
  by (auto simp: modify_def split: if_splits)

text \<open>
  The hit count of a call site is the sum, modulo \<open>2\<^sup>3\<^sup>2\<close>, of the hits of its receiver classes; the
  statistics of a send keep that for every call site of every method.
\<close>

theorem updateHotSites_counts:
  assumes "sites_counted s" and "updateHotSites methodFunction callingContext message receiverClass callSiteIndex s = Inr ((), s')"
  shows "sites_counted s'"
proof -
  let ?hit = "\<lambda>h. h\<lparr>hm_hitCount := hm_hitCount h + 1\<rparr>"
  obtain s1 where s1: "changeHotMethod methodFunction ?hit s = Inr ((), s1)" by (simp add: changeHotMethod_def modify_def)
  have counted1: "sites_counted s1"
    by (rule changeHotMethod_counted [OF assms(1) s1])
       (simp add: hotMethodAt_counted [OF assms(1)])
  show ?thesis
  proof (cases "callSiteIndex = 0")
    case True
    then show ?thesis using assms(2) s1 counted1 by (simp add: updateHotSites_def bnd_def ret_def)
  next
    case False
    then obtain caller s2 c s3 where s2: "getMember callingContext (TContext_offset ctx_method) s1 = Inr (caller, s2)"
      and s3: "lookupFunctionInCache caller s2 = Inr (c, s3)"
      and last: "(if c = 0 then ret () else changeHotMethod c (\<lambda>h. h\<lparr>hm_callSites := (hm_callSites h)
                 (callSiteIndex \<mapsto> hitSite message receiverClass (callSiteAt h callSiteIndex))\<rparr>)) s3 = Inr ((), s')"
      using assms(2) s1 by (auto simp: updateHotSites_def elim!: bnd_InrE split: if_splits)
    have "m_hotMethods s2 = m_hotMethods s1" by (simp add: mem_pure [OF s2 [unfolded getMember_def]])
    moreover have "m_hotMethods s3 = m_hotMethods s2"
      using s3 by (auto simp: lookupFunctionInCache_def functionHash_def getMember_def comp_simps split: sum.splits if_splits)
    ultimately have counted3: "sites_counted s3" using counted1 by (simp add: sites_counted_def)
    show ?thesis
    proof (cases "c = 0")
      case True
      then show ?thesis using last counted3 by (simp add: ret_def)
    next
      case False
      then have "changeHotMethod c (\<lambda>h. h\<lparr>hm_callSites := (hm_callSites h)
          (callSiteIndex \<mapsto> hitSite message receiverClass (callSiteAt h callSiteIndex))\<rparr>) s3 = Inr ((), s')"
        using last by simp
      then show ?thesis
        by (rule changeHotMethod_counted [OF counted3])
           (auto simp: hotMethodAt_counted [OF counted3] hitSite_counted [OF callSiteAt_counted [OF counted3]] split: if_splits)
    qed
  qed
qed

text \<open>
  Call sites are numbered by the nodes of one control graph, and a block has its own graph but the
  method of the context that made it: sends of a method and of its blocks with the same node number share
  one record.  The selector kept is the first one, and classes that received the other message count as
  its receivers.
\<close>

theorem block_and_method_share_site:
  fixes s :: "'a jit_scheme"
  assumes "getMember methodContext (TContext_offset ctx_method) s = Inr (m, s)"
    and "getMember blockContext (TContext_offset ctx_method) s = Inr (m, s)"
    and "functionHash m s = Inr (hash, s)" and "m_functionLookupCache s hash = \<lparr>fce_method = m, fce_function = c\<rparr>"
    and "c \<noteq> 0" and "i \<noteq> 0" and "hm_callSites (hotMethodAt (m_hotMethods s) c) i = None"
  shows "\<exists>s1 s2 site. updateHotSites code1 blockContext message1 class1 i s = Inr ((), s1) \<and>
    updateHotSites code2 methodContext message2 class2 i s1 = Inr ((), s2) \<and>
    hm_callSites (hotMethodAt (m_hotMethods s2) c) i = Some site \<and>
    cs_messageSelector site = message1 \<and> {class1, class2} \<subseteq> dom (cs_classHits site)"
proof -
  have step: "\<exists>t'. updateHotSites f ctx message klass i t = Inr ((), t') \<and> objs t' = objs s \<and>
      m_functionLookupCache t' = m_functionLookupCache s \<and>
      hm_callSites (hotMethodAt (m_hotMethods t') c) i = Some (hitSite message klass (callSiteAt (hotMethodAt (m_hotMethods t) c) i))"
    if t: "objs t = objs s" "m_functionLookupCache t = m_functionLookupCache s" and ctx: "ctx \<in> {methodContext, blockContext}"
    for f ctx message klass and t :: "'a jit_scheme"
  proof -
    let ?t = "t\<lparr>m_hotMethods := (m_hotMethods t)(f \<mapsto> (hotMethodAt (m_hotMethods t) f)
      \<lparr>hm_hitCount := hm_hitCount (hotMethodAt (m_hotMethods t) f) + 1\<rparr>)\<rparr>"
    have member: "getMember ctx (TContext_offset ctx_method) ?t = Inr (m, ?t)"
      using assms(1,2) ctx t(1) by (auto simp: getMember_def comp_simps split: sum.splits)
    have hash: "functionHash m ?t = Inr (hash, ?t)"
      using reads_objs_run [OF reads_objs_simple(2) assms(3), of ?t] t(1) by simp
    have "lookupFunctionInCache m ?t = Inr (c, ?t\<lparr>m_functionCacheHits := m_functionCacheHits ?t + 1\<rparr>)"
      using assms(4) t(2) by (simp add: lookupFunctionInCache_def bnd_def hash gets_def modify_def ret_def)
    then show ?thesis
      using assms(5,6) t member
      by (simp add: updateHotSites_def changeHotMethod_def bnd_def modify_def ret_def hotMethodAt_def callSiteAt_def
        split: option.split)
  qed
  obtain s1 where s1: "updateHotSites code1 blockContext message1 class1 i s = Inr ((), s1)" "objs s1 = objs s"
      "m_functionLookupCache s1 = m_functionLookupCache s"
      "hm_callSites (hotMethodAt (m_hotMethods s1) c) i = Some (hitSite message1 class1 TCallSite_new)"
    using step [of s blockContext code1 message1 class1] assms(7) by (auto simp: callSiteAt_def)
  obtain s2 where "updateHotSites code2 methodContext message2 class2 i s1 = Inr ((), s2)"
      "hm_callSites (hotMethodAt (m_hotMethods s2) c) i = Some (hitSite message2 class2 (hitSite message1 class1 TCallSite_new))"
    using step [of s1 methodContext code2 message2 class2] s1 by (auto simp: callSiteAt_def)
  then show ?thesis using s1(1) by (auto simp: hitSite_def TCallSite_new_def)
qed

text \<open>A context 80 of the method \<open>A>>x\<close> at 16, whose compiled code is at 5, and a block context 88 of it.\<close>

definition running_jit :: jit where
  "running_jit = sample_jit\<lparr>objs := sample_objects(80 \<mapsto> sample_array [16], 88 \<mapsto> sample_array [16]),
     m_functionLookupCache := (\<lambda>_. \<lparr>fce_method = 16, fce_function = 5\<rparr>)\<rparr>"

lemma running_jit_counted: "sites_counted running_jit"
  by (simp add: sites_counted_def running_jit_def sample_jit_def jit.defs vm.defs)

lemma updateHotSites_counts_witness:
  "\<exists>s'. updateHotSites 5 80 48 32 3 running_jit = Inr ((), s') \<and> sites_counted s' \<and>
     cs_hitCount (callSiteAt (hotMethodAt (m_hotMethods s') 5) 3) = 1"
proof -
  have "map_sum id (\<lambda>(u, s'). cs_hitCount (callSiteAt (hotMethodAt (m_hotMethods s') 5) 3))
      (updateHotSites 5 80 48 32 3 running_jit) = Inr 1"
    by code_simp
  then obtain s' where s': "updateHotSites 5 80 48 32 3 running_jit = Inr ((), s')"
      "cs_hitCount (callSiteAt (hotMethodAt (m_hotMethods s') 5) 3) = 1"
    by (cases "updateHotSites 5 80 48 32 3 running_jit") auto
  then show ?thesis using updateHotSites_counts [OF running_jit_counted s'(1)] by blast
qed

lemma running_jit_members:
  "getMember 80 (TContext_offset ctx_method) running_jit = Inr (16, running_jit)"
  "getMember 88 (TContext_offset ctx_method) running_jit = Inr (16, running_jit)"
proof -
  have member: "getMember p i running_jit = Inr (v, running_jit)"
    if "map_sum id fst (getMember p i running_jit) = Inr v" for p i v
    using that mem_pure [of "\<lambda>m. getField m p i" running_jit]
    unfolding getMember_def by (cases "mem (\<lambda>m. getField m p i) running_jit") auto
  show "getMember 80 (TContext_offset ctx_method) running_jit = Inr (16, running_jit)" by (rule member) code_simp
  show "getMember 88 (TContext_offset ctx_method) running_jit = Inr (16, running_jit)" by (rule member) code_simp
qed

lemma running_jit_hash: "functionHash 16 running_jit = Inr (32, running_jit)"
proof -
  have "map_sum id fst (functionHash 16 running_jit) = Inr 32" by code_simp
  then show ?thesis
    using reads_objs_run [OF reads_objs_simple(2), of 16 running_jit _ _ running_jit]
    by (cases "functionHash 16 running_jit") auto
qed

lemma block_and_method_share_site_witness:
  "\<exists>s1 s2 site. updateHotSites 9 88 48 32 3 running_jit = Inr ((), s1) \<and>
    updateHotSites 9 80 56 40 3 s1 = Inr ((), s2) \<and> hm_callSites (hotMethodAt (m_hotMethods s2) 5) 3 = Some site \<and>
    cs_messageSelector site = 48 \<and> {32, 40} \<subseteq> dom (cs_classHits site)"
  by (rule block_and_method_share_site [OF running_jit_members running_jit_hash])
     (simp_all add: running_jit_def sample_jit_def jit.defs vm.defs hotMethodAt_def THotMethod_new_def)

section \<open>Collections\<close>

text \<open>The collector does not know the function cache: it keeps the old addresses of moved methods.\<close>

lemma collection_keeps_function_cache:
  assumes "collectGarbage s = Inr ((), s')"
  shows "m_functionLookupCache s' = m_functionLookupCache s" and "m_blockFunctionLookupCache s' = m_blockFunctionLookupCache s"
proof -
  have "baker.more s' = baker.more s"
    using assms manages_collectGarbage unfolding manages_def manager_ok_def by blast
  then show "m_functionLookupCache s' = m_functionLookupCache s"
    by (cases s; cases s') simp
  show "m_blockFunctionLookupCache s' = m_blockFunctionLookupCache s"
    using \<open>baker.more s' = baker.more s\<close> by (cases s; cases s') simp
qed

end
