(* ===== verification/ControlGraph.thy ===== *)
theory ControlGraph
  imports ParsedBytecode
begin

text \<open>
  The control graph the JIT compiler builds from parsed bytecodes (\<^verbatim>\<open>include/analysis.h\<close>,
  \<^verbatim>\<open>src/ControlGraph.cpp\<close>): one node per instruction, grouped in one domain per basic block.
  While a domain is filled its instructions run on a symbolic stack of nodes; what they take from below
  that stack is requested, and linked to the values of the referring blocks afterwards, through phi nodes
  where there are several.

  A node is its index, which \<open>ControlGraph\<close> hands out in sequence; a domain is the offset of its
  basic block.  The sets of nodes are ordered by index and kept as sorted lists.  The sets of referers are
  ordered by the addresses of the blocks: the allocator's choice is the parameter \<open>address\<close>.
\<close>

section \<open>Nodes\<close>

datatype TNodeType = ntInstruction | ntPhi | ntTau

text \<open>
  \<open>InstructionNode\<close>, \<open>PushBlockNode\<close> and \<open>PhiNode\<close> add members to \<open>ControlNode\<close>; here one record
  has the members of all, used by the nodes of their type.  The LLVM values are left out.
\<close>

record TIncoming =
  inc_domain :: u16
  inc_node :: nat

record ControlNode =
  m_nodeType :: TNodeType
  m_inEdges :: "nat list"
  m_outEdges :: "nat list"
  m_domain :: "u16 option"
  m_consumers :: "nat list"
  m_instruction :: TSmalltalkInstruction
  m_arguments :: "nat option list"
  m_parsedBlockOf :: "nat option"
  m_phiIndex :: nat
  m_incomingList :: "TIncoming list"

definition ControlNode_new :: "TNodeType \<Rightarrow> ControlNode" where
  "ControlNode_new type = \<lparr>m_nodeType = type, m_inEdges = [], m_outEdges = [], m_domain = None,
     m_consumers = [], m_instruction = mkInstruction op_extended 0 0, m_arguments = [],
     m_parsedBlockOf = None, m_phiIndex = 0, m_incomingList = []\<rparr>"

text \<open>The sorted sets.\<close>

definition set_add :: "'a::linorder \<Rightarrow> 'a list \<Rightarrow> 'a list" where
  "set_add x xs = insort_insert x xs"

definition set_remove :: "'a \<Rightarrow> 'a list \<Rightarrow> 'a list" where
  "set_remove x xs = removeAll x xs"

lemma set_set_add [simp]: "set (set_add x xs) = insert x (set xs)"
  by (simp add: set_add_def set_insort_insert)

lemma set_set_remove [simp]: "set (set_remove x xs) = set xs - {x}"
  by (auto simp: set_remove_def)

definition node_setArgument :: "nat \<Rightarrow> nat \<Rightarrow> ControlNode \<Rightarrow> ControlNode" where
  "node_setArgument index value node =
     (let arguments = (if index \<ge> length (m_arguments node)
                       then m_arguments node @ replicate (index + 1 - length (m_arguments node)) None
                       else m_arguments node)
      in node\<lparr>m_arguments := arguments[index := Some value]\<rparr>)"

definition node_addArgument :: "nat \<Rightarrow> ControlNode \<Rightarrow> nat \<times> ControlNode" where
  "node_addArgument value node =
     (length (m_arguments node), node\<lparr>m_arguments := m_arguments node @ [Some value]\<rparr>)"

definition node_getArgument :: "nat \<Rightarrow> ControlNode \<Rightarrow> nat option res" where
  "node_getArgument index node =
     (if index < length (m_arguments node) then Inr (m_arguments node ! index) else Inl AssertFailed)"

section \<open>Domains and graphs\<close>

record TArgumentRequest =
  req_index :: nat
  requestingNode :: nat

record ControlDomain =
  m_domainNodes :: "nat list"
  m_entryPoint :: "nat option"
  m_terminator :: "nat option"
  m_basicBlock :: u16
  m_localStack :: "nat list"
  m_reqestedArguments :: "TArgumentRequest list"

definition ControlDomain_new :: "u16 \<Rightarrow> ControlDomain" where
  "ControlDomain_new basicBlock = \<lparr>m_domainNodes = [], m_entryPoint = None, m_terminator = None,
     m_basicBlock = basicBlock, m_localStack = [], m_reqestedArguments = []\<rparr>"

text \<open>
  \<open>node_at\<close> and \<open>domain_at\<close> are the nodes and domains in memory, the second also the map
  \<open>m_blocksToDomains\<close>.
\<close>

record ControlGraph =
  m_parsedMethod :: ParsedMethod
  m_parsedBlock :: "nat option"
  m_domains :: "u16 list"
  m_nodes :: "nat list"
  m_lastNodeIndex :: nat
  node_at :: "nat \<rightharpoonup> ControlNode"
  domain_at :: "u16 \<rightharpoonup> ControlDomain"

definition ControlGraph_new :: "ParsedMethod \<Rightarrow> nat option \<Rightarrow> ControlGraph" where
  "ControlGraph_new parsedMethod parsedBlock = \<lparr>m_parsedMethod = parsedMethod, m_parsedBlock = parsedBlock,
     m_domains = [], m_nodes = [], m_lastNodeIndex = 0, node_at = Map.empty, domain_at = Map.empty\<rparr>"

type_synonym 'x graph_comp = "(ControlGraph, 'x) comp"

definition as_bytecode :: "'a ParsedBytecode_scheme \<Rightarrow> ParsedBytecode" where
  "as_bytecode b = \<lparr>m_basicBlocks = m_basicBlocks b, m_offsetToBasicBlock = m_offsetToBasicBlock b\<rparr>"

definition getParsedBytecode :: "ControlGraph \<Rightarrow> ParsedBytecode res" where
  "getParsedBytecode g =
     (case m_parsedBlock g of
        Some block \<Rightarrow> bndR (nth_res (m_parsedBlocks (m_parsedMethod g)) block) (\<lambda>b. Inr (as_bytecode b))
      | None \<Rightarrow> Inr (as_bytecode (m_parsedMethod g)))"

definition basicBlockAt :: "u16 \<Rightarrow> BasicBlock graph_comp" where
  "basicBlockAt block = bnd (gets getParsedBytecode) (\<lambda>r. bnd (lift_res r) (\<lambda>code.
     case m_offsetToBasicBlock code block of None \<Rightarrow> raise BadAccess | Some b \<Rightarrow> ret b))"

definition nodeAt :: "nat \<Rightarrow> ControlNode graph_comp" where
  "nodeAt n = bnd (gets node_at) (\<lambda>m. case m n of None \<Rightarrow> raise BadAccess | Some node \<Rightarrow> ret node)"

definition changeNode :: "nat \<Rightarrow> (ControlNode \<Rightarrow> ControlNode) \<Rightarrow> unit graph_comp" where
  "changeNode n f = bnd (nodeAt n) (\<lambda>node. modify (\<lambda>g. g\<lparr>node_at := (node_at g)(n \<mapsto> f node)\<rparr>))"

definition domainAt :: "u16 \<Rightarrow> ControlDomain graph_comp" where
  "domainAt d = bnd (gets domain_at) (\<lambda>m. case m d of None \<Rightarrow> raise BadAccess | Some domain \<Rightarrow> ret domain)"

definition changeDomain :: "u16 \<Rightarrow> (ControlDomain \<Rightarrow> ControlDomain) \<Rightarrow> unit graph_comp" where
  "changeDomain d f = bnd (domainAt d) (\<lambda>domain. modify (\<lambda>g. g\<lparr>domain_at := (domain_at g)(d \<mapsto> f domain)\<rparr>))"

lemma changeNode_run [code]:
  "changeNode n f g = (case node_at g n of None \<Rightarrow> Inl BadAccess
     | Some node \<Rightarrow> Inr ((), g\<lparr>node_at := (node_at g)(n \<mapsto> f node)\<rparr>))"
  by (simp add: changeNode_def nodeAt_def comp_simps split: option.split)

lemma changeDomain_run [code]:
  "changeDomain d f g = (case domain_at g d of None \<Rightarrow> Inl BadAccess
     | Some domain \<Rightarrow> Inr ((), g\<lparr>domain_at := (domain_at g)(d \<mapsto> f domain)\<rparr>))"
  by (simp add: changeDomain_def domainAt_def comp_simps split: option.split)

definition addEdge :: "nat \<Rightarrow> nat \<Rightarrow> unit graph_comp" where
  "addEdge node dest =
     bnd (changeNode node (\<lambda>n. n\<lparr>m_outEdges := set_add dest (m_outEdges n)\<rparr>)) (\<lambda>_.
     changeNode dest (\<lambda>n. n\<lparr>m_inEdges := set_add node (m_inEdges n)\<rparr>))"

definition removeEdge :: "nat \<Rightarrow> nat \<Rightarrow> unit graph_comp" where
  "removeEdge node dest =
     bnd (changeNode node (\<lambda>n. n\<lparr>m_outEdges := set_remove dest (m_outEdges n)\<rparr>)) (\<lambda>_.
     changeNode dest (\<lambda>n. n\<lparr>m_inEdges := set_remove node (m_inEdges n)\<rparr>))"

definition addConsumer :: "nat \<Rightarrow> nat \<Rightarrow> unit graph_comp" where
  "addConsumer node consumer = changeNode node (\<lambda>n. n\<lparr>m_consumers := set_add consumer (m_consumers n)\<rparr>)"

definition removeConsumer :: "nat \<Rightarrow> nat \<Rightarrow> unit graph_comp" where
  "removeConsumer node consumer = changeNode node (\<lambda>n. n\<lparr>m_consumers := set_remove consumer (m_consumers n)\<rparr>)"

definition addIncoming :: "nat \<Rightarrow> u16 \<Rightarrow> nat \<Rightarrow> unit graph_comp" where
  "addIncoming phi domain value = changeNode phi
     (\<lambda>n. n\<lparr>m_incomingList := m_incomingList n @ [\<lparr>inc_domain = domain, inc_node = value\<rparr>]\<rparr>)"

text \<open>The casts: null for a node of another type.\<close>

definition castInstruction :: "nat \<Rightarrow> ControlNode option graph_comp" where
  "castInstruction n = bnd (nodeAt n) (\<lambda>node. ret (if m_nodeType node = ntInstruction then Some node else None))"

definition castPhi :: "nat \<Rightarrow> ControlNode option graph_comp" where
  "castPhi n = bnd (nodeAt n) (\<lambda>node. ret (if m_nodeType node = ntPhi then Some node else None))"

definition castPushBlock :: "nat \<Rightarrow> ControlNode option graph_comp" where
  "castPushBlock n = bnd (nodeAt n) (\<lambda>node.
     ret (if m_nodeType node \<noteq> ntInstruction then None
          else if m_opcode (m_instruction node) \<noteq> op_pushBlock then None else Some node))"

definition newNode :: "TNodeType \<Rightarrow> nat graph_comp" where
  "newNode type g =
     (let n = m_lastNodeIndex g
      in Inr (n, g\<lparr>m_lastNodeIndex := n + 1, m_nodes := m_nodes g @ [n],
                   node_at := (node_at g)(n \<mapsto> ControlNode_new type)\<rparr>))"

text \<open>Inserting into \<open>m_domains\<close> compares the offsets of the blocks, which have to exist.\<close>

definition newDomain :: "u16 \<Rightarrow> u16 graph_comp" where
  "newDomain block =
     bnd (basicBlockAt block) (\<lambda>_.
     bnd (modify (\<lambda>g. g\<lparr>m_domains := set_add block (m_domains g),
                        domain_at := (domain_at g)(block \<mapsto> ControlDomain_new block)\<rparr>)) (\<lambda>_.
     ret block))"

definition getDomainFor :: "u16 \<Rightarrow> u16 graph_comp" where
  "getDomainFor block = bnd (gets (\<lambda>g. domain_at g block)) (\<lambda>d.
     case d of None \<Rightarrow> newDomain block | Some _ \<Rightarrow> ret block)"

definition eraseNode :: "nat \<Rightarrow> unit graph_comp" where
  "eraseNode n =
     bnd (nodeAt n) (\<lambda>node.
     bnd (guard AssertFailed (m_inEdges node = [])) (\<lambda>_.
     bnd (guard AssertFailed (m_outEdges node = [])) (\<lambda>_.
     modify (\<lambda>g. g\<lparr>m_nodes := removeAll n (m_nodes g), node_at := (node_at g)(n := None)\<rparr>))))"

text \<open>The symbolic stack of a domain, and the request of an argument from it.\<close>

definition pushValue :: "u16 \<Rightarrow> nat \<Rightarrow> unit graph_comp" where
  "pushValue d value = changeDomain d (\<lambda>domain. domain\<lparr>m_localStack := m_localStack domain @ [value]\<rparr>)"

definition topValue :: "u16 \<Rightarrow> bool \<Rightarrow> nat graph_comp" where
  "topValue d keep =
     bnd (domainAt d) (\<lambda>domain.
     bnd (guard AssertFailed (m_localStack domain \<noteq> [])) (\<lambda>_.
     bnd (if keep then ret () else changeDomain d (\<lambda>domain. domain\<lparr>m_localStack := butlast (m_localStack domain)\<rparr>)) (\<lambda>_.
     ret (last (m_localStack domain)))))"

definition requestArgument :: "u16 \<Rightarrow> nat \<Rightarrow> nat \<Rightarrow> bool \<Rightarrow> unit graph_comp" where
  "requestArgument d index forNode keep =
     bnd (domainAt d) (\<lambda>domain.
     if m_localStack domain \<noteq> []
     then bnd (topValue d keep) (\<lambda>argument.
          bnd (changeNode forNode (node_setArgument index argument)) (\<lambda>_.
          bnd (addConsumer argument forNode) (\<lambda>_.
          bnd (nodeAt argument) (\<lambda>node.
          if m_nodeType node = ntPhi then addEdge argument forNode else ret ()))))
     else changeDomain d (\<lambda>domain. domain\<lparr>m_reqestedArguments :=
            m_reqestedArguments domain @ [\<lparr>req_index = index, requestingNode = forNode\<rparr>]\<rparr>))"

section \<open>Running through lists\<close>

text \<open>The \<open>run\<close> loops: the visitor's answer says whether to go on.\<close>

primrec visitAll :: "('a \<Rightarrow> ('s, bool) comp) \<Rightarrow> 'a list \<Rightarrow> ('s, bool) comp" where
  "visitAll visit [] = ret True"
| "visitAll visit (x # xs) = bnd (visit x) (\<lambda>b. if b then visitAll visit xs else ret False)"

primrec forEach :: "('a \<Rightarrow> ('s, unit) comp) \<Rightarrow> 'a list \<Rightarrow> ('s, unit) comp" where
  "forEach f [] = ret ()"
| "forEach f (x # xs) = bnd (f x) (\<lambda>_. forEach f xs)"

definition refererOrder :: "(u16 \<Rightarrow> nat) \<Rightarrow> u16 set \<Rightarrow> u16 list" where
  "refererOrder address referers = sort_key address (sorted_list_of_set referers)"

end
