(* ===== verification/GraphWalk.thy ===== *)
theory GraphWalk
  imports ControlGraph
begin

text \<open>
  The walkers of \<^verbatim>\<open>include/analysis.h\<close>: \<open>GraphWalker\<close> follows the edges of a graph depth first
  and never enters a stop node; \<open>PathVerifier\<close> asks whether a path leads to one of its destinations,
  \<open>BlockReturnDetector\<close> whether a nested block contains a block return.
\<close>

section \<open>The walker\<close>

datatype TVisitResult = vrKeepWalking | vrSkipPath | vrStopWalk

datatype TWalkDirection = wdForward | wdBackward

text \<open>
  The state of a walk is the set of stop nodes and the visitor's own state.  The recursion enters a node
  once, so its depth is at most the number of nodes; \<open>fuel\<close> is a bound on it.
\<close>

type_synonym 's walk = "nat list \<times> 's"

definition edgesOf :: "TWalkDirection \<Rightarrow> ControlNode \<Rightarrow> nat list" where
  "edgesOf direction node = (if direction = wdForward then m_outEdges node else m_inEdges node)"

primrec walkNodes :: "(nat \<Rightarrow> 's walk \<Rightarrow> (bool \<times> 's walk) res) \<Rightarrow> (nat \<Rightarrow> 's \<Rightarrow> TVisitResult \<times> 's) \<Rightarrow>
    nat list \<Rightarrow> 's walk \<Rightarrow> (bool \<times> 's walk) res" where
  "walkNodes enter visit [] w = Inr (True, w)"
| "walkNodes enter visit (node # nodes) w =
     (if node \<in> set (fst w) then walkNodes enter visit nodes w
      else case visit node (snd w) of (result, s) \<Rightarrow>
             let w = (set_add node (fst w), s) in
             (case result of
                vrKeepWalking \<Rightarrow> bndR (enter node w) (\<lambda>(b, w). if b then walkNodes enter visit nodes w else Inr (False, w))
              | vrStopWalk \<Rightarrow> Inr (False, w)
              | vrSkipPath \<Rightarrow> walkNodes enter visit nodes w))"

primrec walkIn :: "(nat \<rightharpoonup> ControlNode) \<Rightarrow> TWalkDirection \<Rightarrow> (nat \<Rightarrow> 's \<Rightarrow> TVisitResult \<times> 's) \<Rightarrow>
    nat \<Rightarrow> nat \<Rightarrow> 's walk \<Rightarrow> (bool \<times> 's walk) res" where
  "walkIn m direction visit 0 = (\<lambda>currentNode w. Inl OutOfFuel)"
| "walkIn m direction visit (Suc fuel) = (\<lambda>currentNode w.
     case m currentNode of
       None \<Rightarrow> Inl BadAccess
     | Some node \<Rightarrow> walkNodes (walkIn m direction visit fuel) visit (edgesOf direction node) w)"

definition runWalker :: "(nat \<rightharpoonup> ControlNode) \<Rightarrow> TWalkDirection \<Rightarrow> (nat \<Rightarrow> 's \<Rightarrow> TVisitResult \<times> 's) \<Rightarrow>
    nat \<Rightarrow> nat \<Rightarrow> 's walk \<Rightarrow> 's walk res" where
  "runWalker m direction visit fuel startNode w =
     bndR (walkIn m direction visit fuel startNode (set_remove startNode (fst w), snd w)) (\<lambda>(b, w). Inr w)"

section \<open>Path verifier\<close>

text \<open>\<open>m_verified\<close> is the state of the visitor.\<close>

definition pathVisit :: "nat list \<Rightarrow> nat \<Rightarrow> bool \<Rightarrow> TVisitResult \<times> bool" where
  "pathVisit destinationNodes node verified =
     (if node \<in> set destinationNodes then (vrStopWalk, True) else (vrKeepWalking, verified))"

definition verifyPath :: "(nat \<rightharpoonup> ControlNode) \<Rightarrow> nat list \<Rightarrow> nat \<Rightarrow> nat \<Rightarrow> nat list \<Rightarrow> bool walk res" where
  "verifyPath m destinationNodes fuel startNode stopNodes =
     runWalker m wdForward (pathVisit destinationNodes) fuel startNode (stopNodes, False)"

section \<open>Block return detector\<close>

definition isBlockReturn :: "TSmalltalkInstruction \<Rightarrow> bool" where
  "isBlockReturn i \<longleftrightarrow> m_opcode i = op_doSpecial \<and> m_argument i = 3"

text \<open>The loops of the visitors, each left at the first block return; the answer is whether to go on.\<close>

primrec visitInstructions :: "u32 list \<Rightarrow> bool" where
  "visitInstructions [] = True"
| "visitInstructions (i # is) = (if isBlockReturn (unpackInstruction i) then False else visitInstructions is)"

primrec visitBasicBlocks :: "(u16 \<rightharpoonup> BasicBlock) \<Rightarrow> u16 list \<Rightarrow> bool res" where
  "visitBasicBlocks m [] = Inr True"
| "visitBasicBlocks m (block # blocks) =
     (case m block of None \<Rightarrow> Inl BadAccess
      | Some b \<Rightarrow> if visitInstructions (m_instructions b) then visitBasicBlocks m blocks else Inr False)"

primrec visitParsedBlocks :: "ParsedBlock list \<Rightarrow> bool res" where
  "visitParsedBlocks [] = Inr True"
| "visitParsedBlocks (b # bs) =
     bndR (visitBasicBlocks (m_offsetToBasicBlock b) (m_basicBlocks b)) (\<lambda>goOn.
     if goOn then visitParsedBlocks bs else Inr False)"

definition isBlockReturnFound :: "ParsedMethod \<Rightarrow> bool res" where
  "isBlockReturnFound parsedMethod = bndR (visitParsedBlocks (m_parsedBlocks parsedMethod)) (\<lambda>goOn. Inr (\<not> goOn))"

section \<open>What a walk finds\<close>

text \<open>
  One step of a walk: from a node that is not skipped, along an edge, to a node that is no stop node.
\<close>

definition steps :: "TWalkDirection \<Rightarrow> (nat \<rightharpoonup> ControlNode) \<Rightarrow> nat set \<Rightarrow> nat set \<Rightarrow> (nat \<times> nat) set" where
  "steps direction m skips stops =
     {(a, b). a \<notin> skips \<and> (\<exists>node. m a = Some node \<and> b \<in> set (edgesOf direction node)) \<and> b \<notin> stops}"

abbreviation walk_step :: "(nat \<rightharpoonup> ControlNode) \<Rightarrow> nat set \<Rightarrow> (nat \<times> nat) set" where
  "walk_step m stops \<equiv> steps wdForward m {} stops"

definition edges_closed :: "(nat \<rightharpoonup> ControlNode) \<Rightarrow> bool" where
  "edges_closed m \<longleftrightarrow> finite (dom m) \<and>
     (\<forall>a node. m a = Some node \<longrightarrow> set (m_outEdges node) \<subseteq> dom m \<and> set (m_inEdges node) \<subseteq> dom m)"

lemma edges_closedD:
  assumes "edges_closed m"
  shows "finite (dom m)" and "m a = Some node \<Longrightarrow> set (edgesOf direction node) \<subseteq> dom m"
  using assms by (auto simp: edges_closed_def edgesOf_def)

text \<open>The nodes a walk can reach from a list of nodes.\<close>

definition walk_reach :: "TWalkDirection \<Rightarrow> (nat \<rightharpoonup> ControlNode) \<Rightarrow> nat set \<Rightarrow> nat set \<Rightarrow> nat set \<Rightarrow> nat set" where
  "walk_reach direction m skips stops ns = (steps direction m skips stops)\<^sup>* `` (ns - stops)"

lemma walk_reach_first: "n \<in> ns \<Longrightarrow> n \<notin> stops \<Longrightarrow> n \<in> walk_reach direction m skips stops ns"
  by (auto simp: walk_reach_def)

lemma walk_reach_mono:
  "ns \<subseteq> ns' \<Longrightarrow> stops \<subseteq> stops' \<Longrightarrow> walk_reach direction m skips stops' ns \<subseteq> walk_reach direction m skips stops ns'"
proof -
  assume "ns \<subseteq> ns'" "stops \<subseteq> stops'"
  moreover from this have "(steps direction m skips stops')\<^sup>* \<subseteq> (steps direction m skips stops)\<^sup>*"
    by (intro rtrancl_mono) (auto simp: steps_def)
  ultimately show ?thesis unfolding walk_reach_def by blast
qed

lemma walk_reach_node:
  assumes "m n = Some node" and "n \<in> ns" and "n \<notin> stops" and "n \<notin> skips"
  shows "walk_reach direction m skips (insert n stops) (set (edgesOf direction node)) \<subseteq> walk_reach direction m skips stops ns"
proof
  let ?E = "set (edgesOf direction node)"
  fix x assume "x \<in> walk_reach direction m skips (insert n stops) ?E"
  then have "x \<in> walk_reach direction m skips stops ?E"
    using walk_reach_mono [of ?E ?E stops "insert n stops" direction m skips] by blast
  then obtain y where "y \<in> ?E" "y \<notin> stops" "(y, x) \<in> (steps direction m skips stops)\<^sup>*"
    unfolding walk_reach_def by auto
  moreover from this have "(n, y) \<in> steps direction m skips stops" using assms(1,4) by (auto simp: steps_def)
  ultimately show "x \<in> walk_reach direction m skips stops ns"
    using assms(2,3) unfolding walk_reach_def by (blast intro: converse_rtrancl_into_rtrancl)
qed

lemma walk_closed:
  assumes "(a, x) \<in> (steps direction m skips stops)\<^sup>+"
    and "\<And>node. a \<notin> skips \<Longrightarrow> m a = Some node \<Longrightarrow> set (edgesOf direction node) \<subseteq> stops \<union> R"
    and "\<And>y node. y \<in> R \<Longrightarrow> y \<notin> skips \<Longrightarrow> m y = Some node \<Longrightarrow> set (edgesOf direction node) \<subseteq> stops \<union> R"
  shows "x \<in> R"
  using assms(1)
proof (induction rule: trancl_induct)
  case (base y)
  then show ?case using assms(2) by (auto simp: steps_def)
next
  case (step y z)
  then show ?case using assms(3) [of y] by (auto simp: steps_def)
qed

lemma walk_reach_closed:
  assumes "x \<in> walk_reach direction m skips stops ns" and "ns \<subseteq> stops \<union> R"
    and "\<And>y node. y \<in> R \<Longrightarrow> y \<notin> skips \<Longrightarrow> m y = Some node \<Longrightarrow> set (edgesOf direction node) \<subseteq> stops \<union> R"
  shows "x \<in> R"
proof -
  obtain y where "y \<in> ns" "y \<notin> stops" "(y, x) \<in> (steps direction m skips stops)\<^sup>*"
    using assms(1) unfolding walk_reach_def by blast
  then show ?thesis
    using assms(2,3) walk_closed [of y x direction m skips stops R] by (auto simp: rtrancl_eq_or_trancl)
qed

lemma walk_reach_trancl:
  assumes "m start = Some node" and "start \<notin> skips"
  shows "walk_reach direction m skips stops (set (edgesOf direction node)) = (steps direction m skips stops)\<^sup>+ `` {start}"
proof -
  have "set (edgesOf direction node) - stops = steps direction m skips stops `` {start}"
    using assms by (auto simp: steps_def)
  then show ?thesis unfolding walk_reach_def trancl_unfold_left by (simp add: relcomp_Image)
qed

text \<open>
  The contract of a visitor that looks for something: it stops the walk at the nodes it looks for and
  says what it found, skips the paths behind some nodes, and changes nothing at all others.
\<close>

locale searching_visitor =
  fixes visit :: "nat \<Rightarrow> 's \<Rightarrow> TVisitResult \<times> 's" and targets skips :: "nat set"
    and calm :: 's and hit :: "nat \<Rightarrow> 's"
  assumes visit_target: "n \<in> targets \<Longrightarrow> visit n calm = (vrStopWalk, hit n)"
    and visit_skip: "n \<notin> targets \<Longrightarrow> n \<in> skips \<Longrightarrow> visit n calm = (vrSkipPath, calm)"
    and visit_pass: "n \<notin> targets \<Longrightarrow> n \<notin> skips \<Longrightarrow> visit n calm = (vrKeepWalking, calm)"
begin

text \<open>
  What a walk over a list of nodes leaves: either a target was found, or everything new is
  reachable, is no target, and has all its successors among the stop nodes.
\<close>

definition walked :: "TWalkDirection \<Rightarrow> (nat \<rightharpoonup> ControlNode) \<Rightarrow> nat set \<Rightarrow> nat set \<Rightarrow> (bool \<times> 's walk) res \<Rightarrow> bool" where
  "walked direction m stops ns r \<longleftrightarrow>
     (case r of
        Inl e \<Rightarrow> False
      | Inr (True, (stops', found)) \<Rightarrow>
          found = calm \<and> stops \<subseteq> set stops' \<and> ns \<subseteq> set stops' \<and> (set stops' - stops) \<inter> targets = {} \<and>
          set stops' - stops \<subseteq> dom m \<and> set stops' - stops \<subseteq> walk_reach direction m skips stops ns \<and>
          (\<forall>x node. x \<in> set stops' - stops \<longrightarrow> x \<notin> skips \<longrightarrow> m x = Some node \<longrightarrow>
             set (edgesOf direction node) \<subseteq> set stops')
      | Inr (False, (stops', found)) \<Rightarrow> (\<exists>n \<in> walk_reach direction m skips stops ns \<inter> targets. found = hit n))"

lemma walked_found:
  "walked direction m stops ns (Inr (False, w)) \<longleftrightarrow> (\<exists>n \<in> walk_reach direction m skips stops ns \<inter> targets. snd w = hit n)"
  by (cases w) (simp add: walked_def)

lemma walked_skip:
  assumes "walked direction m stops ns r" and "n \<in> stops"
  shows "walked direction m stops (insert n ns) r"
proof -
  have "walk_reach direction m skips stops (insert n ns) = walk_reach direction m skips stops ns"
    using assms(2) by (auto simp: walk_reach_def)
  then show ?thesis using assms by (auto simp: walked_def split: sum.splits bool.splits)
qed

text \<open>A node whose edges are in the stop set already, and then the rest of the list.\<close>

lemma walked_then:
  assumes node: "n \<in> dom m" and new: "n \<notin> S" "n \<notin> targets"
    and first: "insert n S \<subseteq> set S'" "(set S' - insert n S) \<inter> targets = {}" "set S' - insert n S \<subseteq> dom m"
      "set S' - insert n S \<subseteq> walk_reach direction m skips S (insert n ns)"
      "\<And>x nd. x \<in> set S' - insert n S \<Longrightarrow> x \<notin> skips \<Longrightarrow> m x = Some nd \<Longrightarrow> set (edgesOf direction nd) \<subseteq> set S'"
      "\<And>nd. n \<notin> skips \<Longrightarrow> m n = Some nd \<Longrightarrow> set (edgesOf direction nd) \<subseteq> set S'"
    and rest: "walked direction m (set S') ns r"
  shows "walked direction m S (insert n ns) r"
proof -
  have outer: "walk_reach direction m skips (set S') ns \<subseteq> walk_reach direction m skips S (insert n ns)"
    using first(1) by (intro walk_reach_mono) auto
  have here: "n \<in> walk_reach direction m skips S (insert n ns)" using new by (intro walk_reach_first) auto
  obtain b S2 v2 where r: "r = Inr (b, (S2, v2))" using rest by (cases r) (auto simp: walked_def)
  show ?thesis
  proof (cases b)
    case False
    then show ?thesis using rest outer unfolding r by (auto simp: walked_def)
  next
    case True
    then have t: "v2 = calm" "set S' \<subseteq> set S2" "ns \<subseteq> set S2" using rest r by (auto simp: walked_def)
    have G: "(set S2 - set S') \<inter> targets = {}" "set S2 - set S' \<subseteq> dom m"
      "set S2 - set S' \<subseteq> walk_reach direction m skips (set S') ns"
      "\<And>x nd. x \<in> set S2 - set S' \<Longrightarrow> x \<notin> skips \<Longrightarrow> m x = Some nd \<Longrightarrow> set (edgesOf direction nd) \<subseteq> set S2"
      using rest True unfolding r by (simp_all add: walked_def)
    have "x \<notin> targets \<and> x \<in> dom m \<and> x \<in> walk_reach direction m skips S (insert n ns) \<and>
        (x \<notin> skips \<longrightarrow> (\<forall>node. m x = Some node \<longrightarrow> set (edgesOf direction node) \<subseteq> set S2))" if x: "x \<in> set S2 - S" for x
    proof -
      consider "x = n" | "x \<in> set S' - insert n S" | "x \<in> set S2 - set S'" using x by blast
      then show ?thesis
      proof cases
        case 1
        then show ?thesis using new here node first(6) t(2) by blast
      next
        case 2
        then show ?thesis using first(2-5) t(2) by blast
      next
        case 3
        then have "\<forall>nd. x \<notin> skips \<longrightarrow> m x = Some nd \<longrightarrow> set (edgesOf direction nd) \<subseteq> set S2" using G(4) by simp
        then show ?thesis using 3 G(1-3) outer by blast
      qed
    qed
    then have "(set S2 - S) \<inter> targets = {}" "set S2 - S \<subseteq> dom m" "set S2 - S \<subseteq> walk_reach direction m skips S (insert n ns)"
      "\<And>x nd. x \<in> set S2 - S \<Longrightarrow> x \<notin> skips \<Longrightarrow> m x = Some nd \<Longrightarrow> set (edgesOf direction nd) \<subseteq> set S2"
      by blast+
    moreover have "S \<subseteq> set S2" "insert n ns \<subseteq> set S2" using t first(1) by blast+
    ultimately show ?thesis using t(1) True unfolding r walked_def by simp
  qed
qed

lemma walked_entered:
  assumes "m n = Some node" and "n \<notin> S" and "n \<notin> targets" and "n \<notin> skips"
    and "walked direction m (insert n S) (set (edgesOf direction node)) (Inr (True, (S', calm)))"
    and "walked direction m (set S') ns r"
  shows "walked direction m S (insert n ns) r"
proof -
  have F: "insert n S \<subseteq> set S'" "set (edgesOf direction node) \<subseteq> set S'" "(set S' - insert n S) \<inter> targets = {}"
    "set S' - insert n S \<subseteq> dom m" "set S' - insert n S \<subseteq> walk_reach direction m skips (insert n S) (set (edgesOf direction node))"
    "\<And>x nd. x \<in> set S' - insert n S \<Longrightarrow> x \<notin> skips \<Longrightarrow> m x = Some nd \<Longrightarrow> set (edgesOf direction nd) \<subseteq> set S'"
    using assms(5) by (simp_all add: walked_def)
  have "set S' - insert n S \<subseteq> walk_reach direction m skips S (insert n ns)"
    using F(5) walk_reach_node [of m n node "insert n ns" S skips direction] assms(1-4) by blast
  then show ?thesis
    using assms(1) F(2) by (intro walked_then [OF _ assms(2,3) F(1,3,4) _ F(6) _ assms(6)]) auto
qed

lemma walkNodes_walked:
  assumes enter: "\<And>n S. n \<in> dom m \<Longrightarrow> card (dom m - set S) < fuel \<Longrightarrow>
      walked direction m (set S) (set (edgesOf direction (the (m n)))) (enter n (S, calm))"
    and fin: "finite (dom m)"
  shows "set ns \<subseteq> dom m \<Longrightarrow> card (dom m - set S) \<le> fuel \<Longrightarrow>
    walked direction m (set S) (set ns) (walkNodes enter visit ns (S, calm))"
proof (induction ns arbitrary: S)
  case Nil
  then show ?case by (simp add: walked_def)
next
  case (Cons n ns)
  obtain node where node: "m n = Some node" using Cons.prems(1) by auto
  have later: "walked direction m (set S') (set ns) (walkNodes enter visit ns (S', calm))" if "set S \<subseteq> set S'" for S'
  proof -
    have "card (dom m - set S') \<le> card (dom m - set S)" using that fin by (intro card_mono) auto
    then show ?thesis using Cons.prems by (intro Cons.IH) auto
  qed
  show ?case
  proof (cases "n \<in> set S")
    case True
    then show ?thesis using walked_skip [OF later [of S]] by simp
  next
    case new: False
    let ?S = "set_add n S"
    show ?thesis
    proof (cases "n \<in> targets")
      case True
      then have "n \<in> walk_reach direction m skips (set S) (set (n # ns)) \<inter> targets" using new by (auto intro: walk_reach_first)
      then show ?thesis using True new by (auto simp: visit_target walked_found)
    next
      case no_target: False
      show ?thesis
      proof (cases "n \<in> skips")
        case True
        then have "walkNodes enter visit (n # ns) (S, calm) = walkNodes enter visit ns (?S, calm)"
          using new no_target by (simp add: visit_skip)
        then show ?thesis
          using walked_then [OF _ new no_target, of m ?S direction "set ns"] later [of ?S] Cons.prems(1) True by auto
      next
        case no_skip: False
        have "card (dom m - set ?S) < card (dom m - set S)"
          using Cons.prems(1) new fin by (intro psubset_card_mono) auto
        then have w: "walked direction m (set ?S) (set (edgesOf direction node)) (enter n (?S, calm))"
          using enter [of n ?S] Cons.prems node by simp
        then obtain b S' v where r: "enter n (?S, calm) = Inr (b, (S', v))"
          by (cases "enter n (?S, calm)") (auto simp: walked_def)
        have eq: "walkNodes enter visit (n # ns) (S, calm) =
            (if b then walkNodes enter visit ns (S', v) else Inr (False, (S', v)))"
          using new no_target no_skip r by (simp add: visit_pass bndR_def)
        show ?thesis
        proof (cases b)
          case False
          then obtain k where "k \<in> walk_reach direction m skips (insert n (set S)) (set (edgesOf direction node))" "k \<in> targets" "v = hit k"
            using w r by (auto simp: walked_found)
          moreover have "walk_reach direction m skips (insert n (set S)) (set (edgesOf direction node)) \<subseteq>
              walk_reach direction m skips (set S) (set (n # ns))"
            using node new no_skip by (intro walk_reach_node) auto
          ultimately show ?thesis unfolding eq using False by (auto simp: walked_found simp del: set_simps)
        next
          case True
          then have v: "v = calm" "set S \<subseteq> set S'" using w r by (auto simp: walked_def)
          then show ?thesis
            using walked_entered [OF node new no_target no_skip _ later [OF v(2)]] w r True eq by simp
        qed
      qed
    qed
  qed
qed

lemma walkIn_walked:
  assumes closed: "edges_closed m"
  shows "n \<in> dom m \<Longrightarrow> card (dom m - set S) < fuel \<Longrightarrow>
    walked direction m (set S) (set (edgesOf direction (the (m n)))) (walkIn m direction visit fuel n (S, calm))"
proof (induction fuel arbitrary: n S)
  case 0
  then show ?case by simp
next
  case (Suc fuel)
  obtain node where node: "m n = Some node" using Suc.prems(1) by auto
  then show ?case
    using Suc.prems(2) edges_closedD [OF closed] walkNodes_walked [where ns = "edgesOf direction node" and S = S, OF Suc.IH]
    by simp
qed

text \<open>A walk that found nothing: what is new in the stop nodes is no target, and closed under the edges.\<close>

definition exhausted :: "TWalkDirection \<Rightarrow> (nat \<rightharpoonup> ControlNode) \<Rightarrow> nat set \<Rightarrow> nat set \<Rightarrow> nat set \<Rightarrow> bool" where
  "exhausted direction m stops ns stops' \<longleftrightarrow> stops \<subseteq> stops' \<and> ns \<subseteq> stops' \<and> (stops' - stops) \<inter> targets = {} \<and>
     (\<forall>x node. x \<in> stops' - stops \<longrightarrow> x \<notin> skips \<longrightarrow> m x = Some node \<longrightarrow> set (edgesOf direction node) \<subseteq> stops')"

lemma exhausted_reach:
  assumes "exhausted direction m stops ns stops'"
  shows "walk_reach direction m skips stops ns \<subseteq> stops' - stops" and "walk_reach direction m skips stops ns \<inter> targets = {}"
proof -
  have E: "stops \<subseteq> stops'" "ns \<subseteq> stops'" "(stops' - stops) \<inter> targets = {}"
    "\<And>x node. x \<in> stops' - stops \<Longrightarrow> x \<notin> skips \<Longrightarrow> m x = Some node \<Longrightarrow> set (edgesOf direction node) \<subseteq> stops'"
    using assms by (simp_all add: exhausted_def)
  show "walk_reach direction m skips stops ns \<subseteq> stops' - stops"
  proof
    fix x assume "x \<in> walk_reach direction m skips stops ns"
    then show "x \<in> stops' - stops"
    proof (rule walk_reach_closed)
      show "ns \<subseteq> stops \<union> (stops' - stops)" using E(2) by blast
      show "set (edgesOf direction node) \<subseteq> stops \<union> (stops' - stops)"
        if "y \<in> stops' - stops" "y \<notin> skips" "m y = Some node" for y node
        using E(4) [OF that] by blast
    qed
  qed
  then show "walk_reach direction m skips stops ns \<inter> targets = {}" using E(3) by blast
qed

text \<open>A run from a node, with a bound above the number of nodes, finds a target or is exhausted.\<close>

lemma runWalker_cases:
  assumes "edges_closed m" and "m start = Some node" and "card (dom m) < fuel"
  obtains (none) stops' where "runWalker m direction visit fuel start (stops, calm) = Inr (stops', calm)"
      and "exhausted direction m (set stops - {start}) (set (edgesOf direction node)) (set stops')"
    | (found) stops' n where "runWalker m direction visit fuel start (stops, calm) = Inr (stops', hit n)"
      and "n \<in> targets" and "n \<in> walk_reach direction m skips (set stops - {start}) (set (edgesOf direction node))"
proof -
  let ?S = "set_remove start stops"
  have fin: "finite (dom m)" using assms(1) by (simp add: edges_closed_def)
  then have "card (dom m - set ?S) < fuel"
    using assms(3) card_mono [of "dom m" "dom m - set ?S"] by auto
  then have w: "walked direction m (set ?S) (set (edgesOf direction node)) (walkIn m direction visit fuel start (?S, calm))"
    using walkIn_walked [OF assms(1), of start ?S fuel direction] assms(2) by auto
  then obtain b S v where r: "walkIn m direction visit fuel start (?S, calm) = Inr (b, (S, v))"
    by (cases "walkIn m direction visit fuel start (?S, calm)") (auto simp: walked_def)
  then have run: "runWalker m direction visit fuel start (stops, calm) = Inr (S, v)"
    by (simp add: runWalker_def bndR_def)
  show thesis
  proof (cases b)
    case False
    then obtain n where "n \<in> walk_reach direction m skips (set ?S) (set (edgesOf direction node)) \<inter> targets" "v = hit n"
      using w by (auto simp: r walked_found)
    then show thesis using found [of S n] run by simp
  next
    case True
    then have "v = calm" "exhausted direction m (set ?S) (set (edgesOf direction node)) (set S)"
      using w by (simp_all add: r walked_def exhausted_def)
    then show thesis using none [of S] run by simp
  qed
qed

text \<open>What the run says about targets: it finds one exactly when one can be reached.\<close>

lemma runWalker_finds:
  assumes "edges_closed m" and "m start = Some node" and "card (dom m) < fuel" and "\<And>n. n \<in> targets \<Longrightarrow> hit n \<noteq> calm"
  shows "\<exists>stops' found. runWalker m direction visit fuel start (stops, calm) = Inr (stops', found) \<and>
    (found \<noteq> calm \<longleftrightarrow> walk_reach direction m skips (set stops - {start}) (set (edgesOf direction node)) \<inter> targets \<noteq> {})"
  using assms(1-3)
proof (cases rule: runWalker_cases [where direction = direction and stops = stops])
  case (none stops')
  then show ?thesis using exhausted_reach(2) by blast
next
  case (found stops' n)
  then show ?thesis using assms(4) by blast
qed

end

section \<open>Correctness of the path verifier\<close>

interpretation path_visitor: searching_visitor "pathVisit destinationNodes" "set destinationNodes" "{}" False "\<lambda>_. True"
  for destinationNodes
  by unfold_locales (auto simp: pathVisit_def)

text \<open>
  C29.  The path verifier terminates with a bound of one more than the number of nodes, and it is
  positive exactly when a path of at least one edge leads from the start node to a destination without
  entering a stop node; the start node itself is no stop node, so a cycle through it counts.
\<close>

theorem verifyPath_reachable:
  assumes "edges_closed m" and "startNode \<in> dom m" and "card (dom m) < fuel"
  shows "\<exists>stopNodes' verified.
    verifyPath m destinationNodes fuel startNode stopNodes = Inr (stopNodes', verified) \<and>
    (verified \<longleftrightarrow> (\<exists>d \<in> set destinationNodes. (startNode, d) \<in> (walk_step m (set stopNodes - {startNode}))\<^sup>+))"
proof -
  obtain node where node: "m startNode = Some node" using assms(2) by auto
  obtain stops' found where
      "runWalker m wdForward (pathVisit destinationNodes) fuel startNode (stopNodes, False) = Inr (stops', found)"
      "found \<longleftrightarrow> walk_reach wdForward m {} (set stopNodes - {startNode}) (set (edgesOf wdForward node)) \<inter> set destinationNodes \<noteq> {}"
    using path_visitor.runWalker_finds [OF assms(1) node assms(3)] by blast
  then show ?thesis unfolding verifyPath_def using walk_reach_trancl [where m = m and start = startNode and node = node and skips = "{}"] node by auto
qed

text \<open>A diamond with a loop back to its start: \<open>0 \<rightarrow> 1, 2\<close>, \<open>1 \<rightarrow> 3\<close>, \<open>2 \<rightarrow> 3\<close>, \<open>3 \<rightarrow> 0\<close>.\<close>

definition sample_nodes :: "nat \<rightharpoonup> ControlNode" where
  "sample_nodes =
     [0 \<mapsto> (ControlNode_new ntInstruction)\<lparr>m_outEdges := [1, 2]\<rparr>,
      1 \<mapsto> (ControlNode_new ntInstruction)\<lparr>m_outEdges := [3]\<rparr>,
      2 \<mapsto> (ControlNode_new ntInstruction)\<lparr>m_outEdges := [3]\<rparr>,
      3 \<mapsto> (ControlNode_new ntInstruction)\<lparr>m_outEdges := [0]\<rparr>]"

lemma sample_nodes_closed: "dom sample_nodes = {0, 1, 2, 3}" "edges_closed sample_nodes"
proof -
  show dom: "dom sample_nodes = {0, 1, 2, 3}"
    by (auto simp: sample_nodes_def dom_def split: if_splits)
  show "edges_closed sample_nodes"
    unfolding edges_closed_def dom by (auto simp: sample_nodes_def ControlNode_new_def split: if_splits)
qed

lemma verifyPath_reachable_witness:
  "(\<exists>stops. verifyPath sample_nodes [0] 5 0 [1] = Inr (stops, True)) \<and>
   (0, 0) \<in> (walk_step sample_nodes {1})\<^sup>+"
proof -
  have "map_sum id snd (verifyPath sample_nodes [0] 5 0 [1]) = Inr True" by code_simp
  then obtain stops where r: "verifyPath sample_nodes [0] 5 0 [1] = Inr (stops, True)"
    by (cases "verifyPath sample_nodes [0] 5 0 [1]") auto
  then show ?thesis
    using verifyPath_reachable [OF sample_nodes_closed(2), of 0 5 "[0]" "[1]"] sample_nodes_closed(1) by auto
qed

section \<open>Correctness of the block return detector\<close>

lemma visitInstructions_iff: "visitInstructions is \<longleftrightarrow> (\<forall>i \<in> set is. \<not> isBlockReturn (unpackInstruction i))"
  by (induction "is") auto

text \<open>Some instruction of the listed blocks is a block return.\<close>

definition returns_from_block :: "'a ParsedBytecode_scheme \<Rightarrow> bool" where
  "returns_from_block code \<longleftrightarrow>
     (\<exists>block \<in> set (m_basicBlocks code). \<exists>b. m_offsetToBasicBlock code block = Some b \<and>
        (\<exists>i \<in> set (m_instructions b). isBlockReturn (unpackInstruction i)))"

lemma visitBasicBlocks_iff:
  "set blocks \<subseteq> dom m \<Longrightarrow>
   visitBasicBlocks m blocks = Inr (\<forall>block \<in> set blocks. visitInstructions (m_instructions (the (m block))))"
  by (induction blocks) (auto split: option.splits)

lemma visitBasicBlocks_code:
  assumes "set (m_basicBlocks code) \<subseteq> dom (m_offsetToBasicBlock code)"
  shows "visitBasicBlocks (m_offsetToBasicBlock code) (m_basicBlocks code) = Inr (\<not> returns_from_block code)"
  using assms
  by (fastforce simp: visitBasicBlocks_iff visitInstructions_iff returns_from_block_def)

lemma visitParsedBlocks_iff:
  "(\<And>b. b \<in> set bs \<Longrightarrow> set (m_basicBlocks b) \<subseteq> dom (m_offsetToBasicBlock b)) \<Longrightarrow>
   visitParsedBlocks bs = Inr (\<forall>b \<in> set bs. \<not> returns_from_block b)"
  by (induction bs) (auto simp: visitBasicBlocks_code bndR_def)

text \<open>
  The detector, with its three nested loops left early, says exactly whether one of the nested
  blocks has a block return among its instructions; the method's own instructions do not count.
\<close>

theorem isBlockReturnFound_iff:
  assumes "\<And>b. b \<in> set (m_parsedBlocks parsedMethod) \<Longrightarrow> set (m_basicBlocks b) \<subseteq> dom (m_offsetToBasicBlock b)"
  shows "isBlockReturnFound parsedMethod = Inr (\<exists>b \<in> set (m_parsedBlocks parsedMethod). returns_from_block b)"
  using visitParsedBlocks_iff [OF assms] by (simp add: isBlockReturnFound_def bndR_def)

text \<open>A method that pushes a block returning one, and returns itself.\<close>

lemma isBlockReturnFound_iff_witness:
  "\<exists>m. ParsedMethod_new [0xC0, 5, 0, 0x51, 0xF3, 0xF5, 0xF1] = Inr m \<and>
     (\<exists>b \<in> set (m_parsedBlocks m). returns_from_block b)"
proof -
  have "map_sum id (\<lambda>m. (list_all (\<lambda>b. list_all (\<lambda>x. m_offsetToBasicBlock b x \<noteq> None) (m_basicBlocks b)) (m_parsedBlocks m),
      isBlockReturnFound m)) (ParsedMethod_new [0xC0, 5, 0, 0x51, 0xF3, 0xF5, 0xF1]) = Inr (True, Inr True)"
    by code_simp
  then obtain m where m: "ParsedMethod_new [0xC0, 5, 0, 0x51, 0xF3, 0xF5, 0xF1] = Inr m"
      "isBlockReturnFound m = Inr True"
      "list_all (\<lambda>b. list_all (\<lambda>x. m_offsetToBasicBlock b x \<noteq> None) (m_basicBlocks b)) (m_parsedBlocks m)"
    by (cases "ParsedMethod_new [0xC0, 5, 0, 0x51, 0xF3, 0xF5, 0xF1]") auto
  then show ?thesis using isBlockReturnFound_iff [of m] by (auto simp: list_all_iff)
qed

end
