(* ===== verification/GraphBuild.thy ===== *)
theory GraphBuild
  imports ControlGraph
begin

text \<open>
  The three passes over a control graph (\<^verbatim>\<open>src/ControlGraph.cpp\<close>): \<open>GraphConstructor\<close> fills the
  domains, \<open>GraphLinker\<close> resolves the argument requests and links the nodes by control flow,
  \<open>GraphOptimizer\<close> removes values nobody uses.
\<close>

section \<open>Construction\<close>

text \<open>
  \<open>requestArguments\<close> requests the indices of a list in turn.  The counters of the loops are
  \<open>uint32_t\<close>; in \<open>blockInvoke\<close> without arguments the counter starts at \<open>2 ^ 32 - 1\<close>.
\<close>

definition requestArguments :: "u16 \<Rightarrow> nat \<Rightarrow> nat list \<Rightarrow> unit graph_comp" where
  "requestArguments d node = forEach (\<lambda>index. requestArgument d index node False)"

definition terminate :: "u16 \<Rightarrow> nat \<Rightarrow> unit graph_comp" where
  "terminate d node =
     bnd (domainAt d) (\<lambda>domain.
     bnd (guard AssertFailed (m_terminator domain = None)) (\<lambda>_.
     changeDomain d (\<lambda>domain. domain\<lparr>m_terminator := Some node\<rparr>)))"

definition processSpecials :: "u16 \<Rightarrow> nat \<Rightarrow> TSmalltalkInstruction \<Rightarrow> unit graph_comp" where
  "processSpecials d node instruction =
     (case special_cast (m_argument instruction) of
         spc_stackReturn \<Rightarrow> bnd (requestArgument d 0 node False) (\<lambda>_. terminate d node)
       | spc_blockReturn \<Rightarrow> bnd (requestArgument d 0 node False) (\<lambda>_. terminate d node)
       | spc_selfReturn \<Rightarrow> terminate d node
       | spc_sendToSuper \<Rightarrow> bnd (requestArgument d 0 node False) (\<lambda>_. pushValue d node)
       | spc_duplicate \<Rightarrow> bnd (requestArgument d 0 node True) (\<lambda>_. pushValue d node)
       | spc_popTop \<Rightarrow> requestArgument d 0 node False
       | spc_branchIfTrue \<Rightarrow> bnd (requestArgument d 0 node False) (\<lambda>_. terminate d node)
       | spc_branchIfFalse \<Rightarrow> bnd (requestArgument d 0 node False) (\<lambda>_. terminate d node)
       | spc_branch \<Rightarrow> terminate d node
       | spc_other _ \<Rightarrow> ret ())"

definition processPrimitives :: "u16 \<Rightarrow> nat \<Rightarrow> TSmalltalkInstruction \<Rightarrow> unit graph_comp" where
  "processPrimitives d node instruction =
     (if m_extra instruction = 8
      then bnd (requestArgument d 0 node False) (\<lambda>_.
           requestArguments d node (rev [1 ..< Suc (unat (ucast (m_argument instruction) - 1 :: u32))]))
      else requestArguments d node (rev [0 ..< unat (m_argument instruction)]))"

definition processOpcode :: "u16 \<Rightarrow> nat \<Rightarrow> TSmalltalkInstruction \<Rightarrow> unit graph_comp" where
  "processOpcode d node instruction =
     (case m_opcode instruction of
       op_pushConstant \<Rightarrow> pushValue d node
     | op_pushLiteral \<Rightarrow> pushValue d node
     | op_pushArgument \<Rightarrow> pushValue d node
     | op_pushTemporary \<Rightarrow> pushValue d node
     | op_pushInstance \<Rightarrow> pushValue d node
     | op_pushBlock \<Rightarrow>
         bnd (gets (\<lambda>g. getParsedBlockByEndOffset (m_extra instruction) (m_parsedMethod g))) (\<lambda>parsedBlock.
         bnd (castPushBlock node) (\<lambda>pushBlock.
         bnd (guard BadAccess (pushBlock \<noteq> None)) (\<lambda>_.
         bnd (changeNode node (\<lambda>n. n\<lparr>m_parsedBlockOf := parsedBlock\<rparr>)) (\<lambda>_. pushValue d node))))
     | op_assignTemporary \<Rightarrow> requestArgument d 0 node True
     | op_assignInstance \<Rightarrow> requestArgument d 0 node True
     | op_sendUnary \<Rightarrow> bnd (requestArgument d 0 node False) (\<lambda>_. pushValue d node)
     | op_sendMessage \<Rightarrow> bnd (requestArgument d 0 node False) (\<lambda>_. pushValue d node)
     | op_sendBinary \<Rightarrow> bnd (requestArguments d node [1, 0]) (\<lambda>_. pushValue d node)
     | op_markArguments \<Rightarrow>
         bnd (requestArguments d node (rev [0 ..< unat (m_argument instruction)])) (\<lambda>_. pushValue d node)
     | op_doSpecial \<Rightarrow> processSpecials d node instruction
     | op_doPrimitive \<Rightarrow> bnd (processPrimitives d node instruction) (\<lambda>_. pushValue d node)
     | op_extended \<Rightarrow> ret ()
     | op_other _ \<Rightarrow> ret ())"

definition constructNode :: "u16 \<Rightarrow> nat \<Rightarrow> unit graph_comp" where
  "constructNode d node =
     bnd (nodeAt node) (\<lambda>n.
     bnd (changeDomain d (\<lambda>domain. if m_entryPoint domain = None then domain\<lparr>m_entryPoint := Some node\<rparr> else domain)) (\<lambda>_.
     processOpcode d node (m_instruction n)))"

definition constructInstruction :: "u16 \<Rightarrow> TSmalltalkInstruction \<Rightarrow> unit graph_comp" where
  "constructInstruction d instruction =
     bnd (newNode ntInstruction) (\<lambda>node.
     bnd (changeNode node (\<lambda>n. n\<lparr>m_instruction := instruction, m_domain := Some d\<rparr>)) (\<lambda>_.
     bnd (changeDomain d (\<lambda>domain. domain\<lparr>m_domainNodes := set_add node (m_domainNodes domain)\<rparr>)) (\<lambda>_.
     constructNode d node)))"

definition constructBlock :: "u16 \<Rightarrow> unit graph_comp" where
  "constructBlock block =
     bnd (getDomainFor block) (\<lambda>d.
     bnd (changeDomain d (\<lambda>domain. domain\<lparr>m_basicBlock := block\<rparr>)) (\<lambda>_.
     bnd (basicBlockAt block) (\<lambda>b.
     forEach (\<lambda>word. constructInstruction d (unpackInstruction word)) (m_instructions b))))"

definition constructGraph :: "unit graph_comp" where
  "constructGraph = bnd (gets getParsedBytecode) (\<lambda>r. bnd (lift_res r) (\<lambda>code.
     forEach constructBlock (m_basicBlocks code)))"

section \<open>Linking\<close>

text \<open>
  All blocks have their domains by now, so the list of domains does not change while the linker runs
  through it.  \<open>nodeToLink\<close> is the member \<open>m_nodeToLink\<close>, which lives on from domain to domain.
\<close>

primrec isNodeLinked :: "nat \<Rightarrow> ControlNode \<Rightarrow> nat list \<Rightarrow> bool graph_comp" where
  "isNodeLinked node n [] = ret False"
| "isNodeLinked node n (target # targets) =
     bnd (nodeAt target) (\<lambda>t.
     if m_domain t = m_domain n \<and> node < target then ret True else isNodeLinked node n targets)"

definition linkNode :: "nat option \<Rightarrow> nat \<Rightarrow> nat option graph_comp" where
  "linkNode nodeToLink node =
     bnd (case nodeToLink of Some pending \<Rightarrow> addEdge pending node | None \<Rightarrow> ret ()) (\<lambda>_.
     bnd (nodeAt node) (\<lambda>n.
     if m_nodeType n = ntInstruction \<and> isTerminator (m_instruction n) then ret None
     else bnd (isNodeLinked node n (m_outEdges n)) (\<lambda>linked.
          ret (if linked then None else Some node))))"

primrec linkNodes :: "nat option \<Rightarrow> nat list \<Rightarrow> nat option graph_comp" where
  "linkNodes nodeToLink [] = ret nodeToLink"
| "linkNodes nodeToLink (node # nodes) =
     bnd (linkNode nodeToLink node) (\<lambda>nodeToLink. linkNodes nodeToLink nodes)"

definition processBranching :: "(u16 \<Rightarrow> nat) \<Rightarrow> u16 \<Rightarrow> unit graph_comp" where
  "processBranching address d =
     bnd (domainAt d) (\<lambda>domain.
     case m_entryPoint domain of
       None \<Rightarrow> raise AssertFailed
     | Some entryPoint \<Rightarrow>
         bnd (basicBlockAt (m_basicBlock domain)) (\<lambda>block.
         forEach (\<lambda>referer.
           bnd (getDomainFor referer) (\<lambda>r.
           bnd (domainAt r) (\<lambda>refererDomain.
           case m_terminator refererDomain of
             None \<Rightarrow> raise AssertFailed
           | Some terminator \<Rightarrow>
               bnd (nodeAt terminator) (\<lambda>t.
               bnd (guard AssertFailed (isBranch (m_instruction t))) (\<lambda>_.
               addEdge terminator entryPoint)))))
           (refererOrder address (m_referers block))))"

definition mergePhi :: "nat \<Rightarrow> nat \<Rightarrow> unit graph_comp" where
  "mergePhi source target =
     bnd (nodeAt source) (\<lambda>s.
     bnd (forEach (\<lambda>argument. bnd (removeEdge argument source) (\<lambda>_. addEdge argument target)) (m_inEdges s)) (\<lambda>_.
     eraseNode source))"

definition optimizePhi :: "nat \<Rightarrow> nat graph_comp" where
  "optimizePhi phi =
     bnd (nodeAt phi) (\<lambda>p.
     let incomings = m_incomingList p;
         incomingValues = foldl (\<lambda>values i. set_add (inc_node i) values) [] incomings in
     bnd (guard AssertFailed (length incomings > 1)) (\<lambda>_.
     if length incomingValues > 1 then ret phi
     else let value = hd incomingValues in
          bnd (removeConsumer value phi) (\<lambda>_.
          bnd (removeEdge value phi) (\<lambda>_.
          bnd (eraseNode phi) (\<lambda>_. ret value)))))"

text \<open>One referer's value is found: it is the result, or becomes an incoming value of the phi node.\<close>

definition addReferer :: "nat option \<Rightarrow> u16 \<Rightarrow> nat \<Rightarrow> nat graph_comp" where
  "addReferer phi refererDomain value =
     (case phi of
        None \<Rightarrow> ret value
      | Some p \<Rightarrow>
          bnd (addIncoming p refererDomain value) (\<lambda>_.
          bnd (addConsumer value p) (\<lambda>_.
          bnd (nodeAt value) (\<lambda>v.
          bnd (if m_nodeType v = ntPhi then addEdge value p else ret ()) (\<lambda>_. ret p)))))"

primrec addReferers :: "(u16 \<Rightarrow> (u16 \<times> nat) graph_comp) \<Rightarrow> nat option \<Rightarrow> u16 list \<Rightarrow> nat option \<Rightarrow> nat option graph_comp" where
  "addReferers value phi [] result = ret result"
| "addReferers value phi (referer # referers) result =
     bnd (value referer) (\<lambda>(d, v).
     bnd (addReferer phi d v) (\<lambda>r. addReferers value phi referers (Some r)))"

text \<open>The value at a depth of the stack a referer leaves; below its own values \<open>below\<close> looks further.\<close>

definition refererValue :: "(u16 \<Rightarrow> nat \<Rightarrow> nat graph_comp) \<Rightarrow> nat \<Rightarrow> u16 \<Rightarrow> (u16 \<times> nat) graph_comp" where
  "refererValue below argumentIndex referer =
     bnd (getDomainFor referer) (\<lambda>d.
     bnd (domainAt d) (\<lambda>refererDomain.
     let refererStack = m_localStack refererDomain in
     if argumentIndex \<ge> length refererStack
     then bnd (below d (argumentIndex - length refererStack)) (\<lambda>v. ret (d, v))
     else ret (d, refererStack ! (length refererStack - 1 - argumentIndex))))"

definition newPhi :: "u16 \<Rightarrow> nat graph_comp" where
  "newPhi d = bnd (newNode ntPhi) (\<lambda>phi.
     bnd (changeNode phi (\<lambda>n. n\<lparr>m_domain := Some d\<rparr>)) (\<lambda>_. ret phi))"

text \<open>
  The recursion follows the referers as long as their stacks are too short.  The bound \<open>fuel\<close> is on
  its depth; without it the recursion need not end.
\<close>

primrec getRequestedNode :: "(u16 \<Rightarrow> nat) \<Rightarrow> nat \<Rightarrow> u16 \<Rightarrow> nat \<Rightarrow> nat graph_comp" where
  "getRequestedNode address 0 = (\<lambda>d argumentIndex. raise OutOfFuel)"
| "getRequestedNode address (Suc fuel) = (\<lambda>d argumentIndex.
     bnd (domainAt d) (\<lambda>domain.
     bnd (basicBlockAt (m_basicBlock domain)) (\<lambda>block.
     let refererBlocks = refererOrder address (m_referers block) in
     if length refererBlocks = 1
     then bnd (addReferers (refererValue (getRequestedNode address fuel) argumentIndex) None refererBlocks None) (\<lambda>result.
          case result of None \<Rightarrow> raise AssertFailed | Some v \<Rightarrow> ret v)
     else bnd (newPhi d) (\<lambda>phi.
          bnd (addReferers (refererValue (getRequestedNode address fuel) argumentIndex) (Some phi) refererBlocks (Some phi)) (\<lambda>_.
          optimizePhi phi)))))"

definition processRequest :: "(u16 \<Rightarrow> nat) \<Rightarrow> nat \<Rightarrow> u16 \<Rightarrow> nat \<Rightarrow> TArgumentRequest \<Rightarrow> unit graph_comp" where
  "processRequest address fuel d argumentIndex request =
     bnd (getRequestedNode address fuel d argumentIndex) (\<lambda>argument.
     bnd (nodeAt argument) (\<lambda>a.
     bnd (changeNode (requestingNode request) (node_setArgument (req_index request) argument)) (\<lambda>_.
     bnd (addConsumer argument (requestingNode request)) (\<lambda>_.
     bnd (nodeAt (requestingNode request)) (\<lambda>r.
     if m_nodeType r = ntPhi \<or> m_nodeType a = ntPhi \<or> m_domain a = m_domain r
     then addEdge argument (requestingNode request) else ret ())))))"

definition processArgumentRequests :: "(u16 \<Rightarrow> nat) \<Rightarrow> nat \<Rightarrow> u16 \<Rightarrow> unit graph_comp" where
  "processArgumentRequests address fuel d =
     bnd (domainAt d) (\<lambda>domain.
     forEach (\<lambda>(index, request). processRequest address fuel d index request)
       (enumerate 0 (m_reqestedArguments domain)))"

definition linkDomain :: "(u16 \<Rightarrow> nat) \<Rightarrow> nat \<Rightarrow> nat option \<Rightarrow> u16 \<Rightarrow> nat option graph_comp" where
  "linkDomain address fuel nodeToLink d =
     bnd (processBranching address d) (\<lambda>_.
     bnd (processArgumentRequests address fuel d) (\<lambda>_.
     bnd (domainAt d) (\<lambda>domain. linkNodes nodeToLink (m_domainNodes domain))))"

primrec linkDomains :: "(u16 \<Rightarrow> nat) \<Rightarrow> nat \<Rightarrow> nat option \<Rightarrow> u16 list \<Rightarrow> unit graph_comp" where
  "linkDomains address fuel nodeToLink [] = ret ()"
| "linkDomains address fuel nodeToLink (d # ds) =
     bnd (linkDomain address fuel nodeToLink d) (\<lambda>nodeToLink. linkDomains address fuel nodeToLink ds)"

definition linkGraph :: "(u16 \<Rightarrow> nat) \<Rightarrow> nat \<Rightarrow> unit graph_comp" where
  "linkGraph address fuel = bnd (gets m_domains) (\<lambda>ds. linkDomains address fuel None ds)"

section \<open>Optimisation\<close>

text \<open>The nodes that a visited node says can go, in the order in which they are removed.\<close>

definition popTopInstruction :: TSmalltalkInstruction where
  "popTopInstruction = mkInstruction op_doSpecial 5 0"

definition nodesToRemove :: "nat \<Rightarrow> nat list graph_comp" where
  "nodesToRemove node =
     bnd (castInstruction node) (\<lambda>instruction.
     case instruction of
       None \<Rightarrow> ret []
     | Some n \<Rightarrow>
         if \<not> isTrivial (m_instruction n) then ret []
         else bnd (lift_res (isValueProvider (m_instruction n))) (\<lambda>provider.
              if \<not> provider then ret []
              else if m_consumers n = [] then ret [node]
              else if length (m_consumers n) = 1
              then bnd (castInstruction (hd (m_consumers n))) (\<lambda>consumer.
                   case consumer of
                     Some c \<Rightarrow> ret (if m_instruction c = popTopInstruction then [hd (m_consumers n), node] else [])
                   | None \<Rightarrow> ret [])
              else ret []))"

primrec collectNodes :: "nat list \<Rightarrow> nat list graph_comp" where
  "collectNodes [] = ret []"
| "collectNodes (node # nodes) =
     bnd (nodesToRemove node) (\<lambda>ns. bnd (collectNodes nodes) (\<lambda>ms. ret (ns @ ms)))"

definition removeInstruction :: "nat \<Rightarrow> unit graph_comp" where
  "removeInstruction node =
     bnd (nodeAt node) (\<lambda>n.
     bnd (guard AssertFailed (length (m_outEdges n) = 1)) (\<lambda>_.
     let nextNode = hd (m_outEdges n) in
     bnd (nodeAt nextNode) (\<lambda>next.
     bnd (guard AssertFailed (m_nodeType next = ntInstruction)) (\<lambda>_.
     case m_domain n of
       None \<Rightarrow> raise BadAccess
     | Some d \<Rightarrow>
         bnd (changeDomain d (\<lambda>domain. if m_entryPoint domain = Some node
                then domain\<lparr>m_entryPoint := Some nextNode\<rparr> else domain)) (\<lambda>_.
         bnd (forEach (\<lambda>source. bnd (removeEdge source node) (\<lambda>_. addEdge source nextNode)) (m_inEdges n)) (\<lambda>_.
         bnd (nodeAt node) (\<lambda>n.
         bnd (forEach (removeEdge node) (m_outEdges n)) (\<lambda>_.
         bnd (changeDomain d (\<lambda>domain. domain\<lparr>m_domainNodes := set_remove node (m_domainNodes domain)\<rparr>)) (\<lambda>_.
         eraseNode node))))))))) "

definition removePhi :: "nat \<Rightarrow> unit graph_comp" where
  "removePhi phi =
     bnd (nodeAt phi) (\<lambda>p.
     bnd (guard AssertFailed (length (m_inEdges p) = 1)) (\<lambda>_.
     bnd (guard BadAccess (m_outEdges p \<noteq> [])) (\<lambda>_.
     let valueSource = hd (m_inEdges p); valueTarget = hd (m_outEdges p) in
     bnd (castInstruction valueTarget) (\<lambda>target.
     bnd (guard AssertFailed (target \<noteq> None)) (\<lambda>_.
     bnd (removeEdge valueSource phi) (\<lambda>_.
     bnd (removeEdge phi valueTarget) (\<lambda>_.
     bnd (removeConsumer valueSource phi) (\<lambda>_.
     bnd (addConsumer valueSource valueTarget) (\<lambda>_.
     bnd (changeNode valueTarget (node_setArgument (m_phiIndex p) valueSource)) (\<lambda>_.
     eraseNode phi))))))))))"

definition removeNode :: "nat \<Rightarrow> unit graph_comp" where
  "removeNode node =
     bnd (nodeAt node) (\<lambda>n.
     bnd (guard AssertFailed (m_nodeType n = ntInstruction \<or> m_nodeType n = ntPhi)) (\<lambda>_.
     if m_nodeType n = ntInstruction then removeInstruction node else removePhi node))"

definition optimizeGraph :: "unit graph_comp" where
  "optimizeGraph = bnd (gets m_nodes) (\<lambda>nodes. bnd (collectNodes nodes) (\<lambda>ns. forEach removeNode ns))"

definition buildGraph :: "(u16 \<Rightarrow> nat) \<Rightarrow> nat \<Rightarrow> unit graph_comp" where
  "buildGraph address fuel =
     bnd constructGraph (\<lambda>_. bnd (linkGraph address fuel) (\<lambda>_. optimizeGraph))"

text \<open>The values behind a phi node: what its incoming values are, other phi nodes looked through.\<close>

primrec getRealValues :: "nat \<Rightarrow> nat \<Rightarrow> nat list graph_comp" where
  "getRealValues 0 = (\<lambda>phi. raise OutOfFuel)"
| "getRealValues (Suc fuel) = (\<lambda>phi.
     bnd (nodeAt phi) (\<lambda>p.
     foldr (\<lambda>i values.
       bnd (castPhi (inc_node i)) (\<lambda>inner.
       bnd (case inner of None \<Rightarrow> ret [inc_node i] | Some _ \<Rightarrow> getRealValues fuel (inc_node i)) (\<lambda>vs.
       bnd values (\<lambda>ws. ret (foldr set_add vs ws)))))
       (m_incomingList p) (ret [])))"

end
