(* ===== verification/ValueProtection.thy ===== *)
theory ValueProtection
  imports GraphWalk GraphBuild
begin

text \<open>
  Which values the method compiler keeps in registered holders (\<^verbatim>\<open>src/MethodCompiler.cpp\<close>): a value has
  to be protected when a collection may run between the node that produces it and the nodes that consume
  it, and a method needs protected holders for its context and receiver when it may allocate at all.  Both
  questions are walks over the control graph.
\<close>

section \<open>The detectors\<close>

definition causesGC :: "ControlNode \<Rightarrow> bool" where
  "causesGC node \<longleftrightarrow> m_nodeType node = ntInstruction \<and> mayCauseGC (m_instruction node)"

text \<open>
  \<open>Detector::checkNode\<close>; its member \<open>m_detected\<close> is the state.  The assertion on the node's type and an
  edge to no node end the walk, and the fault is the state they leave.
\<close>

definition checkNode :: "(nat \<rightharpoonup> ControlNode) \<Rightarrow> nat \<Rightarrow> bool res \<Rightarrow> TVisitResult \<times> bool res" where
  "checkNode m n detected =
     (case m n of
        None \<Rightarrow> (vrStopWalk, Inl BadAccess)
      | Some node \<Rightarrow>
          (case m_nodeType node of
             ntInstruction \<Rightarrow> if mayCauseGC (m_instruction node) then (vrStopWalk, Inr True) else (vrKeepWalking, detected)
           | ntPhi \<Rightarrow> (vrSkipPath, detected)
           | ntTau \<Rightarrow> (vrStopWalk, Inl AssertFailed)))"

text \<open>The local class \<open>GCDetector\<close> of \<open>methodAllocatesMemory\<close>.\<close>

definition gcVisit :: "(nat \<rightharpoonup> ControlNode) \<Rightarrow> nat \<Rightarrow> bool res \<Rightarrow> TVisitResult \<times> bool res" where
  "gcVisit m n detected =
     (case m n of
        None \<Rightarrow> (vrStopWalk, Inl BadAccess)
      | Some node \<Rightarrow> if causesGC node then (vrStopWalk, Inr True) else (vrKeepWalking, detected))"

definition methodAllocatesMemory :: "ControlGraph \<Rightarrow> nat \<Rightarrow> bool res" where
  "methodAllocatesMemory g fuel =
     bndR (nth_res (m_domains g) 0) (\<lambda>d.
     case domain_at g d of
       None \<Rightarrow> Inl BadAccess
     | Some domain \<Rightarrow>
         (case m_entryPoint domain of
            None \<Rightarrow> Inl AssertFailed
          | Some entryPoint \<Rightarrow> bndR (runWalker (node_at g) wdForward (gcVisit (node_at g)) fuel entryPoint ([], Inr False)) snd))"

section \<open>Protection of a produced value\<close>

text \<open>
  The fast check, from the node behind the producer up to the consumer in the same domain.  The loop does
  not end when it runs around a cycle; the value is then None.
\<close>

partial_function (option) scanTo :: "(nat \<rightharpoonup> ControlNode) \<Rightarrow> nat \<Rightarrow> nat \<Rightarrow> bool res option" where
  "scanTo m consumer n =
     (if n = consumer then Some (Inr False)
      else case m n of
        None \<Rightarrow> Some (Inl BadAccess)
      | Some node \<Rightarrow>
          if m_nodeType node \<noteq> ntInstruction then Some (Inl AssertFailed)
          else if mayCauseGC (m_instruction node) then Some (Inr True)
          else (case m_outEdges node of
                  [] \<Rightarrow> Some (Inl AssertFailed)
                | next # rest \<Rightarrow> if rest = [] then scanTo m consumer next else Some (Inl AssertFailed)))"

declare scanTo.simps [code]

text \<open>The walks back from the consumers, one after the other with the same stop nodes.\<close>

primrec detectFrom :: "(nat \<rightharpoonup> ControlNode) \<Rightarrow> nat \<Rightarrow> nat list \<Rightarrow> bool res walk \<Rightarrow> bool res" where
  "detectFrom m fuel [] w = Inr False"
| "detectFrom m fuel (consumer # consumers) w =
     bndR (runWalker m wdBackward (checkNode m) fuel consumer w) (\<lambda>w.
     bndR (snd w) (\<lambda>detected. if detected then Inr True else detectFrom m fuel consumers w))"

definition consumedInDomain :: "(nat \<rightharpoonup> ControlNode) \<Rightarrow> ControlNode \<Rightarrow> bool res" where
  "consumedInDomain m producer =
     (case m_consumers producer of
        [consumer] \<Rightarrow> (case m consumer of None \<Rightarrow> Inl BadAccess | Some c \<Rightarrow> Inr (m_domain producer = m_domain c))
      | _ \<Rightarrow> Inr False)"

definition shouldProtectProducer :: "(nat \<rightharpoonup> ControlNode) \<Rightarrow> nat \<Rightarrow> nat \<Rightarrow> bool res option" where
  "shouldProtectProducer m fuel producer =
     (case m producer of
        None \<Rightarrow> Some (Inl BadAccess)
      | Some node \<Rightarrow>
          (case consumedInDomain m node of
             Inl e \<Rightarrow> Some (Inl e)
           | Inr True \<Rightarrow>
               (case m_outEdges node of
                  [next] \<Rightarrow> scanTo m (hd (m_consumers node)) next
                | _ \<Rightarrow> Some (Inl AssertFailed))
           | Inr False \<Rightarrow>
               Some (detectFrom m fuel (m_consumers node) (foldr set_add (m_consumers node) [producer], Inr False))))"

text \<open>
  The decision of \<open>protectProducerNode\<close> whether the value of \<open>node\<close> gets a holder.  The code asks about
  \<open>jit.currentNode\<close>, the node being compiled, whatever node it is given.
\<close>

definition protectsProducerNode :: "(nat \<rightharpoonup> ControlNode) \<Rightarrow> nat \<Rightarrow> nat \<Rightarrow> nat \<Rightarrow> bool res option" where
  "protectsProducerNode m fuel currentNode node = shouldProtectProducer m fuel currentNode"

section \<open>The block behind a conditional branch\<close>

definition nodeOffset :: "ControlGraph \<Rightarrow> nat \<Rightarrow> u16 res" where
  "nodeOffset g n =
     (case node_at g n of None \<Rightarrow> Inl BadAccess
      | Some node \<Rightarrow> (case m_domain node of None \<Rightarrow> Inl BadAccess
          | Some d \<Rightarrow> (case domain_at g d of None \<Rightarrow> Inl BadAccess | Some domain \<Rightarrow> Inr (m_basicBlock domain))))"

definition getSkipOffset :: "ControlGraph \<Rightarrow> nat \<Rightarrow> u16 res" where
  "getSkipOffset g branch =
     (case node_at g branch of
        None \<Rightarrow> Inl BadAccess
      | Some node \<Rightarrow>
          if \<not> isBranch (m_instruction node) then Inl AssertFailed
          else (case m_outEdges node of
                  [edge1, edge2] \<Rightarrow>
                    bndR (nodeOffset g edge1) (\<lambda>offset.
                    if offset = m_extra (m_instruction node) then nodeOffset g edge2 else Inr offset)
                | _ \<Rightarrow> Inl AssertFailed))"

section \<open>What the detectors find\<close>

definition no_tau :: "(nat \<rightharpoonup> ControlNode) \<Rightarrow> bool" where
  "no_tau m \<longleftrightarrow> (\<forall>n node. m n = Some node \<longrightarrow> m_nodeType node \<noteq> ntTau)"

definition gc_nodes :: "(nat \<rightharpoonup> ControlNode) \<Rightarrow> nat set" where
  "gc_nodes m = {n. \<exists>node. m n = Some node \<and> causesGC node}"

definition phis :: "(nat \<rightharpoonup> ControlNode) \<Rightarrow> nat set" where
  "phis m = {n. \<exists>node. m n = Some node \<and> m_nodeType node = ntPhi}"

definition tau_nodes :: "(nat \<rightharpoonup> ControlNode) \<Rightarrow> nat set" where
  "tau_nodes m = {n. \<exists>node. m n = Some node \<and> m_nodeType node = ntTau}"

text \<open>What a detector leaves at a node where it stops.\<close>

definition detected_at :: "(nat \<rightharpoonup> ControlNode) \<Rightarrow> nat \<Rightarrow> bool res" where
  "detected_at m n =
     (if n \<notin> dom m then Inl BadAccess else if n \<in> tau_nodes m then Inl AssertFailed else Inr True)"

interpretation gc_detector: searching_visitor "checkNode nodes" "gc_nodes nodes \<union> tau_nodes nodes \<union> - dom nodes"
    "phis nodes" "Inr False" "detected_at nodes" for nodes
  by unfold_locales
     (auto simp: checkNode_def gc_nodes_def tau_nodes_def phis_def detected_at_def causesGC_def
       split: option.splits TNodeType.splits)

interpretation method_detector: searching_visitor "gcVisit nodes" "gc_nodes nodes \<union> - dom nodes" "{}" "Inr False"
    "\<lambda>n. if n \<in> dom nodes then Inr True else Inl BadAccess" for nodes
  by unfold_locales (auto simp: gcVisit_def gc_nodes_def split: option.splits)

lemma no_tau_nodes: "no_tau m \<Longrightarrow> tau_nodes m = {}"
  by (auto simp: no_tau_def tau_nodes_def)

lemma walk_reach_dom:
  assumes "edges_closed m" and "ns \<subseteq> dom m"
  shows "walk_reach direction m skips stops ns \<subseteq> dom m"
proof
  fix x assume "x \<in> walk_reach direction m skips stops ns"
  then obtain y where y: "y \<in> ns" and path: "(y, x) \<in> (steps direction m skips stops)\<^sup>*" unfolding walk_reach_def by blast
  from path show "x \<in> dom m"
  proof (induction rule: rtrancl_induct)
    case base
    then show ?case using y assms(2) by blast
  next
    case (step z w)
    then obtain node where "m z = Some node" "w \<in> set (edgesOf direction node)" by (auto simp: steps_def)
    then show ?case using edges_closedD(2) [OF assms(1)] by blast
  qed
qed

text \<open>
  C36.  A method is said to allocate exactly when an instruction that may cause a collection can be reached
  from its entry by at least one edge: the entry instruction itself is looked at only on a loop.
\<close>

theorem methodAllocatesMemory_iff:
  assumes "edges_closed (node_at g)" and "card (dom (node_at g)) < fuel" and "m_domains g = d # ds"
    and "domain_at g d = Some domain" and "m_entryPoint domain = Some entryPoint" and "entryPoint \<in> dom (node_at g)"
  shows "methodAllocatesMemory g fuel =
    Inr (\<exists>n \<in> gc_nodes (node_at g). (entryPoint, n) \<in> (walk_step (node_at g) {})\<^sup>+)"
proof -
  let ?m = "node_at g"
  obtain node where node: "?m entryPoint = Some node" using assms(6) by auto
  have sub: "set (edgesOf wdForward node) \<subseteq> dom ?m" using edges_closedD(2) [OF assms(1) node] .
  have reach: "walk_reach wdForward ?m {} {} (set (edgesOf wdForward node)) = (walk_step ?m {})\<^sup>+ `` {entryPoint}"
    by (rule walk_reach_trancl) (simp_all add: node)
  have start: "methodAllocatesMemory g fuel =
      bndR (runWalker ?m wdForward (gcVisit ?m) fuel entryPoint ([], Inr False)) snd"
    using assms(3-5) by (simp add: methodAllocatesMemory_def nth_res_def bndR_def)
  show ?thesis
    using assms(1) node assms(2)
  proof (cases rule: method_detector.runWalker_cases [where direction = wdForward and stops = "[]" and nodes = ?m])
    case (none stops')
    then have "walk_reach wdForward ?m {} {} (set (edgesOf wdForward node)) \<inter> gc_nodes ?m = {}"
      using method_detector.exhausted_reach(2) [OF none(2)] by simp blast
    then show ?thesis using none(1) start reach by (auto simp: bndR_def)
  next
    case (found stops' n)
    have "n \<in> dom ?m" using found(3) by (rule subsetD [OF walk_reach_dom [OF assms(1) sub]])
    then have "n \<in> gc_nodes ?m" using found(2) by blast
    then show ?thesis using found start reach \<open>n \<in> dom ?m\<close> by (auto simp: bndR_def)
  qed
qed

section \<open>What the search from the consumers finds\<close>

lemma set_foldr_add: "set (foldr set_add vs ws) = set vs \<union> set ws"
  by (induction vs) auto

text \<open>The nodes that lie on a path from a consumer back, behind no node of \<open>stops\<close> and no phi node.\<close>

definition before :: "(nat \<rightharpoonup> ControlNode) \<Rightarrow> nat set \<Rightarrow> nat \<Rightarrow> nat set" where
  "before m stops consumer = walk_reach wdBackward m (phis m) stops (set (m_inEdges (the (m consumer))))"

text \<open>
  The state between two walks: nothing was found, and what earlier walks put among the stop nodes, the set
  \<open>seen\<close>, is closed: backwards from it only the producer, a consumer or another seen node follows.
\<close>

definition cleared :: "(nat \<rightharpoonup> ControlNode) \<Rightarrow> nat set \<Rightarrow> nat set \<Rightarrow> nat set \<Rightarrow> bool" where
  "cleared m ends seen starts \<longleftrightarrow> seen \<inter> gc_nodes m = {} \<and>
     (\<forall>x node. x \<in> seen \<longrightarrow> x \<notin> phis m \<longrightarrow> m x = Some node \<longrightarrow> set (m_inEdges node) \<subseteq> ends \<union> seen) \<and>
     (\<forall>c node. c \<in> starts \<longrightarrow> m c = Some node \<longrightarrow> set (m_inEdges node) \<subseteq> ends \<union> seen)"

lemma cleared_before:
  assumes "cleared m ends seen starts" and "c \<in> starts" and "c \<in> dom m"
  shows "before m ends c \<inter> gc_nodes m = {}"
proof -
  have "before m ends c \<subseteq> seen"
    unfolding before_def
  proof
    fix x assume "x \<in> walk_reach wdBackward m (phis m) ends (set (m_inEdges (the (m c))))"
    then show "x \<in> seen"
    proof (rule walk_reach_closed)
      show "set (m_inEdges (the (m c))) \<subseteq> ends \<union> seen"
        using assms unfolding cleared_def by (metis domD option.sel)
      show "set (edgesOf wdBackward node) \<subseteq> ends \<union> seen" if "y \<in> seen" "y \<notin> phis m" "m y = Some node" for y node
        using assms(1) that unfolding cleared_def by (simp add: edgesOf_def)
    qed
  qed
  then show ?thesis using assms(1) by (auto simp: cleared_def)
qed

lemma detectFrom_result:
  assumes closed: "edges_closed m" and tau: "no_tau m" and fuel: "card (dom m) < fuel"
  shows "set cs \<subseteq> dom m \<Longrightarrow> cleared m ends seen starts \<Longrightarrow> set stops \<subseteq> ends \<union> seen \<Longrightarrow> producer \<in> set stops \<Longrightarrow>
      producer \<notin> set cs \<Longrightarrow>
    \<exists>b. detectFrom m fuel cs (stops, Inr False) = Inr b \<and>
      (if b then \<exists>c \<in> set cs. before m {producer} c \<inter> gc_nodes m \<noteq> {}
       else \<exists>seen'. cleared m ends seen' (starts \<union> set cs))"
proof (induction cs arbitrary: stops seen starts)
  case Nil
  then show ?case by auto
next
  case (Cons c cs)
  obtain node where node: "m c = Some node" using Cons.prems(1) by auto
  have sub: "set (edgesOf wdBackward node) \<subseteq> dom m" using edges_closedD(2) [OF closed node] .
  have targets: "gc_nodes m \<union> tau_nodes m \<union> - dom m = gc_nodes m \<union> - dom m" using no_tau_nodes [OF tau] by simp
  show ?case
    using closed node fuel
  proof (cases rule: gc_detector.runWalker_cases [where direction = wdBackward and stops = stops and nodes = m])
    case (found stops' n)
    have "n \<in> dom m" using found(3) by (rule subsetD [OF walk_reach_dom [OF closed sub]])
    then have n: "n \<in> gc_nodes m" "detected_at m n = Inr True"
      using found(2) targets no_tau_nodes [OF tau] by (auto simp: detected_at_def)
    have "n \<in> before m {producer} c"
      using found(3) walk_reach_mono [of "set (edgesOf wdBackward node)" "set (edgesOf wdBackward node)" "{producer}"
        "set stops - {c}" wdBackward m "phis m"] Cons.prems(4,5) node
      by (auto simp: before_def edgesOf_def)
    then show ?thesis using found(1) n by (auto simp: bndR_def)
  next
    case (none stops')
    let ?new = "set stops' - (set stops - {c})"
    have E: "set stops - {c} \<subseteq> set stops'" "set (m_inEdges node) \<subseteq> set stops'" "?new \<inter> gc_nodes m = {}"
      "\<And>x nd. x \<in> ?new \<Longrightarrow> x \<notin> phis m \<Longrightarrow> m x = Some nd \<Longrightarrow> set (m_inEdges nd) \<subseteq> set stops'"
      using none(2) by (auto simp: gc_detector.exhausted_def edgesOf_def)
    have stops': "set stops' \<subseteq> ends \<union> (seen \<union> ?new)" using Cons.prems(3) by blast
    have C: "seen \<inter> gc_nodes m = {}"
      "\<And>x nd. x \<in> seen \<Longrightarrow> x \<notin> phis m \<Longrightarrow> m x = Some nd \<Longrightarrow> set (m_inEdges nd) \<subseteq> ends \<union> seen"
      "\<And>k nd. k \<in> starts \<Longrightarrow> m k = Some nd \<Longrightarrow> set (m_inEdges nd) \<subseteq> ends \<union> seen"
      using Cons.prems(2) by (simp_all add: cleared_def)
    have "cleared m ends (seen \<union> ?new) (insert c starts)"
      unfolding cleared_def
    proof (intro conjI allI impI)
      show "(seen \<union> ?new) \<inter> gc_nodes m = {}" using C(1) E(3) by blast
      show "set (m_inEdges nd) \<subseteq> ends \<union> (seen \<union> ?new)" if "x \<in> seen \<union> ?new" "x \<notin> phis m" "m x = Some nd" for x nd
        using that C(2) [of x nd] E(4) [of x nd] stops' by blast
      show "set (m_inEdges nd) \<subseteq> ends \<union> (seen \<union> ?new)" if "k \<in> insert c starts" "m k = Some nd" for k nd
        using that C(3) [of k nd] E(2) stops' node by auto
    qed
    moreover have "producer \<in> set stops'" using E(1) Cons.prems(4,5) by auto
    ultimately obtain b where "detectFrom m fuel cs (stops', Inr False) = Inr b"
        "if b then \<exists>c \<in> set cs. before m {producer} c \<inter> gc_nodes m \<noteq> {}
         else \<exists>seen'. cleared m ends seen' (insert c starts \<union> set cs)"
      using Cons.IH [of "seen \<union> ?new" "insert c starts" stops'] Cons.prems(1,5) stops' by auto
    then show ?thesis using none(1) by (auto simp: bndR_def split: if_splits)
  qed
qed


end
