(* ===== verification/LinkCorrect.thy ===== *)
theory LinkCorrect
  imports GraphBuild
begin

text \<open>
  What the linker finds for a value requested from below a block's own stack: the node it returns stands,
  phi nodes looked through, for exactly the values that some path back through the referers provides, and
  the recursion returns exactly when every such path provides one.
\<close>

section \<open>Values along paths\<close>

text \<open>\<open>R\<close> are the referers of a block and \<open>S\<close> is the stack a block leaves, its top last.\<close>

inductive provides :: "(u16 \<Rightarrow> u16 set) \<Rightarrow> (u16 \<Rightarrow> nat list) \<Rightarrow> u16 \<Rightarrow> nat \<Rightarrow> nat \<Rightarrow> bool" for R S where
  provides_top: "r \<in> R d \<Longrightarrow> i < length (S r) \<Longrightarrow> provides R S d i (S r ! (length (S r) - 1 - i))"
| provides_below: "r \<in> R d \<Longrightarrow> length (S r) \<le> i \<Longrightarrow> provides R S r (i - length (S r)) v \<Longrightarrow> provides R S d i v"

text \<open>Every path back provides a value after at most \<open>n\<close> blocks.\<close>

primrec supplied_in :: "(u16 \<Rightarrow> u16 set) \<Rightarrow> (u16 \<Rightarrow> nat list) \<Rightarrow> nat \<Rightarrow> u16 \<Rightarrow> nat \<Rightarrow> bool" where
  "supplied_in R S 0 d i \<longleftrightarrow> False"
| "supplied_in R S (Suc n) d i \<longleftrightarrow>
     R d \<noteq> {} \<and> (\<forall>r \<in> R d. i < length (S r) \<or> supplied_in R S n r (i - length (S r)))"

definition provided_by :: "(u16 \<Rightarrow> u16 set) \<Rightarrow> (u16 \<Rightarrow> nat list) \<Rightarrow> u16 \<Rightarrow> nat \<Rightarrow> nat set" where
  "provided_by R S r i =
     (if i < length (S r) then {S r ! (length (S r) - 1 - i)} else {v. provides R S r (i - length (S r)) v})"

lemma in_provided_by:
  "v \<in> provided_by R S r i \<longleftrightarrow>
     i < length (S r) \<and> v = S r ! (length (S r) - 1 - i) \<or> length (S r) \<le> i \<and> provides R S r (i - length (S r)) v"
  by (auto simp: provided_by_def)

lemma provides_referers: "{v. provides R S d i v} = (\<Union>r \<in> R d. provided_by R S r i)"
proof -
  have "provides R S d i v \<longleftrightarrow> (\<exists>r \<in> R d. v \<in> provided_by R S r i)" for v
    unfolding in_provided_by by (subst provides.simps) blast
  then show ?thesis by auto
qed

lemma supplied_in_mono: "supplied_in R S n d i \<Longrightarrow> n \<le> n' \<Longrightarrow> supplied_in R S n' d i"
proof (induction n arbitrary: n' d i)
  case 0
  then show ?case by simp
next
  case (Suc n)
  then obtain k where "n' = Suc k" "n \<le> k" by (cases n') auto
  then show ?case using Suc by auto
qed

section \<open>What a node stands for\<close>

text \<open>
  \<open>resolves X m n V\<close>: the values behind node \<open>n\<close> are \<open>V\<close>, found without meeting a node of \<open>X\<close>.
\<close>

inductive resolves :: "nat set \<Rightarrow> (nat \<rightharpoonup> ControlNode) \<Rightarrow> nat \<Rightarrow> nat set \<Rightarrow> bool" for X m where
  resolves_value: "n \<notin> X \<Longrightarrow> m n = Some node \<Longrightarrow> m_nodeType node \<noteq> ntPhi \<Longrightarrow> resolves X m n {n}"
| resolves_phi: "n \<notin> X \<Longrightarrow> m n = Some node \<Longrightarrow> m_nodeType node = ntPhi \<Longrightarrow>
    (\<And>c. c \<in> set (m_incomingList node) \<Longrightarrow> resolves X m (inc_node c) (F c)) \<Longrightarrow>
    V = (\<Union>c \<in> set (m_incomingList node). F c) \<Longrightarrow> resolves X m n V"

inductive_cases resolves_cases: "resolves X m n V"

lemma resolves_node: "resolves X m n V \<Longrightarrow> n \<notin> X \<and> m n \<noteq> None"
  by (erule resolves_cases) auto

lemma resolves_less: "resolves X m n V \<Longrightarrow> Y \<subseteq> X \<Longrightarrow> resolves Y m n V"
  by (induction rule: resolves.induct) (auto intro: resolves.intros)

lemma resolves_unique: "resolves X m n V \<Longrightarrow> resolves Y m n W \<Longrightarrow> V = W"
proof (induction arbitrary: W rule: resolves.induct)
  case (resolves_value n node)
  then show ?case by (auto elim: resolves_cases)
next
  case (resolves_phi n node F V)
  note outer = resolves_phi
  from resolves_phi.prems show ?case
  proof (cases rule: resolves.cases)
    case (resolves_phi node' G)
    then have "node' = node" using outer(2) by simp
    then show ?thesis using outer(5) outer(6) resolves_phi(4,5) by (auto simp: outer(5))
  qed (use outer(2,3) in auto)
qed

text \<open>What a node stands for depends on the types and the incoming values of the other nodes only.\<close>

definition keeps_values :: "nat set \<Rightarrow> (nat \<rightharpoonup> ControlNode) \<Rightarrow> (nat \<rightharpoonup> ControlNode) \<Rightarrow> bool" where
  "keeps_values X m m' \<longleftrightarrow> (\<forall>n node. n \<notin> X \<longrightarrow> m n = Some node \<longrightarrow>
     (\<exists>node'. m' n = Some node' \<and> m_nodeType node' = m_nodeType node \<and> m_incomingList node' = m_incomingList node))"

lemma resolves_keeps: "resolves X m n V \<Longrightarrow> keeps_values X m m' \<Longrightarrow> resolves X m' n V"
proof (induction rule: resolves.induct)
  case (resolves_value n node)
  then show ?case unfolding keeps_values_def by (metis resolves.resolves_value)
next
  case (resolves_phi n node F V)
  then obtain node' where "m' n = Some node'" "m_nodeType node' = ntPhi" "m_incomingList node' = m_incomingList node"
    unfolding keeps_values_def by metis
  then show ?case using resolves_phi by (intro resolves.resolves_phi [of n X m' node' F]) auto
qed

definition phi_nodes :: "(nat \<rightharpoonup> ControlNode) \<Rightarrow> nat set" where
  "phi_nodes m = {n. \<exists>node. m n = Some node \<and> m_nodeType node = ntPhi}"

section \<open>Graphs under the linker\<close>

definition graph_block :: "ControlGraph \<Rightarrow> u16 \<Rightarrow> BasicBlock option" where
  "graph_block g d = (case getParsedBytecode g of Inl e \<Rightarrow> None | Inr code \<Rightarrow> m_offsetToBasicBlock code d)"

definition referers_of :: "ControlGraph \<Rightarrow> u16 \<Rightarrow> u16 set" where
  "referers_of g d = (case graph_block g d of None \<Rightarrow> {} | Some b \<Rightarrow> m_referers b)"

definition stack_of :: "ControlGraph \<Rightarrow> u16 \<Rightarrow> nat list" where
  "stack_of g d = (case domain_at g d of None \<Rightarrow> [] | Some domain \<Rightarrow> m_localStack domain)"

text \<open>
  A graph whose domains are the blocks, with every referer among them and instructions on the symbolic
  stacks.
\<close>

definition numbered :: "ControlGraph \<Rightarrow> bool" where
  "numbered g \<longleftrightarrow> (\<forall>n node. node_at g n = Some node \<longrightarrow>
     n < m_lastNodeIndex g \<and> set (m_outEdges node) \<subseteq> {..< m_lastNodeIndex g})"

definition linkable :: "ControlGraph \<Rightarrow> bool" where
  "linkable g \<longleftrightarrow>
     (\<forall>d domain. domain_at g d = Some domain \<longrightarrow> m_basicBlock domain = d \<and>
        (\<exists>b. graph_block g d = Some b \<and> m_referers b \<subseteq> dom (domain_at g)) \<and>
        (\<forall>v \<in> set (m_localStack domain). \<exists>node. node_at g v = Some node \<and> m_nodeType node = ntInstruction)) \<and>
     numbered g"

text \<open>What a search leaves alone: old nodes only get consumers, new ones are phi nodes.\<close>

definition graph_extends :: "ControlGraph \<Rightarrow> ControlGraph \<Rightarrow> bool" where
  "graph_extends g g' \<longleftrightarrow>
     domain_at g' = domain_at g \<and> m_parsedMethod g' = m_parsedMethod g \<and> m_parsedBlock g' = m_parsedBlock g \<and>
     m_domains g' = m_domains g \<and> m_lastNodeIndex g \<le> m_lastNodeIndex g' \<and>
     (\<forall>n node. node_at g n = Some node \<longrightarrow> (\<exists>cs. node_at g' n = Some (node\<lparr>m_consumers := cs\<rparr>))) \<and>
     (\<forall>n node. node_at g' n = Some node \<longrightarrow>
        node_at g n \<noteq> None \<or> m_lastNodeIndex g \<le> n \<and> m_nodeType node = ntPhi) \<and>
     numbered g'"

lemma same_consumers: "node = node\<lparr>m_consumers := m_consumers node\<rparr>"
  by simp

lemma graph_extends_refl:
  assumes "linkable g"
  shows "graph_extends g g"
proof -
  have "\<exists>cs. node_at g n = Some (node\<lparr>m_consumers := cs\<rparr>)" if "node_at g n = Some node" for n node
    using that same_consumers by metis
  moreover have "numbered g" using assms by (simp add: linkable_def)
  ultimately show ?thesis unfolding graph_extends_def by simp
qed

lemma graph_extends_parts:
  assumes "graph_extends g g'"
  shows "graph_block g' = graph_block g" "referers_of g' = referers_of g" "stack_of g' = stack_of g"
    "domain_at g' = domain_at g"
  using assms
  by (auto simp: graph_extends_def graph_block_def referers_of_def stack_of_def getParsedBytecode_def fun_eq_iff
      split: option.splits)

lemma graph_extends_keeps: "graph_extends g g' \<Longrightarrow> keeps_values X (node_at g) (node_at g')"
  unfolding graph_extends_def keeps_values_def by fastforce

lemma graph_extends_phis: "graph_extends g g' \<Longrightarrow> phi_nodes (node_at g) \<subseteq> phi_nodes (node_at g')"
  unfolding graph_extends_def phi_nodes_def by fastforce

lemma graph_extends_linkable:
  assumes "graph_extends g g'" and "linkable g"
  shows "linkable g'"
proof -
  have instr: "\<exists>node. node_at g' v = Some node \<and> m_nodeType node = ntInstruction"
    if "\<exists>node. node_at g v = Some node \<and> m_nodeType node = ntInstruction" for v
    using assms(1) that unfolding graph_extends_def by fastforce
  have index: "numbered g'" using assms(1) unfolding graph_extends_def by blast
  show ?thesis
    unfolding linkable_def graph_extends_parts [OF assms(1)]
    using assms(2) instr index unfolding linkable_def by simp
qed

lemma graph_extends_trans:
  assumes "graph_extends g h" and "graph_extends h k"
  shows "graph_extends g k"
proof -
  have "\<exists>cs. node_at k n = Some (node\<lparr>m_consumers := cs\<rparr>)" if "node_at g n = Some node" for n node
  proof -
    obtain cs where "node_at h n = Some (node\<lparr>m_consumers := cs\<rparr>)"
      using assms(1) \<open>node_at g n = Some node\<close> unfolding graph_extends_def by blast
    then obtain cs' where "node_at k n = Some (node\<lparr>m_consumers := cs, m_consumers := cs'\<rparr>)"
      using assms(2) unfolding graph_extends_def by blast
    then show ?thesis by auto
  qed
  moreover have "node_at g n \<noteq> None \<or> m_lastNodeIndex g \<le> n \<and> m_nodeType node = ntPhi"
    if n: "node_at k n = Some node" for n node
  proof (cases "node_at h n")
    case None
    then show ?thesis using assms n unfolding graph_extends_def by (metis le_trans option.distinct(1))
  next
    case (Some node')
    then obtain cs where "node = node'\<lparr>m_consumers := cs\<rparr>" using assms(2) n unfolding graph_extends_def by fastforce
    then show ?thesis using assms n Some unfolding graph_extends_def by fastforce
  qed
  ultimately show ?thesis using assms unfolding graph_extends_def by (metis le_trans)
qed

section \<open>Running the operations\<close>

lemma nodeAt_exec: "node_at g n = Some node \<Longrightarrow> nodeAt n g = Inr (node, g)"
  by (simp add: nodeAt_def comp_simps)

lemma changeNode_exec:
  "node_at g n = Some node \<Longrightarrow> changeNode n f g = Inr ((), g\<lparr>node_at := (node_at g)(n \<mapsto> f node)\<rparr>)"
  by (simp add: changeNode_def nodeAt_exec bnd_def modify_def)

lemma domainAt_exec: "domain_at g d = Some domain \<Longrightarrow> domainAt d g = Inr (domain, g)"
  by (simp add: domainAt_def comp_simps)

lemma getDomainFor_exec: "domain_at g d = Some domain \<Longrightarrow> getDomainFor d g = Inr (d, g)"
  by (simp add: getDomainFor_def comp_simps)

lemma basicBlockAt_exec: "graph_block g d = Some b \<Longrightarrow> basicBlockAt d g = Inr (b, g)"
  by (auto simp: basicBlockAt_def graph_block_def comp_simps split: sum.splits)

lemma linkable_domain:
  assumes "linkable g" and "d \<in> dom (domain_at g)"
  obtains domain b where "domain_at g d = Some domain" "m_basicBlock domain = d" "graph_block g d = Some b"
    "m_referers b = referers_of g d" "m_localStack domain = stack_of g d" "referers_of g d \<subseteq> dom (domain_at g)"
proof -
  obtain domain where "domain_at g d = Some domain" using assms(2) by auto
  moreover from this obtain b where "m_basicBlock domain = d" "graph_block g d = Some b"
      "m_referers b \<subseteq> dom (domain_at g)"
    using assms(1) unfolding linkable_def by blast
  ultimately show thesis using that by (simp add: referers_of_def stack_of_def)
qed

lemma set_refererOrder [simp]: "set (refererOrder address R) = R"
  by (simp add: refererOrder_def)

lemma length_refererOrder: "length (refererOrder address R) = card R"
  by (simp add: refererOrder_def)

section \<open>One referer\<close>

text \<open>The outcome of a search, over the state it started in.\<close>

definition found :: "ControlGraph \<Rightarrow> nat set \<Rightarrow> (nat \<times> ControlGraph) res \<Rightarrow> bool" where
  "found g V r \<longleftrightarrow> (\<exists>n g'. r = Inr (n, g') \<and> graph_extends g g' \<and> resolves (phi_nodes (node_at g)) (node_at g') n V)"

lemma refererValue_found:
  assumes link: "linkable g" and r: "r \<in> dom (domain_at g)"
    and below: "length (stack_of g r) \<le> i \<Longrightarrow>
      found g {v. provides (referers_of g) (stack_of g) r (i - length (stack_of g r)) v} (below r (i - length (stack_of g r)) g)"
  shows "\<exists>n g'. refererValue below i r g = Inr ((r, n), g') \<and>
    graph_extends g g' \<and> resolves (phi_nodes (node_at g)) (node_at g') n (provided_by (referers_of g) (stack_of g) r i)"
proof -
  obtain domain where d: "domain_at g r = Some domain" "m_localStack domain = stack_of g r"
    using linkable_domain [OF link r] by metis
  show ?thesis
  proof (cases "length (stack_of g r) \<le> i")
    case True
    then show ?thesis using below [OF True] d
      by (auto simp: found_def refererValue_def getDomainFor_exec domainAt_exec provided_by_def bnd_def ret_def Let_def)
  next
    case False
    let ?v = "stack_of g r ! (length (stack_of g r) - 1 - i)"
    have "?v \<in> set (m_localStack domain)" using False d(2) by simp
    then obtain node where "node_at g ?v = Some node" "m_nodeType node = ntInstruction"
      using link d(1) unfolding linkable_def by blast
    then have "resolves (phi_nodes (node_at g)) (node_at g) ?v {?v}"
      by (intro resolves_value) (auto simp: phi_nodes_def)
    then show ?thesis using False d graph_extends_refl [OF link]
      by (simp add: refererValue_def getDomainFor_exec domainAt_exec provided_by_def bnd_def ret_def Let_def)
  qed
qed

section \<open>The phi node of several referers\<close>

text \<open>The phi node under construction, once the referers \<open>bs\<close> have been added to it.\<close>

definition phi_under :: "ControlGraph \<Rightarrow> nat \<Rightarrow> (u16 \<Rightarrow> nat set) \<Rightarrow> u16 list \<Rightarrow> ControlGraph \<Rightarrow> bool" where
  "phi_under g0 p W bs g \<longleftrightarrow> p = m_lastNodeIndex g0 \<and> graph_extends g0 g \<and>
     (\<exists>node. node_at g p = Some node \<and> m_nodeType node = ntPhi \<and> m_outEdges node = [] \<and>
        map inc_domain (m_incomingList node) = bs \<and>
        set (m_inEdges node) \<subseteq> inc_node ` set (m_incomingList node) \<and>
        (\<forall>c \<in> set (m_incomingList node).
           resolves (insert p (phi_nodes (node_at g0))) (node_at g) (inc_node c) (W (inc_domain c))))"

lemma linkable_fresh: "linkable g \<Longrightarrow> node_at g (m_lastNodeIndex g) = None"
  unfolding linkable_def numbered_def by (metis less_irrefl option.exhaust)

lemma newPhi_exec:
  "newPhi d g = Inr (m_lastNodeIndex g, g\<lparr>m_lastNodeIndex := m_lastNodeIndex g + 1,
     m_nodes := m_nodes g @ [m_lastNodeIndex g],
     node_at := (node_at g)(m_lastNodeIndex g \<mapsto> (ControlNode_new ntPhi)\<lparr>m_domain := Some d\<rparr>)\<rparr>)"
  by (simp add: newPhi_def newNode_def changeNode_def nodeAt_def comp_simps Let_def)

lemma newPhi_under:
  assumes "linkable g"
  shows "\<exists>g'. newPhi d g = Inr (m_lastNodeIndex g, g') \<and> phi_under g (m_lastNodeIndex g) W [] g'"
proof -
  have fresh: "node_at g (m_lastNodeIndex g) = None" by (rule linkable_fresh [OF assms])
  have index: "n < m_lastNodeIndex g" "\<And>x. x \<in> set (m_outEdges node) \<Longrightarrow> x < m_lastNodeIndex g"
    if "node_at g n = Some node" for n node
    using assms that unfolding linkable_def numbered_def by blast+
  have old: "\<exists>cs. node_at g n = Some (node\<lparr>m_consumers := cs\<rparr>)" if "node_at g n = Some node" for n node
    using that same_consumers by metis
  show ?thesis
    unfolding newPhi_exec phi_under_def graph_extends_def numbered_def
    using fresh index old by (auto simp: ControlNode_new_def intro: less_SucI)
qed

text \<open>What adding an incoming value does to the two nodes.\<close>

lemma addReferer_exec:
  assumes "node_at g p = Some pn" and "node_at g v = Some vn" and "p \<noteq> v"
  shows "\<exists>pn' vn'. addReferer (Some p) d v g = Inr (p, g\<lparr>node_at := (node_at g)(p \<mapsto> pn', v \<mapsto> vn')\<rparr>) \<and>
    m_nodeType pn' = m_nodeType pn \<and> m_outEdges pn' = m_outEdges pn \<and>
    m_incomingList pn' = m_incomingList pn @ [\<lparr>inc_domain = d, inc_node = v\<rparr>] \<and>
    set (m_inEdges pn') \<subseteq> insert v (set (m_inEdges pn)) \<and>
    m_nodeType vn' = m_nodeType vn \<and> m_incomingList vn' = m_incomingList vn \<and>
    (m_nodeType vn \<noteq> ntPhi \<longrightarrow> (\<exists>cs. vn' = vn\<lparr>m_consumers := cs\<rparr>)) \<and>
    set (m_outEdges vn') \<subseteq> insert p (set (m_outEdges vn))"
proof -
  define pn' where "pn' = pn\<lparr>m_incomingList := m_incomingList pn @ [\<lparr>inc_domain = d, inc_node = v\<rparr>],
    m_inEdges := if m_nodeType vn = ntPhi then set_add v (m_inEdges pn) else m_inEdges pn\<rparr>"
  define vn' where "vn' = vn\<lparr>m_consumers := set_add p (m_consumers vn),
    m_outEdges := if m_nodeType vn = ntPhi then set_add p (m_outEdges vn) else m_outEdges vn\<rparr>"
  have "addReferer (Some p) d v g = Inr (p, g\<lparr>node_at := (node_at g)(p \<mapsto> pn', v \<mapsto> vn')\<rparr>)"
    using assms
    by (simp add: addReferer_def addIncoming_def addConsumer_def addEdge_def changeNode_exec nodeAt_exec
        bnd_def ret_def pn'_def vn'_def fun_upd_twist)
  moreover have "set (m_inEdges pn') \<subseteq> insert v (set (m_inEdges pn))"
    by (auto simp: pn'_def set_add_def set_insort_insert)
  moreover have "m_nodeType vn \<noteq> ntPhi \<longrightarrow> (\<exists>cs. vn' = vn\<lparr>m_consumers := cs\<rparr>)"
    by (auto simp: vn'_def intro!: exI [of _ "set_add p (m_consumers vn)"])
  moreover have "m_nodeType pn' = m_nodeType pn" "m_outEdges pn' = m_outEdges pn"
      "m_incomingList pn' = m_incomingList pn @ [\<lparr>inc_domain = d, inc_node = v\<rparr>]"
      "m_nodeType vn' = m_nodeType vn" "m_incomingList vn' = m_incomingList vn"
      "set (m_outEdges vn') \<subseteq> insert p (set (m_outEdges vn))"
    by (auto simp: pn'_def vn'_def set_add_def set_insort_insert)
  ultimately show ?thesis by blast
qed

lemma graph_extends_change:
  assumes ext: "graph_extends g0 g1" and p: "p = m_lastNodeIndex g0" "node_at g0 p = None" "p < m_lastNodeIndex g1"
    and pn': "\<And>pn. pn' = Some pn \<Longrightarrow> m_nodeType pn = ntPhi"
    and v: "node_at g1 v = Some vn" "v \<notin> phi_nodes (node_at g0)"
    and vn': "m_nodeType vn' = m_nodeType vn" "m_nodeType vn \<noteq> ntPhi \<Longrightarrow> \<exists>cs. vn' = vn\<lparr>m_consumers := cs\<rparr>"
    and edges: "\<And>pn. pn' = Some pn \<Longrightarrow> m_outEdges pn = []" "set (m_outEdges vn') \<subseteq> insert p (set (m_outEdges vn))"
  shows "graph_extends g0 (g1\<lparr>m_nodes := ns, node_at := (node_at g1)(v \<mapsto> vn', p := pn')\<rparr>)" (is "graph_extends g0 ?g2")
proof -
  have old: "\<exists>cs. node_at g1 n = Some (node\<lparr>m_consumers := cs\<rparr>)" if "node_at g0 n = Some node" for n node
    using ext that unfolding graph_extends_def by blast
  have num: "m < m_lastNodeIndex g1 \<and> set (m_outEdges nd) \<subseteq> {..< m_lastNodeIndex g1}" if "node_at g1 m = Some nd" for m nd
    using ext that unfolding graph_extends_def numbered_def by blast
  have g1: "node_at g0 m \<noteq> None \<or> m_lastNodeIndex g0 \<le> m \<and> m_nodeType nd = ntPhi"
    if "node_at g1 m = Some nd" for m nd
    using ext that unfolding graph_extends_def by blast
  have "\<exists>cs. node_at ?g2 n = Some (node\<lparr>m_consumers := cs\<rparr>)" if n: "node_at g0 n = Some node" for n node
  proof (cases "n = v")
    case True
    then have "m_nodeType node \<noteq> ntPhi" using v(2) n by (auto simp: phi_nodes_def)
    moreover obtain cs where "vn = node\<lparr>m_consumers := cs\<rparr>" using old [OF n] v(1) True by auto
    ultimately obtain cs' where "vn' = node\<lparr>m_consumers := cs'\<rparr>" using vn'(2) by auto
    then show ?thesis using True n p(2) by auto
  next
    case False
    then show ?thesis using old [OF n] n p(2) by auto
  qed
  moreover have "(node_at g0 n \<noteq> None \<or> m_lastNodeIndex g0 \<le> n \<and> m_nodeType node = ntPhi) \<and>
      n < m_lastNodeIndex ?g2 \<and> set (m_outEdges node) \<subseteq> {..< m_lastNodeIndex ?g2}"
    if n: "node_at ?g2 n = Some node" for n node
  proof -
    consider "n = p" | "n \<noteq> p" "n = v" | "n \<noteq> p" "n \<noteq> v" by blast
    then show ?thesis
    proof cases
      case 1
      then show ?thesis using p(1,3) pn' [of node] edges(1) [of node] n by simp
    next
      case 2
      then show ?thesis using g1 [OF v(1)] num [OF v(1)] vn'(1) edges(2) p(3) n by auto
    next
      case 3
      then show ?thesis using g1 [of n node] num [of n node] n by simp
    qed
  qed
  ultimately show ?thesis using ext unfolding graph_extends_def numbered_def by simp
qed

text \<open>One more referer is added.\<close>

lemma phi_under_add:
  assumes under: "phi_under g0 p W bs g" and "linkable g0"
    and ext: "graph_extends g g1" and val: "resolves (phi_nodes (node_at g)) (node_at g1) v (W r)"
  shows "\<exists>g2. addReferer (Some p) r v g1 = Inr (p, g2) \<and> phi_under g0 p W (bs @ [r]) g2"
proof -
  let ?X = "insert p (phi_nodes (node_at g0))"
  obtain pn where p: "p = m_lastNodeIndex g0" "graph_extends g0 g" "node_at g p = Some pn" "m_nodeType pn = ntPhi"
      "m_outEdges pn = []" "map inc_domain (m_incomingList pn) = bs"
      "set (m_inEdges pn) \<subseteq> inc_node ` set (m_incomingList pn)"
      "\<forall>c \<in> set (m_incomingList pn). resolves ?X (node_at g) (inc_node c) (W (inc_domain c))"
    using under unfolding phi_under_def by blast
  have X: "?X \<subseteq> phi_nodes (node_at g)"
    using graph_extends_phis [OF p(2)] p(3,4) by (auto simp: phi_nodes_def)
  obtain cs where pn1: "node_at g1 p = Some (pn\<lparr>m_consumers := cs\<rparr>)"
    using ext p(3) unfolding graph_extends_def by blast
  obtain vn where vn: "node_at g1 v = Some vn" "v \<notin> phi_nodes (node_at g)" using resolves_node [OF val] by blast
  then have "p \<noteq> v" using X by blast
  obtain pn' vn' where add: "addReferer (Some p) r v g1 = Inr (p, g1\<lparr>node_at := (node_at g1)(p \<mapsto> pn', v \<mapsto> vn')\<rparr>)"
      "m_nodeType pn' = ntPhi" "m_outEdges pn' = []"
      "m_incomingList pn' = m_incomingList pn @ [\<lparr>inc_domain = r, inc_node = v\<rparr>]"
      "set (m_inEdges pn') \<subseteq> insert v (set (m_inEdges pn))"
      "m_nodeType vn' = m_nodeType vn" "m_incomingList vn' = m_incomingList vn"
      "m_nodeType vn \<noteq> ntPhi \<Longrightarrow> \<exists>cs. vn' = vn\<lparr>m_consumers := cs\<rparr>"
      "set (m_outEdges vn') \<subseteq> insert p (set (m_outEdges vn))"
    using addReferer_exec [OF pn1 vn(1) \<open>p \<noteq> v\<close>, of r] p(4,5) by auto
  let ?g2 = "g1\<lparr>node_at := (node_at g1)(p \<mapsto> pn', v \<mapsto> vn')\<rparr>"
  have keeps: "keeps_values ?X (node_at g1) (node_at ?g2)"
    using vn(1) add(6,7) by (auto simp: keeps_values_def)
  have olds: "resolves ?X (node_at ?g2) (inc_node c) (W (inc_domain c))" if "c \<in> set (m_incomingList pn)" for c
    using p(8) that resolves_keeps [OF _ graph_extends_keeps [OF ext]] resolves_keeps [OF _ keeps] by blast
  have new: "resolves ?X (node_at ?g2) v (W r)"
    using resolves_keeps [OF resolves_less [OF val X] keeps] .
  have ext1: "graph_extends g0 g1" using graph_extends_trans [OF p(2) ext] .
  have "node_at g0 p = None" "p < m_lastNodeIndex g1"
    using linkable_fresh [OF assms(2)] p(1) ext1 pn1 unfolding graph_extends_def numbered_def by blast+
  moreover have "v \<notin> phi_nodes (node_at g0)" using vn(2) X by blast
  ultimately have "graph_extends g0 (g1\<lparr>m_nodes := m_nodes g1, node_at := (node_at g1)(v \<mapsto> vn', p := Some pn')\<rparr>)"
    using add(2,3,9) by (intro graph_extends_change [OF ext1 p(1) _ _ _ vn(1) _ add(6,8)]) auto
  then have "graph_extends g0 ?g2" using \<open>p \<noteq> v\<close> by (simp add: fun_upd_twist)
  moreover have "map inc_domain (m_incomingList pn') = bs @ [r]" using add(4) p(6) by simp
  moreover have "set (m_inEdges pn') \<subseteq> inc_node ` set (m_incomingList pn')" using add(4,5) p(7) by auto
  moreover have "\<forall>c \<in> set (m_incomingList pn'). resolves ?X (node_at ?g2) (inc_node c) (W (inc_domain c))"
    using olds new add(4) by auto
  ultimately have "phi_under g0 p W (bs @ [r]) ?g2"
    unfolding phi_under_def using p(1) add(2,3) \<open>p \<noteq> v\<close> by auto
  then show ?thesis using add(1) by blast
qed

text \<open>The incoming values, each once.\<close>

lemma incoming_values: "set (foldl (\<lambda>values i. set_add (inc_node i) values) vs incs) = set vs \<union> inc_node ` set incs"
  by (induction incs arbitrary: vs) (auto simp: set_add_def set_insort_insert)

lemma distinct_incoming_values:
  "distinct vs \<Longrightarrow> distinct (foldl (\<lambda>values i. set_add (inc_node i) values) vs incs)"
  by (induction incs arbitrary: vs) (auto simp: set_add_def distinct_insort_insert)

text \<open>An instruction has no edge to a node that is made later.\<close>

lemma old_value_edges:
  assumes "graph_extends g0 g" and "linkable g0" and "m_nodeType vn \<noteq> ntPhi" and "node_at g v = Some vn"
  shows "m_lastNodeIndex g0 \<notin> set (m_outEdges vn)"
proof -
  obtain old where old: "node_at g0 v = Some old" using assms(1,3,4) unfolding graph_extends_def by blast
  then obtain cs where "vn = old\<lparr>m_consumers := cs\<rparr>" using assms(1,4) unfolding graph_extends_def by fastforce
  moreover have "set (m_outEdges old) \<subseteq> {..< m_lastNodeIndex g0}"
    using assms(2) old unfolding linkable_def numbered_def by blast
  ultimately show ?thesis by auto
qed

lemma removeAll_none: "set xs \<subseteq> {v} \<Longrightarrow> removeAll v xs = []"
  by (induction xs) auto

lemma optimizePhi_found:
  assumes under: "phi_under g0 p W bs g" and link: "linkable g0" and two: "length bs > 1"
  shows "found g0 (\<Union>r \<in> set bs. W r) (optimizePhi p g)"
proof -
  let ?X = "insert p (phi_nodes (node_at g0))"
  obtain pn where p: "p = m_lastNodeIndex g0" "graph_extends g0 g" "node_at g p = Some pn" "m_nodeType pn = ntPhi"
      "m_outEdges pn = []" "map inc_domain (m_incomingList pn) = bs"
      "set (m_inEdges pn) \<subseteq> inc_node ` set (m_incomingList pn)"
      "\<And>c. c \<in> set (m_incomingList pn) \<Longrightarrow> resolves ?X (node_at g) (inc_node c) (W (inc_domain c))"
    using under unfolding phi_under_def by blast
  have W: "(\<Union>r \<in> set bs. W r) = (\<Union>c \<in> set (m_incomingList pn). W (inc_domain c))" using p(6) by auto
  have new: "p \<notin> phi_nodes (node_at g0)" using linkable_fresh [OF link] p(1) unfolding phi_nodes_def by simp
  have inner: "resolves (phi_nodes (node_at g0)) (node_at g) (inc_node c) (W (inc_domain c))"
    if "c \<in> set (m_incomingList pn)" for c
    using resolves_less [OF p(8) [OF that]] by blast
  have many: "length (m_incomingList pn) > 1" using two p(6) by (metis length_map)
  define vs where "vs = foldl (\<lambda>values i. set_add (inc_node i) values) [] (m_incomingList pn)"
  have vs: "set vs = inc_node ` set (m_incomingList pn)" "distinct vs"
    using incoming_values [of "[]" "m_incomingList pn"] distinct_incoming_values [of "[]" "m_incomingList pn"]
    by (simp_all add: vs_def)
  show ?thesis
  proof (cases "length vs > 1")
    case True
    have "resolves (phi_nodes (node_at g0)) (node_at g) p (\<Union>c \<in> set (m_incomingList pn). W (inc_domain c))"
      by (rule resolves_phi [OF new p(3,4) inner]) auto
    moreover have "optimizePhi p g = Inr (p, g)"
      using True many by (simp add: optimizePhi_def nodeAt_exec [OF p(3)] bnd_def ret_def guard_def Let_def vs_def)
    ultimately show ?thesis using p(2) unfolding found_def W by blast
  next
    case False
    moreover have "vs \<noteq> []" using vs(1) many by auto
    ultimately obtain v where v: "vs = [v]" by (cases vs) auto
    then have same: "inc_node c = v" if "c \<in> set (m_incomingList pn)" for c using vs(1) that by auto
    obtain c where c: "c \<in> set (m_incomingList pn)" using many by (cases "m_incomingList pn") auto
    have res: "resolves ?X (node_at g) v (W (inc_domain c))" using p(8) [OF c] same [OF c] by simp
    have Ws: "W (inc_domain c') = W (inc_domain c)" if "c' \<in> set (m_incomingList pn)" for c'
      using resolves_unique [OF p(8) [OF that] ] res same [OF that] by auto
    have W1: "(\<Union>r \<in> set bs. W r) = W (inc_domain c)"
      unfolding W by (rule equalityI) (rule UN_least, simp add: Ws, rule UN_upper [OF c])
    obtain vn where vn: "node_at g v = Some vn" "p \<noteq> v" using resolves_node [OF res] by auto
    define vn' where "vn' = vn\<lparr>m_consumers := set_remove p (m_consumers vn), m_outEdges := set_remove p (m_outEdges vn)\<rparr>"
    let ?g' = "g\<lparr>m_nodes := removeAll p (m_nodes g), node_at := (node_at g)(v \<mapsto> vn', p := None)\<rparr>"
    have "set (m_inEdges pn) \<subseteq> {v}" using p(7) same by auto
    then have "set_remove v (m_inEdges pn) = []" using removeAll_none by (simp add: set_remove_def)
    then have "optimizePhi p g = Inr (v, ?g')"
      using many v vn p(3,5)
      by (simp add: optimizePhi_def vs_def [symmetric] nodeAt_exec removeConsumer_def removeEdge_def eraseNode_def
          changeNode_exec bnd_def ret_def guard_def modify_def Let_def vn'_def fun_upd_twist)
    moreover have "node_at g0 p = None" "p < m_lastNodeIndex g"
      using linkable_fresh [OF link] p(1,2,3) unfolding graph_extends_def numbered_def by blast+
    then have "graph_extends g0 ?g'"
      using resolves_node [OF res] vn(1) old_value_edges [OF p(2) link _ vn(1)] p(1)
      by (intro graph_extends_change [OF p(2) p(1), where vn = vn]) (auto simp: vn'_def set_remove_def)
    moreover have "resolves (phi_nodes (node_at g0)) (node_at ?g') v (W (inc_domain c))"
      using vn by (intro resolves_less [OF resolves_keeps [OF res]]) (auto simp: keeps_values_def vn'_def)
    ultimately show ?thesis unfolding found_def W1 by blast
  qed
qed

section \<open>The search\<close>

text \<open>What a referer has to offer, and the search below it in any later state.\<close>

definition searches :: "(u16 \<Rightarrow> nat \<Rightarrow> nat graph_comp) \<Rightarrow> ControlGraph \<Rightarrow> nat \<Rightarrow> u16 \<Rightarrow> bool" where
  "searches below g0 i r \<longleftrightarrow> (\<forall>g. graph_extends g0 g \<longrightarrow> length (stack_of g0 r) \<le> i \<longrightarrow>
     found g {v. provides (referers_of g0) (stack_of g0) r (i - length (stack_of g0 r)) v}
       (below r (i - length (stack_of g0 r)) g))"

lemma refererValue_searches:
  assumes "linkable g0" and "graph_extends g0 g" and "r \<in> dom (domain_at g0)" and "searches below g0 i r"
  shows "\<exists>n g'. refererValue below i r g = Inr ((r, n), g') \<and> graph_extends g g' \<and>
    resolves (phi_nodes (node_at g)) (node_at g') n (provided_by (referers_of g0) (stack_of g0) r i)"
proof -
  note parts = graph_extends_parts [OF assms(2)]
  have "found g {v. provides (referers_of g) (stack_of g) r (i - length (stack_of g r)) v}
      (below r (i - length (stack_of g r)) g)" if "length (stack_of g r) \<le> i"
    using assms(2,4) that unfolding searches_def parts by blast
  then have "\<exists>n g'. refererValue below i r g = Inr ((r, n), g') \<and> graph_extends g g' \<and>
      resolves (phi_nodes (node_at g)) (node_at g') n (provided_by (referers_of g) (stack_of g) r i)"
    using graph_extends_linkable [OF assms(2,1)] assms(3) by (intro refererValue_found) (simp_all add: parts)
  then show ?thesis by (simp add: parts)
qed

lemma phi_under_extends: "phi_under g0 p W bs g \<Longrightarrow> graph_extends g0 g"
  by (simp add: phi_under_def)

lemma addReferers_phi_step:
  assumes "phi_under g0 p (\<lambda>r. provided_by (referers_of g0) (stack_of g0) r i) bs g" and "linkable g0"
    and "r \<in> dom (domain_at g0)" and "searches below g0 i r"
  shows "\<exists>g'. addReferers (refererValue below i) (Some p) (r # rs) res g =
      addReferers (refererValue below i) (Some p) rs (Some p) g' \<and>
    phi_under g0 p (\<lambda>r. provided_by (referers_of g0) (stack_of g0) r i) (bs @ [r]) g'"
proof -
  obtain n g1 where "refererValue below i r g = Inr ((r, n), g1)" "graph_extends g g1"
      "resolves (phi_nodes (node_at g)) (node_at g1) n (provided_by (referers_of g0) (stack_of g0) r i)"
    using refererValue_searches [OF assms(2) phi_under_extends [OF assms(1)] assms(3,4)] by blast
  moreover from this obtain g2 where "addReferer (Some p) r n g1 = Inr (p, g2)"
      "phi_under g0 p (\<lambda>r. provided_by (referers_of g0) (stack_of g0) r i) (bs @ [r]) g2"
    using phi_under_add [OF assms(1,2)] by blast
  ultimately show ?thesis by (auto simp: bnd_def)
qed

lemma addReferers_phi:
  assumes "phi_under g0 p (\<lambda>r. provided_by (referers_of g0) (stack_of g0) r i) bs g" and "linkable g0"
    and "\<And>r. r \<in> set rs \<Longrightarrow> r \<in> dom (domain_at g0)" and "\<And>r. r \<in> set rs \<Longrightarrow> searches below g0 i r"
  shows "\<exists>x g'. addReferers (refererValue below i) (Some p) rs res g = Inr (x, g') \<and>
    phi_under g0 p (\<lambda>r. provided_by (referers_of g0) (stack_of g0) r i) (bs @ rs) g'"
  using assms(1,3,4)
proof (induction rs arbitrary: bs g res)
  case Nil
  then show ?case by (simp add: ret_def)
next
  case (Cons r rs)
  then obtain g' where "addReferers (refererValue below i) (Some p) (r # rs) res g =
      addReferers (refererValue below i) (Some p) rs (Some p) g'"
    "phi_under g0 p (\<lambda>r. provided_by (referers_of g0) (stack_of g0) r i) (bs @ [r]) g'"
    using addReferers_phi_step [OF Cons.prems(1) assms(2), of r below rs res] by auto
  then show ?case using Cons.IH [of "bs @ [r]" g' "Some p"] Cons.prems(2,3) by simp
qed

lemma getRequestedNode_Suc:
  assumes "linkable g" and "d \<in> dom (domain_at g)"
  shows "getRequestedNode address (Suc fuel) d i g =
    (let rs = refererOrder address (referers_of g d);
         value = refererValue (getRequestedNode address fuel) i
     in if length rs = 1
        then bnd (addReferers value None rs None) (\<lambda>result. case result of None \<Rightarrow> raise AssertFailed | Some v \<Rightarrow> ret v) g
        else bnd (newPhi d) (\<lambda>phi. bnd (addReferers value (Some phi) rs (Some phi)) (\<lambda>_. optimizePhi phi)) g)"
proof -
  obtain domain b where "domain_at g d = Some domain" "m_basicBlock domain = d" "graph_block g d = Some b"
    "m_referers b = referers_of g d"
    using linkable_domain [OF assms] by metis
  then show ?thesis by (simp add: domainAt_exec basicBlockAt_exec bnd_def Let_def)
qed

lemma getRequestedNode_found:
  "supplied_in (referers_of g) (stack_of g) fuel d i \<Longrightarrow> linkable g \<Longrightarrow> d \<in> dom (domain_at g) \<Longrightarrow>
   found g {v. provides (referers_of g) (stack_of g) d i v} (getRequestedNode address fuel d i g)"
proof (induction fuel arbitrary: d i g)
  case 0
  then show ?case by simp
next
  case (Suc fuel)
  let ?rs = "refererOrder address (referers_of g d)"
  let ?W = "\<lambda>r. provided_by (referers_of g) (stack_of g) r i"
  have dom: "r \<in> dom (domain_at g)" if "r \<in> set ?rs" for r
    using linkable_domain [OF Suc.prems(2,3)] that by (metis set_refererOrder subsetD)
  have srch: "searches (getRequestedNode address fuel) g i r" if r: "r \<in> set ?rs" for r
    unfolding searches_def
  proof (intro allI impI)
    fix g1 assume ext: "graph_extends g g1" and len: "length (stack_of g r) \<le> i"
    have "supplied_in (referers_of g1) (stack_of g1) fuel r (i - length (stack_of g r))"
      using Suc.prems(1) r len by (auto simp: graph_extends_parts [OF ext])
    then show "found g1 {v. provides (referers_of g) (stack_of g) r (i - length (stack_of g r)) v}
        (getRequestedNode address fuel r (i - length (stack_of g r)) g1)"
      using Suc.IH graph_extends_linkable [OF ext Suc.prems(2)] dom [OF r]
      by (simp add: graph_extends_parts [OF ext, symmetric])
  qed
  have W: "{v. provides (referers_of g) (stack_of g) d i v} = (\<Union>r \<in> set ?rs. ?W r)"
    by (simp add: provides_referers)
  show ?case
  proof (cases "length ?rs = 1")
    case True
    then obtain r where r: "?rs = [r]" by (cases ?rs) auto
    then obtain n g' where "refererValue (getRequestedNode address fuel) i r g = Inr ((r, n), g')"
        "graph_extends g g'" "resolves (phi_nodes (node_at g)) (node_at g') n (?W r)"
      using refererValue_searches [OF Suc.prems(2) graph_extends_refl [OF Suc.prems(2)] dom srch] by auto
    then show ?thesis
      unfolding W getRequestedNode_Suc [OF Suc.prems(2,3)] r
      by (simp add: bnd_def addReferer_def ret_def found_def)
  next
    case False
    moreover have "?rs \<noteq> []" using Suc.prems(1) by (metis list.set(1) set_refererOrder supplied_in.simps(2))
    ultimately have two: "length ?rs > 1" by (cases ?rs) auto
    obtain g1 where g1: "newPhi d g = Inr (m_lastNodeIndex g, g1)" "phi_under g (m_lastNodeIndex g) ?W [] g1"
      using newPhi_under [OF Suc.prems(2)] by blast
    then obtain x g2 where "addReferers (refererValue (getRequestedNode address fuel) i) (Some (m_lastNodeIndex g))
          ?rs (Some (m_lastNodeIndex g)) g1 = Inr (x, g2)" "phi_under g (m_lastNodeIndex g) ?W ?rs g2"
      using addReferers_phi [OF g1(2) Suc.prems(2) dom srch] by fastforce
    then show ?thesis
      using optimizePhi_found [OF _ Suc.prems(2) two] g1(1) False
      unfolding W getRequestedNode_Suc [OF Suc.prems(2,3)] by (simp add: bnd_def)
  qed
qed

section \<open>The search returns only supplied values\<close>

text \<open>A search that returned, with what holds of a search whose value is supplied.\<close>

lemma searches_supplied:
  assumes "linkable g0" and "r \<in> dom (domain_at g0)"
    and "i < length (stack_of g0 r) \<or> supplied_in (referers_of g0) (stack_of g0) fuel r (i - length (stack_of g0 r))"
  shows "searches (getRequestedNode address fuel) g0 i r"
  unfolding searches_def
proof (intro allI impI)
  fix g assume ext: "graph_extends g0 g" and len: "length (stack_of g0 r) \<le> i"
  then have "supplied_in (referers_of g) (stack_of g) fuel r (i - length (stack_of g0 r))"
    using assms(3) by (simp add: graph_extends_parts [OF ext])
  then show "found g {v. provides (referers_of g0) (stack_of g0) r (i - length (stack_of g0 r)) v}
      (getRequestedNode address fuel r (i - length (stack_of g0 r)) g)"
    using getRequestedNode_found graph_extends_linkable [OF ext assms(1)] assms(2)
    by (simp add: graph_extends_parts [OF ext, symmetric])
qed

definition returns_supplied :: "(u16 \<Rightarrow> nat) \<Rightarrow> nat \<Rightarrow> bool" where
  "returns_supplied address fuel \<longleftrightarrow> (\<forall>d i g x. getRequestedNode address fuel d i g = Inr x \<longrightarrow>
     linkable g \<longrightarrow> d \<in> dom (domain_at g) \<longrightarrow> supplied_in (referers_of g) (stack_of g) fuel d i)"

text \<open>The referer's value was found in a later state, so it is supplied.\<close>

lemma refererValue_returned:
  assumes IH: "returns_supplied address fuel"
    and "refererValue (getRequestedNode address fuel) i r g = Inr x"
    and "linkable g0" and "graph_extends g0 g" and "r \<in> dom (domain_at g0)"
  shows "i < length (stack_of g0 r) \<or> supplied_in (referers_of g0) (stack_of g0) fuel r (i - length (stack_of g0 r))"
proof (cases "i < length (stack_of g0 r)")
  case False
  note parts = graph_extends_parts [OF assms(4)]
  have link: "linkable g" by (rule graph_extends_linkable [OF assms(4,3)])
  obtain domain where "domain_at g r = Some domain" "m_localStack domain = stack_of g0 r"
    using linkable_domain [OF link, of r] assms(5) parts by metis
  then obtain y where "getRequestedNode address fuel r (i - length (stack_of g0 r)) g = Inr y"
    using assms(2) False
    by (auto simp: refererValue_def getDomainFor_exec domainAt_exec bnd_def Let_def split: sum.splits)
  then have "supplied_in (referers_of g) (stack_of g) fuel r (i - length (stack_of g0 r))"
    using IH link assms(5) parts(4) unfolding returns_supplied_def by metis
  then show ?thesis by (simp add: parts)
qed simp

lemma addReferers_returned:
  assumes IH: "returns_supplied address fuel"
    and link: "linkable g0"
  shows "addReferers (refererValue (getRequestedNode address fuel) i) (Some p) rs res g = Inr x \<Longrightarrow>
    phi_under g0 p (\<lambda>r. provided_by (referers_of g0) (stack_of g0) r i) bs g \<Longrightarrow>
    set rs \<subseteq> dom (domain_at g0) \<Longrightarrow> r \<in> set rs \<Longrightarrow>
    i < length (stack_of g0 r) \<or> supplied_in (referers_of g0) (stack_of g0) fuel r (i - length (stack_of g0 r))"
proof (induction rs arbitrary: bs g res)
  case Nil
  then show ?case by simp
next
  case (Cons r' rs)
  obtain y where y: "refererValue (getRequestedNode address fuel) i r' g = Inr y"
    using Cons.prems(1) by (auto simp: bnd_def split: sum.splits)
  have first: "i < length (stack_of g0 r') \<or> supplied_in (referers_of g0) (stack_of g0) fuel r' (i - length (stack_of g0 r'))"
    using refererValue_returned [OF IH y link phi_under_extends [OF Cons.prems(2)]] Cons.prems(3) by simp
  have dom: "r' \<in> dom (domain_at g0)" using Cons.prems(3) by simp
  obtain g' where "addReferers (refererValue (getRequestedNode address fuel) i) (Some p) rs (Some p) g' = Inr x"
      "phi_under g0 p (\<lambda>r. provided_by (referers_of g0) (stack_of g0) r i) (bs @ [r']) g'"
    using addReferers_phi_step [OF Cons.prems(2) link dom searches_supplied [OF link dom first],
        where rs = rs and res = res and address1 = address] Cons.prems(1) by auto
  then show ?case using Cons.IH [of "Some p" g' "bs @ [r']"] Cons.prems(3,4) first by auto
qed

lemma getRequestedNode_returned:
  "getRequestedNode address fuel d i g = Inr x \<Longrightarrow> linkable g \<Longrightarrow> d \<in> dom (domain_at g) \<Longrightarrow>
   supplied_in (referers_of g) (stack_of g) fuel d i"
proof (induction fuel arbitrary: d i g x)
  case 0
  then show ?case by (simp add: raise_def)
next
  case (Suc fuel)
  have IH: "returns_supplied address fuel" unfolding returns_supplied_def using Suc.IH by blast
  let ?rs = "refererOrder address (referers_of g d)"
  have dom: "set ?rs \<subseteq> dom (domain_at g)"
    using linkable_domain [OF Suc.prems(2,3)] by (metis set_refererOrder)
  have "?rs \<noteq> [] \<and> (\<forall>r \<in> set ?rs. i < length (stack_of g r) \<or>
      supplied_in (referers_of g) (stack_of g) fuel r (i - length (stack_of g r)))"
  proof (cases "length ?rs = 1")
    case True
    then obtain r where r: "?rs = [r]" by (cases ?rs) auto
    then obtain y where "refererValue (getRequestedNode address fuel) i r g = Inr y"
      using Suc.prems(1) unfolding getRequestedNode_Suc [OF Suc.prems(2,3)] r
      by (auto simp: bnd_def split: sum.splits)
    then show ?thesis
      using refererValue_returned [OF IH _ Suc.prems(2) graph_extends_refl [OF Suc.prems(2)], where r = r and i = i] dom r by simp
  next
    case False
    obtain g1 where g1: "newPhi d g = Inr (m_lastNodeIndex g, g1)"
        "phi_under g (m_lastNodeIndex g) (\<lambda>r. provided_by (referers_of g) (stack_of g) r i) [] g1"
      using newPhi_under [OF Suc.prems(2)] by blast
    have run: "bnd (addReferers (refererValue (getRequestedNode address fuel) i) (Some (m_lastNodeIndex g)) ?rs
        (Some (m_lastNodeIndex g))) (\<lambda>_. optimizePhi (m_lastNodeIndex g)) g1 = Inr x"
      using Suc.prems(1) False g1(1) unfolding getRequestedNode_Suc [OF Suc.prems(2,3)] by (simp add: bnd_def)
    have "?rs \<noteq> []"
    proof
      assume "?rs = []"
      then show False using run g1(2) by (auto simp: phi_under_def optimizePhi_def nodeAt_exec bnd_def ret_def guard_def Let_def)
    qed
    moreover obtain z where "addReferers (refererValue (getRequestedNode address fuel) i) (Some (m_lastNodeIndex g)) ?rs
        (Some (m_lastNodeIndex g)) g1 = Inr z"
      using run by (auto simp: bnd_def split: sum.splits)
    ultimately show ?thesis
      using addReferers_returned [OF IH Suc.prems(2) _ g1(2) dom] by blast
  qed
  then show ?case by (metis list.set(1) set_refererOrder supplied_in.simps(2) set_empty)
qed

section \<open>Properties\<close>

text \<open>
  C31.  The search for a requested value returns exactly when every path back through the referers
  provides one within the bound, and then the node it returns stands, through its phi nodes, for exactly
  the values that some path provides; the graph gains nothing but phi nodes and consumers.  Redundant
  phi nodes, removed on the way, change nothing.
\<close>

theorem getRequestedNode_values:
  assumes "linkable g" and "d \<in> dom (domain_at g)"
  shows "case getRequestedNode address fuel d i g of
      Inl e \<Rightarrow> \<not> supplied_in (referers_of g) (stack_of g) fuel d i
    | Inr (n, g') \<Rightarrow> supplied_in (referers_of g) (stack_of g) fuel d i \<and> graph_extends g g' \<and>
        resolves {} (node_at g') n {v. provides (referers_of g) (stack_of g) d i v}"
proof (cases "getRequestedNode address fuel d i g")
  case (Inl e)
  then show ?thesis using getRequestedNode_found [OF _ assms, of fuel i address] by (auto simp: found_def)
next
  case (Inr x)
  then have "supplied_in (referers_of g) (stack_of g) fuel d i" using getRequestedNode_returned assms by blast
  then show ?thesis
    using getRequestedNode_found [OF _ assms, of fuel i address] resolves_less [of _ _ _ _ "{}"]
    by (auto simp: found_def Inr)
qed

text \<open>
  C32.  In a loop that leaves its stack alone the search for a value from below the loop never returns,
  whatever the bound: each block of the loop is searched through its referers, which lead back into it.
\<close>

theorem loop_request_diverges:
  assumes "linkable g" and "C \<subseteq> dom (domain_at g)" and "d \<in> C"
    and "\<And>c. c \<in> C \<Longrightarrow> \<exists>r \<in> referers_of g c. r \<in> C \<and> stack_of g r = []"
  shows "\<nexists>n g'. getRequestedNode address fuel d i g = Inr (n, g')"
proof -
  have "\<not> supplied_in (referers_of g) (stack_of g) fuel c i" if "c \<in> C" for c
    using that
  proof (induction fuel arbitrary: c)
    case (Suc fuel)
    then obtain r where "r \<in> referers_of g c" "r \<in> C" "stack_of g r = []" using assms(4) [of c] by blast
    then show ?case using Suc.IH [of r] by force
  qed simp
  then show ?thesis using getRequestedNode_returned [OF _ assms(1)] assms(2,3) by blast
qed

end
