(* ===== verification/SymbolicStack.thy ===== *)
theory SymbolicStack
  imports LinkCorrect
begin

text \<open>
  The graph constructor against a reference: running a block's instructions on a stack of symbolic values,
  with an unbounded supply of values below it.
\<close>

section \<open>The reference run\<close>

text \<open>
  \<open>stack_effect\<close>: which operand positions an instruction takes from the stack, the top first, whether it
  leaves its operand where it is, and whether it pushes a value.
\<close>

definition stack_effect :: "TSmalltalkInstruction \<Rightarrow> nat list \<times> bool \<times> bool" where
  "stack_effect i =
     (let arguments = unat (m_argument i) in
      case m_opcode i of
        op_pushInstance \<Rightarrow> ([], False, True) | op_pushArgument \<Rightarrow> ([], False, True)
      | op_pushTemporary \<Rightarrow> ([], False, True) | op_pushLiteral \<Rightarrow> ([], False, True)
      | op_pushConstant \<Rightarrow> ([], False, True) | op_pushBlock \<Rightarrow> ([], False, True)
      | op_assignTemporary \<Rightarrow> ([0], True, False) | op_assignInstance \<Rightarrow> ([0], True, False)
      | op_sendUnary \<Rightarrow> ([0], False, True) | op_sendMessage \<Rightarrow> ([0], False, True)
      | op_sendBinary \<Rightarrow> ([1, 0], False, True)
      | op_markArguments \<Rightarrow> (rev [0 ..< arguments], False, True)
      | op_doPrimitive \<Rightarrow>
          ((if m_extra i = 8 then 0 # rev [1 ..< arguments] else rev [0 ..< arguments]), False, True)
      | op_doSpecial \<Rightarrow>
          (case special_cast (m_argument i) of
             spc_stackReturn \<Rightarrow> ([0], False, False) | spc_blockReturn \<Rightarrow> ([0], False, False)
           | spc_popTop \<Rightarrow> ([0], False, False)
           | spc_branchIfTrue \<Rightarrow> ([0], False, False) | spc_branchIfFalse \<Rightarrow> ([0], False, False)
           | spc_sendToSuper \<Rightarrow> ([0], False, True) | spc_duplicate \<Rightarrow> ([0], True, True)
           | _ \<Rightarrow> ([], False, False))
      | _ \<Rightarrow> ([], False, False))"

text \<open>A value is that of an instruction of the block, or the n-th from the top of what lay below.\<close>

datatype operand = Local nat | Below nat

record symbolic =
  sym_stack :: "nat list"
  sym_below :: nat
  sym_operands :: "(nat \<times> nat \<times> operand) list"

definition sym_take :: "nat \<Rightarrow> bool \<Rightarrow> nat \<Rightarrow> symbolic \<Rightarrow> symbolic" where
  "sym_take node keep index s =
     (case sym_stack s of
        v # vs \<Rightarrow> s\<lparr>sym_stack := (if keep then v # vs else vs), sym_operands := sym_operands s @ [(node, index, Local v)]\<rparr>
      | [] \<Rightarrow> s\<lparr>sym_below := (if keep then sym_below s else sym_below s + 1),
                sym_operands := sym_operands s @ [(node, index, Below (sym_below s))]\<rparr>)"

definition sym_step :: "nat \<Rightarrow> TSmalltalkInstruction \<Rightarrow> symbolic \<Rightarrow> symbolic" where
  "sym_step node i s =
     (case stack_effect i of (indices, keep, pushes) \<Rightarrow>
        let s = fold (sym_take node keep) indices s
        in if pushes then s\<lparr>sym_stack := node # sym_stack s\<rparr> else s)"

primrec sym_run :: "nat \<Rightarrow> TSmalltalkInstruction list \<Rightarrow> symbolic \<Rightarrow> symbolic" where
  "sym_run node [] s = s"
| "sym_run node (i # is) s = sym_run (node + 1) is (sym_step node i s)"

text \<open>
  The instructions that leave their operand on the stack find it among the block's own values, the byte
  that counts the arguments of a block invocation is not zero, and only the last instruction ends the block.
\<close>

primrec sym_owned :: "nat \<Rightarrow> TSmalltalkInstruction list \<Rightarrow> symbolic \<Rightarrow> bool" where
  "sym_owned node [] s \<longleftrightarrow> True"
| "sym_owned node (i # is) s \<longleftrightarrow>
     (fst (snd (stack_effect i)) \<longrightarrow> sym_stack s \<noteq> []) \<and>
     (m_opcode i = op_doPrimitive \<and> m_extra i = 8 \<longrightarrow> m_argument i \<noteq> 0) \<and>
     (isTerminator i \<longrightarrow> is = []) \<and>
     sym_owned (node + 1) is (sym_step node i s)"

definition sym_start :: symbolic where
  "sym_start = \<lparr>sym_stack = [], sym_below = 0, sym_operands = []\<rparr>"

section \<open>Agreement\<close>

definition argument_of :: "ControlGraph \<Rightarrow> nat \<Rightarrow> nat \<Rightarrow> nat option" where
  "argument_of g n index =
     (case node_at g n of None \<Rightarrow> None
      | Some node \<Rightarrow> if index < length (m_arguments node) then m_arguments node ! index else None)"

text \<open>The operands taken from below, and the requests they are in the domain.\<close>

fun below_operand :: "nat \<times> nat \<times> operand \<Rightarrow> (TArgumentRequest \<times> nat) option" where
  "below_operand (n, index, Local v) = None"
| "below_operand (n, index, Below p) = Some (\<lparr>req_index = index, requestingNode = n\<rparr>, p)"

definition below_operands :: "(nat \<times> nat \<times> operand) list \<Rightarrow> (TArgumentRequest \<times> nat) list" where
  "below_operands ops = List.map_filter below_operand ops"

lemma below_operands_append [simp]: "below_operands (xs @ ys) = below_operands xs @ below_operands ys"
  by (simp add: below_operands_def List.map_filter_def)

lemma below_operands_simps [simp]:
  "below_operands [] = []"
  "below_operands ((n, index, Local v) # xs) = below_operands xs"
  "below_operands ((n, index, Below q) # xs) = (\<lparr>req_index = index, requestingNode = n\<rparr>, q) # below_operands xs"
  by (simp_all add: below_operands_def List.map_filter_simps)

text \<open>
  The graph \<open>g\<close> in the middle of block \<open>d\<close>, begun in \<open>g0\<close>, agrees with the reference state
  \<open>s\<close> after the instructions \<open>is\<close>.
\<close>

definition domain_agrees :: "u16 \<Rightarrow> symbolic \<Rightarrow> ControlDomain \<Rightarrow> bool" where
  "domain_agrees d s domain \<longleftrightarrow> m_basicBlock domain = d \<and> m_localStack domain = rev (sym_stack s) \<and>
     m_reqestedArguments domain = map fst (below_operands (sym_operands s)) \<and>
     map snd (below_operands (sym_operands s)) = [0 ..< sym_below s]"

definition nodes_agree :: "nat \<Rightarrow> TSmalltalkInstruction list \<Rightarrow> symbolic \<Rightarrow> ControlGraph \<Rightarrow> bool" where
  "nodes_agree first is s g \<longleftrightarrow> m_lastNodeIndex g = first + length is \<and>
     (\<forall>n. first \<le> n \<and> n < first + length is \<longrightarrow>
        (\<exists>node. node_at g n = Some node \<and> m_nodeType node = ntInstruction \<and> m_outEdges node = [] \<and>
           m_instruction node = is ! (n - first))) \<and>
     (\<forall>n. first + length is \<le> n \<longrightarrow> node_at g n = None) \<and>
     set (sym_stack s) \<subseteq> {first ..< first + length is} \<and>
     (\<forall>n index v. (n, index, Local v) \<in> set (sym_operands s) \<longrightarrow> argument_of g n index = Some v)"

definition built :: "ControlGraph \<Rightarrow> u16 \<Rightarrow> TSmalltalkInstruction list \<Rightarrow> symbolic \<Rightarrow> ControlGraph \<Rightarrow> bool" where
  "built g0 d is s g \<longleftrightarrow>
     m_parsedMethod g = m_parsedMethod g0 \<and> m_parsedBlock g = m_parsedBlock g0 \<and> m_domains g = m_domains g0 \<and>
     (\<forall>n < m_lastNodeIndex g0. node_at g n = node_at g0 n) \<and>
     domain_at g = (domain_at g0)(d \<mapsto> the (domain_at g d)) \<and> domain_agrees d s (the (domain_at g d)) \<and>
     nodes_agree (m_lastNodeIndex g0) is s g"

text \<open>What the operands do not touch of a domain: its nodes, its entry point and its terminator.\<close>

definition domain_shape :: "ControlDomain \<Rightarrow> nat list \<times> nat option \<times> nat option" where
  "domain_shape domain = (m_domainNodes domain, m_entryPoint domain, m_terminator domain)"

text \<open>A computation that leads from one agreement to the next.\<close>

definition advances :: "ControlGraph \<Rightarrow> u16 \<Rightarrow> TSmalltalkInstruction list \<Rightarrow>
    symbolic \<times> nat list \<times> nat option \<times> nat option \<Rightarrow> unit graph_comp \<Rightarrow>
    symbolic \<times> nat list \<times> nat option \<times> nat option \<Rightarrow> bool" where
  "advances g0 d is state c state' \<longleftrightarrow>
     (\<forall>g. built g0 d is (fst state) g \<longrightarrow> domain_shape (the (domain_at g d)) = snd state \<longrightarrow>
        (\<exists>g'. c g = Inr ((), g') \<and> built g0 d is (fst state') g' \<and> domain_shape (the (domain_at g' d)) = snd state'))"

lemma advances_ret: "advances g0 d is state (ret ()) state"
  by (simp add: advances_def ret_def)

lemma advances_bnd:
  "advances g0 d is state c state' \<Longrightarrow> advances g0 d is state' c' state'' \<Longrightarrow>
   advances g0 d is state (bnd c (\<lambda>_. c')) state''"
  unfolding advances_def bnd_def by fastforce

text \<open>Setting one argument keeps the others.\<close>

lemma setArgument_nth:
  "index < length (m_arguments (node_setArgument i v node)) \<Longrightarrow>
   m_arguments (node_setArgument i v node) ! index =
     (if index = i then Some v
      else if index < length (m_arguments node) then m_arguments node ! index else None)"
  by (auto simp: node_setArgument_def Let_def nth_append nth_list_update)

lemma setArgument_length:
  "length (m_arguments (node_setArgument i v node)) = max (length (m_arguments node)) (i + 1)"
  by (auto simp: node_setArgument_def Let_def)

lemma setArgument_other [simp]:
  "m_nodeType (node_setArgument i v node) = m_nodeType node"
  "m_outEdges (node_setArgument i v node) = m_outEdges node"
  "m_inEdges (node_setArgument i v node) = m_inEdges node"
  "m_instruction (node_setArgument i v node) = m_instruction node"
  "m_consumers (node_setArgument i v node) = m_consumers node"
  by (simp_all add: node_setArgument_def Let_def)

lemma argument_of_setArgument:
  assumes "node_at g n = Some node" and "node_at g' = (node_at g)(n \<mapsto> node_setArgument i v node)"
  shows "argument_of g' n i = Some v" and "(m, j) \<noteq> (n, i) \<Longrightarrow> argument_of g' m j = argument_of g m j"
  using assms by (auto simp: argument_of_def setArgument_nth setArgument_length)

lemma argument_of_consumers:
  assumes "node_at g n = Some node" and "node_at g' = (node_at g)(n \<mapsto> node\<lparr>m_consumers := cs\<rparr>)"
  shows "argument_of g' = argument_of g"
  using assms by (auto simp: argument_of_def fun_eq_iff)

section \<open>One operand\<close>

text \<open>A request answered from the domain's own stack, and one that is recorded.\<close>

lemma requestArgument_local:
  assumes "domain_at g d = Some domain" and "m_localStack domain = rev (v # vs)"
    and "node_at g n = Some node" and "node_at g v = Some vn" and "m_nodeType vn = ntInstruction" and "n \<noteq> v"
  shows "requestArgument d index n keep g = Inr ((), g\<lparr>
     domain_at := (domain_at g)(d \<mapsto> domain\<lparr>m_localStack := rev (if keep then v # vs else vs)\<rparr>),
     node_at := (node_at g)(n \<mapsto> node_setArgument index v node, v \<mapsto> vn\<lparr>m_consumers := set_add n (m_consumers vn)\<rparr>)\<rparr>)"
  using assms
  by (cases keep) (simp_all add: requestArgument_def topValue_def domainAt_exec changeDomain_def nodeAt_exec changeNode_exec
      addConsumer_def bnd_def ret_def guard_def modify_def fun_upd_idem)

lemma requestArgument_below:
  assumes "domain_at g d = Some domain" and "m_localStack domain = []"
  shows "requestArgument d index n keep g = Inr ((), g\<lparr>domain_at := (domain_at g)(d \<mapsto>
     domain\<lparr>m_reqestedArguments := m_reqestedArguments domain @ [\<lparr>req_index = index, requestingNode = n\<rparr>]\<rparr>)\<rparr>)"
  using assms by (simp add: requestArgument_def domainAt_exec changeDomain_def bnd_def modify_def)

text \<open>The operands of a node are requested once each, before its value is pushed.\<close>

definition unasked :: "nat \<Rightarrow> nat list \<Rightarrow> symbolic \<Rightarrow> bool" where
  "unasked n indices s \<longleftrightarrow> distinct indices \<and> n \<notin> set (sym_stack s) \<and>
     (\<forall>index \<in> set indices. \<forall>v. (n, index, v) \<notin> set (sym_operands s))"

lemma unasked_take: "unasked n (index # indices) s \<Longrightarrow> unasked n indices (sym_take n keep index s)"
  by (auto simp: unasked_def sym_take_def split: list.splits)

lemma nodes_agree_take:
  assumes agree: "nodes_agree first is s g" and n: "first \<le> n" "n < first + length is"
    and stack: "sym_stack s = v # vs" and ask: "unasked n [index] s"
    and node: "node_at g n = Some node" and vn: "node_at g v = Some vn"
    and g': "m_lastNodeIndex g' = m_lastNodeIndex g"
      "node_at g' = (node_at g)(n \<mapsto> node_setArgument index v node, v \<mapsto> vn\<lparr>m_consumers := cs\<rparr>)"
  shows "nodes_agree first is (sym_take n keep index s) g'"
proof -
  have neq: "n \<noteq> v" using ask stack by (auto simp: unasked_def)
  define h where "h = g\<lparr>node_at := (node_at g)(n \<mapsto> node_setArgument index v node)\<rparr>"
  have h: "node_at h = (node_at g)(n \<mapsto> node_setArgument index v node)" "node_at h v = Some vn"
    using vn neq by (simp_all add: h_def)
  have args: "argument_of g' = argument_of h"
    using argument_of_consumers [OF h(2), of g' cs] g'(2) h(1) by simp
  have "argument_of g' m j = Some w" if "(m, j, Local w) \<in> set (sym_operands s)" for m j w
  proof -
    have "(m, j) \<noteq> (n, index)" using that ask by (auto simp: unasked_def)
    then show ?thesis
      using argument_of_setArgument(2) [OF node h(1)] that agree unfolding args nodes_agree_def by metis
  qed
  moreover have "argument_of g' n index = Some v" using argument_of_setArgument(1) [OF node h(1)] args by simp
  moreover have "\<exists>nd. node_at g' m = Some nd \<and> m_nodeType nd = ntInstruction \<and> m_outEdges nd = [] \<and>
      m_instruction nd = is ! (m - first)" if m: "first \<le> m \<and> m < first + length is" for m
  proof -
    obtain nd where nd: "node_at g m = Some nd" "m_nodeType nd = ntInstruction" "m_outEdges nd = []"
        "m_instruction nd = is ! (m - first)"
      using agree m unfolding nodes_agree_def by blast
    then show ?thesis using node vn neq g'(2) by auto
  qed
  moreover have "node_at g' m = None" if m: "first + length is \<le> m" for m
  proof -
    have "m \<noteq> n" "m \<noteq> v" using m n(2) agree stack by (auto simp: nodes_agree_def)
    then show ?thesis using agree m g'(2) by (simp add: nodes_agree_def)
  qed
  ultimately show ?thesis
    using agree g'(1) stack by (auto simp: nodes_agree_def sym_take_def)
qed

lemma nodes_agree_below:
  assumes "nodes_agree first is s g" and "sym_stack s = []"
    and "m_lastNodeIndex g' = m_lastNodeIndex g" and "node_at g' = node_at g"
  shows "nodes_agree first is (sym_take n keep index s) g'"
  using assms by (auto simp: nodes_agree_def sym_take_def argument_of_def)

lemma built_last: "built g0 d is s g \<Longrightarrow> m_lastNodeIndex g = m_lastNodeIndex g0 + length is"
  by (simp add: built_def nodes_agree_def)

lemma built_node:
  assumes "built g0 d is s g" and "m_lastNodeIndex g0 \<le> n" and "n < m_lastNodeIndex g0 + length is"
  shows "\<exists>node. node_at g n = Some node \<and> m_nodeType node = ntInstruction \<and> m_outEdges node = [] \<and>
    m_instruction node = is ! (n - m_lastNodeIndex g0)"
  using assms unfolding built_def nodes_agree_def by blast

lemma advances_request:
  assumes n: "m_lastNodeIndex g0 \<le> n" "n < m_lastNodeIndex g0 + length is"
    and ask: "unasked n [index] s" and owned: "keep \<Longrightarrow> sym_stack s \<noteq> []"
  shows "advances g0 d is (s, sh) (requestArgument d index n keep) (sym_take n keep index s, sh)"
  unfolding advances_def fst_conv snd_conv
proof (intro allI impI)
  fix g assume built: "built g0 d is s g" and sh: "domain_shape (the (domain_at g d)) = sh"
  define domain where "domain = the (domain_at g d)"
  then have d: "domain_at g = (domain_at g0)(d \<mapsto> domain)" "domain_agrees d s domain"
    using built unfolding built_def by simp_all
  then have at: "domain_at g d = Some domain" by simp
  have agree: "nodes_agree (m_lastNodeIndex g0) is s g" using built by (simp add: built_def)
  obtain node where node: "node_at g n = Some node" using agree n unfolding nodes_agree_def by blast
  show "\<exists>g'. requestArgument d index n keep g = Inr ((), g') \<and> built g0 d is (sym_take n keep index s) g' \<and>
      domain_shape (the (domain_at g' d)) = sh"
  proof (cases "sym_stack s")
    case Nil
    then have "m_localStack domain = []" using d(2) by (simp add: domain_agrees_def)
    note run = requestArgument_below [OF at this, of index n keep]
    have "nodes_agree (m_lastNodeIndex g0) is (sym_take n keep index s) g'"
      if "m_lastNodeIndex g' = m_lastNodeIndex g" "node_at g' = node_at g" for g'
      by (rule nodes_agree_below [OF agree Nil that])
    moreover have "domain_agrees d (sym_take n keep index s)
        (domain\<lparr>m_reqestedArguments := m_reqestedArguments domain @ [\<lparr>req_index = index, requestingNode = n\<rparr>]\<rparr>)"
      using d(2) Nil owned by (auto simp: domain_agrees_def sym_take_def)
    ultimately show ?thesis using built sh d(1) unfolding run built_def by (simp add: domain_shape_def)
  next
    case (Cons v vs)
    then have local: "m_localStack domain = rev (v # vs)" using d(2) by (simp add: domain_agrees_def)
    have v: "m_lastNodeIndex g0 \<le> v" "v < m_lastNodeIndex g0 + length is" "n \<noteq> v"
      using agree Cons ask by (auto simp: nodes_agree_def unasked_def)
    obtain vn where vn: "node_at g v = Some vn" "m_nodeType vn = ntInstruction"
      using agree v unfolding nodes_agree_def by blast
    note run = requestArgument_local [OF at local node vn v(3), of index keep]
    have "nodes_agree (m_lastNodeIndex g0) is (sym_take n keep index s) g'"
      if "m_lastNodeIndex g' = m_lastNodeIndex g" "node_at g' = (node_at g)(n \<mapsto> node_setArgument index v node,
        v \<mapsto> vn\<lparr>m_consumers := set_add n (m_consumers vn)\<rparr>)" for g'
      by (rule nodes_agree_take [OF agree n Cons ask node vn(1) that])
    moreover have "domain_agrees d (sym_take n keep index s) (domain\<lparr>m_localStack := rev (if keep then v # vs else vs)\<rparr>)"
      using d(2) Cons by (auto simp: domain_agrees_def sym_take_def)
    moreover have "\<not> n < m_lastNodeIndex g0" "\<not> v < m_lastNodeIndex g0" using n(1) v(1) by simp_all
    ultimately show ?thesis using built sh d(1) unfolding run built_def by (auto simp: domain_shape_def)
  qed
qed

lemma advances_requests:
  assumes n: "m_lastNodeIndex g0 \<le> n" "n < m_lastNodeIndex g0 + length is"
  shows "unasked n indices s \<Longrightarrow>
    advances g0 d is (s, sh) (requestArguments d n indices) (fold (sym_take n False) indices s, sh)"
  unfolding requestArguments_def
proof (induction indices arbitrary: s)
  case Nil
  then show ?case by (simp add: advances_ret)
next
  case (Cons index indices)
  have "unasked n [index] s" using Cons.prems by (auto simp: unasked_def)
  from advances_bnd [OF advances_request [OF n this] Cons.IH [OF unasked_take [OF Cons.prems]]]
  show ?case by simp
qed

lemma advances_push:
  assumes n: "m_lastNodeIndex g0 \<le> n" "n < m_lastNodeIndex g0 + length is"
  shows "advances g0 d is (s, sh) (pushValue d n) (s\<lparr>sym_stack := n # sym_stack s\<rparr>, sh)"
  unfolding advances_def fst_conv snd_conv
proof (intro allI impI)
  fix g assume built: "built g0 d is s g" and sh: "domain_shape (the (domain_at g d)) = sh"
  define domain where "domain = the (domain_at g d)"
  then have d: "domain_at g = (domain_at g0)(d \<mapsto> domain)" "domain_agrees d s domain"
    using built unfolding built_def by simp_all
  let ?domain = "domain\<lparr>m_localStack := m_localStack domain @ [n]\<rparr>"
  let ?g' = "g\<lparr>domain_at := (domain_at g)(d \<mapsto> ?domain)\<rparr>"
  have "pushValue d n g = Inr ((), ?g')"
    using d(1) by (simp add: pushValue_def changeDomain_def domainAt_def bnd_def gets_def ret_def modify_def)
  moreover have "domain_agrees d (s\<lparr>sym_stack := n # sym_stack s\<rparr>) ?domain"
    using d(2) by (simp add: domain_agrees_def)
  moreover have "nodes_agree (m_lastNodeIndex g0) is (s\<lparr>sym_stack := n # sym_stack s\<rparr>) ?g'"
    using built n by (auto simp: built_def nodes_agree_def argument_of_def)
  ultimately show "\<exists>g'. pushValue d n g = Inr ((), g') \<and> built g0 d is (s\<lparr>sym_stack := n # sym_stack s\<rparr>) g' \<and>
      domain_shape (the (domain_at g' d)) = sh"
    using built sh d(1) unfolding built_def by (auto simp: domain_shape_def)
qed

lemma changeDomain_built:
  assumes built: "built g0 d is s g" and keep: "\<And>domain. domain_agrees d s domain \<Longrightarrow> domain_agrees d s (f domain)"
  shows "\<exists>g'. changeDomain d f g = Inr ((), g') \<and> built g0 d is s g' \<and> the (domain_at g' d) = f (the (domain_at g d))"
proof -
  define domain where "domain = the (domain_at g d)"
  then have d: "domain_at g = (domain_at g0)(d \<mapsto> domain)" "domain_agrees d s domain"
    using built unfolding built_def by simp_all
  let ?g' = "g\<lparr>domain_at := (domain_at g)(d \<mapsto> f domain)\<rparr>"
  have "changeDomain d f g = Inr ((), ?g')"
    using d(1) by (simp add: changeDomain_def domainAt_def bnd_def gets_def ret_def modify_def)
  moreover have "nodes_agree (m_lastNodeIndex g0) is s ?g'"
    using built by (simp add: built_def nodes_agree_def argument_of_def)
  ultimately show ?thesis using built d keep unfolding built_def by auto
qed

lemma advances_terminate:
  "advances g0 d is (s, ns, entry, None) (terminate d n) (s, ns, entry, Some n)"
  unfolding advances_def fst_conv snd_conv
proof (intro allI impI)
  fix g assume built: "built g0 d is s g" and sh: "domain_shape (the (domain_at g d)) = (ns, entry, None)"
  have d: "domain_at g d = Some (the (domain_at g d))" using built unfolding built_def by (metis fun_upd_same)
  obtain g' where "changeDomain d (\<lambda>domain. domain\<lparr>m_terminator := Some n\<rparr>) g = Inr ((), g')" "built g0 d is s g'"
      "the (domain_at g' d) = (the (domain_at g d))\<lparr>m_terminator := Some n\<rparr>"
    using changeDomain_built [OF built, of "\<lambda>domain. domain\<lparr>m_terminator := Some n\<rparr>"] by (auto simp: domain_agrees_def)
  then show "\<exists>g'. terminate d n g = Inr ((), g') \<and> built g0 d is s g' \<and>
      domain_shape (the (domain_at g' d)) = (ns, entry, Some n)"
    using sh by (auto simp: terminate_def domainAt_exec [OF d] bnd_def guard_def domain_shape_def)
qed

lemma advances_pushBlock:
  assumes n: "m_lastNodeIndex g0 \<le> n" "n < m_lastNodeIndex g0 + length is"
    and i: "is ! (n - m_lastNodeIndex g0) = i" "m_opcode i = op_pushBlock"
  shows "advances g0 d is (s, sh) (processOpcode d n i) (s\<lparr>sym_stack := n # sym_stack s\<rparr>, sh)"
  unfolding advances_def fst_conv snd_conv
proof (intro allI impI)
  fix g assume built: "built g0 d is s g" and sh: "domain_shape (the (domain_at g d)) = sh"
  then obtain node where node: "node_at g n = Some node" "m_nodeType node = ntInstruction" "m_outEdges node = []"
      "m_instruction node = i"
    using n i(1) unfolding built_def nodes_agree_def by blast
  define g' where "g' = g\<lparr>node_at := (node_at g)(n \<mapsto>
    node\<lparr>m_parsedBlockOf := getParsedBlockByEndOffset (m_extra i) (m_parsedMethod g)\<rparr>)\<rparr>"
  have "argument_of g' = argument_of g" using node(1) by (auto simp: argument_of_def fun_eq_iff g'_def)
  then have "built g0 d is s g'"
    using built node n by (auto simp: built_def nodes_agree_def g'_def)
  then obtain g'' where "pushValue d n g' = Inr ((), g'')" "built g0 d is (s\<lparr>sym_stack := n # sym_stack s\<rparr>) g''"
      "domain_shape (the (domain_at g'' d)) = sh"
    using advances_push [OF n, of d s sh] sh by (auto simp: advances_def g'_def)
  then show "\<exists>g'. processOpcode d n i g = Inr ((), g') \<and> built g0 d is (s\<lparr>sym_stack := n # sym_stack s\<rparr>) g' \<and>
      domain_shape (the (domain_at g' d)) = sh"
    using node i(2) by (simp add: processOpcode_def castPushBlock_def nodeAt_exec changeNode_exec bnd_def ret_def
        gets_def guard_def g'_def)
qed

section \<open>One instruction\<close>

lemma special_cases:
  "m_opcode i = op_doSpecial \<Longrightarrow> isTerminator i \<longleftrightarrow> special_cast (m_argument i) \<in>
     {spc_selfReturn, spc_stackReturn, spc_blockReturn, spc_branch, spc_branchIfTrue, spc_branchIfFalse}"
  by (auto simp: isTerminator_def isBranch_def split: TSpecial.splits)

lemma rev_upt_arguments: "unat (m :: u8) \<noteq> 0 \<Longrightarrow> Suc (unat (ucast m - 1 :: u32)) = unat m"
proof -
  assume "unat m \<noteq> 0"
  moreover have "unat m < 2 ^ 8" using unsigned_less [of m] by simp
  then have "unat (ucast m :: u32) = unat m" by (simp add: unsigned_ucast_eq take_bit_nat_eq_self)
  moreover from this calculation have "(1::u32) \<le> ucast m" by (simp add: word_le_nat_alt)
  ultimately show ?thesis by (simp add: unat_sub)
qed

lemma advances_processOpcode:
  assumes n: "m_lastNodeIndex g0 \<le> n" "n < m_lastNodeIndex g0 + length is"
    and i: "is ! (n - m_lastNodeIndex g0) = i" and new: "\<And>index. unasked n [index] s"
    and owned: "fst (snd (stack_effect i)) \<longrightarrow> sym_stack s \<noteq> []"
    and counted: "m_opcode i = op_doPrimitive \<and> m_extra i = 8 \<longrightarrow> m_argument i \<noteq> 0"
    and open_block: "isTerminator i \<Longrightarrow> t = None"
  shows "advances g0 d is (s, ns, entry, t) (processOpcode d n i)
    (sym_step n i s, ns, entry, if isTerminator i then Some n else t)"
proof -
  have ask: "unasked n indices s" if "distinct indices" for indices
    using new that unfolding unasked_def by auto
  note step = sym_step_def stack_effect_def Let_def
  note request = advances_request [OF n ask] and requests = advances_requests [OF n ask] and push = advances_push [OF n]
  show ?thesis
  proof (cases "m_opcode i")
    case op_pushBlock
    then show ?thesis using advances_pushBlock [OF n i op_pushBlock] by (simp add: step isTerminator_def)
  next
    case op_sendBinary
    then show ?thesis
      using advances_bnd [OF requests [of "[1, 0]"] push, of d "(ns, entry, t)"]
      by (simp add: processOpcode_def step isTerminator_def)
  next
    case op_doSpecial
    then show ?thesis
      using owned open_block
      by (cases "special_cast (m_argument i)")
        (auto simp: processOpcode_def processSpecials_def step special_cases
          intro!: advances_ret request advances_terminate advances_bnd [OF request push] advances_bnd [OF request advances_terminate])
  next
    case op_doPrimitive
    show ?thesis
    proof (cases "m_extra i = 8")
      case True
      then have count: "Suc (unat (ucast (m_argument i) - 1 :: u32)) = unat (m_argument i)"
        using counted op_doPrimitive by (intro rev_upt_arguments) (auto simp: unat_eq_zero)
      let ?sh = "(ns, entry, t)" and ?rest = "rev [1 ..< unat (m_argument i)]"
      have "unasked n (0 # ?rest) s" by (intro ask) simp
      then have rest: "advances g0 d is (sym_take n False 0 s, ?sh) (requestArguments d n ?rest)
          (fold (sym_take n False) ?rest (sym_take n False 0 s), ?sh)"
        by (intro advances_requests [OF n] unasked_take)
      have "advances g0 d is (s, ?sh) (requestArgument d 0 n False) (sym_take n False 0 s, ?sh)"
        by (intro advances_request [OF n ask]) simp_all
      from advances_bnd [OF advances_bnd [OF this rest] push]
      show ?thesis using True op_doPrimitive count
        by (simp add: processOpcode_def processPrimitives_def step isTerminator_def)
    next
      case False
      then show ?thesis
        using op_doPrimitive advances_bnd [OF requests [of "rev [0 ..< unat (m_argument i)]"] push, of d "(ns, entry, t)"]
        by (simp add: processOpcode_def processPrimitives_def step isTerminator_def)
    qed
  qed (use owned in \<open>auto simp: processOpcode_def step isTerminator_def
      intro!: advances_ret push advances_bnd [OF request push] advances_bnd [OF requests push] request\<close>)
qed

lemma constructInstruction_built:
  assumes built: "built g0 d is s g" and sh: "domain_shape (the (domain_at g d)) = (ns, entry, t)"
    and n: "n = m_lastNodeIndex g0 + length is" and new: "\<And>index. unasked n [index] s"
    and owned: "fst (snd (stack_effect i)) \<longrightarrow> sym_stack s \<noteq> []"
    and counted: "m_opcode i = op_doPrimitive \<and> m_extra i = 8 \<longrightarrow> m_argument i \<noteq> 0"
    and open_block: "isTerminator i \<Longrightarrow> t = None"
  shows "\<exists>g'. constructInstruction d i g = Inr ((), g') \<and> built g0 d (is @ [i]) (sym_step n i s) g' \<and>
    domain_shape (the (domain_at g' d)) =
      (set_add n ns, if entry = None then Some n else entry, if isTerminator i then Some n else t)"
proof -
  have last: "m_lastNodeIndex g = n" using built_last [OF built] n by simp
  define g1 where "g1 = g\<lparr>m_lastNodeIndex := n + 1, m_nodes := m_nodes g @ [n],
    node_at := (node_at g)(n \<mapsto> (ControlNode_new ntInstruction)\<lparr>m_instruction := i, m_domain := Some d\<rparr>)\<rparr>"
  have run1: "constructInstruction d i g =
      bnd (changeDomain d (\<lambda>domain. domain\<lparr>m_domainNodes := set_add n (m_domainNodes domain)\<rparr>)) (\<lambda>_. constructNode d n) g1"
    using last by (simp add: constructInstruction_def newNode_def changeNode_def nodeAt_def comp_simps Let_def g1_def)
  have fresh: "node_at g n = None" using built n by (simp add: built_def nodes_agree_def)
  have args: "argument_of g1 m j = argument_of g m j" if "m \<noteq> n" for m j
    using that by (simp add: argument_of_def g1_def)
  have "argument_of g1 m j = Some v" if "(m, j, Local v) \<in> set (sym_operands s)" for m j v
  proof -
    have "m \<noteq> n" using new [of j] that by (auto simp: unasked_def)
    then show ?thesis using args that built unfolding built_def nodes_agree_def by metis
  qed
  then have "nodes_agree (m_lastNodeIndex g0) (is @ [i]) s g1"
    using built n fresh unfolding built_def nodes_agree_def
    by (auto simp: g1_def nth_append ControlNode_new_def less_Suc_eq)
  then have built1: "built g0 d (is @ [i]) s g1" using built n by (auto simp: built_def g1_def)
  obtain g2 where g2: "changeDomain d (\<lambda>domain. domain\<lparr>m_domainNodes := set_add n (m_domainNodes domain)\<rparr>) g1 = Inr ((), g2)"
      "built g0 d (is @ [i]) s g2"
      "the (domain_at g2 d) = (the (domain_at g1 d))\<lparr>m_domainNodes := set_add n (m_domainNodes (the (domain_at g1 d)))\<rparr>"
    using changeDomain_built [OF built1, of "\<lambda>domain. domain\<lparr>m_domainNodes := set_add n (m_domainNodes domain)\<rparr>"]
    by (auto simp: domain_agrees_def)
  let ?enter = "\<lambda>domain. if m_entryPoint domain = None then domain\<lparr>m_entryPoint := Some n\<rparr> else domain"
  have agrees_enter: "domain_agrees d s domain \<Longrightarrow> domain_agrees d s (?enter domain)" for domain
    by (simp add: domain_agrees_def)
  obtain g3 where g3: "changeDomain d ?enter g2 = Inr ((), g3)" "built g0 d (is @ [i]) s g3"
      "the (domain_at g3 d) = ?enter (the (domain_at g2 d))"
    using changeDomain_built [OF g2(2), of ?enter] agrees_enter by blast
  have sh3: "domain_shape (the (domain_at g3 d)) = (set_add n ns, if entry = None then Some n else entry, t)"
    using sh g2(3) g3(3) by (auto simp: domain_shape_def g1_def)
  obtain node where node: "node_at g2 n = Some node" "m_instruction node = i"
    using built_node [OF g2(2), of n] n by (auto simp: nth_append)
  have "advances g0 d (is @ [i]) (s, set_add n ns, if entry = None then Some n else entry, t) (processOpcode d n i)
      (sym_step n i s, set_add n ns, if entry = None then Some n else entry, if isTerminator i then Some n else t)"
    using n by (intro advances_processOpcode new owned counted open_block) (auto simp: nth_append)
  then obtain g4 where "processOpcode d n i g3 = Inr ((), g4)" "built g0 d (is @ [i]) (sym_step n i s) g4"
      "domain_shape (the (domain_at g4 d)) =
        (set_add n ns, if entry = None then Some n else entry, if isTerminator i then Some n else t)"
    using g3(2) sh3 unfolding advances_def fst_conv snd_conv by blast
  then show ?thesis
    unfolding run1 constructNode_def using g2(1) g3(1) node by (simp add: bnd_def nodeAt_exec)
qed

section \<open>A block\<close>

text \<open>The reference never mentions a node to come.\<close>

definition sym_bounded :: "nat \<Rightarrow> symbolic \<Rightarrow> bool" where
  "sym_bounded n s \<longleftrightarrow> set (sym_stack s) \<subseteq> {..< n} \<and> (\<forall>(m, _, _) \<in> set (sym_operands s). m < n)"

lemma sym_bounded_unasked: "sym_bounded n s \<Longrightarrow> unasked n [index] s"
  by (auto simp: sym_bounded_def unasked_def)

lemma sym_take_bounded: "sym_bounded n s \<Longrightarrow> m < n \<Longrightarrow> sym_bounded n (sym_take m keep index s)"
  by (auto simp: sym_bounded_def sym_take_def split: list.splits)

lemma sym_takes_bounded: "sym_bounded n s \<Longrightarrow> m < n \<Longrightarrow> sym_bounded n (fold (sym_take m keep) indices s)"
  by (induction indices arbitrary: s) (auto simp: sym_take_bounded)

lemma sym_step_bounded: "sym_bounded n s \<Longrightarrow> sym_bounded (n + 1) (sym_step n i s)"
proof -
  assume "sym_bounded n s"
  then have "sym_bounded (n + 1) s" by (auto simp: sym_bounded_def less_SucI)
  then show ?thesis
    using sym_takes_bounded [of "n + 1" s n]
    by (auto simp: sym_step_def Let_def split: prod.splits simp: sym_bounded_def)
qed

lemma forEach_map: "forEach f (map g xs) = forEach (\<lambda>x. f (g x)) xs"
  by (induction xs) simp_all

definition block_shape :: "nat \<Rightarrow> TSmalltalkInstruction list \<Rightarrow> nat list \<times> nat option \<times> nat option \<Rightarrow>
    nat list \<times> nat option \<times> nat option" where
  "block_shape n is sh =
     (case sh of (ns, entry, t) \<Rightarrow>
       (fold set_add [n ..< n + length is] ns,
        if entry = None \<and> is \<noteq> [] then Some n else entry,
        if is \<noteq> [] \<and> isTerminator (last is) then Some (n + length is - 1) else t))"

lemma fold_set_add_Cons:
  "xs \<noteq> [] \<Longrightarrow> fold set_add [n ..< n + length xs] ns = fold set_add [Suc n ..< n + length xs] (set_add n ns)"
  by (simp add: upt_conv_Cons del: upt_Suc)

lemma constructInstructions_built:
  "built g0 d done s g \<Longrightarrow> domain_shape (the (domain_at g d)) = sh \<Longrightarrow> n = m_lastNodeIndex g0 + length done \<Longrightarrow>
   sym_bounded n s \<Longrightarrow> sym_owned n is s \<Longrightarrow> snd (snd sh) = None \<Longrightarrow>
   \<exists>g'. forEach (constructInstruction d) is g = Inr ((), g') \<and> built g0 d (done @ is) (sym_run n is s) g' \<and>
     domain_shape (the (domain_at g' d)) = block_shape n is sh"
proof (induction "is" arbitrary: "done" s g sh n)
  case Nil
  then show ?case by (auto simp: ret_def block_shape_def split: prod.split)
next
  case (Cons i "is")
  obtain ns entry t where sh: "sh = (ns, entry, t)" by (cases sh)
  obtain g1 where g1: "constructInstruction d i g = Inr ((), g1)" "built g0 d (done @ [i]) (sym_step n i s) g1"
      "domain_shape (the (domain_at g1 d)) =
        (set_add n ns, if entry = None then Some n else entry, if isTerminator i then Some n else t)"
    using constructInstruction_built [OF Cons.prems(1) _ Cons.prems(3) sym_bounded_unasked [OF Cons.prems(4)], of ns entry t i]
      Cons.prems(2,5,6) sh by auto
  show ?case
  proof (cases "is")
    case Nil
    then show ?thesis using g1 by (simp add: bnd_def ret_def block_shape_def sh)
  next
    case (Cons i' is')
    then have "\<not> isTerminator i" using Cons.prems(5) by auto
    with g1(3) have sh1: "domain_shape (the (domain_at g1 d)) =
        (set_add n ns, if entry = None then Some n else entry, None)"
      using Cons.prems(6) sh by simp
    obtain g' where "forEach (constructInstruction d) is g1 = Inr ((), g')"
        "built g0 d ((done @ [i]) @ is) (sym_run (n + 1) is (sym_step n i s)) g'"
        "domain_shape (the (domain_at g' d)) =
          block_shape (n + 1) is (set_add n ns, if entry = None then Some n else entry, None)"
      using Cons.IH [OF g1(2) sh1, of "n + 1"] Cons.prems(3,5) sym_step_bounded [OF Cons.prems(4), of i] by auto
    moreover have "block_shape (n + 1) is (set_add n ns, if entry = None then Some n else entry, None) =
        block_shape n (i # is) sh"
      using Cons Cons.prems(6) sh fold_set_add_Cons [of "i # is" n ns] by (simp add: block_shape_def del: upt_Suc)
    ultimately show ?thesis using g1(1) by (simp add: bnd_def)
  qed
qed

lemma graph_block_cong:
  "m_parsedMethod g' = m_parsedMethod g \<Longrightarrow> m_parsedBlock g' = m_parsedBlock g \<Longrightarrow> graph_block g' = graph_block g"
proof -
  assume "m_parsedMethod g' = m_parsedMethod g" "m_parsedBlock g' = m_parsedBlock g"
  then have "getParsedBytecode g' = getParsedBytecode g" unfolding getParsedBytecode_def by (simp split: option.split)
  then show ?thesis unfolding graph_block_def by simp
qed

lemma agrees_length: "domain_agrees d s domain \<Longrightarrow> length (below_operands (sym_operands s)) = sym_below s"
  unfolding domain_agrees_def by (metis length_map length_upt diff_zero)

lemma built_start:
  assumes block: "graph_block g d = Some b" and new: "domain_at g d = None"
    and fresh: "\<And>n. m_lastNodeIndex g \<le> n \<Longrightarrow> node_at g n = None"
  shows "\<exists>g1. constructBlock d g = forEach (constructInstruction d) (map unpackInstruction (m_instructions b)) g1 \<and>
    built (g\<lparr>m_domains := set_add d (m_domains g)\<rparr>) d [] sym_start g1 \<and>
    domain_shape (the (domain_at g1 d)) = ([], None, None)"
proof -
  define g1 where "g1 = g\<lparr>m_domains := set_add d (m_domains g), domain_at := (domain_at g)(d \<mapsto> ControlDomain_new d)\<rparr>"
  have block1: "graph_block g1 d = Some b" using block using graph_block_cong [of g1 g] by (simp add: g1_def)
  have "changeDomain d (\<lambda>domain. domain\<lparr>m_basicBlock := d\<rparr>) g1 = Inr ((), g1)"
    by (simp add: changeDomain_def domainAt_def comp_simps g1_def ControlDomain_new_def)
  then have "constructBlock d g = forEach (constructInstruction d) (map unpackInstruction (m_instructions b)) g1"
    using new basicBlockAt_exec [OF block] basicBlockAt_exec [OF block1]
    by (simp add: constructBlock_def getDomainFor_def newDomain_def bnd_def gets_def ret_def modify_def
        g1_def [symmetric] forEach_map)
  moreover have "built (g\<lparr>m_domains := set_add d (m_domains g)\<rparr>) d [] sym_start g1"
    using fresh by (simp add: built_def nodes_agree_def domain_agrees_def g1_def ControlDomain_new_def sym_start_def)
  moreover have "domain_shape (the (domain_at g1 d)) = ([], None, None)"
    by (simp add: domain_shape_def g1_def ControlDomain_new_def)
  ultimately show ?thesis by blast
qed

lemma constructBlock_built:
  assumes "graph_block g d = Some b" and "domain_at g d = None"
    and "\<And>n. m_lastNodeIndex g \<le> n \<Longrightarrow> node_at g n = None"
    and "is = map unpackInstruction (m_instructions b)" and "sym_owned (m_lastNodeIndex g) is sym_start"
  shows "\<exists>g'. constructBlock d g = Inr ((), g') \<and>
    built (g\<lparr>m_domains := set_add d (m_domains g)\<rparr>) d is (sym_run (m_lastNodeIndex g) is sym_start) g' \<and>
    domain_shape (the (domain_at g' d)) = block_shape (m_lastNodeIndex g) is ([], None, None)"
proof -
  obtain g1 where g1: "constructBlock d g = forEach (constructInstruction d) is g1"
      "built (g\<lparr>m_domains := set_add d (m_domains g)\<rparr>) d [] sym_start g1"
      "domain_shape (the (domain_at g1 d)) = ([], None, None)"
    using built_start [OF assms(1,2,3)] assms(4) by blast
  have "sym_bounded (m_lastNodeIndex g) sym_start" by (simp add: sym_bounded_def sym_start_def)
  then show ?thesis
    using constructInstructions_built [OF g1(2,3), of "m_lastNodeIndex g" "is"] assms(5) g1(1) by simp
qed

lemma below_operands_nth:
  assumes "map snd xs = [0 ..< k]" and "(r, q) \<in> set xs"
  shows "q < k \<and> fst (xs ! q) = r"
proof -
  obtain j where j: "j < length xs" "xs ! j = (r, q)" using assms(2) by (auto simp: in_set_conv_nth)
  have len: "length xs = k" using arg_cong [OF assms(1), of length] by simp
  have "q = map snd xs ! j" using j by simp
  then have "q = j" using j(1) len by (simp add: assms(1))
  then show ?thesis using j len by simp
qed

lemma below_operands_in: "(n, index, Below q) \<in> set ops \<Longrightarrow> (\<lparr>req_index = index, requestingNode = n\<rparr>, q) \<in> set (below_operands ops)"
  by (force simp: below_operands_def map_filter_def image_iff)

section \<open>Properties\<close>


section \<open>A whole method\<close>

text \<open>Whether a block's stack is its own does not depend on the numbers of its nodes.\<close>

lemma sym_take_length:
  "length (sym_stack s) = length (sym_stack s') \<Longrightarrow>
   length (sym_stack (sym_take n keep i s)) = length (sym_stack (sym_take n' keep i s'))"
  by (auto simp: sym_take_def split: list.splits)

lemma sym_takes_length:
  "length (sym_stack s) = length (sym_stack s') \<Longrightarrow>
   length (sym_stack (fold (sym_take n keep) is s)) = length (sym_stack (fold (sym_take n' keep) is s'))"
proof (induction "is" arbitrary: s s')
  case (Cons i "is")
  show ?case using Cons.IH [OF sym_take_length [OF Cons.prems, of n keep i n']] by simp
qed simp

lemma sym_owned_shift:
  "length (sym_stack s) = length (sym_stack s') \<Longrightarrow> sym_owned n is s = sym_owned n' is s'"
proof (induction "is" arbitrary: n n' s s')
  case (Cons i "is")
  have "length (sym_stack (sym_step n i s)) = length (sym_stack (sym_step n' i s'))"
    using sym_takes_length [OF Cons.prems] by (simp add: sym_step_def Let_def split: prod.split)
  from Cons.IH [OF this] have "sym_owned (n + 1) is (sym_step n i s) = sym_owned (n' + 1) is (sym_step n' i s')" .
  moreover have "(sym_stack s \<noteq> []) = (sym_stack s' \<noteq> [])" using Cons.prems by auto
  ultimately show ?case by simp
qed simp

text \<open>Code whose blocks all can be put on a symbolic stack.\<close>

definition buildable :: "ParsedBytecode \<Rightarrow> bool" where
  "buildable code \<longleftrightarrow> distinct (m_basicBlocks code) \<and>
     (\<forall>d \<in> set (m_basicBlocks code). \<exists>b. m_offsetToBasicBlock code d = Some b \<and>
        m_referers b \<subseteq> set (m_basicBlocks code) \<and> sym_owned 0 (map unpackInstruction (m_instructions b)) sym_start)"

text \<open>The graph of the blocks constructed so far.\<close>

definition constructed :: "ParsedBytecode \<Rightarrow> u16 set \<Rightarrow> ControlGraph \<Rightarrow> bool" where
  "constructed code ds g \<longleftrightarrow> getParsedBytecode g = Inr code \<and> dom (domain_at g) = ds \<and>
     (\<forall>d domain. domain_at g d = Some domain \<longrightarrow> m_basicBlock domain = d \<and> set (m_localStack domain) \<subseteq> {..< m_lastNodeIndex g}) \<and>
     (\<forall>n < m_lastNodeIndex g. \<exists>node. node_at g n = Some node \<and> m_nodeType node = ntInstruction \<and> m_outEdges node = []) \<and>
     (\<forall>n. m_lastNodeIndex g \<le> n \<longrightarrow> node_at g n = None)"

lemma constructed_block:
  assumes "constructed code ds g" and "d \<notin> ds" and "m_offsetToBasicBlock code d = Some b"
    and "sym_owned 0 (map unpackInstruction (m_instructions b)) sym_start"
  shows "\<exists>g'. constructBlock d g = Inr ((), g') \<and> constructed code (insert d ds) g'"
proof -
  let ?is = "map unpackInstruction (m_instructions b)"
  have block: "graph_block g d = Some b" using assms(1,3) by (simp add: constructed_def graph_block_def)
  have new: "domain_at g d = None" using assms(1,2) by (auto simp: constructed_def)
  have fresh: "\<And>n. m_lastNodeIndex g \<le> n \<Longrightarrow> node_at g n = None" using assms(1) by (simp add: constructed_def)
  have owned: "sym_owned (m_lastNodeIndex g) ?is sym_start" using assms(4) sym_owned_shift [OF refl] by metis
  obtain g' where g': "constructBlock d g = Inr ((), g')" "built (g\<lparr>m_domains := set_add d (m_domains g)\<rparr>) d ?is
      (sym_run (m_lastNodeIndex g) ?is sym_start) g'"
    using constructBlock_built [OF block new fresh refl owned] by blast
  have at: "domain_at g' = (domain_at g)(d \<mapsto> the (domain_at g' d))" "domain_agrees d (sym_run (m_lastNodeIndex g) ?is sym_start) (the (domain_at g' d))"
    using g'(2) by (simp_all add: built_def)
  have agree: "nodes_agree (m_lastNodeIndex g) ?is (sym_run (m_lastNodeIndex g) ?is sym_start) g'"
    using g'(2) by (simp add: built_def)
  have "getParsedBytecode g' = Inr code"
    using g'(2) assms(1) by (simp add: built_def constructed_def getParsedBytecode_def split: option.splits)
  moreover have "dom (domain_at g') = insert d ds" using at(1) assms(1) by (metis constructed_def dom_fun_upd option.distinct(1))
  moreover have "m_basicBlock domain = e \<and> set (m_localStack domain) \<subseteq> {..< m_lastNodeIndex g'}"
    if e: "domain_at g' e = Some domain" for e domain
  proof (cases "e = d")
    case True
    then have "domain = the (domain_at g' d)" using e by simp
    then show ?thesis using at(2) agree True by (auto simp: domain_agrees_def nodes_agree_def)
  next
    case False
    then have "domain_at g e = Some domain" using e at(1) by (metis fun_upd_apply)
    then show ?thesis using assms(1) agree by (fastforce simp: constructed_def nodes_agree_def)
  qed
  moreover have "\<exists>node. node_at g' n = Some node \<and> m_nodeType node = ntInstruction \<and> m_outEdges node = []"
    if n: "n < m_lastNodeIndex g'" for n
  proof (cases "n < m_lastNodeIndex g")
    case True
    then show ?thesis using g'(2) assms(1) by (simp add: built_def constructed_def)
  next
    case False
    then show ?thesis using agree n unfolding nodes_agree_def by (metis not_less)
  qed
  moreover have "node_at g' n = None" if "m_lastNodeIndex g' \<le> n" for n
    using agree that by (simp add: nodes_agree_def)
  ultimately show ?thesis using g'(1) unfolding constructed_def by blast
qed

lemma constructed_blocks:
  assumes "buildable code"
  shows "constructed code ds g \<Longrightarrow> distinct blocks \<Longrightarrow> set blocks \<subseteq> set (m_basicBlocks code) \<Longrightarrow>
    ds \<inter> set blocks = {} \<Longrightarrow> \<exists>g'. forEach constructBlock blocks g = Inr ((), g') \<and> constructed code (ds \<union> set blocks) g'"
proof (induction blocks arbitrary: ds g)
  case Nil
  then show ?case by (simp add: ret_def)
next
  case (Cons d blocks)
  obtain b where b: "m_offsetToBasicBlock code d = Some b" "sym_owned 0 (map unpackInstruction (m_instructions b)) sym_start"
    using assms Cons.prems(3) unfolding buildable_def by auto
  have "d \<notin> ds" using Cons.prems(4) by simp
  from constructed_block [OF Cons.prems(1) this b]
  obtain g1 where "constructBlock d g = Inr ((), g1)" "constructed code (insert d ds) g1" by blast
  then show ?case using Cons.IH [of "insert d ds" g1] Cons.prems(2,3,4) by (auto simp: bnd_def)
qed

lemma constructGraph_linkable:
  assumes "getParsedBytecode (ControlGraph_new parsedMethod parsedBlock) = Inr code" and "buildable code"
  shows "\<exists>g. constructGraph (ControlGraph_new parsedMethod parsedBlock) = Inr ((), g) \<and>
    constructed code (set (m_basicBlocks code)) g \<and> linkable g"
proof -
  have "constructed code {} (ControlGraph_new parsedMethod parsedBlock)"
    using assms(1) by (simp add: constructed_def ControlGraph_new_def)
  then obtain g where g: "forEach constructBlock (m_basicBlocks code) (ControlGraph_new parsedMethod parsedBlock) = Inr ((), g)"
      "constructed code (set (m_basicBlocks code)) g"
    using constructed_blocks [OF assms(2) _ _ subset_refl, of "{}"] assms(2) by (fastforce simp: buildable_def)
  have "\<exists>b. graph_block g d = Some b \<and> m_referers b \<subseteq> dom (domain_at g)" if "domain_at g d = Some domain" for d domain
    using g(2) assms(2) that unfolding constructed_def buildable_def graph_block_def by fastforce
  moreover have "\<exists>node. node_at g v = Some node \<and> m_nodeType node = ntInstruction"
    if "domain_at g d = Some domain" "v \<in> set (m_localStack domain)" for d domain v
    using g(2) that unfolding constructed_def by (meson lessThan_iff subsetD)
  moreover have "numbered g"
    unfolding numbered_def
  proof (intro allI impI)
    fix n node assume n: "node_at g n = Some node"
    then have less: "n < m_lastNodeIndex g" using g(2) unfolding constructed_def by (metis not_less option.distinct(1))
    then have "m_outEdges node = []" using g(2) n unfolding constructed_def by fastforce
    then show "n < m_lastNodeIndex g \<and> set (m_outEdges node) \<subseteq> {..< m_lastNodeIndex g}" using less by simp
  qed
  ultimately have "linkable g" using g(2) unfolding linkable_def constructed_def by blast
  then show ?thesis using g assms(1) by (auto simp: constructGraph_def bnd_def gets_def lift_res_def)
qed

end
