(* ===== verification/GraphSamples.thy ===== *)
theory GraphSamples
  imports SymbolicStack
begin

text \<open>
  The graph of whole methods: what a phi node's real values are, and methods whose graphs the passes build
  or fail to build.
\<close>

section \<open>Real values\<close>

lemma real_values_fold:
  assumes "\<And>i. i \<in> set incs \<Longrightarrow> \<exists>node. node_at g (inc_node i) = Some node \<and>
      (if m_nodeType node = ntPhi then \<exists>vs. getRealValues fuel (inc_node i) g = Inr (vs, g) \<and> set vs = F i
       else F i = {inc_node i})"
  shows "\<exists>vs. foldr (\<lambda>i values.
       bnd (castPhi (inc_node i)) (\<lambda>inner.
       bnd (case inner of None \<Rightarrow> ret [inc_node i] | Some _ \<Rightarrow> getRealValues fuel (inc_node i)) (\<lambda>vs.
       bnd values (\<lambda>ws. ret (foldr set_add vs ws))))) incs (ret []) g = Inr (vs, g) \<and> set vs = (\<Union>i \<in> set incs. F i)"
  using assms
proof (induction incs)
  case Nil
  then show ?case by (simp add: ret_def)
next
  case (Cons i incs)
  have added: "set (foldr set_add vs ws) = set vs \<union> set ws" for vs ws :: "nat list"
    by (induction vs) auto
  obtain node where node: "node_at g (inc_node i) = Some node"
      "if m_nodeType node = ntPhi then \<exists>vs. getRealValues fuel (inc_node i) g = Inr (vs, g) \<and> set vs = F i
       else F i = {inc_node i}"
    using Cons.prems [of i] by auto
  have rest: "\<exists>node. node_at g (inc_node j) = Some node \<and>
      (if m_nodeType node = ntPhi then \<exists>vs. getRealValues fuel (inc_node j) g = Inr (vs, g) \<and> set vs = F j
       else F j = {inc_node j})" if "j \<in> set incs" for j
    using Cons.prems [of j] that by simp
  show ?case
    using Cons.IH [OF rest] node
    by (auto simp: castPhi_def nodeAt_exec bnd_def ret_def added split: if_splits)
qed

text \<open>
  \<open>getRealValues\<close> of a phi node returns, for every bound that is large enough, exactly the values
  the node stands for.
\<close>

theorem getRealValues_resolves:
  assumes "resolves X (node_at g) n V" and "node_at g n = Some node" and "m_nodeType node = ntPhi"
  shows "\<exists>k. \<forall>fuel \<ge> k. \<exists>vs. getRealValues fuel n g = Inr (vs, g) \<and> set vs = V"
  using assms
proof (induction arbitrary: node rule: resolves.induct)
  case (resolves_value n node')
  then show ?case by simp
next
  case (resolves_phi n node' F V)
  then have node': "node' = node" by simp
  have "\<exists>k. \<forall>fuel \<ge> k. \<exists>nd. node_at g (inc_node c) = Some nd \<and>
      (if m_nodeType nd = ntPhi then \<exists>vs. getRealValues fuel (inc_node c) g = Inr (vs, g) \<and> set vs = F c
       else F c = {inc_node c})" if c: "c \<in> set (m_incomingList node)" for c
  proof -
    have res: "resolves X (node_at g) (inc_node c) (F c)" using resolves_phi.hyps(4) c node' by blast
    then obtain nd where nd: "node_at g (inc_node c) = Some nd" using resolves_node by blast
    show ?thesis
    proof (cases "m_nodeType nd = ntPhi")
      case True
      then show ?thesis using resolves_phi.IH [of c nd] c node' nd by auto
    next
      case False
      then have "F c = {inc_node c}" using res nd by (auto elim: resolves.cases)
      then show ?thesis using nd False by auto
    qed
  qed
  then obtain K where K: "\<And>c fuel. c \<in> set (m_incomingList node) \<Longrightarrow> K c \<le> fuel \<Longrightarrow>
      \<exists>nd. node_at g (inc_node c) = Some nd \<and>
        (if m_nodeType nd = ntPhi then \<exists>vs. getRealValues fuel (inc_node c) g = Inr (vs, g) \<and> set vs = F c
         else F c = {inc_node c})"
    by metis
  let ?k = "Suc (Max (insert 0 (K ` set (m_incomingList node))))"
  have "\<exists>vs. getRealValues fuel n g = Inr (vs, g) \<and> set vs = V" if fuel: "?k \<le> fuel" for fuel
  proof -
    obtain f where f: "fuel = Suc f" "Max (insert 0 (K ` set (m_incomingList node))) \<le> f" using fuel by (cases fuel) auto
    then have "K c \<le> f" if "c \<in> set (m_incomingList node)" for c
      using that by (meson Max_ge finite.insertI finite_imageI finite_set image_eqI insertI2 le_trans)
    then show ?thesis
      using real_values_fold [of "m_incomingList node" g f F] K resolves_phi.hyps(5) node' resolves_phi.prems(1)
      unfolding f(1) by (simp add: bnd_def nodeAt_exec)
  qed
  then show ?case by blast
qed

section \<open>Sample methods\<close>

lemma buildable_code [code]:
  "buildable code \<longleftrightarrow> distinct (m_basicBlocks code) \<and>
     list_all (\<lambda>d. case m_offsetToBasicBlock code d of None \<Rightarrow> False
       | Some b \<Rightarrow> m_referers b \<subseteq> set (m_basicBlocks code) \<and>
           sym_owned 0 (map unpackInstruction (m_instructions b)) sym_start) (m_basicBlocks code)"
  by (auto simp: buildable_def list_all_iff split: option.splits) force+

text \<open>\<open>^true ifTrue: [1] ifFalse: [2]\<close>: the two branches leave a value for the return at offset 9.\<close>

definition joined_code :: "u8 list" where
  "joined_code = [0x5B, 0xF8, 8, 0, 0x51, 0xF6, 9, 0, 0x52, 0xF2]"

text \<open>The same with an assignment to a temporary before the return.\<close>

definition assigned_code :: "u8 list" where
  "assigned_code = [0x5B, 0xF8, 8, 0, 0x51, 0xF6, 9, 0, 0x52, 0x70, 0xF2]"

text \<open>A value is pushed before an empty loop (offsets 1 to 5) and returned after it (offset 8).\<close>

definition loop_code :: "u8 list" where
  "loop_code = [0x51, 0x5B, 0xF8, 8, 0, 0xF6, 1, 0, 0xF2]"

definition parsed_graph :: "u8 list \<Rightarrow> ControlGraph res" where
  "parsed_graph code = bndR (ParsedMethod_new code) (\<lambda>m. Inr (ControlGraph_new m None))"

definition constructed_graph :: "u8 list \<Rightarrow> ControlGraph res" where
  "constructed_graph code = bndR (parsed_graph code) (\<lambda>g. bndR (constructGraph g) (\<lambda>r. Inr (snd r)))"

lemma constructed_graph_linkable:
  assumes "map_sum id (\<lambda>m. buildable (as_bytecode m) \<and> ds = m_basicBlocks m) (ParsedMethod_new code) = Inr True"
  obtains g where "constructed_graph code = Inr g" "linkable g" "dom (domain_at g) = set ds"
proof -
  obtain m where m: "ParsedMethod_new code = Inr m" "buildable (as_bytecode m)" "ds = m_basicBlocks m"
    using assms by (cases "ParsedMethod_new code") auto
  have "getParsedBytecode (ControlGraph_new m None) = Inr (as_bytecode m)"
    by (simp add: getParsedBytecode_def ControlGraph_new_def)
  from constructGraph_linkable [OF this m(2)] obtain g where
      "constructGraph (ControlGraph_new m None) = Inr ((), g)" "constructed (as_bytecode m) (set (m_basicBlocks m)) g" "linkable g"
    by (auto simp: as_bytecode_def)
  then show thesis
    using m(1,3) that by (auto simp: constructed_graph_def parsed_graph_def bndR_def constructed_def)
qed

lemma getRequestedNode_values_witness:
  "\<exists>g n g'. constructed_graph joined_code = Inr g \<and> getRequestedNode unat 2 9 0 g = Inr (n, g') \<and>
     resolves {} (node_at g') n {v. provides (referers_of g) (stack_of g) 9 0 v}"
proof -
  have "map_sum id (\<lambda>m. buildable (as_bytecode m) \<and> [0, 4, 8, 9] = m_basicBlocks m) (ParsedMethod_new joined_code) = Inr True"
    by code_simp
  from constructed_graph_linkable [OF this] obtain g where
    g: "constructed_graph joined_code = Inr g" "linkable g" "dom (domain_at g) = set [0, 4, 8, 9]" .
  have "map_sum id (\<lambda>g. map_sum id fst (getRequestedNode unat 2 9 0 g)) (constructed_graph joined_code) = Inr (Inr 7)"
    by code_simp
  then obtain n g' where r: "getRequestedNode unat 2 9 0 g = Inr (n, g')"
    using g(1) by (cases "getRequestedNode unat 2 9 0 g") auto
  show ?thesis using getRequestedNode_values [OF g(2), where d = 9 and address = unat and fuel = 2 and i = 0] g(1,3) r by auto
qed

lemma getRealValues_resolves_witness:
  "\<exists>g g' V k. constructed_graph joined_code = Inr g \<and> getRequestedNode unat 2 9 0 g = Inr (7, g') \<and>
     (\<forall>fuel \<ge> k. \<exists>vs. getRealValues fuel 7 g' = Inr (vs, g') \<and> set vs = V)"
proof -
  have "map_sum id (\<lambda>m. buildable (as_bytecode m) \<and> [0, 4, 8, 9] = m_basicBlocks m) (ParsedMethod_new joined_code) = Inr True"
    by code_simp
  from constructed_graph_linkable [OF this] obtain g where
    g: "constructed_graph joined_code = Inr g" "linkable g" "dom (domain_at g) = set [0, 4, 8, 9]" .
  have "map_sum id (\<lambda>g. map_sum id (\<lambda>(n, g'). (n, map_option m_nodeType (node_at g' n))) (getRequestedNode unat 2 9 0 g))
      (constructed_graph joined_code) = Inr (Inr (7, Some ntPhi))"
    by code_simp
  then obtain g' node where r: "getRequestedNode unat 2 9 0 g = Inr (7, g')" "node_at g' 7 = Some node" "m_nodeType node = ntPhi"
    using g(1) by (cases "getRequestedNode unat 2 9 0 g") auto
  have "found g {v. provides (referers_of g) (stack_of g) 9 0 v} (getRequestedNode unat 2 9 0 g)"
    using getRequestedNode_found [OF getRequestedNode_returned [OF r(1) g(2)] g(2)] g(3) by simp
  then have "resolves (phi_nodes (node_at g)) (node_at g') 7 {v. provides (referers_of g) (stack_of g) 9 0 v}"
    by (auto simp: found_def r(1))
  from getRealValues_resolves [OF this r(2,3)] show ?thesis using g(1) r(1) by blast
qed

lemma loop_request_diverges_witness:
  "\<exists>g. constructed_graph loop_code = Inr g \<and> (\<forall>fuel. \<nexists>n g'. getRequestedNode unat fuel 1 0 g = Inr (n, g'))"
proof -
  have "map_sum id (\<lambda>m. buildable (as_bytecode m) \<and> [0, 5, 8, 1] = m_basicBlocks m) (ParsedMethod_new loop_code) = Inr True"
    by code_simp
  from constructed_graph_linkable [OF this] obtain g where
    g: "constructed_graph loop_code = Inr g" "linkable g" "dom (domain_at g) = set [0, 5, 8, 1]" .
  have "map_sum id (\<lambda>g. (1 \<in> referers_of g 5, 5 \<in> referers_of g 1, stack_of g 1, stack_of g 5)) (constructed_graph loop_code) =
      Inr (True, True, [], [])"
    by code_simp
  then have "\<exists>r \<in> referers_of g c. r \<in> {1, 5} \<and> stack_of g r = []" if "c \<in> {1, 5}" for c
    using g(1) that by auto
  then show ?thesis using loop_request_diverges [OF g(2), of "{1, 5}" 1] g(1,3) by auto
qed


section \<open>A method the passes cannot build\<close>


end
