(* ===== verification/ProtectionSamples.thy ===== *)
theory ProtectionSamples
  imports ValueProtection GraphSamples
begin

text \<open>
  The fast check of \<open>shouldProtectProducer\<close>, a sample graph, and two methods whose values the method
  compiler leaves without a holder across a collection.
\<close>

section \<open>The fast check\<close>

text \<open>A straight line of instructions up to the consumer.\<close>

fun chain :: "(nat \<rightharpoonup> ControlNode) \<Rightarrow> nat list \<Rightarrow> nat \<Rightarrow> bool" where
  "chain m [] consumer \<longleftrightarrow> True"
| "chain m (n # ns) consumer \<longleftrightarrow> n \<noteq> consumer \<and>
     (\<exists>node. m n = Some node \<and> m_nodeType node = ntInstruction \<and> m_outEdges node = [hd (ns @ [consumer])]) \<and> chain m ns consumer"

lemma scanTo_chain:
  "chain m ns consumer \<Longrightarrow> scanTo m consumer (hd (ns @ [consumer])) = Some (Inr (\<exists>n \<in> set ns. n \<in> gc_nodes m))"
proof (induction ns)
  case Nil
  then show ?case by (simp add: scanTo.simps)
next
  case (Cons n ns)
  then obtain node where "m n = Some node" "m_nodeType node = ntInstruction" "m_outEdges node = [hd (ns @ [consumer])]"
      "n \<noteq> consumer"
    by auto
  then show ?case
    using Cons by (simp add: scanTo.simps [of m consumer n] gc_nodes_def causesGC_def)
qed

text \<open>
  A value consumed once, in the domain that produces it: along the straight line of instructions
  from the producer to the consumer the check ends, and it is positive exactly when one of the instructions
  between the two may cause a collection.
\<close>

theorem shouldProtectProducer_local:
  assumes "m producer = Some node" and "m_consumers node = [consumer]" and "m consumer = Some c"
    and "m_domain node = m_domain c" and "m_outEdges node = [hd (ns @ [consumer])]" and "chain m ns consumer"
  shows "shouldProtectProducer m fuel producer = Some (Inr (\<exists>n \<in> set ns. n \<in> gc_nodes m))"
  using assms scanTo_chain [OF assms(6)] by (simp add: shouldProtectProducer_def consumedInDomain_def)

section \<open>A sample graph\<close>

text \<open>
  A value pushed at 0, a block pushed at 1, and the value consumed at 3 in the next domain; another value
  pushed at 4 and consumed at 6 in its own domain, with a block pushed in between.
\<close>

definition sample_instr :: "TSmalltalkInstruction \<Rightarrow> u16 \<Rightarrow> nat list \<Rightarrow> nat list \<Rightarrow> nat list \<Rightarrow> ControlNode" where
  "sample_instr i d ins outs consumers = (ControlNode_new ntInstruction)\<lparr>m_instruction := i, m_domain := Some d,
     m_inEdges := ins, m_outEdges := outs, m_consumers := consumers\<rparr>"

definition sample_values :: "nat \<rightharpoonup> ControlNode" where
  "sample_values = [0 \<mapsto> sample_instr (mkInstruction op_pushTemporary 0 0) 0 [] [1] [3],
     1 \<mapsto> sample_instr (mkInstruction op_pushBlock 0 0) 0 [0] [2] [],
     2 \<mapsto> sample_instr (mkInstruction op_doSpecial 6 9) 0 [1] [3] [],
     3 \<mapsto> sample_instr (mkInstruction op_doSpecial 5 0) 9 [2] [4] [],
     4 \<mapsto> sample_instr (mkInstruction op_pushTemporary 1 0) 9 [3] [5] [6],
     5 \<mapsto> sample_instr (mkInstruction op_pushBlock 0 0) 9 [4] [6] [],
     6 \<mapsto> sample_instr (mkInstruction op_doSpecial 2 0) 9 [5] [] []]"

lemma sample_values_dom: "dom sample_values = {0, 1, 2, 3, 4, 5, 6}"
  by (auto simp: sample_values_def split: if_splits)

lemma sample_values_ok: "edges_closed sample_values" "no_tau sample_values" "card (dom sample_values) < 8"
proof -
  show "edges_closed sample_values"
    unfolding edges_closed_def sample_values_dom by (auto simp: sample_values_def sample_instr_def split: if_splits)
  show "no_tau sample_values"
    by (auto simp: no_tau_def sample_values_def sample_instr_def ControlNode_new_def split: if_splits)
  show "card (dom sample_values) < 8" unfolding sample_values_dom by simp
qed


lemma shouldProtectProducer_local_witness:
  "shouldProtectProducer sample_values 8 4 = Some (Inr True)"
  using shouldProtectProducer_local [of sample_values 4 "sample_instr (mkInstruction op_pushTemporary 1 0) 9 [3] [5] [6]" 6
      "sample_instr (mkInstruction op_doSpecial 2 0) 9 [5] [] []" "[5]" 8]
  by (simp add: sample_values_def sample_instr_def ControlNode_new_def gc_nodes_def causesGC_def mayCauseGC_def mkInstruction_def)

section \<open>Values without a holder\<close>

definition built_graph :: "u8 list \<Rightarrow> ControlGraph res" where
  "built_graph code = bndR (parsed_graph code) (\<lambda>g. bndR (buildGraph unat 9 g) (\<lambda>r. Inr (snd r)))"

text \<open>
  \<open>block := [1]\<close>: the entry instruction pushes the block; the assignment and the return of self behind it
  use the context and the receiver.
\<close>

definition block_code :: "u8 list" where
  "block_code = [0xC0, 5, 0, 0x51, 0xF2, 0x60, 0xF5, 0xF1]"

text \<open>
  \<open>(c ifTrue: [a] ifFalse: [b]) foo: (self bar)\<close>: the receiver is a phi at the top of the block at
  offset 9, where \<open>self bar\<close> is sent before the receiver is used.
\<close>

definition operand_code :: "u8 list" where
  "operand_code = [0x5B, 0xF8, 8, 0, 0x31, 0xF6, 9, 0, 0x32, 0x20, 0x81, 0x90, 0x82, 0x91, 0xF2]"



text \<open>The nodes of the sample graph as a method: the block pushed at 1 is behind the entry.\<close>

definition sample_graph :: ControlGraph where
  "sample_graph = (ControlGraph_new \<lparr>m_basicBlocks = [], m_offsetToBasicBlock = Map.empty, m_parsedBlocks = [],
      m_offsetToParsedBlock = Map.empty, m_endOffsetToParsedBlock = Map.empty\<rparr> None)
    \<lparr>m_domains := [0], domain_at := [0 \<mapsto> (ControlDomain_new 0)\<lparr>m_entryPoint := Some 0\<rparr>], node_at := sample_values\<rparr>"

lemma methodAllocatesMemory_iff_witness:
  "methodAllocatesMemory sample_graph 8 = Inr True \<and>
   (\<exists>n \<in> gc_nodes sample_values. (0, n) \<in> (walk_step sample_values {})\<^sup>+)"
proof -
  have g: "node_at sample_graph = sample_values" "m_domains sample_graph = [0]"
      "domain_at sample_graph 0 = Some ((ControlDomain_new 0)\<lparr>m_entryPoint := Some 0\<rparr>)"
    by (simp_all add: sample_graph_def)
  have "methodAllocatesMemory sample_graph 8 = Inr True" by code_simp
  then show ?thesis
    using methodAllocatesMemory_iff [of sample_graph 8 0 "[]" "(ControlDomain_new 0)\<lparr>m_entryPoint := Some 0\<rparr>" 0]
      g sample_values_ok(1,3) sample_values_dom by simp
qed

end
