(* ===== verification/CompiledCode.thy ===== *)
theory CompiledCode
  imports VMPrimitives
begin

text \<open>
  The code the method compiler writes (\<^verbatim>\<open>src/MethodCompiler.cpp\<close>), as a sequence of calls of the LLVM
  builder, and what that code computes.  LLVM is not part of the sources: every \<open>Create...\<close> call inserts one
  instruction at the insertion point and returns a new value, nothing else is used of it.  What the
  instructions compute, the second half of the theory, is specification: the LLVM language reference for the
  instructions, \<^verbatim>\<open>include/Core.ll\<close> for the small functions the code calls, the functions of the
  virtual machine for the runtime interface.
\<close>

section \<open>Instructions\<close>

text \<open>
  The functions of \<^verbatim>\<open>include/Core.ll\<close>, of the runtime interface, of the C and C++ libraries and of LLVM, and the
  compiled functions of methods, which are called directly.
\<close>

datatype callee =
    fn_isSmallInteger | fn_getIntegerValue | fn_newInteger | fn_getSlotSize
  | fn_getObjectSize | fn_setObjectSize | fn_getObjectClass | fn_setObjectClass
  | fn_getObjectField | fn_setObjectField | fn_getObjectFieldPtr | fn_getObjectFields
  | fn_getTemps | fn_getArgument | fn_getInstance | fn_getTemporary | fn_getLiteral
  | fn_setTemporary | fn_setInstance
  | rt_newOrdinaryObject | rt_newBinaryObject | rt_sendMessage | rt_createBlock | rt_invokeBlock
  | rt_emitBlockReturn | rt_checkRoot | rt_bulkReplace | rt_callPrimitive
  | fn_putchar | fn_executeProcess | fn_memcpy | fn_gcroot
  | fn_cxa_allocate_exception | fn_cxa_throw | fn_cxa_begin_catch | fn_cxa_end_catch
  | fn_lifetime_start | fn_lifetime_end | fn_method ptr

text \<open>
  \<open>Slot\<close> is the result of an \<open>AllocaInst\<close>, which the compiler tells from other values; \<open>Object\<close> a pointer known
  at compile time, a global object or null.
\<close>

datatype operand =
    Reg nat | Slot nat | Int64 u32 | Int32 u32 | Int16 u16 | Int8 u8 | Bool1 bool | Object ptr
  | FunctionArgument | StackObjectMeta | ContextTypeInfo | SizeOfPointer

datatype binary_op = op_Add | op_Sub | op_Mul | op_SDiv | op_SRem | op_And | op_Or | op_AShr | op_Shl
  | op_ICmpEQ | op_ICmpNE | op_ICmpSLT | op_ICmpSLE | op_ICmpSGT | op_ICmpSGE

text \<open>The target of a cast: bytes, pointers to pointers, and the object types, which need no telling apart.\<close>

datatype ir_type = ty_bytes | ty_object | ty_rootPtr

datatype llvm_instr =
    Call callee "operand list"
  | Binary binary_op operand operand
  | Neg operand
  | NotOf operand
  | Select operand operand operand
  | PHI "(operand \<times> nat) list"
  | TruncTo8 operand
  | ZExtTo32 operand
  | ZExtTo64 operand
  | BitCast operand ir_type
  | IntToPtr operand
  | StructGEP operand nat
  | GEP operand operand
  | Load operand
  | Store operand operand
  | Alloca u32
  | MemSet operand u32
  | LandingPad
  | ExtractValue operand nat

datatype llvm_terminator =
    Br nat
  | CondBr operand nat nat
  | Ret operand
  | Invoke nat callee "operand list" nat nat
  | Resume operand
  | Unreachable

record llvm_block =
  block_instrs :: "(nat \<times> llvm_instr) list"
  block_terminator :: "llvm_terminator option"

section \<open>Calls of the builder\<close>

text \<open>
  Blocks and values are numbered as they are made.  \<open>IRBuilder::SetInsertPoint\<close> on a block appends to it;
  allocations go to the beginning of the function's preamble.
\<close>

record IRBuilder =
  ir_blocks :: "nat \<Rightarrow> llvm_block"
  ir_blockCount :: nat
  ir_valueCount :: nat
  ir_insertBlock :: nat
  ir_preamble :: nat

type_synonym 'x emit = "(IRBuilder, 'x) comp"

definition empty_block :: llvm_block where
  "empty_block = \<lparr>block_instrs = [], block_terminator = None\<rparr>"

definition changeBlock :: "nat \<Rightarrow> (llvm_block \<Rightarrow> llvm_block) \<Rightarrow> unit emit" where
  "changeBlock k f = modify (\<lambda>b. b\<lparr>ir_blocks := (ir_blocks b)(k := f (ir_blocks b k))\<rparr>)"

definition newValue :: "nat emit" where
  "newValue = bnd (gets ir_valueCount) (\<lambda>r. bnd (modify (\<lambda>b. b\<lparr>ir_valueCount := r + 1\<rparr>)) (\<lambda>_. ret r))"

definition create :: "llvm_instr \<Rightarrow> operand emit" where
  "create i = bnd newValue (\<lambda>r. bnd (gets ir_insertBlock) (\<lambda>k.
     bnd (changeBlock k (\<lambda>blk. blk\<lparr>block_instrs := block_instrs blk @ [(r, i)]\<rparr>)) (\<lambda>_. ret (Reg r))))"

definition perform :: "llvm_instr \<Rightarrow> unit emit" where
  "perform i = bnd (create i) (\<lambda>_. ret ())"

definition createInPreamble :: "llvm_instr \<Rightarrow> nat emit" where
  "createInPreamble i = bnd newValue (\<lambda>r. bnd (gets ir_preamble) (\<lambda>k.
     bnd (changeBlock k (\<lambda>blk. blk\<lparr>block_instrs := (r, i) # block_instrs blk\<rparr>)) (\<lambda>_. ret r)))"

definition terminateWith :: "llvm_terminator \<Rightarrow> unit emit" where
  "terminateWith t = bnd (gets ir_insertBlock) (\<lambda>k. changeBlock k (\<lambda>blk. blk\<lparr>block_terminator := Some t\<rparr>))"

definition createBasicBlock :: "nat emit" where
  "createBasicBlock = bnd (gets ir_blockCount) (\<lambda>n.
     bnd (modify (\<lambda>b. b\<lparr>ir_blockCount := n + 1, ir_blocks := (ir_blocks b)(n := empty_block)\<rparr>)) (\<lambda>_. ret n))"

definition setInsertPoint :: "nat \<Rightarrow> unit emit" where
  "setInsertPoint k = modify (\<lambda>b. b\<lparr>ir_insertBlock := k\<rparr>)"

text \<open>\<open>PHINode::addIncoming\<close> on a value of the insertion block.\<close>

definition addIncomingTo :: "operand \<Rightarrow> operand \<Rightarrow> nat \<Rightarrow> unit emit" where
  "addIncomingTo phi v origin = bnd (gets ir_insertBlock) (\<lambda>k.
     changeBlock k (\<lambda>blk. blk\<lparr>block_instrs := map (\<lambda>(r, i).
       (r, case i of PHI incomings \<Rightarrow> if phi = Reg r then PHI (incomings @ [(v, origin)]) else i | _ \<Rightarrow> i))
       (block_instrs blk)\<rparr>))"

section \<open>What the code computes\<close>

text \<open>
  A word (integers and object pointers), a byte, a truth value, the address of a field, of a byte, of a
  holder that is registered with the memory manager, or nothing.
\<close>

datatype ir_val = V32 u32 | V8 u8 | V1 bool | VField slot | VByte "ptr \<times> nat" | VRoot nat | VVoid

definition as32 :: "ir_val \<Rightarrow> ('s, u32) comp" where
  "as32 v = (case v of V32 w \<Rightarrow> ret w | _ \<Rightarrow> raise BadAccess)"

definition as8 :: "ir_val \<Rightarrow> ('s, u8) comp" where
  "as8 v = (case v of V8 w \<Rightarrow> ret w | _ \<Rightarrow> raise BadAccess)"

definition as1 :: "ir_val \<Rightarrow> ('s, bool) comp" where
  "as1 v = (case v of V1 w \<Rightarrow> ret w | _ \<Rightarrow> raise BadAccess)"

definition asField :: "ir_val \<Rightarrow> ('s, slot) comp" where
  "asField v = (case v of VField sl \<Rightarrow> ret sl | _ \<Rightarrow> raise BadAccess)"

definition contextField :: "ptr \<Rightarrow> TContext_member \<Rightarrow> ('a baker_scheme, ptr) comp" where
  "contextField c member = getMember c (TContext_offset member)"

text \<open>Functions without a line here are called by code whose run is not described.\<close>

definition call_value :: "callee \<Rightarrow> ir_val list \<Rightarrow> ('a vm_scheme, ir_val) comp" where
  "call_value f vs = (case (f, vs) of
     (fn_isSmallInteger, [x]) \<Rightarrow> bnd (as32 x) (\<lambda>v. ret (V1 (bit v 0)))
   | (fn_getIntegerValue, [x]) \<Rightarrow> bnd (as32 x) (\<lambda>v. ret (V32 (signed_drop_bit 1 v)))
   | (fn_newInteger, [x]) \<Rightarrow> bnd (as32 x) (\<lambda>v. ret (V32 (push_bit 1 v OR 1)))
   | (fn_getObjectSize, [x]) \<Rightarrow> bnd (as32 x) (\<lambda>p. bnd (mem (\<lambda>m. getSize m p)) (\<lambda>n. ret (V32 n)))
   | (fn_getObjectClass, [x]) \<Rightarrow> bnd (as32 x) (\<lambda>p.
       bnd (if bit p 0 then global smallIntClass else mem (\<lambda>m. getClass m p)) (\<lambda>c. ret (V32 c)))
   | (fn_getObjectField, [x, y]) \<Rightarrow> bnd (as32 x) (\<lambda>p. bnd (as32 y) (\<lambda>i.
       bnd (getMember p (unat i)) (\<lambda>v. ret (V32 v))))
   | (fn_setObjectField, [x, y, z]) \<Rightarrow> bnd (as32 x) (\<lambda>p. bnd (as32 y) (\<lambda>i. bnd (as32 z) (\<lambda>v.
       bnd (putMember p (unat i) v) (\<lambda>_. ret (VField (p, unat i))))))
   | (fn_getObjectFieldPtr, [x, y]) \<Rightarrow> bnd (as32 x) (\<lambda>p. bnd (as32 y) (\<lambda>i. ret (VField (p, unat i))))
   | (fn_getObjectFields, [x]) \<Rightarrow> bnd (as32 x) (\<lambda>p. ret (VField (p, 0)))
   | (fn_getArgument, [x, y]) \<Rightarrow> bnd (as32 x) (\<lambda>c. bnd (as32 y) (\<lambda>i.
       bnd (contextField c ctx_arguments) (\<lambda>p. bnd (getMember p (unat i)) (\<lambda>v. ret (V32 v)))))
   | (fn_getTemporary, [x, y]) \<Rightarrow> bnd (as32 x) (\<lambda>c. bnd (as32 y) (\<lambda>i.
       bnd (contextField c ctx_temporaries) (\<lambda>p. bnd (getMember p (unat i)) (\<lambda>v. ret (V32 v)))))
   | (fn_getInstance, [x, y]) \<Rightarrow> bnd (as32 x) (\<lambda>c. bnd (as32 y) (\<lambda>i.
       bnd (contextField c ctx_arguments) (\<lambda>a. bnd (getMember a 0) (\<lambda>p.
       bnd (getMember p (unat i)) (\<lambda>v. ret (V32 v))))))
   | (fn_getLiteral, [x, y]) \<Rightarrow> bnd (as32 x) (\<lambda>c. bnd (as32 y) (\<lambda>i.
       bnd (contextField c ctx_method) (\<lambda>md. bnd (getMember md (TMethod_offset mth_literals)) (\<lambda>p.
       bnd (getMember p (unat i)) (\<lambda>v. ret (V32 v))))))
   | (fn_setTemporary, [x, y, z]) \<Rightarrow> bnd (as32 x) (\<lambda>c. bnd (as32 y) (\<lambda>i. bnd (as32 z) (\<lambda>v.
       bnd (contextField c ctx_temporaries) (\<lambda>p. bnd (putMember p (unat i) v) (\<lambda>_. ret VVoid)))))
   | (fn_setInstance, [x, y, z]) \<Rightarrow> bnd (as32 x) (\<lambda>c. bnd (as32 y) (\<lambda>i. bnd (as32 z) (\<lambda>v.
       bnd (contextField c ctx_arguments) (\<lambda>a. bnd (getMember a 0) (\<lambda>p.
       bnd (checkRoot v (p, unat i)) (\<lambda>_. bnd (putMember p (unat i) v) (\<lambda>_. ret VVoid)))))))
   | (rt_checkRoot, [x, y]) \<Rightarrow> bnd (as32 x) (\<lambda>v. bnd (asField y) (\<lambda>sl.
       bnd (checkRoot v sl) (\<lambda>_. ret VVoid)))
   | (rt_bulkReplace, [x1, x2, x3, x4, x5]) \<Rightarrow> bnd (as32 x1) (\<lambda>v1. bnd (as32 x2) (\<lambda>v2. bnd (as32 x3) (\<lambda>v3.
       bnd (as32 x4) (\<lambda>v4. bnd (as32 x5) (\<lambda>v5.
       bnd (doBulkReplace v1 v2 v3 v4 v5) (\<lambda>t. ret (V1 t)))))))
   | (fn_putchar, [x]) \<Rightarrow> bnd (as8 x) (\<lambda>c. bnd (os_call (os_putchar c)) (\<lambda>r. ret (V32 (os_result r))))
   | _ \<Rightarrow> raise BadAccess)"

text \<open>A shift by the width and more is a poison value, a division by zero or an overflowing one undefined.\<close>

definition division :: "(int \<Rightarrow> int \<Rightarrow> int) \<Rightarrow> u32 \<Rightarrow> u32 \<Rightarrow> ir_val res" where
  "division f a b = (if b = 0 \<or> sint a = - (2 ^ 31) \<and> sint b = - 1 then Inl BadAccess
     else Inr (V32 (word_of_int (f (sint a) (sint b)))))"

definition word_operation :: "binary_op \<Rightarrow> u32 \<Rightarrow> u32 \<Rightarrow> ir_val res" where
  "word_operation opn a b = (case opn of
     op_Add \<Rightarrow> Inr (V32 (a + b)) | op_Sub \<Rightarrow> Inr (V32 (a - b)) | op_Mul \<Rightarrow> Inr (V32 (a * b))
   | op_SDiv \<Rightarrow> division (sdiv) a b | op_SRem \<Rightarrow> division (smod) a b
   | op_And \<Rightarrow> Inr (V32 (a AND b)) | op_Or \<Rightarrow> Inr (V32 (a OR b))
   | op_AShr \<Rightarrow> (if unat b < 32 then Inr (V32 (signed_drop_bit (unat b) a)) else Inl BadAccess)
   | op_Shl \<Rightarrow> (if unat b < 32 then Inr (V32 (push_bit (unat b) a)) else Inl BadAccess)
   | op_ICmpEQ \<Rightarrow> Inr (V1 (a = b)) | op_ICmpNE \<Rightarrow> Inr (V1 (a \<noteq> b))
   | op_ICmpSLT \<Rightarrow> Inr (V1 (sint a < sint b)) | op_ICmpSLE \<Rightarrow> Inr (V1 (sint a \<le> sint b))
   | op_ICmpSGT \<Rightarrow> Inr (V1 (sint a > sint b)) | op_ICmpSGE \<Rightarrow> Inr (V1 (sint a \<ge> sint b)))"

definition binary_value :: "binary_op \<Rightarrow> ir_val \<Rightarrow> ir_val \<Rightarrow> ir_val res" where
  "binary_value opn x y = (case (x, y) of
     (V32 a, V32 b) \<Rightarrow> word_operation opn a b
   | (V1 a, V1 b) \<Rightarrow> if opn = op_And then Inr (V1 (a \<and> b)) else Inl BadAccess
   | _ \<Rightarrow> Inl BadAccess)"

type_synonym registers = "nat \<Rightarrow> ir_val"

definition operand_value :: "registers \<Rightarrow> operand \<Rightarrow> ir_val" where
  "operand_value env x = (case x of
     Reg r \<Rightarrow> env r | Slot r \<Rightarrow> env r | Int32 v \<Rightarrow> V32 v | Int8 v \<Rightarrow> V8 v | Bool1 v \<Rightarrow> V1 v | Object p \<Rightarrow> V32 p
   | _ \<Rightarrow> VVoid)"

definition load_value :: "ir_val \<Rightarrow> ('a vm_scheme, ir_val) comp" where
  "load_value v = (case v of
     VField sl \<Rightarrow> bnd (getMember (fst sl) (snd sl)) (\<lambda>w. ret (V32 w))
   | VByte sl \<Rightarrow> bnd (mem (\<lambda>m. getByte m (fst sl) (snd sl))) (\<lambda>w. ret (V8 w))
   | VRoot h \<Rightarrow> bnd (hptr_get h) (\<lambda>w. ret (V32 w))
   | _ \<Rightarrow> raise BadAccess)"

definition store_value :: "ir_val \<Rightarrow> ir_val \<Rightarrow> ('a vm_scheme, ir_val) comp" where
  "store_value v target = (case target of
     VField sl \<Rightarrow> bnd (as32 v) (\<lambda>w. bnd (putMember (fst sl) (snd sl) w) (\<lambda>_. ret VVoid))
   | VByte sl \<Rightarrow> bnd (as8 v) (\<lambda>w. bnd (mem_upd (\<lambda>m. putByte m (fst sl) (snd sl) w)) (\<lambda>_. ret VVoid))
   | VRoot h \<Rightarrow> bnd (as32 v) (\<lambda>w. bnd (hptr_set h w) (\<lambda>_. ret VVoid))
   | _ \<Rightarrow> raise BadAccess)"

definition cast_value :: "ir_type \<Rightarrow> ir_val \<Rightarrow> ir_val" where
  "cast_value t v = (case v of VField sl \<Rightarrow> if t = ty_bytes then VByte (fst sl, 4 * snd sl) else v | _ \<Rightarrow> v)"

definition instr_value :: "nat \<Rightarrow> registers \<Rightarrow> llvm_instr \<Rightarrow> ('a vm_scheme, ir_val) comp" where
  "instr_value prev env i = (case i of
     Call f vs \<Rightarrow> call_value f (map (operand_value env) vs)
   | Binary opn a b \<Rightarrow> lift_res (binary_value opn (operand_value env a) (operand_value env b))
   | Neg a \<Rightarrow> bnd (as32 (operand_value env a)) (\<lambda>w. ret (V32 (- w)))
   | NotOf a \<Rightarrow> bnd (as1 (operand_value env a)) (\<lambda>w. ret (V1 (\<not> w)))
   | Select c a b \<Rightarrow> bnd (as1 (operand_value env c)) (\<lambda>t.
       ret (if t then operand_value env a else operand_value env b))
   | PHI incomings \<Rightarrow> (case map_of (map (\<lambda>(v, k). (k, v)) incomings) prev of
       None \<Rightarrow> raise BadAccess | Some v \<Rightarrow> ret (operand_value env v))
   | TruncTo8 a \<Rightarrow> bnd (as32 (operand_value env a)) (\<lambda>w. ret (V8 (ucast w)))
   | ZExtTo32 a \<Rightarrow> bnd (as8 (operand_value env a)) (\<lambda>w. ret (V32 (ucast w)))
   | BitCast a t \<Rightarrow> ret (cast_value t (operand_value env a))
   | IntToPtr a \<Rightarrow> bnd (as32 (operand_value env a)) (\<lambda>w. ret (V32 w))
   | GEP a b \<Rightarrow> (case operand_value env a of
       VByte sl \<Rightarrow> bnd (as32 (operand_value env b)) (\<lambda>w. ret (VByte (fst sl, nat (int (snd sl) + sint w))))
     | _ \<Rightarrow> raise BadAccess)
   | Load a \<Rightarrow> load_value (operand_value env a)
   | Store a target \<Rightarrow> store_value (operand_value env a) (operand_value env target)
   | _ \<Rightarrow> raise BadAccess)"

primrec run_instrs :: "nat \<Rightarrow> (nat \<times> llvm_instr) list \<Rightarrow> registers \<Rightarrow> ('a vm_scheme, registers) comp" where
  "run_instrs prev [] env = ret env"
| "run_instrs prev (ri # ris) env =
     bnd (instr_value prev env (snd ri)) (\<lambda>v. run_instrs prev ris (env(fst ri := v)))"

text \<open>A run ends with a returned word, or at a block that is not terminated yet.\<close>

datatype ir_end = IrReturned u32 | IrOpen nat

primrec run_code :: "nat \<Rightarrow> (nat \<Rightarrow> llvm_block) \<Rightarrow> nat \<Rightarrow> nat \<Rightarrow> registers \<Rightarrow> ('a vm_scheme, ir_end) comp" where
  "run_code 0 blocks prev k env = raise OutOfFuel"
| "run_code (Suc fuel) blocks prev k env =
     bnd (run_instrs prev (block_instrs (blocks k)) env) (\<lambda>env.
     case block_terminator (blocks k) of
       None \<Rightarrow> ret (IrOpen k)
     | Some (Br next) \<Rightarrow> run_code fuel blocks k next env
     | Some (CondBr c yes no) \<Rightarrow>
         bnd (as1 (operand_value env c)) (\<lambda>t. run_code fuel blocks k (if t then yes else no) env)
     | Some (Ret v) \<Rightarrow> bnd (as32 (operand_value env v)) (\<lambda>w. ret (IrReturned w))
     | Some _ \<Rightarrow> raise BadAccess)"

end
