(* ===== verification/CompilePrimitives.thy ===== *)
theory CompilePrimitives
  imports CompiledCode
begin

text \<open>
  The code of the primitives (\<open>doPrimitive\<close>, \<open>compilePrimitive\<close> and \<open>compileSmallIntPrimitive\<close> of
  \<^verbatim>\<open>src/MethodCompiler.cpp\<close>) as builder calls.
\<close>

section \<open>The context of a compilation\<close>

text \<open>
  The parts of \<open>TJITContext\<close> the instructions use.  Of the current node: its index, its instruction, the values of the
  nodes it takes its arguments from, the other block a conditional branch leads to (\<open>getSkipOffset\<close>), and whether its
  value must survive a collection (\<open>shouldProtectProducer\<close>).  A phi node gets its value at its first request; here it
  has one.  \<open>blockValues\<close> are the blocks \<open>scanForBranches\<close> made, by their offset in the bytecodes.
\<close>

record TJITContext =
  methodHasBlockReturn :: bool
  methodAllocates :: bool
  contextHolder :: operand
  selfHolder :: operand
  exceptionLandingPad :: nat
  blockValues :: "u16 \<Rightarrow> nat option"
  originLiterals :: "ptr list"
  nodeIndex :: u32
  nodeInstruction :: TSmalltalkInstruction
  argumentValues :: "operand list"
  skipOffset :: u16
  nodeProtected :: bool
  jitGlobals :: TGlobals

abbreviation nodeArgument :: "TJITContext \<Rightarrow> u8" where
  "nodeArgument jit \<equiv> m_argument (nodeInstruction jit)"

abbreviation nodeExtra :: "TJITContext \<Rightarrow> u16" where
  "nodeExtra jit \<equiv> m_extra (nodeInstruction jit)"

definition isAlloca :: "operand \<Rightarrow> bool" where
  "isAlloca v = (case v of Slot _ \<Rightarrow> True | _ \<Rightarrow> False)"

definition getNodeValue :: "operand \<Rightarrow> operand emit" where
  "getNodeValue v = (if isAlloca v then create (Load v) else ret v)"

definition getArgument :: "TJITContext \<Rightarrow> nat \<Rightarrow> operand emit" where
  "getArgument jit index = bnd (lift_res (nth_res (argumentValues jit) index)) getNodeValue"

definition getCurrentContext :: "TJITContext \<Rightarrow> operand emit" where
  "getCurrentContext jit = (if methodAllocates jit then create (Load (contextHolder jit)) else ret (contextHolder jit))"

definition getSelf :: "TJITContext \<Rightarrow> operand emit" where
  "getSelf jit = (if methodAllocates jit then create (Load (selfHolder jit)) else ret (selfHolder jit))"

definition allocateRoot :: "operand emit" where
  "allocateRoot =
     bnd (gets ir_valueCount) (\<lambda>n.
     bnd (modify (\<lambda>b. b\<lparr>ir_valueCount := n + 3\<rparr>)) (\<lambda>_.
     bnd (gets ir_preamble) (\<lambda>k.
     bnd (changeBlock k (\<lambda>blk. blk\<lparr>block_instrs :=
       [(n, Alloca 4), (n + 1, BitCast (Slot n) ty_rootPtr), (n + 2, Call fn_gcroot [Reg (n + 1), Object NULL])]
       @ block_instrs blk\<rparr>)) (\<lambda>_. ret (Slot n)))))"

definition protectPointer :: "operand \<Rightarrow> operand emit" where
  "protectPointer v = bnd allocateRoot (\<lambda>holder. bnd (perform (Store v holder)) (\<lambda>_. ret holder))"

definition protectProducerNode :: "TJITContext \<Rightarrow> operand \<Rightarrow> operand emit" where
  "protectProducerNode jit v = (if nodeProtected jit then protectPointer v else ret v)"

text \<open>An object on the machine stack: its bytes and its holder, both allocated in the preamble.\<close>

definition allocateStackObject :: "u32 \<Rightarrow> u32 \<Rightarrow> operand emit" where
  "allocateStackObject baseSize fieldsCount =
     bnd (gets ir_valueCount) (\<lambda>n.
     bnd (modify (\<lambda>b. b\<lparr>ir_valueCount := n + 5\<rparr>)) (\<lambda>_.
     bnd (gets ir_preamble) (\<lambda>k.
     bnd (changeBlock k (\<lambda>blk. blk\<lparr>block_instrs :=
       [(n, Alloca (baseSize + 4 * fieldsCount)), (n + 1, Alloca 4),
        (n + 2, BitCast (Slot (n + 1)) ty_rootPtr), (n + 3, BitCast StackObjectMeta ty_bytes),
        (n + 4, Call fn_gcroot [Reg (n + 2), Reg (n + 3)])] @ block_instrs blk\<rparr>)) (\<lambda>_.
     bnd (create (BitCast (Slot n) ty_object)) (\<lambda>newObject.
     bnd (perform (Store newObject (Slot (n + 1)))) (\<lambda>_. ret (Slot n)))))))"

definition createArray :: "TJITContext \<Rightarrow> u32 \<Rightarrow> (operand \<times> u32) emit" where
  "createArray jit elementsCount =
     (let arraySize = sizeof_TObject + 4 * elementsCount in
      bnd (allocateStackObject sizeof_TObject elementsCount) (\<lambda>objectSlot.
      bnd (perform (MemSet objectSlot arraySize)) (\<lambda>_.
      bnd (create (BitCast objectSlot ty_object)) (\<lambda>arrayObject.
      bnd (perform (Call fn_setObjectSize [arrayObject, Int32 elementsCount])) (\<lambda>_.
      bnd (perform (Call fn_setObjectClass [arrayObject, Object (arrayClass (jitGlobals jit))])) (\<lambda>_.
      ret (arrayObject, arraySize)))))))"

definition call1 :: "callee \<Rightarrow> operand \<Rightarrow> operand emit" where
  "call1 f x = create (Call f [x])"

definition call2 :: "callee \<Rightarrow> operand \<Rightarrow> operand \<Rightarrow> operand emit" where
  "call2 f x y = create (Call f [x, y])"

definition selectBool :: "TJITContext \<Rightarrow> operand \<Rightarrow> operand emit" where
  "selectBool jit condition =
     create (Select condition (Object (trueObject (jitGlobals jit))) (Object (falseObject (jitGlobals jit))))"

section \<open>The small-integer primitives\<close>

definition newIntegerOf :: "operand emit \<Rightarrow> operand emit" where
  "newIntegerOf c = bnd c (call1 fn_newInteger)"

definition compileDivision :: "binary_op \<Rightarrow> operand \<Rightarrow> operand \<Rightarrow> nat \<Rightarrow> operand emit" where
  "compileDivision opn leftOperand rightOperand primitiveFailedBB =
     bnd (create (Binary op_ICmpEQ rightOperand (Int32 0))) (\<lambda>isZero.
     bnd createBasicBlock (\<lambda>divBB.
     bnd (terminateWith (CondBr isZero primitiveFailedBB divBB)) (\<lambda>_.
     bnd (setInsertPoint divBB) (\<lambda>_.
     newIntegerOf (create (Binary opn leftOperand rightOperand))))))"

definition compileShift :: "operand \<Rightarrow> operand \<Rightarrow> nat \<Rightarrow> operand emit" where
  "compileShift leftOperand rightOperand primitiveFailedBB =
     bnd createBasicBlock (\<lambda>shiftRightBB.
     bnd createBasicBlock (\<lambda>shiftLeftBB.
     bnd createBasicBlock (\<lambda>shiftResultBB.
     bnd (create (Binary op_ICmpSLT rightOperand (Int32 0))) (\<lambda>rightIsNeg.
     bnd (terminateWith (CondBr rightIsNeg shiftRightBB shiftLeftBB)) (\<lambda>_.
     bnd (setInsertPoint shiftRightBB) (\<lambda>_.
     bnd (create (Neg rightOperand)) (\<lambda>rightOperandNeg.
     bnd (create (Binary op_AShr leftOperand rightOperandNeg)) (\<lambda>shiftRightResult.
     bnd (terminateWith (Br shiftResultBB)) (\<lambda>_.
     bnd (setInsertPoint shiftLeftBB) (\<lambda>_.
     bnd (create (Binary op_Shl leftOperand rightOperand)) (\<lambda>shiftLeftResult.
     bnd (create (Binary op_ICmpSGT leftOperand shiftLeftResult)) (\<lambda>shiftLeftFailed.
     bnd (terminateWith (CondBr shiftLeftFailed primitiveFailedBB shiftResultBB)) (\<lambda>_.
     bnd (setInsertPoint shiftResultBB) (\<lambda>_.
     bnd (create (PHI [])) (\<lambda>phi.
     bnd (addIncomingTo phi shiftRightResult shiftRightBB) (\<lambda>_.
     bnd (addIncomingTo phi shiftLeftResult shiftLeftBB) (\<lambda>_.
     call1 fn_newInteger phi)))))))))))))))))"

text \<open>The switch over the opcode; the function is called for these opcodes only.\<close>

definition compileOperation :: "TJITContext \<Rightarrow> TPrimitive \<Rightarrow> operand \<Rightarrow> operand \<Rightarrow> nat \<Rightarrow> operand emit" where
  "compileOperation jit opcode leftOperand rightOperand primitiveFailedBB =
     (case opcode of
        prim_smallIntAdd \<Rightarrow> newIntegerOf (create (Binary op_Add leftOperand rightOperand))
      | prim_smallIntDiv \<Rightarrow> compileDivision op_SDiv leftOperand rightOperand primitiveFailedBB
      | prim_smallIntMod \<Rightarrow> compileDivision op_SRem leftOperand rightOperand primitiveFailedBB
      | prim_smallIntLess \<Rightarrow> bnd (create (Binary op_ICmpSLT leftOperand rightOperand)) (selectBool jit)
      | prim_smallIntEqual \<Rightarrow> bnd (create (Binary op_ICmpEQ leftOperand rightOperand)) (selectBool jit)
      | prim_smallIntMul \<Rightarrow> newIntegerOf (create (Binary op_Mul leftOperand rightOperand))
      | prim_smallIntSub \<Rightarrow> newIntegerOf (create (Binary op_Sub leftOperand rightOperand))
      | prim_smallIntBitOr \<Rightarrow> newIntegerOf (create (Binary op_Or leftOperand rightOperand))
      | prim_smallIntBitAnd \<Rightarrow> newIntegerOf (create (Binary op_And leftOperand rightOperand))
      | prim_smallIntBitShift \<Rightarrow> compileShift leftOperand rightOperand primitiveFailedBB
      | _ \<Rightarrow> raise BadAccess)"

definition compileSmallIntPrimitive :: "TJITContext \<Rightarrow> TPrimitive \<Rightarrow> operand \<Rightarrow> operand \<Rightarrow> nat \<Rightarrow> operand emit" where
  "compileSmallIntPrimitive jit opcode leftObject rightObject primitiveFailedBB =
     bnd (call1 fn_isSmallInteger rightObject) (\<lambda>rightIsInt.
     bnd (call1 fn_isSmallInteger leftObject) (\<lambda>leftIsInt.
     bnd (create (Binary op_And rightIsInt leftIsInt)) (\<lambda>areIntsCond.
     bnd createBasicBlock (\<lambda>areIntsBB.
     bnd (terminateWith (CondBr areIntsCond areIntsBB primitiveFailedBB)) (\<lambda>_.
     bnd (setInsertPoint areIntsBB) (\<lambda>_.
     bnd (call1 fn_getIntegerValue rightObject) (\<lambda>rightOperand.
     bnd (call1 fn_getIntegerValue leftObject) (\<lambda>leftOperand.
     compileOperation jit opcode leftOperand rightOperand primitiveFailedBB))))))))"

section \<open>Access to objects\<close>

text \<open>
  The index check of the four access primitives: all of it is computed before the branch.  Both pairs of
  cases of the switch differ in the access only.
\<close>

definition compileIndexCheck :: "operand \<Rightarrow> operand \<Rightarrow> nat \<Rightarrow> operand emit" where
  "compileIndexCheck object indexObject primitiveFailedBB =
     bnd createBasicBlock (\<lambda>indexChecked.
     bnd (call1 fn_isSmallInteger indexObject) (\<lambda>indexIsSmallInt.
     bnd (call1 fn_getIntegerValue indexObject) (\<lambda>index.
     bnd (create (Binary op_Sub index (Int32 1))) (\<lambda>actualIndex.
     bnd (call1 fn_getObjectSize object) (\<lambda>objectSize.
     bnd (create (Binary op_ICmpSGE actualIndex (Int32 0))) (\<lambda>indexGEZero.
     bnd (create (Binary op_ICmpSLT actualIndex objectSize)) (\<lambda>indexLTSize.
     bnd (create (Binary op_And indexGEZero indexLTSize)) (\<lambda>boundaryOk.
     bnd (create (Binary op_And indexIsSmallInt boundaryOk)) (\<lambda>indexOk.
     bnd (terminateWith (CondBr indexOk indexChecked primitiveFailedBB)) (\<lambda>_.
     bnd (setInsertPoint indexChecked) (\<lambda>_. ret actualIndex)))))))))))"

definition compileArrayAccess :: "bool \<Rightarrow> operand \<Rightarrow> operand \<Rightarrow> operand \<Rightarrow> nat \<Rightarrow> operand emit" where
  "compileArrayAccess isPut arrayObject indexObject valueObject primitiveFailedBB =
     bnd (compileIndexCheck arrayObject indexObject primitiveFailedBB) (\<lambda>actualIndex.
     if isPut
     then bnd (call2 fn_getObjectFieldPtr arrayObject actualIndex) (\<lambda>fieldPointer.
          bnd (perform (Call rt_checkRoot [valueObject, fieldPointer])) (\<lambda>_.
          bnd (perform (Store valueObject fieldPointer)) (\<lambda>_. ret arrayObject)))
     else call2 fn_getObjectField arrayObject actualIndex)"

definition compileStringAccess :: "bool \<Rightarrow> operand \<Rightarrow> operand \<Rightarrow> operand \<Rightarrow> nat \<Rightarrow> operand emit" where
  "compileStringAccess isPut stringObject indexObject valueObject primitiveFailedBB =
     bnd (compileIndexCheck stringObject indexObject primitiveFailedBB) (\<lambda>actualIndex.
     bnd (call1 fn_getObjectFields stringObject) (\<lambda>fields.
     bnd (create (BitCast fields ty_bytes)) (\<lambda>bytes.
     bnd (create (GEP bytes actualIndex)) (\<lambda>bytePtr.
     if isPut
     then bnd (call1 fn_getIntegerValue valueObject) (\<lambda>valueInt.
          bnd (create (TruncTo8 valueInt)) (\<lambda>byte.
          bnd (perform (Store byte bytePtr)) (\<lambda>_. ret stringObject)))
     else bnd (create (Load bytePtr)) (\<lambda>byte.
          bnd (create (ZExtTo32 byte)) (call1 fn_newInteger))))))"

definition compileGetSize :: "operand \<Rightarrow> operand emit" where
  "compileGetSize object =
     bnd (call1 fn_isSmallInteger object) (\<lambda>objectIsSmallInt.
     bnd createBasicBlock (\<lambda>asSmallInt.
     bnd createBasicBlock (\<lambda>asObject.
     bnd (terminateWith (CondBr objectIsSmallInt asSmallInt asObject)) (\<lambda>_.
     bnd (setInsertPoint asSmallInt) (\<lambda>_.
     bnd (call1 fn_newInteger (Int32 0)) (\<lambda>result.
     bnd (terminateWith (Ret result)) (\<lambda>_.
     bnd (setInsertPoint asObject) (\<lambda>_.
     newIntegerOf (call1 fn_getObjectSize object)))))))))"

section \<open>Allocation and blocks\<close>

definition compileAllocation :: "bool \<Rightarrow> operand \<Rightarrow> operand \<Rightarrow> operand emit" where
  "compileAllocation isBinaryObject klassObject sizeObject =
     bnd (create (BitCast klassObject ty_object)) (\<lambda>klass.
     bnd (call1 fn_getIntegerValue sizeObject) (\<lambda>size.
     if isBinaryObject
     then bnd (call2 rt_newBinaryObject klass size) (\<lambda>newInstance. create (BitCast newInstance ty_object))
     else bnd (call1 fn_getSlotSize size) (\<lambda>slotSize. call2 rt_newOrdinaryObject klass slotSize)))"

definition compileClone :: "operand \<Rightarrow> operand \<Rightarrow> operand emit" where
  "compileClone original klassObject =
     bnd (protectPointer original) (\<lambda>originalHolder.
     bnd (create (BitCast klassObject ty_object)) (\<lambda>klass.
     bnd (call1 fn_getObjectSize original) (\<lambda>dataSize.
     bnd (call2 rt_newBinaryObject klass dataSize) (\<lambda>clone.
     bnd (create (Load originalHolder)) (\<lambda>loaded.
     bnd (create (BitCast loaded ty_object)) (\<lambda>originalObject.
     bnd (create (BitCast clone ty_object)) (\<lambda>cloneObject.
     bnd (call1 fn_getObjectFields originalObject) (\<lambda>sourceFields.
     bnd (call1 fn_getObjectFields cloneObject) (\<lambda>destFields.
     bnd (create (BitCast sourceFields ty_bytes)) (\<lambda>source.
     bnd (create (BitCast destFields ty_bytes)) (\<lambda>destination.
     bnd (perform (Call fn_memcpy [destination, source, dataSize, Int32 0, Bool1 False])) (\<lambda>_.
     ret cloneObject))))))))))))"

text \<open>The loop over the arguments of the block, the last one first.\<close>

primrec storeBlockArguments :: "TJITContext \<Rightarrow> operand \<Rightarrow> operand \<Rightarrow> nat \<Rightarrow> unit emit" where
  "storeBlockArguments jit blockTemps argumentLocation 0 = ret ()"
| "storeBlockArguments jit blockTemps argumentLocation (Suc index) =
     bnd (create (Binary op_Add argumentLocation (Int32 (of_nat index)))) (\<lambda>fieldIndex.
     bnd (getArgument jit (index + 1)) (\<lambda>argument.
     bnd (perform (Call fn_setObjectField [blockTemps, fieldIndex, argument])) (\<lambda>_.
     storeBlockArguments jit blockTemps argumentLocation index)))"

definition compileBlockInvoke :: "TJITContext \<Rightarrow> nat \<Rightarrow> operand emit" where
  "compileBlockInvoke jit primitiveFailedBB =
     (let argCount = (ucast (nodeArgument jit) - 1 :: u32) in
      bnd (getArgument jit 0) (\<lambda>object.
      bnd (create (BitCast object ty_object)) (\<lambda>block.
      bnd (create (BitCast block ty_object)) (\<lambda>blockAsContext.
      bnd (call1 fn_getTemps blockAsContext) (\<lambda>blockTemps.
      bnd (call1 fn_getObjectSize blockTemps) (\<lambda>tempsSize.
      bnd (create (StructGEP block 1)) (\<lambda>argumentLocationPtr.
      bnd (create (Load argumentLocationPtr)) (\<lambda>argumentLocationField.
      bnd (create (IntToPtr argumentLocationField)) (\<lambda>argumentLocationObject.
      bnd (call1 fn_getIntegerValue argumentLocationObject) (\<lambda>argumentLocation.
      bnd createBasicBlock (\<lambda>tempsChecked.
      bnd (create (Binary op_Sub tempsSize argumentLocation)) (\<lambda>blockAcceptsArgCount.
      bnd (create (Binary op_ICmpSLE (Int32 argCount) blockAcceptsArgCount)) (\<lambda>tempSizeOk.
      bnd (terminateWith (CondBr tempSizeOk tempsChecked primitiveFailedBB)) (\<lambda>_.
      bnd (setInsertPoint tempsChecked) (\<lambda>_.
      bnd (storeBlockArguments jit blockTemps argumentLocation (unat argCount)) (\<lambda>_.
      bnd (getCurrentContext jit) (\<lambda>ctx.
      call2 rt_invokeBlock block ctx)))))))))))))))))"

definition compileThrow :: "TJITContext \<Rightarrow> operand emit" where
  "compileThrow jit =
     bnd (call1 fn_cxa_allocate_exception SizeOfPointer) (\<lambda>expnBuffer.
     bnd (create (BitCast expnBuffer ty_rootPtr)) (\<lambda>expnTypedBuffer.
     bnd (getCurrentContext jit) (\<lambda>ctx.
     bnd (perform (Store ctx expnTypedBuffer)) (\<lambda>_.
     bnd (create (BitCast ContextTypeInfo ty_bytes)) (\<lambda>typeInfo.
     bnd (perform (Call fn_cxa_throw [expnBuffer, typeInfo, Object NULL])) (\<lambda>_.
     ret (Object (nilObject (jitGlobals jit)))))))))"

section \<open>Sends and calls of the virtual machine\<close>

definition callOrInvoke :: "TJITContext \<Rightarrow> operand list \<Rightarrow> nat \<Rightarrow> operand emit" where
  "callOrInvoke jit args normal =
     (if methodHasBlockReturn jit
      then bnd newValue (\<lambda>r. bnd (terminateWith (Invoke r rt_sendMessage args normal (exceptionLandingPad jit))) (\<lambda>_.
           ret (Reg r)))
      else create (Call rt_sendMessage args))"

definition compileSendPrimitive :: "TJITContext \<Rightarrow> nat \<Rightarrow> operand emit" where
  "compileSendPrimitive jit primitiveSucceededBB =
     bnd (getArgument jit 1) (\<lambda>argsValue.
     bnd (create (BitCast argsValue ty_object)) (\<lambda>args.
     bnd (getArgument jit 0) (\<lambda>selectorValue.
     bnd (create (BitCast selectorValue ty_object)) (\<lambda>selector.
     bnd (getCurrentContext jit) (\<lambda>ctx.
     callOrInvoke jit [ctx, selector, args, Object NULL, Int32 (nodeIndex jit)] primitiveSucceededBB)))))"

text \<open>
  The loop of the default case: \<open>getArgument\<close> is called with its default index, so every field gets the
  first argument.
\<close>

primrec storePrimitiveArguments :: "TJITContext \<Rightarrow> operand \<Rightarrow> nat \<Rightarrow> unit emit" where
  "storePrimitiveArguments jit argumentsObject 0 = ret ()"
| "storePrimitiveArguments jit argumentsObject (Suc index) =
     bnd (getArgument jit 0) (\<lambda>argument.
     bnd (perform (Call fn_setObjectField [argumentsObject, Int32 (of_nat index), argument])) (\<lambda>_.
     storePrimitiveArguments jit argumentsObject index))"

definition compileVMPrimitive :: "TJITContext \<Rightarrow> u8 \<Rightarrow> (operand \<times> operand) emit" where
  "compileVMPrimitive jit opcode =
     bnd (createArray jit (ucast (nodeArgument jit))) (\<lambda>(argumentsObject, _).
     bnd (storePrimitiveArguments jit argumentsObject (unat (nodeArgument jit))) (\<lambda>_.
     bnd (create (BitCast argumentsObject ty_object)) (\<lambda>argumentsArray.
     bnd newValue (\<lambda>r. bnd (gets ir_insertBlock) (\<lambda>k.
     bnd (changeBlock k (\<lambda>blk. blk\<lparr>block_instrs := block_instrs blk @ [(r, Alloca 1)]\<rparr>)) (\<lambda>_.
     let primitiveFailedPtr = Slot r in
     bnd (perform (Store (Bool1 False) primitiveFailedPtr)) (\<lambda>_.
     bnd (create (Call rt_callPrimitive [Int8 opcode, argumentsArray, primitiveFailedPtr])) (\<lambda>primitiveResult.
     bnd (create (Load primitiveFailedPtr)) (\<lambda>primitiveFailed.
     ret (primitiveResult, primitiveFailed))))))))))"

definition compileBulkReplace :: "TJITContext \<Rightarrow> (operand \<times> operand) emit" where
  "compileBulkReplace jit =
     bnd (getArgument jit 4) (\<lambda>destination.
     bnd (getArgument jit 3) (\<lambda>sourceStartOffset.
     bnd (getArgument jit 2) (\<lambda>source.
     bnd (getArgument jit 1) (\<lambda>destinationStopOffset.
     bnd (getArgument jit 0) (\<lambda>destinationStartOffset.
     bnd (create (Call rt_bulkReplace
       [destination, destinationStartOffset, destinationStopOffset, source, sourceStartOffset])) (\<lambda>succeeded.
     bnd (create (NotOf succeeded)) (\<lambda>primitiveFailed. ret (destination, primitiveFailed))))))))"

definition compilePutChar :: "TJITContext \<Rightarrow> operand emit" where
  "compilePutChar jit =
     bnd (getArgument jit 0) (\<lambda>intObject.
     bnd (call1 fn_getIntegerValue intObject) (\<lambda>intValue.
     bnd (create (TruncTo8 intValue)) (\<lambda>charValue.
     bnd (perform (Call fn_putchar [charValue])) (\<lambda>_.
     ret (Object (nilObject (jitGlobals jit)))))))"

section \<open>Dispatch\<close>

text \<open>The value of the primitive and the condition under which it failed, false unless a case sets it.\<close>

definition succeeds :: "operand emit \<Rightarrow> (operand \<times> operand) emit" where
  "succeeds c = bnd c (\<lambda>v. ret (v, Bool1 False))"

definition compilePrimitive :: "TJITContext \<Rightarrow> u8 \<Rightarrow> nat \<Rightarrow> nat \<Rightarrow> (operand \<times> operand) emit" where
  "compilePrimitive jit opcode primitiveSucceededBB primitiveFailedBB =
     (let prim = primitive_cast opcode in
      if prim = prim_objectsAreEqual
      then bnd (getArgument jit 1) (\<lambda>object2. bnd (getArgument jit 0) (\<lambda>object1.
           bnd (create (Binary op_ICmpEQ object1 object2)) (\<lambda>result. succeeds (selectBool jit result))))
      else if prim = prim_ioPutChar then succeeds (compilePutChar jit)
      else if prim = prim_getClass
      then bnd (getArgument jit 0) (\<lambda>object. bnd (call1 fn_getObjectClass object) (\<lambda>klass.
           succeeds (create (BitCast klass ty_object))))
      else if prim = prim_getSize then bnd (getArgument jit 0) (\<lambda>object. succeeds (compileGetSize object))
      else if prim = prim_startNewProcess
      then bnd (getArgument jit 0) (\<lambda>processObject. bnd (create (BitCast processObject ty_object)) (\<lambda>process.
           succeeds (newIntegerOf (call1 fn_executeProcess process))))
      else if prim = prim_allocateObject \<or> prim = prim_allocateByteArray
      then bnd (getArgument jit 1) (\<lambda>sizeObject. bnd (getArgument jit 0) (\<lambda>klassObject.
           succeeds (compileAllocation (prim = prim_allocateByteArray) klassObject sizeObject)))
      else if prim = prim_cloneByteObject
      then bnd (getArgument jit 1) (\<lambda>klassObject. bnd (getArgument jit 0) (\<lambda>original.
           succeeds (compileClone original klassObject)))
      else if prim = prim_integerNew then succeeds (getArgument jit 0)
      else if prim = prim_blockInvoke then succeeds (compileBlockInvoke jit primitiveFailedBB)
      else if prim = prim_throwError then succeeds (compileThrow jit)
      else if prim = prim_arrayAt
      then bnd (getArgument jit 1) (\<lambda>indexObject. bnd (getArgument jit 0) (\<lambda>arrayObject.
           succeeds (compileArrayAccess False arrayObject indexObject (Object NULL) primitiveFailedBB)))
      else if prim = prim_arrayAtPut
      then bnd (getArgument jit 2) (\<lambda>indexObject. bnd (getArgument jit 1) (\<lambda>arrayObject.
           bnd (getArgument jit 0) (\<lambda>valueObject.
           succeeds (compileArrayAccess True arrayObject indexObject valueObject primitiveFailedBB))))
      else if prim = prim_stringAt
      then bnd (getArgument jit 1) (\<lambda>indexObject. bnd (getArgument jit 0) (\<lambda>stringObject.
           succeeds (compileStringAccess False stringObject indexObject (Object NULL) primitiveFailedBB)))
      else if prim = prim_stringAtPut
      then bnd (getArgument jit 2) (\<lambda>indexObject. bnd (getArgument jit 1) (\<lambda>stringObject.
           bnd (getArgument jit 0) (\<lambda>valueObject.
           succeeds (compileStringAccess True stringObject indexObject valueObject primitiveFailedBB))))
      else if prim \<in> {prim_smallIntAdd, prim_smallIntDiv, prim_smallIntMod, prim_smallIntLess, prim_smallIntEqual,
                      prim_smallIntMul, prim_smallIntSub, prim_smallIntBitOr, prim_smallIntBitAnd,
                      prim_smallIntBitShift}
      then bnd (getArgument jit 1) (\<lambda>rightObject. bnd (getArgument jit 0) (\<lambda>leftObject.
           succeeds (compileSmallIntPrimitive jit prim leftObject rightObject primitiveFailedBB)))
      else if prim = prim_bulkReplace then compileBulkReplace jit
      else if prim = prim_LLVMsendMessage then succeeds (compileSendPrimitive jit primitiveSucceededBB)
      else compileVMPrimitive jit opcode)"

text \<open>
  \<open>doPrimitive\<close>.  The code after the primitive is written to the second block, which runs when the primitive
  fails.  The second result is the value of the node.
\<close>

definition finishPrimitive :: "nat \<Rightarrow> nat \<Rightarrow> operand \<times> operand \<Rightarrow> unit emit" where
  "finishPrimitive primitiveSucceededBB primitiveFailedBB r =
     bnd (terminateWith (CondBr (snd r) primitiveFailedBB primitiveSucceededBB)) (\<lambda>_.
     bnd (setInsertPoint primitiveSucceededBB) (\<lambda>_.
     bnd (terminateWith (Ret (fst r))) (\<lambda>_.
     setInsertPoint primitiveFailedBB)))"

definition compileDoPrimitive :: "TJITContext \<Rightarrow> operand emit" where
  "compileDoPrimitive jit =
     bnd createBasicBlock (\<lambda>primitiveSucceededBB.
     bnd createBasicBlock (\<lambda>primitiveFailedBB.
     bnd (compilePrimitive jit (ucast (nodeExtra jit)) primitiveSucceededBB primitiveFailedBB) (\<lambda>r.
     bnd (finishPrimitive primitiveSucceededBB primitiveFailedBB r) (\<lambda>_.
     ret (Object (nilObject (jitGlobals jit)))))))"

end
