(* ===== verification/CompiledFragments.thy ===== *)
theory CompiledFragments
  imports CompilePrimitives VMArith
begin

text \<open>
  The pieces of compiled primitives.  Every lemma about a piece says that the code it emits, run after any code
  before it, computes what the virtual machine computes from the same words: value, failure, fault and state.
\<close>

text \<open>The primitives the compiler writes by one function.\<close>

definition arithmetic_primitives :: "TPrimitive set" where
  "arithmetic_primitives = {prim_smallIntAdd, prim_smallIntDiv, prim_smallIntMod, prim_smallIntLess, prim_smallIntEqual,
     prim_smallIntMul, prim_smallIntSub, prim_smallIntBitOr, prim_smallIntBitAnd, prim_smallIntBitShift}"

definition small_int_on :: "TPrimitive \<Rightarrow> ptr \<Rightarrow> ptr \<Rightarrow> ('a vm_scheme, ptr \<times> bool) comp" where
  "small_int_on prim l r =
     (if \<not> isSmallInteger l \<or> \<not> isSmallInteger r then failed
      else callSmallIntPrimitive prim (TInteger_getValue l) (TInteger_getValue r))"

section \<open>The values of operands and functions\<close>

text \<open>An operand that is known before value number \<open>v\<close> is made keeps its value.\<close>

definition below :: "nat \<Rightarrow> operand \<Rightarrow> bool" where
  "below v x \<longleftrightarrow> (case x of Reg r \<Rightarrow> r < v | Slot r \<Rightarrow> r < v | _ \<Rightarrow> True)"

lemma operand_value_upd [simp]: "below v x \<Longrightarrow> v \<le> r \<Longrightarrow> operand_value (env(r := w)) x = operand_value env x"
  by (cases x) (auto simp: below_def operand_value_def)

lemma operand_value_simps [simp]:
  "operand_value env (Reg r) = env r" "operand_value env (Int32 i) = V32 i" "operand_value env (Bool1 t) = V1 t"
  "operand_value env (Int8 c) = V8 c" "operand_value env (Object p) = V32 p"
  by (simp_all add: operand_value_def)

lemma as_simps [simp]: "as32 (V32 w) = ret w" "as8 (V8 c) = ret c" "as1 (V1 t) = ret t" "asField (VField sl) = ret sl"
  by (simp_all add: as32_def as8_def as1_def asField_def)

lemma isSmallInteger_bit: "isSmallInteger v \<longleftrightarrow> bit v 0"
  by (simp add: isSmallInteger_def and_one_eq bit_0 odd_iff_mod_2_eq_one)

lemma call_value_simps [simp]:
  "call_value fn_isSmallInteger [V32 v] = ret (V1 (isSmallInteger v))"
  "call_value fn_getIntegerValue [V32 v] = ret (V32 (TInteger_getValue v))"
  "call_value fn_newInteger [V32 v] = ret (V32 (TInteger_of_int v))"
  "call_value fn_getObjectSize [V32 p] = bnd (mem (\<lambda>m. getSize m p)) (\<lambda>n. ret (V32 n))"
  "call_value fn_getObjectClass [V32 p] = bnd (objectClass p) (\<lambda>c. ret (V32 c))"
  "call_value fn_getObjectField [V32 p, V32 i] = bnd (getMember p (unat i)) (\<lambda>v. ret (V32 v))"
  "call_value fn_getObjectFieldPtr [V32 p, V32 i] = ret (VField (p, unat i))"
  "call_value fn_getObjectFields [V32 p] = ret (VField (p, 0))"
  "call_value rt_checkRoot [V32 v, VField sl] = bnd (checkRoot v sl) (\<lambda>_. ret VVoid)"
  "call_value rt_bulkReplace [V32 p1, V32 p2, V32 p3, V32 p4, V32 p5] = bnd (doBulkReplace p1 p2 p3 p4 p5) (\<lambda>t. ret (V1 t))"
  by (simp_all add: call_value_def isSmallInteger_bit TInteger_getValue_def getIntegerValue_def
      TInteger_of_int_def newInteger_def objectClass_def fun_eq_iff bnd_def ret_def)

lemma binary_value_words [simp]: "binary_value opn (V32 a) (V32 b) = word_operation opn a b"
  "binary_value op_And (V1 x) (V1 y) = Inr (V1 (x \<and> y))"
  by (simp_all add: binary_value_def)

lemma run_instrs_append:
  "run_instrs prev (xs @ ys) env = bnd (run_instrs prev xs env) (run_instrs prev ys)"
  by (induction xs arbitrary: env) (simp_all add: fun_eq_iff bnd_def ret_def split: sum.splits)

lemmas builder_defs = create_def newValue_def changeBlock_def perform_def terminateWith_def createBasicBlock_def
  setInsertPoint_def addIncomingTo_def call1_def call2_def newIntegerOf_def selectBool_def finishPrimitive_def
  succeeds_def bnd_def gets_def modify_def ret_def

lemmas run_defs = instr_value_def word_operation_def

section \<open>Code written and run\<close>

text \<open>
  \<open>ready\<close>: the insertion block is open, the two blocks of the primitive empty, and running the code written
  so far has left the registers \<open>env1\<close> and the state \<open>s1\<close>.  \<open>leads_to\<close>: the code \<open>c\<close> and the
  frame around it are written, the failure block is open, and a run has the outcome \<open>Z\<close>; six blocks are the
  most a run passes.
\<close>

definition ready :: "IRBuilder \<Rightarrow> nat \<Rightarrow> nat \<Rightarrow> nat \<Rightarrow> registers \<Rightarrow> 'a vm_scheme \<Rightarrow> registers \<Rightarrow> 'a vm_scheme \<Rightarrow> bool" where
  "ready b okB failB prev env s env1 s1 \<longleftrightarrow>
     ir_insertBlock b < ir_blockCount b \<and> okB < ir_blockCount b \<and> failB < ir_blockCount b \<and>
     distinct [ir_insertBlock b, okB, failB] \<and> ir_blocks b okB = empty_block \<and> ir_blocks b failB = empty_block \<and>
     block_terminator (ir_blocks b (ir_insertBlock b)) = None \<and>
     run_instrs prev (block_instrs (ir_blocks b (ir_insertBlock b))) env s = Inr (env1, s1)"

definition leads_to :: "(operand \<times> operand) emit \<Rightarrow> IRBuilder \<Rightarrow> nat \<Rightarrow> nat \<Rightarrow> nat \<Rightarrow> registers \<Rightarrow> 'a vm_scheme \<Rightarrow>
    (ir_end \<times> 'a vm_scheme) res \<Rightarrow> bool" where
  "leads_to c b okB failB prev env s Z \<longleftrightarrow> (\<exists>b'. bnd c (finishPrimitive okB failB) b = Inr ((), b') \<and>
     ir_insertBlock b' = failB \<and> run_code 6 (ir_blocks b') prev (ir_insertBlock b) env s = Z)"

definition vm_outcome :: "nat \<Rightarrow> ('a vm_scheme, ptr \<times> bool) comp \<Rightarrow> ('a vm_scheme, ir_end) comp" where
  "vm_outcome failB c = bnd c (\<lambda>(v, primitiveFailed). ret (if primitiveFailed then IrOpen failB else IrReturned v))"

definition word_in :: "IRBuilder \<Rightarrow> registers \<Rightarrow> operand \<Rightarrow> u32 \<Rightarrow> bool" where
  "word_in b env x w \<longleftrightarrow> below (ir_valueCount b) x \<and> operand_value env x = V32 w"

lemma readyE:
  assumes "ready b okB failB prev env s env1 s1"
  obtains B n v k pre ins where
    "b = \<lparr>ir_blocks = B, ir_blockCount = n, ir_valueCount = v, ir_insertBlock = k, ir_preamble = pre\<rparr>"
    "k < n" "okB < n" "failB < n" "k \<noteq> okB" "k \<noteq> failB" "okB \<noteq> failB"
    "B k = \<lparr>block_instrs = ins, block_terminator = None\<rparr>" "B okB = empty_block" "B failB = empty_block"
    "run_instrs prev ins env s = Inr (env1, s1)"
proof (cases b)
  case (fields B n v k pre)
  with assms show thesis unfolding ready_def by (cases "B k") (auto intro: that)
qed

lemma run_code_6: "run_code 6 = run_code (Suc (Suc (Suc (Suc (Suc (Suc 0))))))"
  by (simp add: numeral_eq_Suc)

lemmas emission = builder_defs leads_to_def word_in_def run_code_6
lemmas running = run_instrs_append bnd_def ret_def lift_res_def run_defs empty_block_def vm_outcome_def
  succeed_def failed_def global_def gets_def

lemma leads_to_intro:
  assumes "ready b okB failB prev env s env1 s1"
    and "\<And>B n v k pre ins.
      \<lbrakk>b = \<lparr>ir_blocks = B, ir_blockCount = n, ir_valueCount = v, ir_insertBlock = k, ir_preamble = pre\<rparr>;
       k < n; okB < n; failB < n; k \<noteq> okB; k \<noteq> failB; okB \<noteq> failB;
       B k = \<lparr>block_instrs = ins, block_terminator = None\<rparr>; B okB = empty_block; B failB = empty_block;
       run_instrs prev ins env s = Inr (env1, s1)\<rbrakk> \<Longrightarrow> leads_to c b okB failB prev env s Z"
  shows "leads_to c b okB failB prev env s Z"
  using assms(1) by (rule readyE) (rule assms(2))

section \<open>Signed words\<close>

lemma sint_TInteger_getValue: "- (2 ^ 30) \<le> sint (TInteger_getValue v)" "sint (TInteger_getValue v) < 2 ^ 30"
proof -
  have "- (2 ^ 31) \<le> sint v \<and> sint v < 2 ^ 31" using sint_range_size [of v] by (simp add: word_size)
  moreover have "2 * (sint v div 2) \<le> sint v" "sint v \<le> 2 * (sint v div 2) + 1" by simp_all
  ultimately have "- (2 ^ 30) \<le> sint v div 2 \<and> sint v div 2 < 2 ^ 30" by simp
  then show "- (2 ^ 30) \<le> sint (TInteger_getValue v)" "sint (TInteger_getValue v) < 2 ^ 30"
    by (simp_all add: TInteger_getValue_def getIntegerValue_def sint_signed_drop_bit_eq drop_bit_eq_div)
qed

lemma sint_cases: "sint (i :: u32) = (if uint i < 2 ^ 31 then uint i else uint i - 2 ^ 32)"
proof -
  have bound: "0 \<le> uint i" "uint i < 2 ^ 32" using unsigned_less [of i, where ?'a = int] by simp_all
  have "sint i = signed_take_bit 31 (uint i)" by (simp add: sint_uint)
  also have "\<dots> = (if uint i < 2 ^ 31 then uint i else uint i - 2 ^ 32)"
  proof (cases "uint i < 2 ^ 31")
    case True
    moreover have "- (2 ^ 31) \<le> uint i" by (rule order_trans [of _ 0]) simp_all
    ultimately have "signed_take_bit 31 (uint i) = uint i" by (intro signed_take_bit_int_eq_self)
    then show ?thesis using True by simp
  next
    case False
    then have "signed_take_bit 31 (uint i - 2 ^ 32) = uint i - 2 ^ 32"
      using bound by (intro signed_take_bit_int_eq_self) simp_all
    moreover have "signed_take_bit 31 (uint i - 2 ^ 32) = signed_take_bit 31 (uint i)"
      by (simp add: signed_take_bit_eq_iff_take_bit_eq take_bit_eq_mod)
    ultimately show ?thesis using False by simp
  qed
  finally show ?thesis .
qed

lemma index_in_bounds:
  assumes "sz < 2 ^ 30"
  shows "(0 \<le> sint i \<and> sint i < sint sz) \<longleftrightarrow> \<not> sz \<le> (i :: u32)" and "0 \<le> sint i \<Longrightarrow> nat (sint i) = unat i"
proof -
  have "uint sz < 2 ^ 30" using assms by (simp add: word_less_def)
  moreover have "0 \<le> uint i" "uint i < 2 ^ 32" using unsigned_less [of i, where ?'a = int] by simp_all
  ultimately show "(0 \<le> sint i \<and> sint i < sint sz) \<longleftrightarrow> \<not> sz \<le> i" "0 \<le> sint i \<Longrightarrow> nat (sint i) = unat i"
    unfolding sint_cases word_le_def unat_eq_nat_uint by auto
qed

lemma getSize_bound: "getSize m p = Inr sz \<Longrightarrow> sz < 2 ^ 30"
proof -
  assume "getSize m p = Inr sz"
  then obtain w :: u32 where "sz = drop_bit 2 w"
    by (auto simp: getSize_def bndR_def TSize_getSize_def split: sum.splits)
  moreover have "unat w < 2 ^ 32" using unsigned_less [of w, where ?'a = nat] by simp
  moreover have "unat (drop_bit 2 w) = unat w div 2 ^ 2" by (simp only: unat_drop_bit_eq) (simp only: drop_bit_eq_div)
  ultimately have "unat sz < 2 ^ 30" by (simp del: drop_bit_eq_div)
  then show ?thesis by (simp add: word_less_nat_alt)
qed

section \<open>Small integers\<close>

lemma compiled_operation:
  assumes "ready b okB failB prev env s env1 s1" "word_in b env1 L l" "word_in b env1 R r" "jitGlobals jit = globals s1"
    and "prim \<in> {prim_smallIntAdd, prim_smallIntLess, prim_smallIntEqual, prim_smallIntMul, prim_smallIntSub,
      prim_smallIntBitOr, prim_smallIntBitAnd}"
  shows "leads_to (succeeds (compileSmallIntPrimitive jit prim L R failB)) b okB failB prev env s
    (vm_outcome failB (small_int_on prim l r) s1)"
  using assms(1)
proof (rule leads_to_intro, goal_cases)
  case (1 B n v k pre ins)
  then show ?case
    using assms(2-)
    by (cases "isSmallInteger l"; cases "isSmallInteger r")
      (auto simp: small_int_on_def compileSmallIntPrimitive_def compileOperation_def emission running
        callSmallIntPrimitive_def boolObject_def)
qed

lemma shift_cases:
  obtains "sint y < 0" "unat (- y) < 32" | "sint y < 0" "\<not> unat (- y) < 32"
  | "\<not> sint y < 0" "unat y < 32" "sint (push_bit (unat y) x) < sint x"
  | "\<not> sint y < 0" "unat y < 32" "\<not> sint (push_bit (unat y) x) < sint x"
  | "\<not> sint y < 0" "\<not> unat (y :: u32) < 32"
  by blast

lemma compiled_shift:
  assumes "ready b okB failB prev env s env1 s1" "word_in b env1 L l" "word_in b env1 R r"
  shows "leads_to (succeeds (compileSmallIntPrimitive jit prim_smallIntBitShift L R failB)) b okB failB prev env s
    (vm_outcome failB (small_int_on prim_smallIntBitShift l r) s1)"
  using assms(1)
proof (rule leads_to_intro, goal_cases)
  case (1 B n v k pre ins)
  note code = compileSmallIntPrimitive_def compileOperation_def compileShift_def emission running small_int_on_def
  have args: "below v L" "operand_value env1 L = V32 l" "below v R" "operand_value env1 R = V32 r"
    using assms(2,3) 1(1) by (simp_all add: word_in_def)
  show ?case
  proof (cases "isSmallInteger l \<and> isSmallInteger r")
    case True
    then have ints: "isSmallInteger l" "isSmallInteger r" by simp_all
    define x where "x = TInteger_getValue l"
    define y where "y = TInteger_getValue r"
    show ?thesis
      by (rule shift_cases [where x = x and y = y])
        (use 1 args ints x_def [symmetric] y_def [symmetric] in
          \<open>simp_all add: code callSmallIntPrimitive_def bitShift_def raise_def\<close>)
  next
    case False
    then show ?thesis using args 1 by (auto simp: code)
  qed
qed

lemma compiled_division:
  assumes "ready b okB failB prev env s env1 s1" "word_in b env1 L l" "word_in b env1 R r"
    and "prim \<in> {prim_smallIntDiv, prim_smallIntMod}"
  shows "leads_to (succeeds (compileSmallIntPrimitive jit prim L R failB)) b okB failB prev env s
    (vm_outcome failB (small_int_on prim l r) s1)"
  using assms(1)
proof (rule leads_to_intro, goal_cases)
  case (1 B n v k pre ins)
  have "below v L" "operand_value env1 L = V32 l" "below v R" "operand_value env1 R = V32 r"
    using assms(2,3) 1(1) by (simp_all add: word_in_def)
  moreover have "\<not> sint (TInteger_getValue l) = - 2147483648"
    using sint_TInteger_getValue(1) [of l] by simp
  ultimately show ?case
    using assms(4) 1
    by (cases "isSmallInteger l"; cases "isSmallInteger r"; cases "TInteger_getValue r = 0")
      (auto simp: small_int_on_def compileSmallIntPrimitive_def compileOperation_def compileDivision_def division_def
        emission running callSmallIntPrimitive_def boolObject_def)
qed

lemma compiled_small_int:
  assumes "ready b okB failB prev env s env1 s1" "word_in b env1 L l" "word_in b env1 R r"
    and "jitGlobals jit = globals s1" and "prim \<in> arithmetic_primitives"
  shows "leads_to (succeeds (compileSmallIntPrimitive jit prim L R failB)) b okB failB prev env s
    (vm_outcome failB (small_int_on prim l r) s1)"
  using assms(5) compiled_operation [OF assms(1-4)] compiled_shift [OF assms(1-3)] compiled_division [OF assms(1-3)]
  unfolding arithmetic_primitives_def by auto

section \<open>Objects\<close>

lemma compiled_eq:
  assumes "ready b okB failB prev env s env1 s1" "word_in b env1 L l" "word_in b env1 R r" "jitGlobals jit = globals s1"
  shows "leads_to (bnd (create (Binary op_ICmpEQ L R)) (\<lambda>result. succeeds (selectBool jit result))) b okB failB prev env s
    (vm_outcome failB (bnd (boolObject (l = r)) succeed) s1)"
  using assms(1)
proof (rule leads_to_intro, goal_cases)
  case (1 B n v k pre ins)
  then show ?case using assms(2-) by (auto simp: emission running boolObject_def)
qed

lemma compiled_class:
  assumes "ready b okB failB prev env s env1 s1" "word_in b env1 x p"
  shows "leads_to (bnd (call1 fn_getObjectClass x) (\<lambda>klass. succeeds (create (BitCast klass ty_object)))) b okB failB prev env s
    (vm_outcome failB (bnd (objectClass p) succeed) s1)"
  using assms(1)
proof (rule leads_to_intro, goal_cases)
  case (1 B n v k pre ins)
  then show ?case
    using assms(2) by (auto simp: emission running objectClass_def cast_value_def split: sum.splits)
qed

lemma compiled_size:
  assumes "ready b okB failB prev env s env1 s1" "word_in b env1 x p"
  shows "leads_to (succeeds (compileGetSize x)) b okB failB prev env s
    (vm_outcome failB (bnd (if isSmallInteger p then ret 0 else mem (\<lambda>m. getSize m p)) (\<lambda>n.
       succeed (TInteger_of_int n))) s1)"
  using assms(1)
proof (rule leads_to_intro, goal_cases)
  case (1 B n v k pre ins)
  then show ?case
    using assms(2)
    by (cases "isSmallInteger p") (auto simp: emission running compileGetSize_def split: sum.splits)
qed

text \<open>An access with a Smalltalk index, the bounds check of the interpreter before it.\<close>

definition indexed :: "ptr \<Rightarrow> ptr \<Rightarrow> (nat \<Rightarrow> ('a vm_scheme, ptr \<times> bool) comp) \<Rightarrow> ('a vm_scheme, ptr \<times> bool) comp" where
  "indexed p i access =
     bnd (mem (\<lambda>m. getSize m p)) (\<lambda>n.
     let j = TInteger_getValue i - 1 in
     if \<not> isSmallInteger i \<or> n \<le> j then failed else access (unat j))"

lemma compiled_array_access:
  assumes "ready b okB failB prev env s env1 s1" "word_in b env1 x p" "word_in b env1 y i" "word_in b env1 z w"
  shows "leads_to (succeeds (compileArrayAccess isPut x y z failB)) b okB failB prev env s
    (vm_outcome failB (indexed p i (\<lambda>j. if isPut then bnd (storeField p j w) (\<lambda>_. succeed p) else bnd (getMember p j) succeed)) s1)"
  using assms(1)
proof (rule leads_to_intro, goal_cases)
  case (1 B n v k pre ins)
  have args: "below v x" "operand_value env1 x = V32 p" "below v y" "operand_value env1 y = V32 i" "below v z"
      "operand_value env1 z = V32 w"
    using assms(2-4) 1(1) by (simp_all add: word_in_def)
  show ?case
  proof (cases "getSize (objs s1) p")
    case (Inl e)
    then show ?thesis using args 1
      by (simp add: indexed_def emission running compileArrayAccess_def compileIndexCheck_def mem_def)
  next
    case (Inr sz)
    let ?j = "TInteger_getValue i - 1"
    have bounds: "?j \<ge> sz \<longleftrightarrow> \<not> (0 \<le> sint ?j \<and> sint ?j < sint sz)" "0 \<le> sint ?j \<Longrightarrow> nat (sint ?j) = unat ?j"
      using index_in_bounds [OF getSize_bound [OF Inr]] by simp_all
    show ?thesis
      unfolding indexed_def Let_def bounds(1)
      using args 1 Inr bounds(2)
      by (cases isPut; cases "isSmallInteger i"; cases "0 \<le> sint ?j \<and> sint ?j < sint sz")
        (auto simp: emission running compileArrayAccess_def compileIndexCheck_def storeField_def cast_value_def
          store_value_def load_value_def putMember_def mem_def mem_upd_def bounds(1) split: sum.splits)
  qed
qed

lemma compiled_string_access:
  assumes "ready b okB failB prev env s env1 s1" "word_in b env1 x p" "word_in b env1 y i" "word_in b env1 z w"
  shows "leads_to (succeeds (compileStringAccess isPut x y z failB)) b okB failB prev env s
    (vm_outcome failB (indexed p i (\<lambda>j. if isPut
       then bnd (mem_upd (\<lambda>m. putByte m p j (ucast (TInteger_getValue w)))) (\<lambda>_. succeed p)
       else bnd (mem (\<lambda>m. getByte m p j)) (\<lambda>c. succeed (TInteger_of_int (ucast c))))) s1)"
  using assms(1)
proof (rule leads_to_intro, goal_cases)
  case (1 B n v k pre ins)
  have args: "below v x" "operand_value env1 x = V32 p" "below v y" "operand_value env1 y = V32 i" "below v z"
      "operand_value env1 z = V32 w"
    using assms(2-4) 1(1) by (simp_all add: word_in_def)
  show ?case
  proof (cases "getSize (objs s1) p")
    case (Inl e)
    then show ?thesis using args 1
      by (simp add: indexed_def emission running compileStringAccess_def compileIndexCheck_def mem_def)
  next
    case (Inr sz)
    let ?j = "TInteger_getValue i - 1"
    have bounds: "?j \<ge> sz \<longleftrightarrow> \<not> (0 \<le> sint ?j \<and> sint ?j < sint sz)" "0 \<le> sint ?j \<Longrightarrow> nat (sint ?j) = unat ?j"
      using index_in_bounds [OF getSize_bound [OF Inr]] by simp_all
    show ?thesis
      unfolding indexed_def Let_def bounds(1)
      using args 1 Inr bounds(2)
      by (cases isPut; cases "isSmallInteger i"; cases "0 \<le> sint ?j \<and> sint ?j < sint sz")
        (auto simp: emission running compileStringAccess_def compileIndexCheck_def storeField_def cast_value_def
          store_value_def load_value_def putMember_def mem_def mem_upd_def bounds(1) split: sum.splits)
  qed
qed

lemma compiled_bulkReplace:
  assumes "ready b okB failB prev env s env1 s1" "word_in b env1 x1 p1" "word_in b env1 x2 p2" "word_in b env1 x3 p3"
    "word_in b env1 x4 p4" "word_in b env1 x5 p5"
  shows "leads_to (bnd (create (Call rt_bulkReplace [x1, x2, x3, x4, x5])) (\<lambda>succeeded.
     bnd (create (NotOf succeeded)) (\<lambda>primitiveFailed. ret (x1, primitiveFailed)))) b okB failB prev env s
    (vm_outcome failB (bnd (doBulkReplace p1 p2 p3 p4 p5) (\<lambda>t. if t then succeed p1 else failed)) s1)"
  using assms(1)
proof (rule leads_to_intro, goal_cases)
  case (1 B n v k pre ins)
  have "below v x1" "operand_value env1 x1 = V32 p1" "below v x2" "operand_value env1 x2 = V32 p2"
    "below v x3" "operand_value env1 x3 = V32 p3" "below v x4" "operand_value env1 x4 = V32 p4"
    "below v x5" "operand_value env1 x5 = V32 p5"
    using assms(2-6) 1(1) by (simp_all add: word_in_def)
  then show ?case using 1
    by (auto simp: emission running split: sum.splits)
qed

lemma compiled_value:
  assumes "ready b okB failB prev env s env1 s1" "word_in b env1 x p"
  shows "leads_to (ret (x, Bool1 False)) b okB failB prev env s (vm_outcome failB (succeed p) s1)"
  using assms(1)
proof (rule leads_to_intro, goal_cases)
  case (1 B n v k pre ins)
  have "below v x" "operand_value env1 x = V32 p" using assms(2) 1(1) by (simp_all add: word_in_def)
  then show ?case using 1 by (simp add: emission running)
qed

end
