(* ===== verification/CompiledCorrect.thy ===== *)
theory CompiledCorrect
  imports CompiledFragments
begin

text \<open>
  The compiled code of a primitive does what the interpreter's primitive does: the same value, failure,
  fault and state, whatever the code before it has computed; and where the two part.
\<close>

section \<open>The arguments\<close>

text \<open>What an argument node stands for: its value, or what its holder keeps through collections.\<close>

definition argument_is :: "IRBuilder \<Rightarrow> registers \<Rightarrow> 'a baker_scheme \<Rightarrow> operand \<Rightarrow> u32 \<Rightarrow> bool" where
  "argument_is b env s x w \<longleftrightarrow> below (ir_valueCount b) x \<and>
     (case operand_value env x of
        V32 v \<Rightarrow> \<not> isAlloca x \<and> v = w
      | VRoot h \<Rightarrow> isAlloca x \<and> nth_res (m_externalPointers s) h = Inr w
      | _ \<Rightarrow> False)"

lemma create_ready:
  assumes "ready b okB failB prev env s env1 s1" and "instr_value prev env1 i s1 = Inr (v, s2)"
  obtains b2 where "create i b = Inr (Reg (ir_valueCount b), b2)"
    "ready b2 okB failB prev env s (env1(ir_valueCount b := v)) s2"
    "ir_valueCount b2 = Suc (ir_valueCount b)" "ir_insertBlock b2 = ir_insertBlock b"
  using assms(1)
proof (rule readyE, goal_cases)
  case (1 B n v k pre ins)
  then show ?case
    using that assms(2) by (auto simp: ready_def builder_defs run_instrs_append empty_block_def)
qed

lemma leads_to_argument:
  assumes "ready b okB failB prev env s env1 s1"
    and "list_all2 (argument_is b env1 s1) (argumentValues jit) ws" and "i < length ws"
    and step: "\<And>b2 env2 y. \<lbrakk>ready b2 okB failB prev env s env2 s1;
       list_all2 (argument_is b2 env2 s1) (argumentValues jit) ws; word_in b2 env2 y (ws ! i);
       \<And>z w. word_in b env1 z w \<Longrightarrow> word_in b2 env2 z w\<rbrakk> \<Longrightarrow> leads_to (c y) b2 okB failB prev env s Z"
  shows "leads_to (bnd (getArgument jit i) c) b okB failB prev env s Z"
proof -
  let ?x = "argumentValues jit ! i"
  have arg: "argument_is b env1 s1 ?x (ws ! i)" and len: "i < length (argumentValues jit)"
    using assms(2,3) by (auto simp: list_all2_conv_all_nth)
  have get: "getArgument jit i = getNodeValue ?x"
    using len by (simp add: getArgument_def lift_res_def nth_res_def bnd_def fun_eq_iff)
  show ?thesis
  proof (cases "isAlloca ?x")
    case False
    then have "word_in b env1 ?x (ws ! i)"
      using arg by (auto simp: argument_is_def word_in_def split: ir_val.splits)
    then show ?thesis using step [OF assms(1,2)] False get
      by (simp add: getNodeValue_def leads_to_def bnd_def ret_def)
  next
    case True
    then obtain h where h: "operand_value env1 ?x = VRoot h" "nth_res (m_externalPointers s1) h = Inr (ws ! i)"
      using arg by (auto simp: argument_is_def split: ir_val.splits)
    then have "instr_value prev env1 (Load ?x) s1 = Inr (V32 (ws ! i), s1)"
      by (simp add: instr_value_def load_value_def hptr_get_def bnd_def ret_def)
    with assms(1) obtain b2 where b2: "create (Load ?x) b = Inr (Reg (ir_valueCount b), b2)"
      "ready b2 okB failB prev env s (env1(ir_valueCount b := V32 (ws ! i))) s1"
      "ir_valueCount b2 = Suc (ir_valueCount b)" "ir_insertBlock b2 = ir_insertBlock b"
      by (rule create_ready)
    let ?env2 = "env1(ir_valueCount b := V32 (ws ! i))"
    have mono: "below (ir_valueCount b2) z \<and> operand_value ?env2 z = operand_value env1 z"
      if "below (ir_valueCount b) z" for z
      using that b2(3) by (cases z) (auto simp: below_def operand_value_def)
    have "leads_to (c (Reg (ir_valueCount b))) b2 okB failB prev env s Z"
    proof (rule step [OF b2(2)])
      show "list_all2 (argument_is b2 ?env2 s1) (argumentValues jit) ws"
        using assms(2)
      proof (rule list_all2_mono)
        show "argument_is b2 ?env2 s1 z w" if "argument_is b env1 s1 z w" for z w
          using that mono [of z] by (auto simp: argument_is_def)
      qed
      show "word_in b2 ?env2 (Reg (ir_valueCount b)) (ws ! i)" using b2(3) by (simp add: word_in_def below_def)
      show "word_in b2 ?env2 z w" if "word_in b env1 z w" for z w using that mono [of z] by (auto simp: word_in_def)
    qed
    then show ?thesis using True get b2
      by (simp add: getNodeValue_def leads_to_def bnd_def)
  qed
qed

text \<open>The loads of one, two, three and five arguments before the code that uses them.\<close>

lemma load1:
  assumes "ready b okB failB prev env s env1 s1" "list_all2 (argument_is b env1 s1) (argumentValues jit) ws" "i < length ws"
    and "\<And>b2 env2 x. \<lbrakk>ready b2 okB failB prev env s env2 s1; word_in b2 env2 x (ws ! i)\<rbrakk> \<Longrightarrow>
      leads_to (c x) b2 okB failB prev env s Z"
  shows "leads_to (bnd (getArgument jit i) c) b okB failB prev env s Z"
  by (rule leads_to_argument [OF assms(1-3)]) (rule assms(4))

lemma load2:
  assumes "ready b okB failB prev env s env1 s1" "list_all2 (argument_is b env1 s1) (argumentValues jit) ws"
    "i < length ws" "j < length ws"
    and "\<And>b2 env2 x y. \<lbrakk>ready b2 okB failB prev env s env2 s1; word_in b2 env2 x (ws ! i); word_in b2 env2 y (ws ! j)\<rbrakk> \<Longrightarrow>
      leads_to (c x y) b2 okB failB prev env s Z"
  shows "leads_to (bnd (getArgument jit i) (\<lambda>x. bnd (getArgument jit j) (c x))) b okB failB prev env s Z"
proof (rule leads_to_argument [OF assms(1-3)], goal_cases)
  case (1 b2 env2 x)
  show ?case by (rule leads_to_argument [OF 1(1,2) assms(4)]) (use 1(3) in \<open>auto intro: assms(5)\<close>)
qed

lemma load3:
  assumes "ready b okB failB prev env s env1 s1" "list_all2 (argument_is b env1 s1) (argumentValues jit) ws"
    "i < length ws" "j < length ws" "k < length ws"
    and "\<And>b2 env2 x y z. \<lbrakk>ready b2 okB failB prev env s env2 s1; word_in b2 env2 x (ws ! i); word_in b2 env2 y (ws ! j);
      word_in b2 env2 z (ws ! k)\<rbrakk> \<Longrightarrow> leads_to (c x y z) b2 okB failB prev env s Z"
  shows "leads_to (bnd (getArgument jit i) (\<lambda>x. bnd (getArgument jit j) (\<lambda>y. bnd (getArgument jit k) (c x y))))
    b okB failB prev env s Z"
proof (rule leads_to_argument [OF assms(1-3)], goal_cases)
  case (1 b2 env2 x)
  show ?case
  proof (rule leads_to_argument [OF 1(1,2) assms(4)], goal_cases)
    case (1 b3 env3 y)
    note at3 = this
    show ?case
      by (rule leads_to_argument [OF at3(1,2) assms(5)]) (use 1 \<open>word_in b2 env2 x (ws ! i)\<close> in \<open>auto intro: assms(6)\<close>)
  qed
qed

section \<open>Whole primitives\<close>

text \<open>What a primitive computes from the words of its arguments.\<close>

definition primitive_on :: "TPrimitive \<Rightarrow> ptr list \<Rightarrow> ('a vm_scheme, ptr \<times> bool) comp" where
  "primitive_on prim ws =
     (if prim = prim_objectsAreEqual then bnd (boolObject (ws ! 0 = ws ! 1)) succeed
      else if prim = prim_getClass then bnd (objectClass (ws ! 0)) succeed
      else if prim = prim_getSize
      then bnd (if isSmallInteger (ws ! 0) then ret 0 else mem (\<lambda>m. getSize m (ws ! 0))) (\<lambda>n.
           succeed (TInteger_of_int n))
      else if prim = prim_integerNew then succeed (ws ! 0)
      else if prim = prim_arrayAt then indexed (ws ! 0) (ws ! 1) (\<lambda>j. bnd (getMember (ws ! 0) j) succeed)
      else if prim = prim_arrayAtPut
      then indexed (ws ! 1) (ws ! 2) (\<lambda>j. bnd (storeField (ws ! 1) j (ws ! 0)) (\<lambda>_. succeed (ws ! 1)))
      else if prim = prim_stringAt
      then indexed (ws ! 0) (ws ! 1) (\<lambda>j. bnd (mem (\<lambda>m. getByte m (ws ! 0) j)) (\<lambda>c.
           succeed (TInteger_of_int (ucast c))))
      else if prim = prim_stringAtPut
      then indexed (ws ! 1) (ws ! 2) (\<lambda>j.
           bnd (mem_upd (\<lambda>m. putByte m (ws ! 1) j (ucast (TInteger_getValue (ws ! 0))))) (\<lambda>_. succeed (ws ! 1)))
      else if prim = prim_bulkReplace
      then bnd (doBulkReplace (ws ! 4) (ws ! 0) (ws ! 1) (ws ! 2) (ws ! 3)) (\<lambda>t. if t then succeed (ws ! 4) else failed)
      else small_int_on prim (ws ! 0) (ws ! 1))"

definition arity :: "TPrimitive \<Rightarrow> nat option" where
  "arity prim =
     (if prim = prim_objectsAreEqual \<or> prim \<in> arithmetic_primitives then Some 2
      else if prim \<in> {prim_getClass, prim_getSize, prim_integerNew} then Some 1
      else if prim \<in> {prim_arrayAt, prim_stringAt} then Some 2
      else if prim \<in> {prim_arrayAtPut, prim_stringAtPut} then Some 3
      else if prim = prim_bulkReplace then Some 5
      else None)"

lemma arity_simps [simp]:
  "prim \<in> arithmetic_primitives \<Longrightarrow> arity prim = Some 2" "arity prim_objectsAreEqual = Some 2"
  "arity prim_getClass = Some 1" "arity prim_getSize = Some 1" "arity prim_integerNew = Some 1"
  "arity prim_arrayAt = Some 2" "arity prim_stringAt = Some 2" "arity prim_arrayAtPut = Some 3"
  "arity prim_stringAtPut = Some 3" "arity prim_bulkReplace = Some 5"
  by (simp_all add: arity_def arithmetic_primitives_def)

lemma word_in_Object: "word_in b env (Object p) p"
  by (simp add: word_in_def below_def)

lemma compiled_bulk:
  assumes "ready b okB failB prev env s env1 s1" "list_all2 (argument_is b env1 s1) (argumentValues jit) ws"
    and "length ws = 5"
  shows "leads_to (compileBulkReplace jit) b okB failB prev env s
    (vm_outcome failB (bnd (doBulkReplace (ws ! 4) (ws ! 0) (ws ! 1) (ws ! 2) (ws ! 3))
      (\<lambda>t. if t then succeed (ws ! 4) else failed)) s1)"
  unfolding compileBulkReplace_def
proof (rule leads_to_argument [OF assms(1,2)], goal_cases)
  case (2 b2 env2 destination)
  show ?case
  proof (rule leads_to_argument [OF 2(1,2)], goal_cases)
    case (2 b3 env3 sourceStart)
    note in3 = 2(3) 2(4) [OF \<open>word_in b2 env2 destination (ws ! 4)\<close>]
    show ?case
    proof (rule leads_to_argument [OF 2(1,2)], goal_cases)
      case (2 b4 env4 source)
      note in4 = 2(3) in3 [THEN 2(4)]
      show ?case
      proof (rule leads_to_argument [OF 2(1,2)], goal_cases)
        case (2 b5 env5 stop)
        note in5 = 2(3) in4 [THEN 2(4)]
        show ?case
        proof (rule leads_to_argument [OF 2(1,2)], goal_cases)
          case (2 b6 env6 start)
          note in6 = 2(3) in5 [THEN 2(4)]
          show ?case by (rule compiled_bulkReplace [OF 2(1) in6(5) in6(1) in6(2) in6(3) in6(4)])
        qed (use assms(3) in simp)
      qed (use assms(3) in simp)
    qed (use assms(3) in simp)
  qed (use assms(3) in simp)
qed (use assms(3) in simp)

lemma compiled_primitive:
  assumes "ready b okB failB prev env s env1 s1" and "list_all2 (argument_is b env1 s1) (argumentValues jit) ws"
    and "jitGlobals jit = globals s1" and "arity (primitive_cast opc) = Some (length ws)"
  shows "leads_to (compilePrimitive jit opc okB failB) b okB failB prev env s
    (vm_outcome failB (primitive_on (primitive_cast opc) ws) s1)"
proof -
  let ?p = "primitive_cast opc"
  consider (equal) "?p = prim_objectsAreEqual" "length ws = 2" | (arithmetic) "?p \<in> arithmetic_primitives" "length ws = 2"
    | (klass) "?p = prim_getClass" "length ws = 1" | (size) "?p = prim_getSize" "length ws = 1"
    | (new) "?p = prim_integerNew" "length ws = 1" | (arrayAt) "?p = prim_arrayAt" "length ws = 2"
    | (stringAt) "?p = prim_stringAt" "length ws = 2" | (arrayAtPut) "?p = prim_arrayAtPut" "length ws = 3"
    | (stringAtPut) "?p = prim_stringAtPut" "length ws = 3" | (bulk) "?p = prim_bulkReplace" "length ws = 5"
    using assms(4) by (auto simp: arity_def split: if_splits)
  then show ?thesis
  proof cases
    case equal
    have "leads_to (bnd (getArgument jit 1) (\<lambda>object2. bnd (getArgument jit 0) (\<lambda>object1.
        bnd (create (Binary op_ICmpEQ object1 object2)) (\<lambda>result. succeeds (selectBool jit result)))))
      b okB failB prev env s (vm_outcome failB (bnd (boolObject (ws ! 0 = ws ! 1)) succeed) s1)"
      by (rule load2 [OF assms(1,2)]) (use equal in \<open>auto intro: compiled_eq assms(3)\<close>)
    with equal show ?thesis by (simp add: compilePrimitive_def primitive_on_def)
  next
    case arithmetic
    let ?Z = "vm_outcome failB (small_int_on ?p (ws ! 0) (ws ! 1)) s1"
    have "leads_to (bnd (getArgument jit 1) (\<lambda>rightObject. bnd (getArgument jit 0) (\<lambda>leftObject.
           succeeds (compileSmallIntPrimitive jit ?p leftObject rightObject failB)))) b okB failB prev env s ?Z"
    proof (rule load2 [OF assms(1,2)], goal_cases)
      case (3 b2 env2 x y)
      show ?case by (rule compiled_small_int [OF 3(1) 3(3) 3(2) assms(3) arithmetic(1)])
    qed (use arithmetic in simp_all)
    with arithmetic show ?thesis
      by (auto simp: compilePrimitive_def primitive_on_def arithmetic_primitives_def)
  next
    case klass
    show ?thesis using klass
      by (simp add: compilePrimitive_def primitive_on_def)
        (rule load1 [OF assms(1,2)], auto intro: compiled_class)
  next
    case size
    have "leads_to (bnd (getArgument jit 0) (\<lambda>object. succeeds (compileGetSize object))) b okB failB prev env s
      (vm_outcome failB (bnd (if isSmallInteger (ws ! 0) then ret 0 else mem (\<lambda>m. getSize m (ws ! 0))) (\<lambda>n.
         succeed (TInteger_of_int n))) s1)"
    proof (rule load1 [OF assms(1,2)], goal_cases)
      case (2 b2 env2 x)
      then show ?case by (rule compiled_size)
    qed (use size in simp)
    with size show ?thesis by (simp add: compilePrimitive_def primitive_on_def)
  next
    case new
    show ?thesis using new
      by (simp add: compilePrimitive_def primitive_on_def succeeds_def)
        (rule load1 [OF assms(1,2)], auto intro: compiled_value)
  next
    case arrayAt
    have "leads_to (bnd (getArgument jit 1) (\<lambda>i. bnd (getArgument jit 0) (\<lambda>x.
        succeeds (compileArrayAccess False x i (Object NULL) failB)))) b okB failB prev env s
      (vm_outcome failB (indexed (ws ! 0) (ws ! 1) (\<lambda>j. bnd (getMember (ws ! 0) j) succeed)) s1)"
    proof (rule load2 [OF assms(1,2)], goal_cases)
      case (3 b2 env2 x y)
      show ?case
        using compiled_array_access [OF 3(1) 3(3) 3(2) word_in_Object, where isPut = False] by simp
    qed (use arrayAt in simp_all)
    with arrayAt show ?thesis by (simp add: compilePrimitive_def primitive_on_def)
  next
    case stringAt
    have "leads_to (bnd (getArgument jit 1) (\<lambda>i. bnd (getArgument jit 0) (\<lambda>x.
        succeeds (compileStringAccess False x i (Object NULL) failB)))) b okB failB prev env s
      (vm_outcome failB (indexed (ws ! 0) (ws ! 1) (\<lambda>j. bnd (mem (\<lambda>m. getByte m (ws ! 0) j)) (\<lambda>c.
           succeed (TInteger_of_int (ucast c))))) s1)"
    proof (rule load2 [OF assms(1,2)], goal_cases)
      case (3 b2 env2 x y)
      show ?case
        using compiled_string_access [OF 3(1) 3(3) 3(2) word_in_Object, where isPut = False] by simp
    qed (use stringAt in simp_all)
    with stringAt show ?thesis by (simp add: compilePrimitive_def primitive_on_def)
  next
    case arrayAtPut
    have "leads_to (bnd (getArgument jit 2) (\<lambda>i. bnd (getArgument jit 1) (\<lambda>x. bnd (getArgument jit 0) (\<lambda>v.
        succeeds (compileArrayAccess True x i v failB))))) b okB failB prev env s
      (vm_outcome failB (indexed (ws ! 1) (ws ! 2) (\<lambda>j. bnd (storeField (ws ! 1) j (ws ! 0)) (\<lambda>_.
        succeed (ws ! 1)))) s1)"
    proof (rule load3 [OF assms(1,2)], goal_cases)
      case (4 b2 env2 x y z)
      show ?case
        using compiled_array_access [OF 4(1) 4(3) 4(2) 4(4), where isPut = True] by simp
    qed (use arrayAtPut in simp_all)
    with arrayAtPut show ?thesis by (simp add: compilePrimitive_def primitive_on_def)
  next
    case stringAtPut
    have "leads_to (bnd (getArgument jit 2) (\<lambda>i. bnd (getArgument jit 1) (\<lambda>x. bnd (getArgument jit 0) (\<lambda>v.
        succeeds (compileStringAccess True x i v failB))))) b okB failB prev env s
      (vm_outcome failB (indexed (ws ! 1) (ws ! 2) (\<lambda>j.
           bnd (mem_upd (\<lambda>m. putByte m (ws ! 1) j (ucast (TInteger_getValue (ws ! 0))))) (\<lambda>_. succeed (ws ! 1)))) s1)"
    proof (rule load3 [OF assms(1,2)], goal_cases)
      case (4 b2 env2 x y z)
      show ?case
        using compiled_string_access [OF 4(1) 4(3) 4(2) 4(4), where isPut = True] by simp
    qed (use stringAtPut in simp_all)
    with stringAtPut show ?thesis by (simp add: compilePrimitive_def primitive_on_def)
  next
    case bulk
    have "leads_to (compileBulkReplace jit) b okB failB prev env s
      (vm_outcome failB (bnd (doBulkReplace (ws ! 4) (ws ! 0) (ws ! 1) (ws ! 2) (ws ! 3))
        (\<lambda>t. if t then succeed (ws ! 4) else failed)) s1)"
      using bulk by (intro compiled_bulk [OF assms(1,2)]) simp
    with bulk show ?thesis by (simp add: compilePrimitive_def primitive_on_def)
  qed
qed
section \<open>The frame of a primitive\<close>

text \<open>The code so far: the block it is written to is open, and running it has left the registers and the state.\<close>

definition runs_to :: "IRBuilder \<Rightarrow> nat \<Rightarrow> registers \<Rightarrow> 'a vm_scheme \<Rightarrow> registers \<Rightarrow> 'a vm_scheme \<Rightarrow> bool" where
  "runs_to b prev env s env1 s1 \<longleftrightarrow>
     ir_insertBlock b < ir_blockCount b \<and> block_terminator (ir_blocks b (ir_insertBlock b)) = None \<and>
     run_instrs prev (block_instrs (ir_blocks b (ir_insertBlock b))) env s = Inr (env1, s1)"

lemma compiled_doPrimitive:
  assumes "runs_to b prev env s env1 s1" and "list_all2 (argument_is b env1 s1) (argumentValues jit) ws"
    and "jitGlobals jit = globals s1" and "arity (primitive_cast (ucast (nodeExtra jit))) = Some (length ws)"
  shows "\<exists>b'. compileDoPrimitive jit b = Inr (Object (nilObject (globals s1)), b') \<and>
    ir_insertBlock b' = Suc (ir_blockCount b) \<and>
    run_code 6 (ir_blocks b') prev (ir_insertBlock b) env s =
      vm_outcome (Suc (ir_blockCount b)) (primitive_on (primitive_cast (ucast (nodeExtra jit))) ws) s1"
proof -
  let ?n = "ir_blockCount b"
  define b2 where "b2 = b\<lparr>ir_blockCount := Suc (Suc ?n), ir_blocks := (ir_blocks b)(?n := empty_block, Suc ?n := empty_block)\<rparr>"
  have blocks: "bnd createBasicBlock (\<lambda>x. bnd createBasicBlock (\<lambda>y. c x y)) b = c ?n (Suc ?n) b2" for c :: "nat \<Rightarrow> nat \<Rightarrow> 'x emit"
    by (simp add: b2_def createBasicBlock_def bnd_def gets_def modify_def ret_def)
  have same: "ir_insertBlock b2 = ir_insertBlock b" "ir_valueCount b2 = ir_valueCount b" by (simp_all add: b2_def)
  have "ready b2 ?n (Suc ?n) prev env s env1 s1"
    using assms(1) by (auto simp: ready_def runs_to_def b2_def)
  moreover have "list_all2 (argument_is b2 env1 s1) (argumentValues jit) ws"
    using assms(2) by (rule list_all2_mono) (simp add: argument_is_def same)
  ultimately have "leads_to (compilePrimitive jit (ucast (nodeExtra jit)) ?n (Suc ?n)) b2 ?n (Suc ?n) prev env s
     (vm_outcome (Suc ?n) (primitive_on (primitive_cast (ucast (nodeExtra jit))) ws) s1)"
    using assms(3,4) by (rule compiled_primitive)
  then show ?thesis
    unfolding compileDoPrimitive_def blocks
    by (auto simp: leads_to_def same assms(3) bnd_def ret_def split: sum.splits)
qed

section \<open>The interpreter\<close>

definition is_object :: "'a baker_scheme \<Rightarrow> ptr \<Rightarrow> bool" where
  "is_object s p \<longleftrightarrow> \<not> isSmallInteger p \<and> objs s p \<noteq> None"

lemma object_size: "is_object s p \<Longrightarrow> \<exists>sz. getSize (objs s) p = Inr sz"
  by (auto simp: is_object_def getSize_def objectAt_def bndR_def)

text \<open>
  Where \<open>callPrimitive\<close> and the compiled code agree: the receiver of a string access is an object and what is
  stored a small integer, both of which only the interpreter checks.
\<close>

definition comparable :: "TPrimitive \<Rightarrow> ptr list \<Rightarrow> 'a baker_scheme \<Rightarrow> bool" where
  "comparable prim ws s \<longleftrightarrow>
     arity prim = Some (length ws) \<and>
     (prim \<in> arithmetic_primitives \<or> prim \<in> {prim_objectsAreEqual, prim_getClass, prim_getSize} \<or>
      prim = prim_stringAt \<and> is_object s (ws ! 0) \<or>
      prim = prim_stringAtPut \<and> is_object s (ws ! 1) \<and> isSmallInteger (ws ! 0))"

lemma callPrimitive_on:
  assumes "comparable (primitive_cast opc) ws s" and "\<forall>i<length ws. getMember args i s = Inr (ws ! i, s)"
  shows "callPrimitive opc args s = primitive_on (primitive_cast opc) ws s"
proof -
  let ?p = "primitive_cast opc"
  have mem: "i < length ws \<Longrightarrow> getMember args i s = Inr (ws ! i, s)" for i using assms(2) by blast
  have len: "arity ?p = Some (length ws)" using assms(1) by (simp add: comparable_def)
  consider (arithmetic) "?p \<in> arithmetic_primitives" | (equal) "?p = prim_objectsAreEqual"
    | (class_of) "?p = prim_getClass" | (size_of) "?p = prim_getSize"
    | (stringAt) "?p = prim_stringAt" "is_object s (ws ! 0)"
    | (stringAtPut) "?p = prim_stringAtPut" "is_object s (ws ! 1)" "isSmallInteger (ws ! 0)"
    using assms(1) unfolding comparable_def by blast
  then show ?thesis
  proof cases
    case arithmetic
    then have "length ws = 2" using len by simp
    moreover have "callPrimitive opc args s = bnd (getMember args 1) (\<lambda>rightObject. bnd (getMember args 0) (\<lambda>leftObject.
        if \<not> isSmallInteger leftObject \<or> \<not> isSmallInteger rightObject then failed
        else callSmallIntPrimitive ?p (TInteger_getValue leftObject) (TInteger_getValue rightObject))) s"
      by (subst callPrimitive_arithmetic) (use arithmetic in \<open>simp_all add: arithmetic_primitives_def\<close>)
    moreover have "primitive_on ?p ws s = (if \<not> isSmallInteger (ws ! 0) \<or> \<not> isSmallInteger (ws ! Suc 0) then failed
      else callSmallIntPrimitive ?p (TInteger_getValue (ws ! 0)) (TInteger_getValue (ws ! Suc 0))) s"
      using arithmetic by (auto simp: primitive_on_def small_int_on_def arithmetic_primitives_def)
    ultimately show ?thesis using mem [of 0] mem [of 1] by (simp add: bnd_def)
  next
    case equal
    moreover from this have "length ws = 2" using len by simp
    ultimately show ?thesis using mem [of 0] mem [of 1] by (simp add: callPrimitive_def primitive_on_def bnd_def)
  next
    case class_of
    moreover from this have "length ws = 1" using len by simp
    ultimately show ?thesis using mem [of 0] by (simp add: callPrimitive_def primitive_on_def bnd_def)
  next
    case size_of
    moreover from this have "length ws = 1" using len by simp
    ultimately show ?thesis using mem [of 0] by (simp add: callPrimitive_def primitive_on_def bnd_def)
  next
    case stringAt
    moreover from this have "length ws = 2" using len by simp
    ultimately show ?thesis using mem [of 0] mem [of 1] object_size [of s "ws ! 0"]
      by (auto simp: callPrimitive_def stringPrimitive_def primitive_on_def arithmetic_primitives_def indexed_def
          bnd_def ret_def mem_def is_object_def Let_def)
  next
    case stringAtPut
    moreover from this have "length ws = 3" using len by simp
    ultimately show ?thesis using mem [of 0] mem [of 1] mem [of 2] object_size [of s "ws ! 1"]
      by (auto simp: callPrimitive_def stringPrimitive_def primitive_on_def arithmetic_primitives_def indexed_def
          bnd_def ret_def mem_def is_object_def Let_def lift_res_def integerOf_def TInteger_of_object_def bndR_def)
  qed
qed

text \<open>The words on top of the stack, the last argument first.\<close>

primrec stack_top :: "'a vm_scheme \<Rightarrow> TVMExecutionContext \<Rightarrow> ptr list \<Rightarrow> bool" where
  "stack_top s ec [] = True"
| "stack_top s ec (w # ws) =
     (case stackPop ec s of Inr ((v, ec'), s') \<Rightarrow> v = w \<and> stack_top s ec' ws | Inl _ \<Rightarrow> False)"

lemma stackPop_state: "stackPop ec s = Inr (r, s') \<Longrightarrow> s' = s"
  by (auto simp: stackPop_def contextMember_def hptr_get_def getMember_def mem_def bnd_def ret_def split: sum.splits)

lemma stack_topD:
  "stack_top s ec (w # ws) \<Longrightarrow> \<exists>ec'. stackPop ec s = Inr ((w, ec'), s) \<and> stack_top s ec' ws"
  by (auto split: sum.splits dest: stackPop_state)

definition value_and_failure :: "(ptr \<times> bool \<times> TVMExecutionContext) \<Rightarrow> ptr \<times> bool" where
  "value_and_failure r = (fst r, fst (snd r))"

definition stack_comparable :: "TPrimitive \<Rightarrow> ptr list \<Rightarrow> 'a baker_scheme \<Rightarrow> bool" where
  "stack_comparable prim ws s \<longleftrightarrow>
     arity prim = Some (length ws) \<and>
     (prim = prim_arrayAt \<and> is_object s (ws ! 0) \<or> prim = prim_arrayAtPut \<and> is_object s (ws ! 1) \<or>
      prim = prim_bulkReplace \<or> prim = prim_integerNew \<and> isSmallInteger (ws ! 0))"

lemma performPrimitive_on:
  assumes "stack_comparable (primitive_cast opc) ws s" and "stack_top s ec (rev ws)"
  shows "bnd (performPrimitive exec opc process ec) (\<lambda>r. ret (value_and_failure r)) s =
    primitive_on (primitive_cast opc) ws s"
proof -
  let ?p = "primitive_cast opc"
  have len: "arity ?p = Some (length ws)" using assms(1) by (simp add: stack_comparable_def)
  consider (get) "?p = prim_arrayAt" "is_object s (ws ! 0)" | (put) "?p = prim_arrayAtPut" "is_object s (ws ! 1)"
    | (bulk) "?p = prim_bulkReplace" | (new) "?p = prim_integerNew" "isSmallInteger (ws ! 0)"
    using assms(1) unfolding stack_comparable_def by blast
  then show ?thesis
  proof cases
    case get
    moreover from this have "length ws = 2" using len by simp
    then obtain x i where ws: "ws = [x, i]" by (auto simp: numeral_eq_Suc length_Suc_conv)
    obtain ec1 ec2 where "stackPop ec s = Inr ((i, ec1), s)" "stackPop ec1 s = Inr ((x, ec2), s)"
      using assms(2) unfolding ws by (auto dest!: stack_topD simp del: stack_top.simps(2))
    ultimately show ?thesis using object_size [of s "ws ! 0"]
      by (auto simp: ws performPrimitive_def primArray_def primitive_on_def arithmetic_primitives_def indexed_def
          primFailed_def failed_def succeed_def value_and_failure_def bnd_def ret_def mem_def Let_def global_def gets_def
          split: sum.splits)
  next
    case put
    moreover from this have "length ws = 3" using len by simp
    then obtain v x i where ws: "ws = [v, x, i]" by (auto simp: numeral_eq_Suc length_Suc_conv)
    obtain ec1 ec2 ec3 where "stackPop ec s = Inr ((i, ec1), s)" "stackPop ec1 s = Inr ((x, ec2), s)"
        "stackPop ec2 s = Inr ((v, ec3), s)"
      using assms(2) unfolding ws by (auto dest!: stack_topD simp del: stack_top.simps(2))
    ultimately show ?thesis using object_size [of s "ws ! 1"]
      by (auto simp: ws performPrimitive_def primArray_def primitive_on_def arithmetic_primitives_def indexed_def
          primFailed_def failed_def succeed_def value_and_failure_def bnd_def ret_def mem_def Let_def global_def gets_def
          split: sum.splits)
  next
    case bulk
    moreover from this have "length ws = 5" using len by simp
    then obtain a b c d e where ws: "ws = [a, b, c, d, e]" by (auto simp: numeral_eq_Suc length_Suc_conv)
    obtain ec1 ec2 ec3 ec4 ec5 where "stackPop ec s = Inr ((e, ec1), s)" "stackPop ec1 s = Inr ((d, ec2), s)"
        "stackPop ec2 s = Inr ((c, ec3), s)" "stackPop ec3 s = Inr ((b, ec4), s)" "stackPop ec4 s = Inr ((a, ec5), s)"
      using assms(2) unfolding ws by (auto dest!: stack_topD simp del: stack_top.simps(2))
    ultimately show ?thesis
      by (auto simp: ws performPrimitive_def primBulkReplace_def primitive_on_def arithmetic_primitives_def
          primFailed_def failed_def succeed_def value_and_failure_def bnd_def ret_def global_def gets_def
          split: sum.splits)
  next
    case new
    moreover from this have "length ws = 1" using len by simp
    then obtain x where ws: "ws = [x]" by (auto simp: numeral_eq_Suc length_Suc_conv)
    obtain ec1 where "stackPop ec s = Inr ((x, ec1), s)"
      using assms(2) unfolding ws by (auto dest!: stack_topD simp del: stack_top.simps(2))
    ultimately show ?thesis
      by (simp add: ws performPrimitive_def primIntegerNew_def primitive_on_def arithmetic_primitives_def
          succeed_def value_and_failure_def bnd_def ret_def)
  qed
qed

section \<open>Compiled and interpreted primitives\<close>

lemma vm_outcome_cong: "c s = c' s \<Longrightarrow> vm_outcome f c s = vm_outcome f c' s"
  by (simp add: vm_outcome_def bnd_def)



section \<open>Where they differ\<close>

text \<open>The primitives of the virtual machine that need no context and have no code of their own.\<close>

definition called_primitives :: "TPrimitive set" where
  "called_primitives = {prim_ioGetChar, prim_ioFileOpen, prim_ioFileClose, prim_ioFileSetStatIntoArray,
     prim_ioFileReadIntoByteArray, prim_ioFileWriteFromByteArray, prim_ioFileSeek, prim_getSystemTicks}"

lemma storePrimitiveArguments_first:
  "storePrimitiveArguments (jit\<lparr>argumentValues := a # as\<rparr>) obj n = storePrimitiveArguments (jit\<lparr>argumentValues := a # as'\<rparr>) obj n"
  by (induction n) (simp_all add: getArgument_def nth_res_def)


text \<open>
  \<open>integerNew\<close> of anything but a small integer fails in the interpreter; the compiled code returns the argument.
\<close>

lemma compiled_integerNew_unchecked:
  assumes "runs_to b prev env s env1 s1" and "argument_is b env1 s1 x w" and "argumentValues jit = [x]"
    and "primitive_cast (ucast (nodeExtra jit)) = prim_integerNew" and "\<not> isSmallInteger w"
    and "stackPop ec s1 = Inr ((w, ec'), s1)" and "jitGlobals jit = globals s1"
  shows "primIntegerNew ec s1 = Inr ((nilObject (globals s1), True, ec'), s1) \<and>
    (\<exists>b'. compileDoPrimitive jit b = Inr (Object (nilObject (globals s1)), b') \<and>
      run_code 6 (ir_blocks b') prev (ir_insertBlock b) env s = Inr (IrReturned w, s1))"
proof
  show "primIntegerNew ec s1 = Inr ((nilObject (globals s1), True, ec'), s1)"
    using assms(5,6) by (simp add: primIntegerNew_def primFailed_def bnd_def ret_def global_def gets_def)
  have "list_all2 (argument_is b env1 s1) (argumentValues jit) [w]" using assms(2,3) by simp
  then show "\<exists>b'. compileDoPrimitive jit b = Inr (Object (nilObject (globals s1)), b') \<and>
      run_code 6 (ir_blocks b') prev (ir_insertBlock b) env s = Inr (IrReturned w, s1)"
    using compiled_doPrimitive [OF assms(1) _ assms(7), of "[w]"] assms(4)
    by (auto simp: primitive_on_def arithmetic_primitives_def vm_outcome_def succeed_def bnd_def ret_def)
qed

section \<open>Witnesses\<close>

definition sample_builder :: IRBuilder where
  "sample_builder = \<lparr>ir_blocks = (\<lambda>_. empty_block), ir_blockCount = 1, ir_valueCount = 0, ir_insertBlock = 0, ir_preamble = 0\<rparr>"

definition sample_jit :: "u16 \<Rightarrow> operand list \<Rightarrow> TGlobals \<Rightarrow> TJITContext" where
  "sample_jit extra args g = \<lparr>methodHasBlockReturn = False, methodAllocates = False, contextHolder = Object NULL,
     selfHolder = Object NULL, exceptionLandingPad = 0, blockValues = (\<lambda>_. None), originLiterals = [], nodeIndex = 0,
     nodeInstruction = mkInstruction op_doPrimitive 0 extra, argumentValues = args, skipOffset = 0, nodeProtected = False,
     jitGlobals = g\<rparr>"

lemma sample_simps:
  "ir_insertBlock sample_builder = 0" "ir_blockCount sample_builder = 1" "nodeExtra (sample_jit extra args g) = extra"
  "argumentValues (sample_jit extra args g) = args" "jitGlobals (sample_jit extra args g) = g"
  by (simp_all add: sample_builder_def sample_jit_def mkInstruction_def)

lemma sample_runs_to: "runs_to sample_builder 0 env s env s"
  by (simp add: runs_to_def sample_builder_def empty_block_def ret_def)

lemma sample_argument: "argument_is sample_builder env s (Object p) p"
  by (simp add: argument_is_def below_def isAlloca_def)


definition access_vm :: vm where
  "access_vm = sum_vm\<lparr>m_externalPointers := [4096], objs := (objs sum_vm)
     (4096 \<mapsto> \<lparr>obj_size = TSize_new 7 False False, obj_class = NULL,
        obj_fields = [NULL, NULL, NULL, 4160, NULL, NULL, NULL], obj_bytes = []\<rparr>,
      4160 \<mapsto> \<lparr>obj_size = TSize_new 2 False False, obj_class = NULL, obj_fields = [4224, newInteger 1], obj_bytes = []\<rparr>,
      4224 \<mapsto> \<lparr>obj_size = TSize_new 1 False False, obj_class = NULL, obj_fields = [newInteger 9], obj_bytes = []\<rparr>)\<rparr>"

definition access_ec :: TVMExecutionContext where
  "access_ec = \<lparr>currentContext = 0, instruction = mkInstruction op_doPrimitive 2 24, bytePointer = 0, stackTop = 2,
     returnedValue = 1\<rparr>"

lemma access_objects:
  "objs access_vm 4096 = Some \<lparr>obj_size = TSize_new 7 False False, obj_class = NULL,
      obj_fields = [NULL, NULL, NULL, 4160, NULL, NULL, NULL], obj_bytes = []\<rparr>"
  "objs access_vm 4160 = Some \<lparr>obj_size = TSize_new 2 False False, obj_class = NULL,
      obj_fields = [4224, newInteger 1], obj_bytes = []\<rparr>"
  "objs access_vm 4224 = Some \<lparr>obj_size = TSize_new 1 False False, obj_class = NULL,
      obj_fields = [newInteger 9], obj_bytes = []\<rparr>"
  "m_externalPointers access_vm = [4096]"
  by (simp_all add: access_vm_def)

lemma access_sizes:
  "TSize_isBinary (TSize_new 7 False False) = False" "TSize_isBinary (TSize_new 2 False False) = False"
  "TSize_isBinary (TSize_new 1 False False) = False" "TSize_getSize (TSize_new 1 False False) = 1"
  by code_simp+

lemma access_popped:
  "stackPop (access_ec\<lparr>stackTop := n\<rparr>) access_vm =
     (case nth_res [4224, newInteger 1] (unat (n - 1)) of
        Inl e \<Rightarrow> Inl e | Inr v \<Rightarrow> Inr ((v, access_ec\<lparr>stackTop := n - 1\<rparr>), access_vm))"
  by (simp add: stackPop_def contextMember_def access_ec_def hptr_get_def access_objects getMember_def mem_def getField_def
      objectAt_def TObject_getField_def access_sizes nth_res_def bndR_def bnd_def ret_def split: sum.splits)



end
