(* ===== verification/CompileInstructions.thy ===== *)
theory CompileInstructions
  imports CompilePrimitives
begin

text \<open>
  The code of the instructions (\<^verbatim>\<open>src/MethodCompiler.cpp\<close>) as builder calls.  A function that writes an
  instruction returns the value of its node, if it sets one.
\<close>

section \<open>The function around the code\<close>

definition contextMemberOf :: "operand \<Rightarrow> nat \<Rightarrow> operand emit" where
  "contextMemberOf object index = bnd (create (StructGEP object index)) (\<lambda>p. create (Load p))"

text \<open>The preamble; the holders of the context and of \<open>self\<close> are its result.\<close>

definition writePreamble :: "bool \<Rightarrow> bool \<Rightarrow> (operand \<times> operand) emit" where
  "writePreamble allocatesMemory isBlock =
     bnd (if isBlock then create (BitCast FunctionArgument ty_object) else ret FunctionArgument) (\<lambda>ctx.
     bnd (if allocatesMemory then protectPointer ctx else ret ctx) (\<lambda>pContext.
     bnd (contextMemberOf ctx 2) (\<lambda>arguments.
     bnd (create (BitCast arguments ty_object)) (\<lambda>pobject.
     bnd (call2 fn_getObjectField pobject (Int32 0)) (\<lambda>self.
     bnd (if allocatesMemory then protectPointer self else ret self) (\<lambda>pSelf.
     ret (pContext, pSelf)))))))"

definition getLiteral :: "TJITContext \<Rightarrow> u32 \<Rightarrow> operand emit" where
  "getLiteral jit index = bnd (getCurrentContext jit) (\<lambda>ctx. call2 fn_getLiteral ctx (Int32 index))"

definition getMethodClass :: "TJITContext \<Rightarrow> operand emit" where
  "getMethodClass jit =
     bnd (getCurrentContext jit) (\<lambda>ctx. bnd (contextMemberOf ctx 1) (\<lambda>method. contextMemberOf method 6))"

text \<open>The block an exception of a block return lands in; its number is the result.\<close>

definition writeLandingPad :: "TJITContext \<Rightarrow> nat emit" where
  "writeLandingPad jit =
     bnd createBasicBlock (\<lambda>landingPad.
     bnd (setInsertPoint landingPad) (\<lambda>_.
     bnd (create LandingPad) (\<lambda>exceptionStruct.
     bnd (create (ExtractValue exceptionStruct 0)) (\<lambda>exceptionObject.
     bnd (call1 fn_cxa_begin_catch exceptionObject) (\<lambda>thrownException.
     bnd (create (BitCast thrownException ty_object)) (\<lambda>blockReturn.
     bnd (contextMemberOf blockReturn 0) (\<lambda>returnValue.
     bnd (contextMemberOf blockReturn 1) (\<lambda>targetContext.
     bnd (perform (Call fn_cxa_end_catch [])) (\<lambda>_.
     bnd (getCurrentContext jit) (\<lambda>ctx.
     bnd (create (Binary op_ICmpEQ ctx targetContext)) (\<lambda>compareTargets.
     bnd createBasicBlock (\<lambda>returnBlock.
     bnd createBasicBlock (\<lambda>rethrowBlock.
     bnd (terminateWith (CondBr compareTargets returnBlock rethrowBlock)) (\<lambda>_.
     bnd (setInsertPoint returnBlock) (\<lambda>_.
     bnd (terminateWith (Ret returnValue)) (\<lambda>_.
     bnd (setInsertPoint rethrowBlock) (\<lambda>_.
     bnd (terminateWith (Resume exceptionStruct)) (\<lambda>_.
     ret landingPad))))))))))))))))))"

text \<open>One block for every basic block of the bytecodes, before any code is written.\<close>

primrec scanForBranches :: "u16 list \<Rightarrow> (u16 \<Rightarrow> nat option) emit" where
  "scanForBranches [] = ret (\<lambda>_. None)"
| "scanForBranches (offset # offsets) =
     bnd createBasicBlock (\<lambda>newBlock.
     bnd (scanForBranches offsets) (\<lambda>values. ret (values(offset \<mapsto> newBlock))))"

section \<open>Pushes\<close>

definition pushFromContext :: "callee \<Rightarrow> TJITContext \<Rightarrow> operand emit" where
  "pushFromContext f jit =
     bnd (getCurrentContext jit) (\<lambda>ctx.
     bnd (call2 f ctx (Int32 (ucast (nodeArgument jit)))) (protectProducerNode jit))"

definition compilePushInstance :: "TJITContext \<Rightarrow> operand emit" where
  "compilePushInstance jit = pushFromContext fn_getInstance jit"

definition compilePushArgument :: "TJITContext \<Rightarrow> operand emit" where
  "compilePushArgument jit =
     (if nodeArgument jit = 0 then ret (selfHolder jit) else pushFromContext fn_getArgument jit)"

definition compilePushTemporary :: "TJITContext \<Rightarrow> operand emit" where
  "compilePushTemporary jit = pushFromContext fn_getTemporary jit"

definition compilePushLiteral :: "TJITContext \<Rightarrow> operand emit" where
  "compilePushLiteral jit =
     bnd (lift_res (nth_res (originLiterals jit) (unat (nodeArgument jit)))) (\<lambda>literal.
     if isSmallInteger literal then create (IntToPtr (Int32 literal))
     else bnd (getLiteral jit (ucast (nodeArgument jit))) (protectProducerNode jit))"

text \<open>An unknown constant is reported and leaves no value: \<open>setNodeValue\<close> asserts that there is one.\<close>

definition compilePushConstant :: "TJITContext \<Rightarrow> operand emit" where
  "compilePushConstant jit =
     (case constant_cast (nodeArgument jit) of
        const_int n \<Rightarrow> create (IntToPtr (Int32 (TInteger_of_int (ucast n))))
      | const_nil \<Rightarrow> ret (Object (nilObject (jitGlobals jit)))
      | const_trueObject \<Rightarrow> ret (Object (trueObject (jitGlobals jit)))
      | const_falseObject \<Rightarrow> ret (Object (falseObject (jitGlobals jit)))
      | const_other n \<Rightarrow> raise AssertFailed)"

text \<open>The function of the block itself is another compilation; \<open>startOffset\<close> is where its bytecodes begin.\<close>

definition compilePushBlock :: "TJITContext \<Rightarrow> u16 \<Rightarrow> operand emit" where
  "compilePushBlock jit startOffset =
     bnd (getCurrentContext jit) (\<lambda>ctx.
     bnd (create (Call rt_createBlock [ctx, Int8 (nodeArgument jit), Int16 startOffset])) (\<lambda>block.
     bnd (create (BitCast block ty_object)) (protectProducerNode jit)))"

section \<open>Assignments\<close>

definition compileAssignTemporary :: "TJITContext \<Rightarrow> unit emit" where
  "compileAssignTemporary jit =
     bnd (getArgument jit 0) (\<lambda>v.
     bnd (getCurrentContext jit) (\<lambda>ctx.
     perform (Call fn_setTemporary [ctx, Int32 (ucast (nodeArgument jit)), v])))"

text \<open>C++ leaves the order of the two loads open; they do not affect each other.\<close>

definition compileAssignInstance :: "TJITContext \<Rightarrow> unit emit" where
  "compileAssignInstance jit =
     bnd (getCurrentContext jit) (\<lambda>ctx.
     bnd (getArgument jit 0) (\<lambda>v.
     perform (Call fn_setInstance [ctx, Int32 (ucast (nodeArgument jit)), v])))"

section \<open>Messages\<close>

primrec storeMessageArguments :: "TJITContext \<Rightarrow> operand \<Rightarrow> nat \<Rightarrow> unit emit" where
  "storeMessageArguments jit argumentsObject 0 = ret ()"
| "storeMessageArguments jit argumentsObject (Suc index) =
     bnd (getArgument jit index) (\<lambda>argument.
     bnd (perform (Call fn_setObjectField [argumentsObject, Int32 (of_nat index), argument])) (\<lambda>_.
     storeMessageArguments jit argumentsObject index))"

definition compileMarkArguments :: "TJITContext \<Rightarrow> operand emit" where
  "compileMarkArguments jit =
     bnd (createArray jit (ucast (nodeArgument jit))) (\<lambda>(argumentsObject, sizeInBytes).
     bnd (guard AssertFailed (unat (nodeArgument jit) = length (argumentValues jit))) (\<lambda>_.
     bnd (storeMessageArguments jit argumentsObject (unat (nodeArgument jit))) (\<lambda>_.
     bnd (create (BitCast argumentsObject ty_object)) (\<lambda>argumentsArray.
     bnd (create (BitCast argumentsObject ty_bytes)) (\<lambda>argumentsPointer.
     bnd (perform (Call fn_lifetime_start [Int64 sizeInBytes, argumentsPointer])) (\<lambda>_.
     ret argumentsArray))))))"

text \<open>The condition of an unknown builtin is null, which \<open>CreateSelect\<close> dereferences.\<close>

definition compileSendUnary :: "TJITContext \<Rightarrow> operand emit" where
  "compileSendUnary jit =
     bnd (getArgument jit 0) (\<lambda>v.
     bnd (case unary_cast (nodeArgument jit) of
            una_isNil \<Rightarrow> create (Binary op_ICmpEQ v (Object (nilObject (jitGlobals jit))))
          | una_notNil \<Rightarrow> create (Binary op_ICmpNE v (Object (nilObject (jitGlobals jit))))
          | una_other n \<Rightarrow> raise BadAccess) (selectBool jit))"

definition compileBinaryResult :: "TJITContext \<Rightarrow> operand \<Rightarrow> operand \<Rightarrow> operand emit" where
  "compileBinaryResult jit leftInt rightInt =
     (case binary_cast (nodeArgument jit) of
        bin_operatorLess \<Rightarrow> bnd (create (Binary op_ICmpSLT leftInt rightInt)) (selectBool jit)
      | bin_operatorLessOrEq \<Rightarrow> bnd (create (Binary op_ICmpSLE leftInt rightInt)) (selectBool jit)
      | bin_operatorPlus \<Rightarrow> bnd (newIntegerOf (create (Binary op_Add leftInt rightInt))) (\<lambda>smalltalkInt.
          create (IntToPtr smalltalkInt))
      | bin_other n \<Rightarrow> raise BadAccess)"

definition compileSendBinary :: "TJITContext \<Rightarrow> operand emit" where
  "compileSendBinary jit =
     bnd (getArgument jit 1) (\<lambda>rightValue.
     bnd (getArgument jit 0) (\<lambda>leftValue.
     bnd (call1 fn_isSmallInteger rightValue) (\<lambda>rightIsInt.
     bnd (call1 fn_isSmallInteger leftValue) (\<lambda>leftIsInt.
     bnd (create (Binary op_And rightIsInt leftIsInt)) (\<lambda>isSmallInts.
     bnd createBasicBlock (\<lambda>integersBlock.
     bnd createBasicBlock (\<lambda>sendBinaryBlock.
     bnd createBasicBlock (\<lambda>resultBlock.
     bnd (terminateWith (CondBr isSmallInts integersBlock sendBinaryBlock)) (\<lambda>_.
     bnd (setInsertPoint integersBlock) (\<lambda>_.
     bnd (call1 fn_getIntegerValue rightValue) (\<lambda>rightInt.
     bnd (call1 fn_getIntegerValue leftValue) (\<lambda>leftInt.
     bnd (compileBinaryResult jit leftInt rightInt) (\<lambda>intResultObject.
     bnd (terminateWith (Br resultBlock)) (\<lambda>_.
     bnd (setInsertPoint sendBinaryBlock) (\<lambda>_.
     bnd (createArray jit 2) (\<lambda>(argumentsObject, _).
     bnd (perform (Call fn_setObjectField [argumentsObject, Int32 0, leftValue])) (\<lambda>_.
     bnd (perform (Call fn_setObjectField [argumentsObject, Int32 1, rightValue])) (\<lambda>_.
     bnd (create (BitCast argumentsObject ty_object)) (\<lambda>argumentsArray.
     bnd (getCurrentContext jit) (\<lambda>ctx.
     bnd (lift_res (nth_res (binaryMessages (jitGlobals jit)) (unat (nodeArgument jit)))) (\<lambda>selector.
     bnd (callOrInvoke jit [ctx, Object selector, argumentsArray, Object NULL, Int32 (nodeIndex jit)] resultBlock)
       (\<lambda>sendMessageResult.
     bnd (if methodHasBlockReturn jit then ret () else terminateWith (Br resultBlock)) (\<lambda>_.
     bnd (setInsertPoint resultBlock) (\<lambda>_.
     bnd (create (PHI [])) (\<lambda>phi.
     bnd (addIncomingTo phi intResultObject integersBlock) (\<lambda>_.
     bnd (addIncomingTo phi sendMessageResult sendBinaryBlock) (\<lambda>_.
     protectProducerNode jit phi)))))))))))))))))))))))))))"

text \<open>
  A call in a method with block returns is an invoke, after which the code goes on in a block of its own, the
  new end of the basic block.
\<close>

definition callThrough :: "TJITContext \<Rightarrow> callee \<Rightarrow> operand list \<Rightarrow> operand emit" where
  "callThrough jit f args =
     (if methodHasBlockReturn jit
      then bnd createBasicBlock (\<lambda>nextBlock.
           bnd newValue (\<lambda>r.
           bnd (terminateWith (Invoke r f args nextBlock (exceptionLandingPad jit))) (\<lambda>_.
           bnd (setInsertPoint nextBlock) (\<lambda>_. ret (Reg r)))))
      else create (Call f args))"

text \<open>The array of the arguments is dead after the call: \<open>byteCount\<close> is that of the \<open>alloca\<close> behind it.\<close>

definition endLifetime :: "u32 \<Rightarrow> operand \<Rightarrow> unit emit" where
  "endLifetime byteCount arguments =
     bnd (create (BitCast arguments ty_bytes)) (\<lambda>argumentsPointer.
     bnd (create (ZExtTo64 (Int32 byteCount))) (\<lambda>size64.
     perform (Call fn_lifetime_end [size64, argumentsPointer])))"

definition compileSendMessage :: "TJITContext \<Rightarrow> u32 \<Rightarrow> operand emit" where
  "compileSendMessage jit argumentsSize =
     bnd (getArgument jit 0) (\<lambda>arguments.
     bnd (getLiteral jit (ucast (nodeArgument jit))) (\<lambda>selectorObject.
     bnd (create (BitCast selectorObject ty_object)) (\<lambda>messageSelector.
     bnd (getCurrentContext jit) (\<lambda>ctx.
     bnd (callThrough jit rt_sendMessage [ctx, messageSelector, arguments, Object NULL, Int32 (nodeIndex jit)]) (\<lambda>result.
     bnd (endLifetime argumentsSize arguments) (\<lambda>_.
     protectProducerNode jit result))))))"

text \<open>
  \<open>doSendMessageToLiteral\<close> once the method is found and compiled: the context and the temporaries of the
  call are objects on the machine stack.
\<close>

definition compileDirectSend :: "TJITContext \<Rightarrow> ptr \<Rightarrow> u32 \<Rightarrow> u32 \<Rightarrow> operand emit" where
  "compileDirectSend jit directMethod temporarySize argumentsSize =
     (let hasTemporaries = sint temporarySize > 0;
          tempsSize = sizeof_TObject + 4 * temporarySize in
      bnd (allocateStackObject sizeof_TContext 0) (\<lambda>contextSlot.
      bnd (if hasTemporaries then allocateStackObject sizeof_TObject temporarySize else ret (Object NULL)) (\<lambda>tempsSlot.
      bnd (perform (MemSet contextSlot sizeof_TContext)) (\<lambda>_.
      bnd (if hasTemporaries then perform (MemSet tempsSlot tempsSize) else ret ()) (\<lambda>_.
      bnd (create (BitCast contextSlot ty_object)) (\<lambda>newContextObject.
      bnd (if hasTemporaries then create (BitCast tempsSlot ty_object) else ret (Object NULL)) (\<lambda>newTempsObject.
      bnd (perform (Call fn_setObjectSize [newContextObject, Int32 (sizeof_TContext div 4 - 2)])) (\<lambda>_.
      bnd (perform (Call fn_setObjectClass [newContextObject, Object (contextClass (jitGlobals jit))])) (\<lambda>_.
      bnd (if hasTemporaries
           then bnd (perform (Call fn_setObjectSize [newTempsObject, Int32 (tempsSize div 4 - 2)])) (\<lambda>_.
                perform (Call fn_setObjectClass [newTempsObject, Object (arrayClass (jitGlobals jit))]))
           else ret ()) (\<lambda>_.
      bnd (create (IntToPtr (Int32 directMethod))) (\<lambda>directMethodObject.
      bnd (getCurrentContext jit) (\<lambda>previousContext.
      bnd (create (BitCast previousContext ty_object)) (\<lambda>contextObject.
      bnd (getArgument jit 0) (\<lambda>arguments.
      bnd (create (BitCast arguments ty_object)) (\<lambda>messageArgumentsObject.
      bnd (perform (Call fn_setObjectField [newContextObject, Int32 0, directMethodObject])) (\<lambda>_.
      bnd (perform (Call fn_setObjectField [newContextObject, Int32 1, messageArgumentsObject])) (\<lambda>_.
      bnd (perform (Call fn_setObjectField [newContextObject, Int32 2,
             if hasTemporaries then newTempsObject else Object (nilObject (jitGlobals jit))])) (\<lambda>_.
      bnd (perform (Call fn_setObjectField [newContextObject, Int32 3, contextObject])) (\<lambda>_.
      bnd (create (BitCast newContextObject ty_object)) (\<lambda>newContext.
      bnd (callThrough jit (fn_method directMethod) [newContext]) (\<lambda>result.
      bnd (endLifetime argumentsSize arguments) (\<lambda>_.
      protectProducerNode jit result))))))))))))))))))))))"

text \<open>
  Which sends are direct: those to a literal or a constant, and those to \<open>self\<close> in a class whose \<open>package\<close> is nil.  The
  class of the receiver is then known, null otherwise; \<open>receiver\<close> is the instruction of the receiver's node.
\<close>

definition literalReceiver :: "TJITContext \<Rightarrow> TSmalltalkInstruction \<Rightarrow> ('a vm_scheme, ptr) comp" where
  "literalReceiver jit receiver =
     (if m_opcode receiver = op_pushLiteral then lift_res (nth_res (originLiterals jit) (unat (m_argument receiver)))
      else case constant_cast (m_argument receiver) of
             const_int n \<Rightarrow> ret (TInteger_of_int (ucast n))
           | const_nil \<Rightarrow> global nilObject
           | const_trueObject \<Rightarrow> global trueObject
           | const_falseObject \<Rightarrow> global falseObject
           | const_other n \<Rightarrow> raise AssertFailed)"

definition directReceiverClass :: "TJITContext \<Rightarrow> ptr \<Rightarrow> TSmalltalkInstruction \<Rightarrow> ('a vm_scheme, ptr) comp" where
  "directReceiverClass jit originMethod receiver =
     (if m_opcode receiver = op_pushLiteral \<or> m_opcode receiver = op_pushConstant
      then bnd (literalReceiver jit receiver) objectClass
      else if m_opcode receiver = op_pushArgument \<and> m_argument receiver = 0
      then bnd (getMember originMethod (TMethod_offset mth_klass)) (\<lambda>receiverClass.
           bnd (getMember receiverClass (TClass_offset cls_package)) (\<lambda>package.
           bnd (global nilObject) (\<lambda>nil.
           ret (if package = nil then receiverClass else NULL))))
      else ret NULL)"

definition findDirectMethod :: "TJITContext \<Rightarrow> ptr \<Rightarrow> TSmalltalkInstruction \<Rightarrow> ('a vm_scheme, (ptr \<times> u32) option) comp" where
  "findDirectMethod jit originMethod receiver =
     bnd (directReceiverClass jit originMethod receiver) (\<lambda>receiverClass.
     if receiverClass = NULL then ret None
     else bnd (lift_res (nth_res (originLiterals jit) (unat (nodeArgument jit)))) (\<lambda>messageSelector.
          bnd (lookupMethod messageSelector receiverClass) (\<lambda>method.
          if method = NULL then ret None
          else bnd (getInteger method (TMethod_offset mth_temporarySize)) (\<lambda>temporarySize.
               ret (Some (method, temporarySize))))))"

section \<open>Special instructions\<close>

definition branchBlock :: "TJITContext \<Rightarrow> u16 \<Rightarrow> nat emit" where
  "branchBlock jit offset =
     (case blockValues jit offset of None \<Rightarrow> raise AssertFailed | Some k \<Rightarrow> ret k)"

definition compileBranch :: "TJITContext \<Rightarrow> unit emit" where
  "compileBranch jit = bnd (branchBlock jit (nodeExtra jit)) (\<lambda>target. terminateWith (Br target))"

definition compileConditionalBranch :: "TJITContext \<Rightarrow> ptr \<Rightarrow> unit emit" where
  "compileConditionalBranch jit branchObject =
     bnd (branchBlock jit (nodeExtra jit)) (\<lambda>targetBlock.
     bnd (branchBlock jit (skipOffset jit)) (\<lambda>skipBlock.
     bnd (getArgument jit 0) (\<lambda>condition.
     bnd (create (Binary op_ICmpEQ condition (Object branchObject))) (\<lambda>boolValue.
     terminateWith (CondBr boolValue targetBlock skipBlock)))))"

definition compileBlockReturn :: "TJITContext \<Rightarrow> unit emit" where
  "compileBlockReturn jit =
     bnd (getArgument jit 0) (\<lambda>v.
     bnd (getCurrentContext jit) (\<lambda>ctx.
     bnd (create (BitCast ctx ty_object)) (\<lambda>blockContext.
     bnd (contextMemberOf blockContext 2) (\<lambda>targetContext.
     bnd (perform (Call rt_emitBlockReturn [v, targetContext])) (\<lambda>_.
     terminateWith Unreachable)))))"

definition compileSendToSuper :: "TJITContext \<Rightarrow> operand emit" where
  "compileSendToSuper jit =
     bnd (getArgument jit 0) (\<lambda>argsObject.
     bnd (create (BitCast argsObject ty_object)) (\<lambda>arguments.
     bnd (getLiteral jit (ucast (nodeExtra jit))) (\<lambda>selectorObject.
     bnd (create (BitCast selectorObject ty_object)) (\<lambda>messageSelector.
     bnd (getMethodClass jit) (\<lambda>currentClass.
     bnd (contextMemberOf currentClass 2) (\<lambda>parentClass.
     bnd (getCurrentContext jit) (\<lambda>ctx.
     bnd (create (Call rt_sendMessage [ctx, messageSelector, arguments, parentClass, Int32 (nodeIndex jit)])) (\<lambda>result.
     protectProducerNode jit result))))))))"

text \<open>\<open>withValue\<close> for instructions that set the value of their node.\<close>

definition withValue :: "operand emit \<Rightarrow> operand option emit" where
  "withValue c = bnd c (\<lambda>v. ret (Some v))"

definition withoutValue :: "unit emit \<Rightarrow> operand option emit" where
  "withoutValue c = bnd c (\<lambda>_. ret None)"

definition compileSpecial :: "TJITContext \<Rightarrow> operand option emit" where
  "compileSpecial jit =
     (case special_cast (nodeArgument jit) of
        spc_selfReturn \<Rightarrow> withoutValue (bnd (getSelf jit) (\<lambda>v. terminateWith (Ret v)))
      | spc_stackReturn \<Rightarrow> withoutValue (bnd (getArgument jit 0) (\<lambda>v. terminateWith (Ret v)))
      | spc_blockReturn \<Rightarrow> withoutValue (compileBlockReturn jit)
      | spc_duplicate \<Rightarrow> withValue (bnd (getArgument jit 0) (protectProducerNode jit))
      | spc_popTop \<Rightarrow> ret None
      | spc_branch \<Rightarrow> withoutValue (compileBranch jit)
      | spc_branchIfTrue \<Rightarrow> withoutValue (compileConditionalBranch jit (trueObject (jitGlobals jit)))
      | spc_branchIfFalse \<Rightarrow> withoutValue (compileConditionalBranch jit (falseObject (jitGlobals jit)))
      | spc_sendToSuper \<Rightarrow> withValue (compileSendToSuper jit)
      | spc_other n \<Rightarrow> ret None)"

section \<open>Dispatch\<close>

text \<open>
  \<open>writeInstruction\<close>.  What the compilation of a node looks up elsewhere is a parameter: where the bytecodes of a
  pushed block begin, the size of the argument array of a send, and the method of a direct send.
\<close>

record node_lookup =
  blockStart :: u16
  argumentsSize :: u32
  directMethod :: "(ptr \<times> u32) option"

definition writeInstruction :: "node_lookup \<Rightarrow> TJITContext \<Rightarrow> operand option emit" where
  "writeInstruction found jit =
     (case m_opcode (nodeInstruction jit) of
        op_pushInstance \<Rightarrow> withValue (compilePushInstance jit)
      | op_pushArgument \<Rightarrow> withValue (compilePushArgument jit)
      | op_pushTemporary \<Rightarrow> withValue (compilePushTemporary jit)
      | op_pushLiteral \<Rightarrow> withValue (compilePushLiteral jit)
      | op_pushConstant \<Rightarrow> withValue (compilePushConstant jit)
      | op_pushBlock \<Rightarrow> withValue (compilePushBlock jit (blockStart found))
      | op_assignTemporary \<Rightarrow> withoutValue (compileAssignTemporary jit)
      | op_assignInstance \<Rightarrow> withoutValue (compileAssignInstance jit)
      | op_markArguments \<Rightarrow> withValue (compileMarkArguments jit)
      | op_sendUnary \<Rightarrow> withValue (compileSendUnary jit)
      | op_sendBinary \<Rightarrow> withValue (compileSendBinary jit)
      | op_sendMessage \<Rightarrow> withValue (case directMethod found of
            None \<Rightarrow> compileSendMessage jit (argumentsSize found)
          | Some (method, temporarySize) \<Rightarrow> compileDirectSend jit method temporarySize (argumentsSize found))
      | op_doSpecial \<Rightarrow> compileSpecial jit
      | op_doPrimitive \<Rightarrow> withValue (compileDoPrimitive jit)
      | op_extended \<Rightarrow> ret None
      | op_other n \<Rightarrow> ret None)"

end
