(* ===== verification/CompiledInstructions.thy ===== *)
theory CompiledInstructions
  imports CompiledCorrect CompileInstructions VMExecute
begin

text \<open>
  The code of single instructions against the interpreter.  The value of a node is the word the interpreter pushes
  for its instruction; assignments change the same fields; a branch goes on in the block of the bytecode the
  interpreter continues at.
\<close>

section \<open>One more instruction\<close>

text \<open>\<open>b2\<close> is \<open>b\<close> with more code, which has run to \<open>env2\<close>: values known before are still known.\<close>

definition extended :: "IRBuilder \<Rightarrow> registers \<Rightarrow> IRBuilder \<Rightarrow> registers \<Rightarrow> bool" where
  "extended b env b2 env2 \<longleftrightarrow> ir_insertBlock b2 = ir_insertBlock b \<and> ir_preamble b2 = ir_preamble b \<and>
     ir_blockCount b2 = ir_blockCount b \<and> ir_valueCount b \<le> ir_valueCount b2 \<and>
     (\<forall>z. below (ir_valueCount b) z \<longrightarrow> operand_value env2 z = operand_value env z)"

lemma below_mono: "below n z \<Longrightarrow> n \<le> k \<Longrightarrow> below k z"
  by (cases z) (auto simp: below_def)

lemma extended_refl [simp]: "extended b env b env"
  by (simp add: extended_def)

lemma extended_trans: "extended b env b2 env2 \<Longrightarrow> extended b2 env2 b3 env3 \<Longrightarrow> extended b env b3 env3"
  by (auto simp: extended_def intro: below_mono)

lemma extended_argument: "extended b env b2 env2 \<Longrightarrow> argument_is b env s z w \<Longrightarrow> argument_is b2 env2 s z w"
  by (auto simp: extended_def argument_is_def intro: below_mono)

lemma extended_word: "extended b env b2 env2 \<Longrightarrow> word_in b env z w \<Longrightarrow> word_in b2 env2 z w"
  by (auto simp: extended_def word_in_def intro: below_mono)

lemma create_runs:
  assumes "runs_to b prev env s env1 s1" and "instr_value prev env1 i s1 = Inr (v, s2)"
  obtains b2 env2 where "create i b = Inr (Reg (ir_valueCount b), b2)" "runs_to b2 prev env s env2 s2"
    "extended b env1 b2 env2" "operand_value env2 (Reg (ir_valueCount b)) = v"
    "ir_valueCount b < ir_valueCount b2" "ir_blockCount b2 = ir_blockCount b"
proof -
  obtain B n c k pre where b: "b = \<lparr>ir_blocks = B, ir_blockCount = n, ir_valueCount = c, ir_insertBlock = k, ir_preamble = pre\<rparr>"
    by (cases b)
  have "operand_value (env1(c := v)) z = operand_value env1 z" if "below c z" for z
    using that by simp
  then show thesis
    using assms by (intro that [of _ "env1(c := v)"])
      (auto simp: b builder_defs runs_to_def run_instrs_append extended_def)
qed

lemma create_word:
  assumes "runs_to b prev env s env1 s1" and "instr_value prev env1 i s1 = Inr (V32 w, s2)"
  obtains b2 env2 x where "create i b = Inr (x, b2)" "runs_to b2 prev env s env2 s2" "extended b env1 b2 env2"
    "word_in b2 env2 x w" "\<not> isAlloca x"
proof -
  obtain b2 env2 where "create i b = Inr (Reg (ir_valueCount b), b2)" "runs_to b2 prev env s env2 s2"
    "extended b env1 b2 env2" "operand_value env2 (Reg (ir_valueCount b)) = V32 w" "ir_valueCount b < ir_valueCount b2"
    using create_runs [OF assms] by metis
  then show thesis by (intro that) (auto simp: word_in_def below_def isAlloca_def)
qed

lemma word_argument: "word_in b env x w \<Longrightarrow> \<not> isAlloca x \<Longrightarrow> argument_is b env s x w"
  by (simp add: word_in_def argument_is_def)

lemma node_value_runs:
  assumes "runs_to b prev env s env1 s1" and "argument_is b env1 s1 x w"
  obtains b2 env2 y where "getNodeValue x b = Inr (y, b2)" "runs_to b2 prev env s env2 s1" "extended b env1 b2 env2"
    "word_in b2 env2 y w" "\<not> isAlloca y"
proof (cases "isAlloca x")
  case False
  then have "word_in b env1 x w"
    using assms(2) by (auto simp: argument_is_def word_in_def split: ir_val.splits)
  then show thesis using False assms(1) by (intro that [of x b env1]) (simp_all add: getNodeValue_def ret_def)
next
  case True
  then obtain h where "operand_value env1 x = VRoot h" "nth_res (m_externalPointers s1) h = Inr w"
    using assms(2) by (auto simp: argument_is_def split: ir_val.splits)
  then have "instr_value prev env1 (Load x) s1 = Inr (V32 w, s1)"
    by (simp add: instr_value_def load_value_def hptr_get_def bnd_def ret_def)
  then show thesis
    using create_word [OF assms(1)] True that by (metis getNodeValue_def)
qed

section \<open>The context of the code\<close>

text \<open>
  The context the code runs in: its holder and that of \<open>self\<close> (or the values, in a method that allocates nothing)
  and the objects the interpreter reads through it.
\<close>

definition in_context :: "IRBuilder \<Rightarrow> registers \<Rightarrow> 'a vm_scheme \<Rightarrow> TJITContext \<Rightarrow> TVMExecutionContext \<Rightarrow> references \<Rightarrow> ptr \<Rightarrow> bool" where
  "in_context b env s jit ec refs c \<longleftrightarrow>
     loadReferences ec s = Inr (refs, s) \<and> nth_res (m_externalPointers s) (currentContext ec) = Inr c \<and>
     argument_is b env s (contextHolder jit) c \<and> isAlloca (contextHolder jit) = methodAllocates jit \<and>
     argument_is b env s (selfHolder jit) (ref_instanceVariables refs) \<and>
     isAlloca (selfHolder jit) = methodAllocates jit \<and>
     jitGlobals jit = globals s"

lemma read_member: "getMember p i s = Inr (x, s') \<Longrightarrow> s' = s"
  by (auto simp: getMember_def mem_def split: sum.splits)

lemma loaded_references:
  assumes "in_context b env s jit ec refs c"
  shows "contextField c ctx_arguments s = Inr (ref_arguments refs, s)"
    "getMember (ref_arguments refs) 0 s = Inr (ref_instanceVariables refs, s)"
    "contextField c ctx_temporaries s = Inr (ref_temporaries refs, s)"
    "bnd (contextField c ctx_method) (\<lambda>method. getMember method (TMethod_offset mth_literals)) s =
       Inr (ref_literals refs, s)"
  using assms
  by (auto simp: in_context_def loadReferences_def contextMember_def methodMember_def hptr_get_def contextField_def
      getMember_def guard_def mem_def bnd_def ret_def split: sum.splits if_splits)

lemma current_context_runs:
  assumes "runs_to b prev env s env1 s1" and "in_context b env1 s1 jit ec refs c"
  obtains b2 env2 y where "getCurrentContext jit b = Inr (y, b2)" "runs_to b2 prev env s env2 s1"
    "extended b env1 b2 env2" "word_in b2 env2 y c"
proof -
  have "getCurrentContext jit = getNodeValue (contextHolder jit)"
    using assms(2) by (auto simp: in_context_def getCurrentContext_def getNodeValue_def)
  moreover have "argument_is b env1 s1 (contextHolder jit) c" using assms(2) by (simp add: in_context_def)
  ultimately show thesis using node_value_runs [OF assms(1)] that by metis
qed

section \<open>Pushes\<close>

text \<open>The word the interpreter pushes, and the function that reads it in compiled code.\<close>

definition pushed :: "references \<Rightarrow> TSmalltalkInstruction \<Rightarrow> ('a vm_scheme, ptr) comp" where
  "pushed refs i =
     (case m_opcode i of
        op_pushInstance \<Rightarrow> getMember (ref_instanceVariables refs) (unat (m_argument i))
      | op_pushArgument \<Rightarrow> getMember (ref_arguments refs) (unat (m_argument i))
      | op_pushTemporary \<Rightarrow> getMember (ref_temporaries refs) (unat (m_argument i))
      | op_pushLiteral \<Rightarrow> getMember (ref_literals refs) (unat (m_argument i))
      | op_pushConstant \<Rightarrow> (case constant_cast (m_argument i) of
            const_int n \<Rightarrow> ret (TInteger_of_int (ucast n))
          | const_nil \<Rightarrow> global nilObject
          | const_trueObject \<Rightarrow> global trueObject
          | const_falseObject \<Rightarrow> global falseObject
          | const_other n \<Rightarrow> raise Exit1)
      | _ \<Rightarrow> raise Exit1)"

definition reads :: "TOpcode \<Rightarrow> callee option" where
  "reads opc = (case opc of op_pushInstance \<Rightarrow> Some fn_getInstance | op_pushArgument \<Rightarrow> Some fn_getArgument
     | op_pushTemporary \<Rightarrow> Some fn_getTemporary | op_pushLiteral \<Rightarrow> Some fn_getLiteral | _ \<Rightarrow> None)"

lemma reads_pushed:
  assumes "in_context b env s jit ec refs c" and "reads (m_opcode i) = Some f" and "pushed refs i s = Inr (v, s)"
  shows "call_value f [V32 c, V32 (ucast (m_argument i))] s = Inr (V32 v, s)"
  using assms(2,3) loaded_references [OF assms(1)] unfolding reads_def pushed_def
  by (auto simp: call_value_def as32_def ret_def bnd_def unat_ucast_byte split: TOpcode.splits sum.splits)

lemma push_runs:
  assumes "runs_to b prev env s env1 s1" and "in_context b env1 s1 jit ec refs c" and "\<not> nodeProtected jit"
    and "reads (m_opcode (nodeInstruction jit)) = Some f" and "pushed refs (nodeInstruction jit) s1 = Inr (v, s1)"
  shows "\<exists>b2 env2 x. pushFromContext f jit b = Inr (x, b2) \<and> runs_to b2 prev env s env2 s1 \<and>
    extended b env1 b2 env2 \<and> argument_is b2 env2 s1 x v"
proof -
  obtain b2 env2 y where ctx: "getCurrentContext jit b = Inr (y, b2)" "runs_to b2 prev env s env2 s1"
    "extended b env1 b2 env2" "word_in b2 env2 y c"
    using current_context_runs [OF assms(1,2)] .
  let ?call = "Call f [y, Int32 (ucast (nodeArgument jit))]"
  have "instr_value prev env2 ?call s1 = Inr (V32 v, s1)"
    using reads_pushed [OF assms(2,4,5)] ctx(4) by (simp add: instr_value_def word_in_def)
  then obtain b3 env3 x where "create ?call b2 = Inr (x, b3)" "runs_to b3 prev env s env3 s1"
    "extended b2 env2 b3 env3" "word_in b3 env3 x v" "\<not> isAlloca x"
    using create_word [OF ctx(2)] by metis
  then show ?thesis
    using ctx assms(3) extended_trans [OF ctx(3)]
    by (auto simp: pushFromContext_def call2_def protectProducerNode_def bnd_def ret_def word_argument)
qed

definition push_instructions :: "TOpcode set" where
  "push_instructions = {op_pushInstance, op_pushArgument, op_pushTemporary, op_pushLiteral, op_pushConstant}"

lemma executed_push:
  assumes "m_opcode (instruction ec) \<in> push_instructions" and "pushed refs (instruction ec) s = Inr (v, s)"
  shows "executeInstruction exec process refs ec s = continue (stackPush v ec) s"
  using assms
  by (auto simp: push_instructions_def pushed_def executeInstruction_def pushFrom_def doPushConstant_def continue_def
      bnd_def ret_def raise_def split: TPushConstant.splits)

lemma constant_runs:
  assumes "runs_to b prev env s env1 s1" and "jitGlobals jit = globals s1"
    and "m_opcode (nodeInstruction jit) = op_pushConstant" and "pushed refs (nodeInstruction jit) s1 = Inr (v, s1)"
  shows "\<exists>b2 env2 x. compilePushConstant jit b = Inr (x, b2) \<and> runs_to b2 prev env s env2 s1 \<and>
    extended b env1 b2 env2 \<and> argument_is b2 env2 s1 x v"
proof (cases "constant_cast (nodeArgument jit)")
  case (const_int n)
  then have "instr_value prev env1 (IntToPtr (Int32 v)) s1 = Inr (V32 v, s1)"
    by (simp add: instr_value_def bnd_def ret_def)
  then obtain b3 env3 x where "create (IntToPtr (Int32 v)) b = Inr (x, b3)" "runs_to b3 prev env s env3 s1"
    "extended b env1 b3 env3" "word_in b3 env3 x v" "\<not> isAlloca x"
    using create_word [OF assms(1)] by metis
  then show ?thesis using const_int assms(3,4)
    by (auto simp: compilePushConstant_def pushed_def ret_def word_argument)
next
  case const_nil
  then show ?thesis using assms
    by (intro exI [of _ b] exI [of _ env1] exI [of _ "Object v"])
      (auto simp: compilePushConstant_def pushed_def global_def gets_def ret_def sample_argument argument_is_def below_def isAlloca_def)
next
  case const_trueObject
  then show ?thesis using assms
    by (intro exI [of _ b] exI [of _ env1] exI [of _ "Object v"])
      (auto simp: compilePushConstant_def pushed_def global_def gets_def ret_def argument_is_def below_def isAlloca_def)
next
  case const_falseObject
  then show ?thesis using assms
    by (intro exI [of _ b] exI [of _ env1] exI [of _ "Object v"])
      (auto simp: compilePushConstant_def pushed_def global_def gets_def ret_def argument_is_def below_def isAlloca_def)
next
  case (const_other n)
  then show ?thesis using assms by (simp add: pushed_def raise_def)
qed

text \<open>
  C21.  The value of a push node is the word the interpreter pushes for its instruction, and the code before it
  keeps its values: the word can be taken as an argument of the instructions behind it.
\<close>

lemma compiled_push_agrees:
  assumes "runs_to b prev env s env1 s1" and "in_context b env1 s1 jit ec refs c" and "\<not> nodeProtected jit"
    and "m_opcode (nodeInstruction jit) \<in> push_instructions" and "pushed refs (nodeInstruction jit) s1 = Inr (v, s1)"
    and "m_opcode (nodeInstruction jit) = op_pushLiteral \<longrightarrow> nth_res (originLiterals jit) (unat (nodeArgument jit)) = Inr v"
    and "instruction ec = nodeInstruction jit"
  shows "executeInstruction exec process refs ec s1 = continue (stackPush v ec) s1 \<and>
    (\<exists>b2 env2 x. writeInstruction found jit b = Inr (Some x, b2) \<and> runs_to b2 prev env s env2 s1 \<and>
      argument_is b2 env2 s1 x v \<and> (\<forall>z w. argument_is b env1 s1 z w \<longrightarrow> argument_is b2 env2 s1 z w))"
proof -
  have push: "reads (m_opcode (nodeInstruction jit)) = Some f \<Longrightarrow> \<exists>b2 env2 x. pushFromContext f jit b = Inr (x, b2) \<and>
      runs_to b2 prev env s env2 s1 \<and> extended b env1 b2 env2 \<and> argument_is b2 env2 s1 x v" for f
    using push_runs [OF assms(1-3) _ assms(5)] .
  have "\<exists>b2 env2 x. writeInstruction found jit b = Inr (Some x, b2) \<and> runs_to b2 prev env s env2 s1 \<and>
      extended b env1 b2 env2 \<and> argument_is b2 env2 s1 x v"
  proof (cases "m_opcode (nodeInstruction jit)")
    case op_pushInstance
    then show ?thesis using push [of fn_getInstance]
      by (auto simp: reads_def writeInstruction_def withValue_def compilePushInstance_def bnd_def ret_def)
  next
    case op_pushTemporary
    then show ?thesis using push [of fn_getTemporary]
      by (auto simp: reads_def writeInstruction_def withValue_def compilePushTemporary_def bnd_def ret_def)
  next
    case op_pushArgument
    show ?thesis
    proof (cases "nodeArgument jit = 0")
      case True
      then have "argument_is b env1 s1 (selfHolder jit) v"
        using assms(2,5) op_pushArgument loaded_references(2) [OF assms(2)]
        by (auto simp: in_context_def pushed_def)
      with True assms(1) show ?thesis
        by (auto simp: op_pushArgument writeInstruction_def withValue_def compilePushArgument_def bnd_def ret_def)
    next
      case False
      then show ?thesis using push [of fn_getArgument]
        by (auto simp: op_pushArgument reads_def writeInstruction_def withValue_def compilePushArgument_def bnd_def ret_def)
    qed
  next
    case op_pushLiteral
    show ?thesis
    proof (cases "isSmallInteger v")
      case True
      have "instr_value prev env1 (IntToPtr (Int32 v)) s1 = Inr (V32 v, s1)"
        by (simp add: instr_value_def bnd_def ret_def)
      then obtain b3 env3 x where "create (IntToPtr (Int32 v)) b = Inr (x, b3)" "runs_to b3 prev env s env3 s1"
        "extended b env1 b3 env3" "word_in b3 env3 x v" "\<not> isAlloca x"
        using create_word [OF assms(1)] by metis
      with True assms(6) op_pushLiteral show ?thesis
        by (auto simp: writeInstruction_def withValue_def compilePushLiteral_def lift_res_def bnd_def ret_def word_argument)
    next
      case False
      have "pushFromContext fn_getLiteral jit b =
          bnd (getLiteral jit (ucast (nodeArgument jit))) (protectProducerNode jit) b"
        by (simp add: pushFromContext_def getLiteral_def bnd_def split: sum.splits)
      with False assms(6) op_pushLiteral show ?thesis using push [of fn_getLiteral]
        by (auto simp: reads_def writeInstruction_def withValue_def compilePushLiteral_def lift_res_def bnd_def ret_def)
    qed
  next
    case op_pushConstant
    then show ?thesis
      using constant_runs [OF assms(1) _ op_pushConstant assms(5)] assms(2)
      by (auto simp: in_context_def writeInstruction_def withValue_def bnd_def ret_def)
  qed (use assms(4) in \<open>auto simp: push_instructions_def\<close>)
  then show ?thesis
    using executed_push [of ec refs s1 v exec process] assms(4,5,7) extended_argument by metis
qed

section \<open>Assignments\<close>

lemma perform_runs:
  assumes "runs_to b prev env s env1 s1"
  shows "\<exists>b2. perform i b = Inr ((), b2) \<and> ir_insertBlock b2 = ir_insertBlock b \<and>
    run_instrs prev (block_instrs (ir_blocks b2 (ir_insertBlock b))) env s =
      bnd (instr_value prev env1 i) (\<lambda>v. ret (env1(ir_valueCount b := v))) s1"
proof -
  obtain B n c k pre where b: "b = \<lparr>ir_blocks = B, ir_blockCount = n, ir_valueCount = c, ir_insertBlock = k, ir_preamble = pre\<rparr>"
    by (cases b)
  show ?thesis using assms by (auto simp: b builder_defs runs_to_def run_instrs_append split: sum.splits)
qed

text \<open>
  C22.  The code of an assignment changes the state as the interpreter does and faults where it faults; the
  interpreter takes the assigned word from the top of its stack.
\<close>

lemma compiled_assignment_agrees:
  assumes "runs_to b prev env s env1 s1" and "in_context b env1 s1 jit ec refs c"
    and "m_opcode (nodeInstruction jit) \<in> {op_assignTemporary, op_assignInstance}"
    and "argumentValues jit = [x]" and "argument_is b env1 s1 x v"
    and "instruction ec = nodeInstruction jit" and "stackLast ec s1 = Inr (v, s1)"
  shows "\<exists>b2. writeInstruction found jit b = Inr (None, b2) \<and> ir_insertBlock b2 = ir_insertBlock b \<and>
    map_sum id snd (run_instrs prev (block_instrs (ir_blocks b2 (ir_insertBlock b))) env s) =
    map_sum id snd (executeInstruction exec process refs ec s1)"
proof (cases "m_opcode (nodeInstruction jit) = op_assignTemporary")
  case True
  obtain b2 env2 y where loaded: "getNodeValue x b = Inr (y, b2)" "runs_to b2 prev env s env2 s1"
    "extended b env1 b2 env2" "word_in b2 env2 y v"
    using node_value_runs [OF assms(1,5)] by metis
  have "in_context b2 env2 s1 jit ec refs c"
    using assms(2) extended_argument [OF loaded(3)] by (auto simp: in_context_def)
  then obtain b3 env3 z where ctx: "getCurrentContext jit b2 = Inr (z, b3)" "runs_to b3 prev env s env3 s1"
    "extended b2 env2 b3 env3" "word_in b3 env3 z c"
    using current_context_runs [OF loaded(2)] by metis
  have y: "word_in b3 env3 y v" using extended_word [OF ctx(3) loaded(4)] .
  let ?call = "Call fn_setTemporary [z, Int32 (ucast (nodeArgument jit)), y]"
  obtain b4 where b4: "perform ?call b3 = Inr ((), b4)" "ir_insertBlock b4 = ir_insertBlock b3"
    "run_instrs prev (block_instrs (ir_blocks b4 (ir_insertBlock b3))) env s =
      bnd (instr_value prev env3 ?call) (\<lambda>w. ret (env3(ir_valueCount b3 := w))) s1"
    using perform_runs [OF ctx(2)] by metis
  have same: "ir_insertBlock b3 = ir_insertBlock b" using loaded(3) ctx(3) by (simp add: extended_def)
  have "instr_value prev env3 ?call s1 =
      bnd (putMember (ref_temporaries refs) (unat (nodeArgument jit)) v) (\<lambda>_. ret VVoid) s1"
    using ctx(4) y loaded_references [OF assms(2)]
    by (simp add: instr_value_def word_in_def call_value_def unat_ucast_byte bnd_def ret_def)
  then show ?thesis
    using True loaded(1) ctx(1) b4 same assms(4,6,7)
    by (auto simp: writeInstruction_def withoutValue_def compileAssignTemporary_def getArgument_def lift_res_def
        nth_res_def bnd_def ret_def executeInstruction_def split: sum.splits)
next
  case False
  then have opc: "m_opcode (nodeInstruction jit) = op_assignInstance" using assms(3) by simp
  obtain b2 env2 z where ctx: "getCurrentContext jit b = Inr (z, b2)" "runs_to b2 prev env s env2 s1"
    "extended b env1 b2 env2" "word_in b2 env2 z c"
    using current_context_runs [OF assms(1,2)] .
  obtain b3 env3 y where loaded: "getNodeValue x b2 = Inr (y, b3)" "runs_to b3 prev env s env3 s1"
    "extended b2 env2 b3 env3" "word_in b3 env3 y v"
    using node_value_runs [OF ctx(2) extended_argument [OF ctx(3) assms(5)]] by metis
  have z: "word_in b3 env3 z c" using extended_word [OF loaded(3) ctx(4)] .
  let ?call = "Call fn_setInstance [z, Int32 (ucast (nodeArgument jit)), y]"
  obtain b4 where b4: "perform ?call b3 = Inr ((), b4)" "ir_insertBlock b4 = ir_insertBlock b3"
    "run_instrs prev (block_instrs (ir_blocks b4 (ir_insertBlock b3))) env s =
      bnd (instr_value prev env3 ?call) (\<lambda>w. ret (env3(ir_valueCount b3 := w))) s1"
    using perform_runs [OF loaded(2)] by metis
  have same: "ir_insertBlock b3 = ir_insertBlock b" using loaded(3) ctx(3) by (simp add: extended_def)
  have "instr_value prev env3 ?call s1 =
      bnd (storeField (ref_instanceVariables refs) (unat (nodeArgument jit)) v) (\<lambda>_. ret VVoid) s1"
    using loaded(4) z loaded_references [OF assms(2)]
    by (simp add: instr_value_def word_in_def call_value_def unat_ucast_byte bnd_def ret_def
        storeField_def putMember_def split: sum.splits)
  then show ?thesis
    using opc loaded(1) ctx(1) b4 same assms(4,6,7)
    by (auto simp: writeInstruction_def withoutValue_def compileAssignInstance_def getArgument_def lift_res_def
        nth_res_def bnd_def ret_def executeInstruction_def split: sum.splits)
qed

section \<open>Branches\<close>

lemma read_context: "contextMember ec f s = Inr (x, s') \<Longrightarrow> s' = s"
  by (auto simp: contextMember_def hptr_get_def bnd_def ret_def lift_res_def gets_def raise_def
      dest: read_member split: sum.splits if_splits option.splits)

lemma read_method: "methodMember ec f s = Inr (x, s') \<Longrightarrow> s' = s"
  by (auto simp: methodMember_def bnd_def dest: read_context read_member split: sum.splits)

lemma stackPop_instruction: "stackPop ec s = Inr ((v, ec1), s') \<Longrightarrow> instruction ec1 = instruction ec \<and> bytePointer ec1 = bytePointer ec"
  by (auto simp: stackPop_def bnd_def ret_def split: sum.splits)

text \<open>
  C23.  A conditional branch goes on in the block of the bytecode the interpreter goes on at: the target where
  the condition is the boolean object it asks for, the instruction behind the branch otherwise.
\<close>

lemma compiled_branch_agrees:
  assumes "runs_to b prev env s env1 s1" and "argumentValues jit = [x]" and "argument_is b env1 s1 x v"
    and "m_opcode (nodeInstruction jit) = op_doSpecial"
    and "special_cast (nodeArgument jit) \<in> {spc_branchIfTrue, spc_branchIfFalse}"
    and "blockValues jit (nodeExtra jit) = Some target" and "blockValues jit (skipOffset jit) = Some skip"
    and "skipOffset jit = bytePointer ec" and "jitGlobals jit = globals s1"
    and "instruction ec = nodeInstruction jit" and "doSpecial process ec s1 = Inr ((result, ec'), s')"
    and "stackPop ec s1 = Inr ((v, ec1), s1)"
  shows "result = returnNoReturn \<and>
    (\<exists>b2 env2. writeInstruction found jit b = Inr (None, b2) \<and>
      (\<forall>fuel. run_code (Suc fuel) (ir_blocks b2) prev (ir_insertBlock b) env s =
        run_code fuel (ir_blocks b2) (ir_insertBlock b) (the (blockValues jit (bytePointer ec'))) env2 s1))"
proof -
  define want :: "TGlobals \<Rightarrow> ptr" where "want = (if special_cast (nodeArgument jit) = spc_branchIfTrue then trueObject else falseObject)"
  have "\<exists>s2. branchIf want ec s1 = Inr ((result, ec'), s2)"
  proof -
    obtain x y s2 s3 where "contextMember ec ctx_arguments s1 = Inr (x, s2)" "methodMember ec mth_literals s2 = Inr (y, s3)"
      "branchIf want ec s3 = Inr ((result, ec'), s')"
      using assms(5,10,11) unfolding want_def by (auto simp: doSpecial_def bnd_def split: sum.splits)
    then show ?thesis using read_context read_method by metis
  qed
  then have ec': "result = returnNoReturn" "bytePointer ec' = (if v = want (globals s1) then nodeExtra jit else bytePointer ec)"
    using assms(10,12) stackPop_instruction [OF assms(12)]
    by (auto simp: branchIf_def bnd_def ret_def global_def gets_def hptr_set_def split: sum.splits if_splits)
  obtain b2 env2 y where loaded: "getNodeValue x b = Inr (y, b2)" "runs_to b2 prev env s env2 s1"
    "extended b env1 b2 env2" "word_in b2 env2 y v"
    using node_value_runs [OF assms(1,3)] by metis
  let ?eq = "Binary op_ICmpEQ y (Object (want (globals s1)))"
  have "instr_value prev env2 ?eq s1 = Inr (V1 (v = want (globals s1)), s1)"
    using loaded(4) by (simp add: instr_value_def word_in_def word_operation_def lift_res_def)
  then obtain b3 env3 where eq: "create ?eq b2 = Inr (Reg (ir_valueCount b2), b3)" "runs_to b3 prev env s env3 s1"
    "extended b2 env2 b3 env3" "operand_value env3 (Reg (ir_valueCount b2)) = V1 (v = want (globals s1))"
    using create_runs [OF loaded(2)] by metis
  have same: "ir_insertBlock b3 = ir_insertBlock b" using loaded(3) eq(3) by (simp add: extended_def)
  have wanted: "special_cast (nodeArgument jit) = spc_branchIfTrue \<and> want = trueObject \<or>
      special_cast (nodeArgument jit) = spc_branchIfFalse \<and> want = falseObject"
    using assms(5) by (auto simp: want_def)
  let ?t = "CondBr (Reg (ir_valueCount b2)) target skip"
  obtain b4 where b4: "terminateWith ?t b3 = Inr ((), b4)"
    "ir_blocks b4 (ir_insertBlock b) = (ir_blocks b3 (ir_insertBlock b))\<lparr>block_terminator := Some ?t\<rparr>"
    by (simp add: terminateWith_def changeBlock_def bnd_def gets_def modify_def same)
  have "writeInstruction found jit b = Inr (None, b4)"
    using wanted assms(2,4,6,7,9) loaded(1) eq(1) b4(1)
    by (auto simp: writeInstruction_def compileSpecial_def withoutValue_def compileConditionalBranch_def branchBlock_def
        getArgument_def nth_res_def lift_res_def bnd_def ret_def)
  moreover have "run_code (Suc fuel) (ir_blocks b4) prev (ir_insertBlock b) env s =
      run_code fuel (ir_blocks b4) (ir_insertBlock b) (the (blockValues jit (bytePointer ec'))) env3 s1" for fuel
    using eq(2,4) b4(2) same ec'(2) assms(6-8) by (auto simp: runs_to_def bnd_def ret_def)
  ultimately show ?thesis using ec'(1) by blast
qed

section \<open>Tests for nil\<close>

text \<open>The value of \<open>isNil\<close> and \<open>notNil\<close> is the boolean the interpreter pushes.\<close>

lemma compiled_unary_agrees:
  assumes "runs_to b prev env s env1 s1" and "argumentValues jit = [x]" and "argument_is b env1 s1 x v"
    and "m_opcode (nodeInstruction jit) = op_sendUnary" and "unary_cast (nodeArgument jit) \<in> {una_isNil, una_notNil}"
    and "instruction ec = nodeInstruction jit" and "stackPop ec s1 = Inr ((v, ec1), s1)" and "jitGlobals jit = globals s1"
  shows "\<exists>b2 env2 y w. writeInstruction found jit b = Inr (Some y, b2) \<and> runs_to b2 prev env s env2 s1 \<and>
    argument_is b2 env2 s1 y w \<and> executeInstruction exec process refs ec s1 = continue (pushReturned w ec1) s1"
proof -
  define opn where "opn = (if unary_cast (nodeArgument jit) = una_isNil then op_ICmpEQ else op_ICmpNE)"
  define t where "t = (if unary_cast (nodeArgument jit) = una_isNil then v = nilObject (globals s1) else v \<noteq> nilObject (globals s1))"
  obtain b2 env2 z where loaded: "getNodeValue x b = Inr (z, b2)" "runs_to b2 prev env s env2 s1"
    "extended b env1 b2 env2" "word_in b2 env2 z v"
    using node_value_runs [OF assms(1,3)] by metis
  let ?cmp = "Binary opn z (Object (nilObject (globals s1)))"
  have "instr_value prev env2 ?cmp s1 = Inr (V1 t, s1)"
    using loaded(4) by (simp add: instr_value_def word_in_def word_operation_def lift_res_def opn_def t_def)
  then obtain b3 env3 where cmp: "create ?cmp b2 = Inr (Reg (ir_valueCount b2), b3)" "runs_to b3 prev env s env3 s1"
    "operand_value env3 (Reg (ir_valueCount b2)) = V1 t"
    using create_runs [OF loaded(2)] by metis
  let ?w = "if t then trueObject (globals s1) else falseObject (globals s1)"
  let ?sel = "Select (Reg (ir_valueCount b2)) (Object (trueObject (globals s1))) (Object (falseObject (globals s1)))"
  have "instr_value prev env3 ?sel s1 = Inr (V32 ?w, s1)"
    using cmp(3) by (simp add: instr_value_def bnd_def ret_def)
  then obtain b4 env4 y where sel: "create ?sel b3 = Inr (y, b4)" "runs_to b4 prev env s env4 s1"
    "word_in b4 env4 y ?w" "\<not> isAlloca y"
    using create_word [OF cmp(2)] by metis
  have "writeInstruction found jit b = Inr (Some y, b4)"
    using assms(2,4,5,8) loaded(1) cmp(1) sel(1)
    by (auto simp: writeInstruction_def withValue_def compileSendUnary_def getArgument_def nth_res_def lift_res_def
        selectBool_def opn_def bnd_def ret_def)
  moreover have "executeInstruction exec process refs ec s1 = continue (pushReturned ?w ec1) s1"
    using assms(4-7) stackPop_instruction [OF assms(7)]
    by (auto simp: executeInstruction_def doSendUnary_def continue_def boolObject_def global_def gets_def t_def bnd_def
        split: if_splits)
  ultimately show ?thesis using sel word_argument by blast
qed

section \<open>Binary messages\<close>

text \<open>
  The two operands of a binary message, once loaded, and the code behind them; \<open>returning\<close> is the code with its
  value as the result of the function, so that a run shows the value.
\<close>

definition binary_on :: "TBinaryBuiltIn \<Rightarrow> ptr \<Rightarrow> ptr \<Rightarrow> TGlobals \<Rightarrow> ptr" where
  "binary_on operator l r g = (case operator of
     bin_operatorLess \<Rightarrow> if sint (TInteger_getValue l) < sint (TInteger_getValue r) then trueObject g else falseObject g
   | bin_operatorLessOrEq \<Rightarrow> if sint (TInteger_getValue l) \<le> sint (TInteger_getValue r) then trueObject g else falseObject g
   | bin_operatorPlus \<Rightarrow> TInteger_of_int (TInteger_getValue l + TInteger_getValue r)
   | bin_other n \<Rightarrow> NULL)"

lemma compiled_binary_value:
  assumes "runs_to b prev env s env1 s1" and "argumentValues jit = [x, y]"
    and "argument_is b env1 s1 x l" and "argument_is b env1 s1 y r" and "isSmallInteger l" and "isSmallInteger r"
    and "\<And>n. binary_cast (nodeArgument jit) \<noteq> bin_other n" and "\<not> nodeProtected jit" and "jitGlobals jit = globals s1"
    and "ir_preamble b < ir_blockCount b" and "ir_preamble b \<noteq> ir_insertBlock b"
    and "nth_res (binaryMessages (globals s1)) (unat (nodeArgument jit)) = Inr selector"
  shows "\<exists>v b2 b3. compileSendBinary jit b = Inr (v, b2) \<and> terminateWith (Ret v) b2 = Inr ((), b3) \<and>
    run_code 3 (ir_blocks b3) prev (ir_insertBlock b) env s =
      Inr (IrReturned (binary_on (binary_cast (nodeArgument jit)) l r (globals s1)), s1)"
proof -
  obtain b2 env2 R where right: "getNodeValue y b = Inr (R, b2)" "runs_to b2 prev env s env2 s1"
    "extended b env1 b2 env2" "word_in b2 env2 R r"
    using node_value_runs [OF assms(1,4)] by metis
  obtain b3 env3 L where left: "getNodeValue x b2 = Inr (L, b3)" "runs_to b3 prev env s env3 s1"
    "extended b2 env2 b3 env3" "word_in b3 env3 L l"
    using node_value_runs [OF right(2) extended_argument [OF right(3) assms(3)]] by metis
  have R: "word_in b3 env3 R r" using extended_word [OF left(3) right(4)] .
  obtain B n c k pre where b3: "b3 = \<lparr>ir_blocks = B, ir_blockCount = n, ir_valueCount = c, ir_insertBlock = k, ir_preamble = pre\<rparr>"
    by (cases b3)
  have blocks: "ir_insertBlock b = k" "pre < n" "pre \<noteq> k" "k < n"
    using assms(10,11) right(3) left(2,3) by (simp_all add: extended_def b3 runs_to_def)
  have words: "below c L" "operand_value env3 L = V32 l" "below c R" "operand_value env3 R = V32 r"
    using left(4) R by (simp_all add: word_in_def b3)
  have run: "run_instrs prev (block_instrs (B k)) env s = Inr (env3, s1)"
    using left(2) by (simp add: runs_to_def b3)
  obtain ins where ins: "B k = \<lparr>block_instrs = ins, block_terminator = None\<rparr>"
    using left(2) by (cases "B k") (simp add: runs_to_def b3)
  have three: "run_code 3 = run_code (Suc (Suc (Suc 0)))" by (simp add: numeral_eq_Suc)
  show ?thesis
    using assms(2,5-9,12) right(1) left(1) words run blocks ins
    by (cases "binary_cast (nodeArgument jit)"; cases "methodAllocates jit"; cases "methodHasBlockReturn jit")
      (simp_all add: compileSendBinary_def getArgument_def nth_res_def b3 builder_defs running three
         compileBinaryResult_def createArray_def allocateStackObject_def getCurrentContext_def callOrInvoke_def
         protectProducerNode_def binary_on_def Let_def word_in_def)
qed

text \<open>
  C24.  For two small integers the value of a binary message is the word the interpreter pushes; the code is
  followed by a return of that value.
\<close>

lemma compiled_binary_agrees:
  assumes "runs_to b prev env s env1 s1" and "argumentValues jit = [x, y]"
    and "argument_is b env1 s1 x l" and "argument_is b env1 s1 y r" and "isSmallInteger l" and "isSmallInteger r"
    and "m_opcode (nodeInstruction jit) = op_sendBinary" and "\<And>n. binary_cast (nodeArgument jit) \<noteq> bin_other n"
    and "\<not> nodeProtected jit" and "jitGlobals jit = globals s1"
    and "ir_preamble b < ir_blockCount b" and "ir_preamble b \<noteq> ir_insertBlock b"
    and "nth_res (binaryMessages (globals s1)) (unat (nodeArgument jit)) = Inr selector"
    and "instruction ec = nodeInstruction jit" and "stackPop ec s1 = Inr ((r, ec1), s1)" and "stackPop ec1 s1 = Inr ((l, ec2), s1)"
    and "w = binary_on (binary_cast (nodeArgument jit)) l r (globals s1)"
  shows "executeInstruction exec process refs ec s1 = continue (pushReturned w ec2) s1 \<and>
    (\<exists>v b2 b3. writeInstruction found jit b = Inr (Some v, b2) \<and> terminateWith (Ret v) b2 = Inr ((), b3) \<and>
      run_code 3 (ir_blocks b3) prev (ir_insertBlock b) env s = Inr (IrReturned w, s1))"
proof -
  let ?w = "binary_on (binary_cast (nodeArgument jit)) l r (globals s1)"
  obtain v b2 b3 where code: "compileSendBinary jit b = Inr (v, b2)" "terminateWith (Ret v) b2 = Inr ((), b3)"
    "run_code 3 (ir_blocks b3) prev (ir_insertBlock b) env s = Inr (IrReturned ?w, s1)"
    using compiled_binary_value [OF assms(1-6,8-13)] by blast
  have "binaryResult (nodeArgument jit) (TInteger_getValue l) (TInteger_getValue r) s1 = Inr (?w, s1)"
    using assms(8)
    by (auto simp: binaryResult_def binary_on_def boolObject_def callSmallIntPrimitive_def global_def gets_def bnd_def
        ret_def succeed_def split: TBinaryBuiltIn.splits)
  moreover have "instruction ec2 = nodeInstruction jit"
    using stackPop_instruction [OF assms(15)] stackPop_instruction [OF assms(16)] assms(14) by simp
  ultimately have "executeInstruction exec process refs ec s1 = continue (pushReturned ?w ec2) s1"
    using assms(5-7,14-16) by (simp add: executeInstruction_def doSendBinary_def continue_def bnd_def)
  moreover have "writeInstruction found jit b = Inr (Some v, b2)"
    using code(1) assms(7) by (simp add: writeInstruction_def withValue_def bnd_def ret_def)
  ultimately show ?thesis using code(2,3) assms(17) by blast
qed

section \<open>Samples\<close>

text \<open>A context whose only temporary is 9 and whose stack holds true, 4 and 3, from the top.\<close>

definition code_vm :: vm where
  "code_vm = sum_vm\<lparr>m_externalPointers := [1040, 7],
     globals := (globals sum_vm)\<lparr>binaryMessages := [192, 200, 208]\<rparr>, objs := (objs sum_vm)
     (1136 \<mapsto> sample_array [1152], 1152 \<mapsto> sample_array [newInteger 9],
      1168 \<mapsto> sample_array [newInteger 3, newInteger 4, trueObject (globals sum_vm)])\<rparr>"

definition code_ec :: "TSmalltalkInstruction \<Rightarrow> u32 \<Rightarrow> TVMExecutionContext" where
  "code_ec i n = \<lparr>currentContext = 0, instruction = i, bytePointer = 2, stackTop = n, returnedValue = 1\<rparr>"

definition code_refs :: references where
  "code_refs = \<lparr>ref_byteCodes = 1200, ref_temporaries = 1152, ref_arguments = 1136, ref_instanceVariables = 1152,
     ref_literals = 1152\<rparr>"

definition code_jit :: "TSmalltalkInstruction \<Rightarrow> operand list \<Rightarrow> TJITContext" where
  "code_jit i args = (sample_jit 0 args (globals code_vm))\<lparr>nodeInstruction := i, contextHolder := Object 1040,
     selfHolder := Object 1152, blockValues := [7 \<mapsto> 1, 2 \<mapsto> 2], skipOffset := 2\<rparr>"

lemma code_objects:
  "objs code_vm 1040 = Some (sample_array [1088, 1136, 1152, 1168, 1, 1, 168])"
  "objs code_vm 1088 = Some (sample_array [168, 1200, 1152, 9, 1, 168, 168, 168])"
  "objs code_vm 1136 = Some (sample_array [1152])" "objs code_vm 1152 = Some (sample_array [newInteger 9])"
  "objs code_vm 1168 = Some (sample_array [newInteger 3, newInteger 4, trueObject (globals code_vm)])"
  "objs code_vm 1200 = Some \<lparr>obj_size = TSize_new 4 True False, obj_class = 168, obj_fields = [], obj_bytes = [0x53, 0x54, 0xB2, 0xF2]\<rparr>"
  "m_externalPointers code_vm = [1040, 7]"
  by (simp_all add: code_vm_def sum_vm_def sum_process_def)

lemma code_sizes:
  "TSize_isBinary (TSize_new 1 False False) = False" "TSize_isBinary (TSize_new 3 False False) = False"
  "TSize_isBinary (TSize_new 7 False False) = False" "TSize_isBinary (TSize_new 8 False False) = False"
  "TSize_getSize (TSize_new 1 False False) = 1" "TSize_getSize (TSize_new 4 True False) = 4"
  by code_simp+

lemmas reading = getMember_def mem_def getField_def getSize_def objectAt_def TObject_getField_def sample_array_def code_objects
  code_sizes bndR_def nth_res_def hptr_get_def contextMember_def methodMember_def bnd_def ret_def guard_def

lemma code_loaded: "loadReferences (code_ec i n) code_vm = Inr (code_refs, code_vm)"
  by (simp add: loadReferences_def reading code_ec_def code_refs_def)

lemma code_popped:
  "stackPop (code_ec i n) code_vm = (case nth_res [newInteger 3, newInteger 4, trueObject (globals code_vm)] (unat (n - 1)) of
     Inl e \<Rightarrow> Inl e | Inr v \<Rightarrow> Inr ((v, code_ec i (n - 1)), code_vm))"
  by (simp add: stackPop_def reading code_ec_def split: sum.splits)

lemma code_in_context: "in_context sample_builder env code_vm (code_jit i args) (code_ec i n) code_refs 1040"
  using code_loaded [of i n]
  by (simp add: in_context_def code_jit_def sample_jit_def code_objects code_ec_def code_refs_def sample_argument
      isAlloca_def nth_res_def)

lemma code_jit_fields:
  "nodeInstruction (code_jit i args) = i" "argumentValues (code_jit i args) = args" "\<not> nodeProtected (code_jit i args)"
  "jitGlobals (code_jit i args) = globals code_vm" "blockValues (code_jit i args) = [7 \<mapsto> 1, 2 \<mapsto> 2]"
  "skipOffset (code_jit i args) = 2" "instruction (code_ec i n) = i" "bytePointer (code_ec i n) = 2"
  by (simp_all add: code_jit_def sample_jit_def code_ec_def)

abbreviation sample_lookup :: node_lookup where
  "sample_lookup \<equiv> \<lparr>blockStart = 0, argumentsSize = 0, directMethod = None\<rparr>"

text \<open>The temporary is pushed.\<close>

lemma compiled_push_agrees_witness:
  "\<exists>b2 env2 x. writeInstruction sample_lookup (code_jit (mkInstruction op_pushTemporary 0 0) []) sample_builder = Inr (Some x, b2) \<and>
    runs_to b2 0 (\<lambda>_. VVoid) code_vm env2 code_vm \<and> argument_is b2 env2 code_vm x (newInteger 9)"
proof -
  have "pushed code_refs (mkInstruction op_pushTemporary 0 0) code_vm = Inr (newInteger 9, code_vm)"
    by (simp add: pushed_def mkInstruction_def code_refs_def reading)
  then show ?thesis
    using compiled_push_agrees [OF sample_runs_to [of "\<lambda>_. VVoid"] code_in_context [of _ "mkInstruction op_pushTemporary 0 0" "[]" 0],
        where v = "newInteger 9" and exec = "\<lambda>_ _. raise OutOfFuel" and process = 0 and found = sample_lookup]
    by (auto simp: code_jit_fields push_instructions_def mkInstruction_def)
qed

text \<open>The top of the stack is assigned to it.\<close>

lemma compiled_assignment_agrees_witness:
  "\<exists>b2 s2. writeInstruction sample_lookup (code_jit (mkInstruction op_assignTemporary 0 0) [Object (newInteger 4)]) sample_builder =
      Inr (None, b2) \<and>
    map_sum id snd (run_instrs 0 (block_instrs (ir_blocks b2 0)) (\<lambda>_. VVoid) code_vm) = Inr s2 \<and>
    objs s2 1152 = Some (sample_array [newInteger 4])"
proof -
  let ?i = "mkInstruction op_assignTemporary 0 0"
  have last: "stackLast (code_ec ?i 2) code_vm = Inr (newInteger 4, code_vm)"
    by (simp add: stackLast_def reading code_ec_def)
  moreover obtain r s2 where "executeInstruction (\<lambda>_ _. raise OutOfFuel) 0 code_refs (code_ec ?i 2) code_vm = Inr (r, s2)"
      "objs s2 1152 = Some (sample_array [newInteger 4])"
    using last by (simp add: executeInstruction_def putMember_def putField_def TObject_putField_def mem_upd_def upd_res_def reading
        code_refs_def code_ec_def mkInstruction_def)
  ultimately show ?thesis
    using compiled_assignment_agrees [OF sample_runs_to [of "\<lambda>_. VVoid"] code_in_context [of _ ?i "[Object (newInteger 4)]" 2],
        where x = "Object (newInteger 4)" and v = "newInteger 4" and exec = "\<lambda>_ _. raise OutOfFuel" and process = 0 and found = sample_lookup]
    by (auto simp: code_jit_fields mkInstruction_def sample_argument sample_simps)
qed

text \<open>The true on top of the stack takes the branch.\<close>

lemma compiled_branch_agrees_witness:
  "\<exists>b2 env2. writeInstruction sample_lookup (code_jit (mkInstruction op_doSpecial 7 7) [Object (trueObject (globals code_vm))])
      sample_builder = Inr (None, b2) \<and>
    (\<forall>fuel. run_code (Suc fuel) (ir_blocks b2) 0 0 (\<lambda>_. VVoid) code_vm = run_code fuel (ir_blocks b2) 0 1 env2 code_vm)"
proof -
  let ?i = "mkInstruction op_doSpecial 7 7"
  let ?t = "trueObject (globals code_vm)"
  have branch: "special_cast 7 = spc_branchIfTrue" by code_simp
  have pop: "stackPop (code_ec ?i 3) code_vm = Inr ((?t, code_ec ?i 2), code_vm)"
    by (simp add: code_popped nth_res_def)
  obtain s' where "doSpecial 0 (code_ec ?i 3) code_vm = Inr ((returnNoReturn, (code_ec ?i 2)\<lparr>bytePointer := 7\<rparr>), s')"
    using pop by (auto simp: doSpecial_def branchIf_def branch reading code_ec_def mkInstruction_def hptr_set_def upd_res_def
      global_def gets_def)
  then show ?thesis
    using compiled_branch_agrees [OF sample_runs_to [of "\<lambda>_. VVoid" code_vm], where jit = "code_jit ?i [Object ?t]" and x = "Object ?t" and v = ?t and
        ec = "code_ec ?i 3" and process = 0 and found = sample_lookup and target = 1 and skip = 2, OF _ _ _ _ _ _ _ _ _ _ pop]
    by (auto simp: code_jit_fields mkInstruction_def sample_argument sample_simps branch)
qed

text \<open>\<open>3 + 4\<close>.\<close>

definition preamble_builder :: IRBuilder where
  "preamble_builder = sample_builder\<lparr>ir_blockCount := 2, ir_preamble := 1\<rparr>"

lemma preamble_simps:
  "ir_insertBlock preamble_builder = 0" "ir_blockCount preamble_builder = 2" "ir_preamble preamble_builder = 1"
  by (simp_all add: preamble_builder_def sample_builder_def)

lemma preamble_runs_to: "runs_to preamble_builder 0 env s env s"
  by (simp add: runs_to_def preamble_builder_def sample_builder_def empty_block_def ret_def)

lemma preamble_argument: "argument_is preamble_builder env s (Object p) p"
  by (simp add: argument_is_def below_def isAlloca_def)

lemma compiled_binary_agrees_witness:
  "\<exists>v b2 b3. writeInstruction sample_lookup (code_jit (mkInstruction op_sendBinary 2 0) [Object (newInteger 3), Object (newInteger 4)])
      preamble_builder = Inr (Some v, b2) \<and> terminateWith (Ret v) b2 = Inr ((), b3) \<and>
    run_code 3 (ir_blocks b3) 0 0 (\<lambda>_. VVoid) code_vm = Inr (IrReturned (newInteger 7), code_vm) \<and>
    executeInstruction (\<lambda>_ _. raise OutOfFuel) 0 code_refs (code_ec (mkInstruction op_sendBinary 2 0) 2) code_vm =
      continue (pushReturned (newInteger 7) (code_ec (mkInstruction op_sendBinary 2 0) 0)) code_vm"
proof -
  let ?i = "mkInstruction op_sendBinary 2 0"
  have plus: "binary_cast 2 = bin_operatorPlus" by code_simp
  have pops: "stackPop (code_ec ?i 2) code_vm = Inr ((newInteger 4, code_ec ?i 1), code_vm)"
    "stackPop (code_ec ?i 1) code_vm = Inr ((newInteger 3, code_ec ?i 0), code_vm)"
    by (simp_all add: code_popped nth_res_def)
  have messages: "binaryMessages (globals code_vm) = [192, 200, 208]" by (simp add: code_vm_def)
  have sum: "TInteger_of_int (TInteger_getValue (newInteger 3) + TInteger_getValue (newInteger 4)) = newInteger 7"
    by code_simp
  show ?thesis
    using compiled_binary_agrees [OF preamble_runs_to [of "\<lambda>_. VVoid" code_vm],
        where jit = "code_jit ?i [Object (newInteger 3), Object (newInteger 4)]" and
        x = "Object (newInteger 3)" and l = "newInteger 3" and y = "Object (newInteger 4)" and r = "newInteger 4" and
        ec = "code_ec ?i 2" and process = 0 and refs = code_refs and found = sample_lookup and selector = 208 and exec = "\<lambda>_ _. raise OutOfFuel",
        OF _ _ _ _ _ _ _ _ _ _ _ _ _ pops refl]
    by (auto simp: code_jit_fields mkInstruction_def preamble_argument preamble_simps plus isSmallInteger_newInteger messages
        nth_res_def binary_on_def sum)
qed

end
