(* ===== verification/Spec2Isabelle.thy ===== *)
theory Spec2Isabelle
  imports Decoder CollectCorrect BakerFrame BakerCorrect WriteBarrier Generational NonCollect ImageTerminates ParsedCorrect VMFuel VMArith JITCorrect ProtectionSamples CompiledInstructions
begin

text \<open>
  LLST, a Little Smalltalk virtual machine in C++ for 32-bit machines.

  The program.  An image file (\<^verbatim>\<open>src/Image.cpp\<close>) is read into the static heap of a memory manager
  (\<^verbatim>\<open>src/BakerMemoryManager.cpp\<close> and the two derived from it).  The virtual machine
  (\<^verbatim>\<open>src/vm.cpp\<close>) executes processes of the image: it decodes instructions
  (\<^verbatim>\<open>src/InstructionDecoder.cpp\<close>), works on contexts that are themselves heap objects, looks methods
  up through a cache, sends messages and calls primitives (\<^verbatim>\<open>src/primitives.cpp\<close>).  Every allocation may
  collect garbage and move objects; pointers that must survive are registered with the manager (\<open>hptr\<close>), and
  stores into the static heap go through \<open>checkRoot\<close>.  The compiler reads the same bytecodes into basic blocks
  (\<^verbatim>\<open>src/ParsedBytecode.cpp\<close>), turns the stack code into a graph of values
  (\<^verbatim>\<open>src/ControlGraph.cpp\<close>), decides which values need a registered holder and emits LLVM code
  (\<^verbatim>\<open>src/MethodCompiler.cpp\<close>); its runtime (\<^verbatim>\<open>src/JITRuntime.cpp\<close>) finds, calls and
  replaces compiled functions.

  Conventions (\<open>Prelude\<close>).  A pointer, a size and a C++ \<open>int\<close> are words of 32 bits (\<open>ptr\<close>, \<open>u32\<close>; \<open>sint\<close> reads a
  signed one), so arithmetic wraps as on the machine.  A stateful function is a computation
  \<open>'s \<Rightarrow> fault + ('a \<times> 's)\<close> (type \<open>comp\<close>), a pure one that can fail has type \<open>res\<close>; \<open>bnd\<close> and
  \<open>bndR\<close> put steps in sequence.  A \<open>fault\<close> is an end the C++ code does not survive: a failed assertion, an exception
  that nobody catches, \<open>exit\<close>, an access outside an object (\<open>BadAccess\<close>), memory that cannot be had, and
  \<open>OutOfFuel\<close>, the end of a bound of the model.  Objects are records in a finite map from addresses
  (\<open>objmem\<close>); the pointer and the byte view of a tail alias as the C++ union does.  Records extend each other as the
  classes do: the manager, the virtual machine that owns one, the runtime that owns a virtual machine.

  Which theory models what.
  \<^item> \<open>ObjectTypes\<close>: \<^verbatim>\<open>include/types.h\<close> --- tagged integers, the size word with its two flags, object headers,
    fields and bytes, the members of the typed views.
  \<^item> \<open>Instructions\<close>, \<open>Decoder\<close>: \<^verbatim>\<open>include/opcodes.h\<close>, \<^verbatim>\<open>include/instructions.h\<close>,
    \<^verbatim>\<open>src/TSmalltalkInstruction.cpp\<close>, \<^verbatim>\<open>src/InstructionDecoder.cpp\<close>.
  \<^item> \<open>Symbols\<close>: comparison of symbols and binary search in dictionaries (\<^verbatim>\<open>src/TSymbol.cpp\<close>,
    \<^verbatim>\<open>src/TDictionary.cpp\<close>).
  \<^item> \<open>BakerState\<close>, \<open>MoveObject\<close>, \<open>Baker\<close>: the copying collector --- its two half spaces and roots, \<open>moveObject\<close>
    with its reversed pointers as an explicit loop, collection, growth, allocation.  \<open>ExternalPointers\<close>: the linked
    list behind \<open>hptr\<close>.  \<open>Generational\<close> and \<open>NonCollect\<close>: the other two managers.
  \<^item> \<open>Image\<close>: reader and writer of the image format over byte lists.
  \<^item> \<open>VMState\<close>, \<open>Primitives\<close>, \<open>MethodLookup\<close>, \<open>VMContext\<close>, \<open>VMSend\<close>, \<open>VMPrimitives\<close>,
    \<open>VMExecute\<close>: the interpreter in the build without LLVM, from the state up to \<open>execute\<close>.  The operating system is a
    function from the calls made to their replies, with a log.
  \<^item> \<open>ParsedBytecode\<close>: basic blocks and the three phases of the parser (\<^verbatim>\<open>src/ParsedBytecode.cpp\<close>,
    \<^verbatim>\<open>src/ParsedMethod.cpp\<close>, \<^verbatim>\<open>include/stapi.h\<close>).
  \<^item> \<open>ControlGraph\<close>, \<open>GraphBuild\<close>, \<open>GraphWalk\<close>: nodes, domains and their local stacks, the passes that construct,
    link and optimise the graph, the walkers (\<^verbatim>\<open>src/ControlGraph.cpp\<close>, \<^verbatim>\<open>include/analysis.h\<close>).
  \<^item> \<open>ValueProtection\<close>, \<open>CompiledCode\<close>, \<open>CompilePrimitives\<close>, \<open>CompileInstructions\<close>: the method compiler
    (\<^verbatim>\<open>src/MethodCompiler.cpp\<close>) --- which values are protected, and the code it writes for every primitive and
    every instruction, as the calls it makes of the LLVM builder.
  \<^item> \<open>JITRuntime\<close>: caches of compiled functions, sends and block calls from compiled code, call-site statistics and
    the choice of methods to compile again (\<^verbatim>\<open>src/JITRuntime.cpp\<close>, \<^verbatim>\<open>include/jit.h\<close>).

  What is shown.
  \<^item> Collection.  \<open>MoveCorrect\<close> proves one traversal of \<open>moveObject\<close> (an invariant of the pointer-reversing loop),
    \<open>CollectCorrect\<close> the whole collection: it returns and the live graph is mapped isomorphically into the other space.
    \<open>BakerFrame\<close> lists what the manager leaves alone, \<open>BakerCorrect\<close> what a request may rely on after a collection.
    \<open>WriteBarrier\<close> states the barrier as a locale, instantiated by the static roots and by the references between
    the generations.
  \<^item> Image.  \<open>ImageCorrect\<close>: a written image is read back as an isomorphic graph; \<open>ImageTerminates\<close>: writing and
    reading end.
  \<^item> Interpreter.  \<open>VMFrame\<close>: what no process can change; \<open>VMFuel\<close>: the bound of the loop is no part of the
    behaviour; \<open>VMArith\<close>: arithmetic against the integers; \<open>MethodLookup\<close>: the cache against the class hierarchy.
  \<^item> Parser and graph.  \<open>CodeLayout\<close>, \<open>ParsePhases\<close>, \<open>ParsedCorrect\<close>: the parser returns the control-flow
    graph that the code describes.  \<open>SymbolicStack\<close>: building a block equals running it on symbolic values;
    \<open>LinkCorrect\<close>: a value requested from the blocks before stands for what every path provides.
  \<^item> Compiler.  \<open>GraphWalk\<close> proves the depth-first walk once, in the locale \<open>searching_visitor\<close>, for the path verifier
    and for both detectors of \<open>ValueProtection\<close>.  \<open>CompiledFragments\<close>, \<open>CompiledCorrect\<close>: the code compiled for a
    primitive does what the interpreter's primitive does; \<open>CompiledInstructions\<close>: pushes, assignments, conditional
    branches and binary messages of small integers have the value and the effect they have in the interpreter.
    \<open>JITCorrect\<close>: sends of compiled code run the right code.
  \<^item> Several theorems state what the code does where it plainly means something else; \<open>GraphSamples\<close> and
    \<open>ProtectionSamples\<close> hold small methods on which this shows.

  Bounds.  The pointer-reversing loop of \<open>moveObject\<close> has no bound: it is a partial function, whose missing result is
  the fault \<open>Diverges\<close>, and a collection is proved to return.  Recursions and loops whose end depends on the data take a
  bound and give \<open>OutOfFuel\<close> when it is used up; a theorem that something returns says which bound is enough.  The
  image reader recurses at most once for each byte of the file, the image writer needs one level more than there are
  objects, the parser one step for each byte of the method, a walker one level more than there are nodes.  A
  request for a value needs as many levels as the blocks it passes, and may have no bound at all when it meets a
  loop.  For \<open>execute\<close>, which need not end, any two bounds that suffice agree (\<open>VMFuel\<close>).  A run of the code of one
  primitive passes six blocks at most.

  What is a parameter.  The replies of the C library and the operating system; what LLVM makes of a function and what
  calling it does (record \<open>llvm\<close> of \<open>JITRuntime\<close>); the order of containers sorted by address.  LLVM assembly is one of
  the languages of the repository (\<^verbatim>\<open>include/Core.ll\<close>): the instructions the compiler emits have the meaning of the
  language reference, undefined operations being faults, and only those are given one that the stated theorems run.

  Not modelled.  How the code of the instructions of a method is put together (\<open>compileMethod\<close>, \<open>writeFunctionBody\<close>, the
  values of phi nodes), the two LLVM passes
  (\<^verbatim>\<open>src/llstPass.cpp\<close>, \<^verbatim>\<open>src/llstDebuggingPass.cpp\<close>), the rewriting of call sites and the setting up of
  LLVM in \<^verbatim>\<open>src/JITRuntime.cpp\<close>: they consist of calls of LLVM whose
  effect is in LLVM.
  \<^verbatim>\<open>src/LLVMMemoryManager.cpp\<close> walks the shadow stack that LLVM lays out.  Left out as pure input and output are
  traces, statistics, timers, the collection log, the graph pictures (\<^verbatim>\<open>src/ControlGraphVisualizer.cpp\<close>), the
  completion of names with its vendored radix tree, the command line and \<^verbatim>\<open>src/main.cpp\<close>; the image builder
  (\<^verbatim>\<open>include/ib.h\<close>) is another program of an earlier design.
\<close>

end
